(* ===== verification/Prelude.thy ===== *)
theory Prelude
  imports Main "HOL-Library.Word"
begin

text \<open>
  Shared vocabulary of the development: the machine integers of the target (a 32-bit Armv8-M
  core, so usize is a 32-bit word), results as sums (Inl the error, Inr the value), checked
  arithmetic, and a byte-addressed memory with slice reads and writes.  The lemmas collected in
  mem_simps and res_simps carry the memory and error-path reasoning of every component theory.
\<close>

unbundle bit_operations_syntax

named_theorems res_simps \<open>simplification of result-valued code\<close>
named_theorems mem_simps \<open>reads over writes of the byte memory\<close>

section \<open>Machine integers\<close>

type_synonym u8 = "8 word"
type_synonym u16 = "16 word"
type_synonym u32 = "32 word"
type_synonym u64 = "64 word"
type_synonym usize = "32 word"
type_synonym isize = "32 word"

abbreviation usize_max :: usize where "usize_max \<equiv> 0xFFFFFFFF"

text \<open>Rust's checked_add: None exactly when the sum does not fit the word.\<close>

definition checked_add :: "'a::len word \<Rightarrow> 'a word \<Rightarrow> 'a word option" where
  "checked_add a b = (if unat a + unat b < 2 ^ LENGTH('a) then Some (a + b) else None)"

definition checked_sub :: "'a::len word \<Rightarrow> 'a word \<Rightarrow> 'a word option" where
  "checked_sub a b = (if b \<le> a then Some (a - b) else None)"

definition saturating_sub :: "'a::len word \<Rightarrow> 'a word \<Rightarrow> 'a word" where
  "saturating_sub a b = (if b \<le> a then a - b else 0)"

lemma unat_sub_le: "b \<le> a \<Longrightarrow> unat (a - b) = unat a - unat (b::'a::len word)"
  by (simp add: unat_sub_if_size word_le_nat_alt)

lemma checked_sub_SomeD:
  "checked_sub a b = Some c \<Longrightarrow> c = a - b \<and> b \<le> a \<and> unat c = unat a - unat b"
  by (auto simp: checked_sub_def unat_sub_le split: if_splits)

lemma checked_sub_unat: "checked_sub a b = Some c \<Longrightarrow> unat c + unat b = unat (a::'a::len word)"
  by (auto simp: checked_sub_def unat_sub_le word_le_nat_alt split: if_splits)

lemma checked_add_SomeD:
  assumes "checked_add a b = Some (c::'a::len word)"
  shows "unat c = unat a + unat b" "c = a + b"
  using assms by (auto simp: checked_add_def unat_word_ariths split: if_splits)

lemma checked_add_None_iff:
  "checked_add a b = None \<longleftrightarrow> 2 ^ LENGTH('a) \<le> unat a + unat (b::'a::len word)"
  by (auto simp: checked_add_def)

lemma unat_lt_usize: "unat (x::usize) < 4294967296"
  using unsigned_less[of x] by simp

lemma unat_add_fits: "unat (a::u32) + unat b < 4294967296 \<Longrightarrow> unat (a + b) = unat a + unat b"
  by (simp add: unat_word_ariths)

lemma and_not_mask: "(w::u32) AND NOT (mask k) = push_bit k (drop_bit k w)"
  by (rule bit_word_eqI)
    (auto simp only: bit_and_iff bit_not_iff bit_push_bit_iff bit_drop_bit_eq bit_mask_iff comp_apply
      possible_bit_word le_add_diff_inverse not_less)

lemma unat_and_not_mask: "unat ((w::u32) AND NOT (mask k)) = 2 ^ k * (unat w div 2 ^ k)"
proof -
  have "unat (drop_bit k w) = drop_bit k (take_bit 32 (unat w))"
    using unsigned_drop_bit_eq[of k w] by simp
  also have "take_bit 32 (unat w) = unat w"
    using unat_lt_usize[of w] by (intro take_bit_nat_eq_self) simp
  finally have d: "unat (drop_bit k w) = unat w div 2 ^ k" by (simp add: drop_bit_eq_div)
  have lt: "2 ^ k * (unat w div 2 ^ k) < 2 ^ 32"
    using unat_lt_usize[of w] by (simp add: order.strict_trans1[OF times_div_less_eq_dividend])
  have "unat (push_bit k (drop_bit k w)) = take_bit 32 (push_bit k (unat (drop_bit k w)))"
    using unsigned_push_bit_eq[of k "drop_bit k w"] by simp
  also have "\<dots> = take_bit 32 (2 ^ k * (unat w div 2 ^ k))"
    by (simp add: d push_bit_eq_mult mult.commute)
  also have "\<dots> = 2 ^ k * (unat w div 2 ^ k)" by (rule take_bit_nat_eq_self[OF lt])
  finally show ?thesis by (simp only: and_not_mask)
qed

lemma unat_of_nat_small: "n < 4294967296 \<Longrightarrow> unat (of_nat n :: usize) = n"
  by (simp add: unsigned_of_nat take_bit_nat_eq_self)

lemma usize_max_is: "(- 1 :: usize) = usize_max" by simp

text \<open>Bits of field masks: a run of k ones shifted left by s.\<close>

lemma bit_field:
  fixes w :: "'a::len word"
  assumes "w = push_bit s (mask k)" "s + k \<le> LENGTH('a)"
  shows "bit w n \<longleftrightarrow> s \<le> n \<and> n < s + k"
  using assms by (auto simp: bit_simps)

lemma and_mask_bound: "unat (w AND mask k :: 'a::len word) < 2 ^ k"
proof -
  have "w AND mask k = take_bit k w" by (simp add: take_bit_eq_mask)
  then have "unat (w AND mask k) = take_bit k (unat w)" by (simp add: unsigned_take_bit_eq)
  then show ?thesis by simp
qed

text \<open>Bits of numerals are read through the field lemma, not by evaluation at integers.\<close>

declare bit_numeral_word_iff [simp del]

section \<open>Results\<close>

text \<open>The question-mark operator: an error returns early, a value is passed on.\<close>

definition and_then :: "'e + 'a \<Rightarrow> ('a \<Rightarrow> 'e + 'b) \<Rightarrow> 'e + 'b" where
  "and_then r f = (case r of Inl e \<Rightarrow> Inl e | Inr x \<Rightarrow> f x)"

definition ok_or :: "'a option \<Rightarrow> 'e \<Rightarrow> 'e + 'a" where
  "ok_or o' e = (case o' of None \<Rightarrow> Inl e | Some x \<Rightarrow> Inr x)"

definition map_err :: "('e \<Rightarrow> 'f) \<Rightarrow> 'e + 'a \<Rightarrow> 'f + 'a" where
  "map_err f r = (case r of Inl e \<Rightarrow> Inl (f e) | Inr x \<Rightarrow> Inr x)"

definition ok_of :: "'e + 'a \<Rightarrow> 'a option" where
  "ok_of r = (case r of Inl e \<Rightarrow> None | Inr x \<Rightarrow> Some x)"

definition isOk :: "'e + 'a \<Rightarrow> bool" where
  "isOk r = (case r of Inl e \<Rightarrow> False | Inr x \<Rightarrow> True)"

lemma and_then_simps [simp, res_simps]:
  "and_then (Inl e) f = Inl e" "and_then (Inr x) f = f x"
  by (simp_all add: and_then_def)

lemma and_then_Inr_iff [res_simps]:
  "and_then r f = Inr y \<longleftrightarrow> (\<exists>x. r = Inr x \<and> f x = Inr y)"
  by (cases r) auto

lemma and_then_Inl_iff [res_simps]:
  "and_then r f = Inl e \<longleftrightarrow> r = Inl e \<or> (\<exists>x. r = Inr x \<and> f x = Inl e)"
  by (cases r) auto

lemma ok_or_simps [simp, res_simps]:
  "ok_or None e = Inl e" "ok_or (Some x) e = Inr x"
  by (simp_all add: ok_or_def)

lemma ok_or_Inr_iff [res_simps]: "ok_or o' e = Inr x \<longleftrightarrow> o' = Some x"
  by (cases o') auto

lemma ok_or_Inl_iff [res_simps]: "ok_or o' e = Inl e' \<longleftrightarrow> o' = None \<and> e' = e"
  by (cases o') auto

lemma map_err_simps [simp, res_simps]:
  "map_err f (Inl e) = Inl (f e)" "map_err f (Inr x) = Inr x"
  by (simp_all add: map_err_def)

lemma ok_of_simps [simp, res_simps]: "ok_of (Inl e) = None" "ok_of (Inr x) = Some x"
  by (simp_all add: ok_of_def)

lemma isOk_simps [simp, res_simps]: "\<not> isOk (Inl e)" "isOk (Inr x)"
  by (simp_all add: isOk_def)

lemma isOk_iff: "isOk r \<longleftrightarrow> (\<exists>x. r = Inr x)"
  by (cases r) auto

text \<open>Folding a fallible check over a list, stopping at the first error.\<close>

primrec check_all :: "('a \<Rightarrow> 'e + unit) \<Rightarrow> 'a list \<Rightarrow> 'e + unit" where
  "check_all f [] = Inr ()"
| "check_all f (x # xs) = and_then (f x) (\<lambda>_. check_all f xs)"

lemma check_all_Inr_iff [res_simps]:
  "check_all f xs = Inr u \<longleftrightarrow> (\<forall>x\<in>set xs. f x = Inr ())"
  by (induction xs) (auto simp: res_simps)

lemma check_all_InlD:
  "check_all f xs = Inl e \<Longrightarrow> \<exists>x\<in>set xs. f x = Inl e"
  by (induction xs) (auto simp: res_simps)

section \<open>Byte memory\<close>

type_synonym mem = "usize \<Rightarrow> u8"

fun read_bytes :: "mem \<Rightarrow> usize \<Rightarrow> nat \<Rightarrow> u8 list" where
  "read_bytes m a 0 = []"
| "read_bytes m a (Suc n) = m a # read_bytes m (a + 1) n"

fun write_bytes :: "mem \<Rightarrow> usize \<Rightarrow> u8 list \<Rightarrow> mem" where
  "write_bytes m a [] = m"
| "write_bytes m a (b # bs) = write_bytes (m(a := b)) (a + 1) bs"

text \<open>x lies in the n bytes that start at a (addresses wrap modulo the word).\<close>

definition in_slice :: "usize \<Rightarrow> nat \<Rightarrow> usize \<Rightarrow> bool" where
  "in_slice a n x \<longleftrightarrow> unat (x - a) < n"

lemma length_read_bytes [simp]: "length (read_bytes m a n) = n"
  by (induction m a n rule: read_bytes.induct) auto

lemma read_bytes_nth:
  "i < n \<Longrightarrow> read_bytes m a n ! i = m (a + of_nat i)"
proof (induction n arbitrary: a i)
  case (Suc n)
  then show ?case by (cases i) (auto simp: algebra_simps)
qed simp

lemma unat_minus_1_eq: "x \<noteq> (0::'a::len word) \<Longrightarrow> unat (x - 1) = unat x - 1"
  by (metis Suc_pred' diff_Suc_1 unat_gt_0 unat_minus_one)

lemma write_bytes_outside:
  "\<not> in_slice a (length bs) x \<Longrightarrow> write_bytes m a bs x = m x"
proof (induction bs arbitrary: m a)
  case (Cons b bs)
  have ne: "x \<noteq> a" using Cons.prems by (auto simp: in_slice_def)
  have "unat (x - (a + 1)) = unat (x - a) - 1"
    using ne unat_minus_1_eq[of "x - a"] by (simp add: algebra_simps)
  then have "\<not> in_slice (a + 1) (length bs) x"
    using Cons.prems by (simp add: in_slice_def)
  then show ?case using Cons.IH ne by simp
qed simp

lemma unat_minus_self_add:
  "i < 4294967296 \<Longrightarrow> unat ((a::usize) + of_nat i - a) = i"
  by (simp add: unat_of_nat)

lemma write_bytes_nth [mem_simps]:
  assumes "length bs \<le> 4294967296" "i < length bs"
  shows "write_bytes m a bs (a + of_nat i) = bs ! i"
  using assms
proof (induction bs arbitrary: m a i)
  case (Cons b bs)
  show ?case
  proof (cases i)
    case 0
    have "a - (a + 1) = usize_max" by simp
    then have "unat (a - (a + 1)) = 4294967295" by (simp only:) simp
    then have "\<not> in_slice (a + 1) (length bs) a"
      using Cons.prems by (simp add: in_slice_def)
    then show ?thesis using 0 by (simp add: write_bytes_outside)
  next
    case (Suc j)
    then have "write_bytes (m(a := b)) (a + 1) bs (a + 1 + of_nat j) = bs ! j"
      using Cons by simp
    then show ?thesis using Suc by (simp add: algebra_simps)
  qed
qed simp

lemma read_write_bytes [mem_simps]:
  "length bs \<le> 4294967296 \<Longrightarrow> read_bytes (write_bytes m a bs) a (length bs) = bs"
  by (rule nth_equalityI) (simp_all add: read_bytes_nth write_bytes_nth)

lemma read_write_bytes_part [mem_simps]:
  assumes "k + n \<le> length bs" "length bs \<le> 4294967296"
  shows "read_bytes (write_bytes m a bs) (a + of_nat k) n = take n (drop k bs)"
proof (rule nth_equalityI)
  fix i assume "i < length (read_bytes (write_bytes m a bs) (a + of_nat k) n)"
  then have i: "i < n" by simp
  have "a + of_nat k + of_nat i = (a + of_nat (k + i) :: usize)" by simp
  then show "read_bytes (write_bytes m a bs) (a + of_nat k) n ! i = take n (drop k bs) ! i"
    using i assms write_bytes_nth[of bs "k + i" m a] by (simp add: read_bytes_nth add.assoc)
qed (use assms in simp)

lemma read_write_bytes_disjoint:
  assumes "\<forall>i<n. \<not> in_slice b (length bs) (a + of_nat i)"
  shows "read_bytes (write_bytes m b bs) a n = read_bytes m a n"
  using assms by (intro nth_equalityI) (auto simp: read_bytes_nth write_bytes_outside)

lemma not_in_slice_apart:
  assumes "unat x < unat b \<or> unat b + n \<le> unat x" "unat b + n \<le> 4294967296"
  shows "\<not> in_slice b n (x::usize)"
proof (cases "b \<le> x")
  case True
  then have "unat (x - b) = unat x - unat b" by (simp add: unat_sub_if_size word_le_nat_alt)
  then show ?thesis using assms True by (auto simp: in_slice_def word_le_nat_alt)
next
  case False
  then have "unat (x - b) = unat x + 4294967296 - unat b"
    by (simp add: unat_sub_if_size word_size word_le_nat_alt)
  then show ?thesis using assms unat_lt_usize[of b] False
    by (auto simp: in_slice_def word_le_nat_alt)
qed

lemma read_bytes_cong:
  assumes "\<And>i. i < n \<Longrightarrow> m (a + of_nat i) = m' (a + of_nat i)"
  shows "read_bytes m a n = read_bytes m' a n"
  using assms by (intro nth_equalityI) (auto simp: read_bytes_nth)

lemma in_slice_base: "0 < n \<Longrightarrow> in_slice a n a"
  by (simp add: in_slice_def)

section \<open>Little-endian words in memory\<close>

definition le_bytes16 :: "u16 \<Rightarrow> u8 list" where
  "le_bytes16 w = [ucast w, ucast (drop_bit 8 w)]"

definition le_bytes32 :: "u32 \<Rightarrow> u8 list" where
  "le_bytes32 w = [ucast w, ucast (drop_bit 8 w), ucast (drop_bit 16 w), ucast (drop_bit 24 w)]"

fun from_le_bytes :: "u8 list \<Rightarrow> 'a::len word" where
  "from_le_bytes [] = 0"
| "from_le_bytes (b # bs) = ucast b OR push_bit 8 (from_le_bytes bs)"

lemma length_le_bytes [simp]: "length (le_bytes16 v) = 2" "length (le_bytes32 w) = 4"
  by (simp_all add: le_bytes16_def le_bytes32_def)

lemma from_le_bytes32 [simp, mem_simps]: "from_le_bytes (le_bytes32 w) = w"
proof (rule bit_word_eqI)
  fix n assume n: "n < LENGTH(32)"
  consider "n < 8" | "8 \<le> n" "n < 16" | "16 \<le> n" "n < 24" | "24 \<le> n"
    by linarith
  then show "bit (from_le_bytes (le_bytes32 w) :: u32) n = bit w n"
    using n by cases (auto simp: le_bytes32_def bit_simps)
qed

lemma from_le_bytes16 [simp, mem_simps]: "from_le_bytes (le_bytes16 w) = w"
  by (rule bit_word_eqI) (auto simp: le_bytes16_def bit_simps not_less)

text \<open>Any width: n bytes, least significant first.\<close>

definition le_bytes :: "nat \<Rightarrow> 'a::len word \<Rightarrow> u8 list" where
  "le_bytes n w = map (\<lambda>i. ucast (drop_bit (8 * i) w)) [0..<n]"

lemma length_le_bytes_any [simp]: "length (le_bytes n w) = n"
  by (simp add: le_bytes_def)

lemma bit_from_le_bytes:
  "bit (from_le_bytes bs :: 'a::len word) k \<longleftrightarrow>
    k < LENGTH('a) \<and> k div 8 < length bs \<and> bit (bs ! (k div 8)) (k mod 8)"
proof (induction bs arbitrary: k)
  case (Cons b bs)
  show ?case
  proof (cases "k < 8")
    case False
    then have "k div 8 = Suc ((k - 8) div 8)" "k mod 8 = (k - 8) mod 8"
      by (simp_all add: le_div_geq le_mod_geq)
    moreover have "\<not> bit b k" using False by (auto dest: bit_imp_le_length)
    ultimately show ?thesis using Cons[of "k - 8"] False by (auto simp: bit_simps)
  qed (auto simp: bit_simps)
qed simp

lemma from_le_bytes_le_bytes [mem_simps]:
  assumes "LENGTH('a) = 8 * n"
  shows "from_le_bytes (le_bytes n w) = (w :: 'a::len word)"
proof (rule bit_word_eqI)
  fix k assume k: "k < LENGTH('a)"
  then have "k div 8 < n" using assms by simp
  then show "bit (from_le_bytes (le_bytes n w) :: 'a word) k = bit w k"
    using k by (simp add: bit_from_le_bytes le_bytes_def bit_simps)
qed

definition read_u32 :: "mem \<Rightarrow> usize \<Rightarrow> u32" where
  "read_u32 m a = from_le_bytes (read_bytes m a 4)"

definition write_u32 :: "mem \<Rightarrow> usize \<Rightarrow> u32 \<Rightarrow> mem" where
  "write_u32 m a w = write_bytes m a (le_bytes32 w)"

lemma read_write_u32 [simp, mem_simps]: "read_u32 (write_u32 m a w) a = w"
  using read_write_bytes[of "le_bytes32 w" m a] by (simp add: read_u32_def write_u32_def)

lemma read_write_u32_disjoint:
  assumes "4 \<le> unat (a - b)" "4 \<le> unat (b - a)"
  shows "read_u32 (write_u32 m b w) a = read_u32 m a"
proof -
  have "\<not> in_slice b 4 (a + of_nat i)" if "i < 4" for i
  proof
    assume "in_slice b 4 (a + of_nat i)"
    then have 1: "unat (a - b + of_nat i) < 4"
      by (simp add: in_slice_def algebra_simps)
    have "(unat (a - b) + unat (b - a)) mod 4294967296 = unat ((a - b) + (b - a))"
      by (simp only: unat_word_ariths) simp
    then have "(unat (a - b) + unat (b - a)) mod 4294967296 = 0"
      by simp
    then obtain k where "unat (a - b) + unat (b - a) = 4294967296 * k" by (auto simp: dvd_def)
    then have "unat (a - b) + unat (b - a) = 4294967296"
      using assms(1) unat_lt_usize[of "a - b"] unat_lt_usize[of "b - a"]
      by (cases k; cases "k - 1") auto
    then have n: "unat (a - b) + 4 \<le> 4294967296" using assms(2) by linarith
    have "unat (a - b + of_nat i) = (unat (a - b) + i) mod 4294967296"
      using that by (simp add: unat_word_ariths unat_of_nat)
    also have "\<dots> = unat (a - b) + i"
      using n that by simp
    finally show False using 1 assms(1) by simp
  qed
  then show ?thesis
    using read_write_bytes_disjoint[of 4 b "le_bytes32 w" a m]
    by (simp add: read_u32_def write_u32_def)
qed

section \<open>List access and update by index\<close>

text \<open>Rust's slice get: None out of bounds.\<close>

definition list_get :: "'a list \<Rightarrow> nat \<Rightarrow> 'a option" where
  "list_get xs i = (if i < length xs then Some (xs ! i) else None)"

text \<open>The idiom "if let Some(slot) = xs.get_mut(i) then *slot = x": no effect out of bounds.\<close>

definition list_set :: "'a list \<Rightarrow> nat \<Rightarrow> 'a \<Rightarrow> 'a list" where
  "list_set xs i x = (if i < length xs then xs[i := x] else xs)"

lemma list_get_simps [simp]:
  "i < length xs \<Longrightarrow> list_get xs i = Some (xs ! i)"
  "length xs \<le> i \<Longrightarrow> list_get xs i = None"
  by (simp_all add: list_get_def)

lemma list_get_eq_Some: "list_get xs i = Some x \<longleftrightarrow> i < length xs \<and> xs ! i = x"
  by (auto simp: list_get_def)

lemma list_get_eq_None: "list_get xs i = None \<longleftrightarrow> length xs \<le> i"
  by (auto simp: list_get_def)

lemma list_set_eq [simp]: "list_set xs i x = xs[i := x]"
  by (simp add: list_set_def list_update_beyond)

lemma length_list_set: "length (list_set xs i x) = length xs" by simp

lemma list_update_same_conv': "i < length xs \<Longrightarrow> xs[i := xs ! i] = xs"
  by simp

lemma nth_list_update_if: "i < length xs \<Longrightarrow> xs[i := x] ! j = (if j = i then x else xs ! j)"
  by (auto simp: nth_list_update)

section \<open>Printed numbers\<close>

function decimal :: "nat \<Rightarrow> string" where
  "decimal n = (if n < 10 then [char_of (48 + n)] else decimal (n div 10) @ [char_of (48 + n mod 10)])"
  by pat_completeness auto
termination by (relation "measure id") auto

declare decimal.simps [simp del]

definition newline :: string where "newline = [char_of (10 :: nat)]"

definition hex_char :: "nat \<Rightarrow> char" where "hex_char n = ''0123456789abcdef'' ! n"

definition hex_pair :: "u8 \<Rightarrow> string" where
  "hex_pair b = [hex_char (unat b div 16), hex_char (unat b mod 16)]"

end
