(* ===== verification/Cose.thy ===== *)
theory Cose
  imports Prelude
begin

text \<open>
  The COSE_Sign1 encoder (libraries/cose).  The CBOR library it calls, minicbor, is third-party
  code: its encoder, its cursor over a slice and its bstr decoder are the fields of a record
  that the definitions take as an argument, and what its documentation says of them is the
  predicate cbor_documented.  SHA-256 and P-256 (sha2, p256) are parameters in the same way.
  Slices are lists of bytes; a function that writes through a mutable slice returns the slice.
  Lengths are naturals, and 32-bit words where the code checks an addition.
\<close>

section \<open>The encoder library\<close>

text \<open>One constructor per encoder method the source calls; a string is its UTF-8 bytes.\<close>

datatype cbor_item =
    ITag u64
  | IArray u64
  | IMap u64
  | INull
  | IU8 u8
  | II32 u32
  | IU64 u64
  | II64 u64
  | IBytes "u8 list"
  | IStr "u8 list"

type_synonym cursor = "u8 list \<times> nat"

text \<open>
  mc_item: the slices a method passes to the writer, None when it fails by itself.
  mc_cursor_write: Cursor::write_all, with whether it succeeded.
  mc_decode_bytes: Decoder::bytes on a fresh decoder, the position after the item.
\<close>

record minicbor =
  mc_item :: "cbor_item \<Rightarrow> u8 list list option"
  mc_cursor_write :: "cursor \<Rightarrow> u8 list \<Rightarrow> cursor \<times> bool"
  mc_decode_bytes :: "u8 list \<Rightarrow> nat option"

datatype encode_error = Write_Error | Message_Error

text \<open>An encoding step over a writer of any type: the writer afterwards and the result.\<close>

type_synonym 'w writer = "'w \<Rightarrow> u8 list \<Rightarrow> 'w \<times> bool"
type_synonym 'w encoder = "'w \<Rightarrow> 'w \<times> (encode_error + unit)"

definition enc_raw :: "'w writer \<Rightarrow> u8 list \<Rightarrow> 'w encoder" where
  "enc_raw write bs w = (case write w bs of (w, ok) \<Rightarrow> (w, if ok then Inr () else Inl Write_Error))"

fun enc_all :: "'w encoder list \<Rightarrow> 'w encoder" where
  "enc_all [] w = (w, Inr ())"
| "enc_all (e # es) w = (case e w of (w, Inl err) \<Rightarrow> (w, Inl err) | (w, Inr _) \<Rightarrow> enc_all es w)"

definition enc_item :: "minicbor \<Rightarrow> 'w writer \<Rightarrow> cbor_item \<Rightarrow> 'w encoder" where
  "enc_item mc write it w =
    (case mc_item mc it of
       None \<Rightarrow> (w, Inl Message_Error)
     | Some chunks \<Rightarrow> enc_all (map (enc_raw write) chunks) w)"

section \<open>Errors, options, crypto\<close>

datatype cose_error = Unknown | InvalidSigningKey | InvalidPayload | CoseBufferTooSmall | Signature | CborEncoding

definition cose_error_from :: "encode_error \<Rightarrow> cose_error" where
  "cose_error_from err = (if err = Write_Error then CoseBufferTooSmall else CborEncoding)"

record sign1_options =
  omit_cbor_tag :: bool
  detached_payload :: bool

definition sign1_options_default :: sign1_options where
  "sign1_options_default = \<lparr>omit_cbor_tag = False, detached_payload = False\<rparr>"

record encoded_parameters =
  encoded_len :: nat
  payload_is_detached :: bool

record 's cose_crypto =
  hash_sha256 :: "u8 list \<Rightarrow> 's \<Rightarrow> 's \<times> (cose_error + u8 list)"
  sign_es256_prehash :: "u8 list \<Rightarrow> 's \<Rightarrow> 's \<times> (cose_error + u8 list)"

text \<open>sha2 and p256: whether a key is valid, the digest, and the signature of a digest.\<close>

record rust_crypto =
  rc_key_valid :: "u8 list \<Rightarrow> bool"
  rc_sha256 :: "u8 list \<Rightarrow> u8 list"
  rc_sign_prehash :: "u8 list \<Rightarrow> u8 list \<Rightarrow> u8 list option"

definition rust_crypto_backend :: "rust_crypto \<Rightarrow> u8 list \<Rightarrow> 's cose_crypto" where
  "rust_crypto_backend rc key =
    \<lparr>hash_sha256 = (\<lambda>input s. (s,
       if rc_key_valid rc key then Inr (rc_sha256 rc input) else Inl InvalidSigningKey)),
     sign_es256_prehash = (\<lambda>digest s. (s,
       if rc_key_valid rc key then ok_or (rc_sign_prehash rc key digest) Signature
       else Inl InvalidSigningKey))\<rparr>"

record 's cose_sign1 =
  cs_crypto :: "'s cose_crypto"
  cs_option_flags :: sign1_options
  cs_key_id :: "u8 list option"
  cs_external_aad :: "u8 list"

definition PROTECTED_HEADERS_ES256 :: "u8 list" where
  "PROTECTED_HEADERS_ES256 = [0xa1, 0x01, 0x26]"

definition CBOR_TAG_COSE_SIGN1 :: u64 where "CBOR_TAG_COSE_SIGN1 = 18"

definition cose_header_kid :: u8 where "cose_header_kid = 4"

text \<open>b"Signature1"\<close>

definition SIG_CONTEXT_STRING :: "u8 list" where
  "SIG_CONTEXT_STRING = [0x53, 0x69, 0x67, 0x6e, 0x61, 0x74, 0x75, 0x72, 0x65, 0x31]"

definition SIG_STRUCTURE_MAX_SIZE :: nat where "SIG_STRUCTURE_MAX_SIZE = 700"

definition cose_sign1_new :: "'s cose_crypto \<Rightarrow> sign1_options \<Rightarrow> 's cose_sign1" where
  "cose_sign1_new crypto option_flags =
    \<lparr>cs_crypto = crypto, cs_option_flags = option_flags, cs_key_id = None, cs_external_aad = []\<rparr>"

definition with_key_id :: "u8 list \<Rightarrow> 's cose_sign1 \<Rightarrow> 's cose_sign1" where
  "with_key_id key_id c = c\<lparr>cs_key_id := Some key_id\<rparr>"

definition with_external_aad :: "u8 list \<Rightarrow> 's cose_sign1 \<Rightarrow> 's cose_sign1" where
  "with_external_aad external_aad c = c\<lparr>cs_external_aad := external_aad\<rparr>"

section \<open>Length headers\<close>

text \<open>xs[i .. i + ys.len()].copy_from_slice(ys), for a range inside the slice.\<close>

definition copy_at :: "'a list \<Rightarrow> nat \<Rightarrow> 'a list \<Rightarrow> 'a list" where
  "copy_at xs i ys = take i xs @ ys @ drop (i + length ys) xs"

definition be_bytes :: "nat \<Rightarrow> 'a::len word \<Rightarrow> u8 list" where
  "be_bytes n w = rev (le_bytes n w)"

definition encode_cbor_major_len_header :: "u8 \<Rightarrow> usize \<Rightarrow> u8 list \<Rightarrow> u8 list \<times> nat" where
  "encode_cbor_major_len_header major n header =
    (let tag = push_bit 5 major in
     if n \<le> 23 then (header[0 := tag OR ucast n], 1)
     else if n \<le> 0xff then (header[0 := tag OR 0x18, 1 := ucast n], 2)
     else if n \<le> 0xffff then (copy_at (header[0 := tag OR 0x19]) 1 (be_bytes 2 (ucast n :: u16)), 3)
     else if n \<le> 0xffffffff then (copy_at (header[0 := tag OR 0x1a]) 1 (be_bytes 4 (ucast n :: u32)), 5)
     else (copy_at (header[0 := tag OR 0x1b]) 1 (be_bytes 8 (ucast n :: u64)), 9))"

section \<open>Sig_structure\<close>

abbreviation len :: "'a list \<Rightarrow> usize" where "len xs \<equiv> of_nat (length xs)"

definition build_sig_structure ::
    "u8 list \<Rightarrow> u8 list \<Rightarrow> u8 list \<Rightarrow> u8 list \<Rightarrow> u8 list \<times> (cose_error + nat)" where
  "build_sig_structure protected_headers external_aad payload_bstr out =
    (let (ext_aad_header, ext_aad_header_len) =
           encode_cbor_major_len_header 2 (len external_aad) (replicate 9 0);
         (prot_hdr_header, prot_hdr_header_len) =
           encode_cbor_major_len_header 2 (len protected_headers) (replicate 9 0);
         context_header_len = 2 + length SIG_CONTEXT_STRING;
         total_len = ok_or
           (Option.bind (Option.bind (Option.bind (Option.bind
             (checked_add (of_nat context_header_len :: usize) (of_nat prot_hdr_header_len))
             (\<lambda>l. checked_add l (len protected_headers)))
             (\<lambda>l. checked_add l (of_nat ext_aad_header_len)))
             (\<lambda>l. checked_add l (len external_aad)))
             (\<lambda>l. checked_add l (len payload_bstr))) CoseBufferTooSmall
     in case total_len of
          Inl e \<Rightarrow> (out, Inl e)
        | Inr total_len \<Rightarrow>
            if len out < total_len then (out, Inl CoseBufferTooSmall)
            else
              (let cursor = 0;
                   out = out[cursor := 0x84];
                   out = out[cursor + 1 := 0x6a];
                   cursor = cursor + 2;
                   out = copy_at out cursor SIG_CONTEXT_STRING;
                   cursor = cursor + length SIG_CONTEXT_STRING;
                   out = copy_at out cursor (take prot_hdr_header_len prot_hdr_header);
                   cursor = cursor + prot_hdr_header_len;
                   out = copy_at out cursor protected_headers;
                   cursor = cursor + length protected_headers;
                   out = copy_at out cursor (take ext_aad_header_len ext_aad_header);
                   cursor = cursor + ext_aad_header_len;
                   out = copy_at out cursor external_aad;
                   cursor = cursor + length external_aad;
                   out = copy_at out cursor payload_bstr;
                   cursor = cursor + length payload_bstr
               in (out, Inr cursor)))"

definition hash_sig_structure ::
    "'s cose_crypto \<Rightarrow> u8 list \<Rightarrow> u8 list \<Rightarrow> u8 list \<Rightarrow> 's \<Rightarrow> 's \<times> (cose_error + u8 list)" where
  "hash_sig_structure crypto protected_headers external_aad payload_bstr s =
    (case build_sig_structure protected_headers external_aad payload_bstr
            (replicate SIG_STRUCTURE_MAX_SIZE 0) of
       (sig_struct_buf, Inl e) \<Rightarrow> (s, Inl e)
     | (sig_struct_buf, Inr n) \<Rightarrow> hash_sha256 crypto (take n sig_struct_buf) s)"

section \<open>COSE_Sign1\<close>

definition validate_payload_bstr :: "minicbor \<Rightarrow> u8 list \<Rightarrow> cose_error + unit" where
  "validate_payload_bstr mc encoded_payload_bstr =
    (if mc_decode_bytes mc encoded_payload_bstr = Some (length encoded_payload_bstr)
     then Inr () else Inl InvalidPayload)"

definition encode_sign1 :: "minicbor \<Rightarrow> 's cose_sign1 \<Rightarrow> u8 list \<Rightarrow> u8 list \<Rightarrow> cursor encoder" where
  "encode_sign1 mc c payload_bstr signature_bytes =
    (let item = enc_item mc (mc_cursor_write mc) in
     enc_all
       ((if \<not> omit_cbor_tag (cs_option_flags c) then [item (ITag CBOR_TAG_COSE_SIGN1)] else []) @
        [item (IArray 4), item (IBytes PROTECTED_HEADERS_ES256)] @
        (case cs_key_id c of
           Some kid \<Rightarrow> [item (IMap 1), item (IU8 cose_header_kid), item (IBytes kid)]
         | None \<Rightarrow> [item (IMap 0)]) @
        [if detached_payload (cs_option_flags c) then item INull
         else enc_raw (mc_cursor_write mc) payload_bstr,
         item (IBytes signature_bytes)]))"

definition encode_from_payload_bstr ::
    "minicbor \<Rightarrow> 's cose_sign1 \<Rightarrow> u8 list \<Rightarrow> u8 list \<Rightarrow> 's \<Rightarrow>
     's \<times> u8 list \<times> (cose_error + encoded_parameters)" where
  "encode_from_payload_bstr mc c payload_bstr out s =
    (case validate_payload_bstr mc payload_bstr of
       Inl e \<Rightarrow> (s, out, Inl e)
     | Inr _ \<Rightarrow>
         (case hash_sig_structure (cs_crypto c) PROTECTED_HEADERS_ES256 (cs_external_aad c) payload_bstr s of
            (s, Inl e) \<Rightarrow> (s, out, Inl e)
          | (s, Inr digest) \<Rightarrow>
              (case sign_es256_prehash (cs_crypto c) digest s of
                 (s, Inl e) \<Rightarrow> (s, out, Inl e)
               | (s, Inr signature_bytes) \<Rightarrow>
                   (case encode_sign1 mc c payload_bstr signature_bytes (out, 0) of
                      ((out, position), Inl e) \<Rightarrow> (s, out, Inl (cose_error_from e))
                    | ((out, position), Inr _) \<Rightarrow>
                        (s, out, Inr \<lparr>encoded_len = position,
                           payload_is_detached = detached_payload (cs_option_flags c)\<rparr>)))))"

definition encode_payload_bstr :: "minicbor \<Rightarrow> u8 list \<Rightarrow> u8 list \<Rightarrow> u8 list \<times> (cose_error + nat)" where
  "encode_payload_bstr mc payload out =
    (case enc_item mc (mc_cursor_write mc) (IBytes payload) (out, 0) of
       ((out, position), Inl e) \<Rightarrow> (out, Inl (cose_error_from e))
     | ((out, position), Inr _) \<Rightarrow> (out, Inr position))"

definition encode_payload_bstr_in_place :: "usize \<Rightarrow> u8 list \<Rightarrow> u8 list \<times> (cose_error + usize)" where
  "encode_payload_bstr_in_place payload_len out =
    (let (header, header_len) = encode_cbor_major_len_header 2 payload_len (replicate 9 0) in
     case checked_add payload_len (of_nat header_len) of
       None \<Rightarrow> (out, Inl CoseBufferTooSmall)
     | Some total_len \<Rightarrow>
         if total_len > len out then (out, Inl CoseBufferTooSmall)
         else
           (let out = copy_at out header_len (take (unat payload_len) out) in
            if header_len \<le> length out \<and> header_len \<le> length header
            then (copy_at out 0 (take header_len header), Inr total_len)
            else (out, Inl CoseBufferTooSmall)))"

section \<open>What the documentation of the library promises\<close>

text \<open>The initial bytes of a definite-length item (RFC 8949, section 3), over naturals.\<close>

definition rfc_head :: "nat \<Rightarrow> nat \<Rightarrow> u8 list" where
  "rfc_head major n =
    (if n < 24 then [of_nat (32 * major + n)]
     else if n < 256 then [of_nat (32 * major + 24), of_nat n]
     else if n < 65536 then [of_nat (32 * major + 25), of_nat (n div 256), of_nat n]
     else [of_nat (32 * major + 26), of_nat (n div 16777216), of_nat (n div 65536), of_nat (n div 256), of_nat n])"

definition head_len :: "nat \<Rightarrow> nat" where
  "head_len n = (if n < 24 then 1 else if n < 256 then 2 else if n < 65536 then 3 else 5)"

definition cbor_bstr :: "u8 list \<Rightarrow> u8 list" where
  "cbor_bstr bs = rfc_head 2 (length bs) @ bs"

definition item_bytes :: "minicbor \<Rightarrow> cbor_item \<Rightarrow> u8 list" where
  "item_bytes mc it = (case mc_item mc it of None \<Rightarrow> [] | Some chunks \<Rightarrow> concat chunks)"

text \<open>Every item takes at least a byte and its pieces are slices of the address space; tags, arrays,
  maps and byte strings have their shortest RFC 8949 form; the cursor writes a slice
  whole or not at all; the decoder accepts a byte string and stops behind it.\<close>

definition cbor_documented :: "minicbor \<Rightarrow> bool" where
  "cbor_documented mc \<longleftrightarrow>
    (\<forall>it. mc_item mc it \<noteq> None \<and> item_bytes mc it \<noteq> []) \<and>
    (\<forall>it chunks. mc_item mc it = Some chunks \<longrightarrow> (\<forall>c\<in>set chunks. length c < 4294967296)) \<and>
    (\<forall>t. unat t < 4294967296 \<longrightarrow> item_bytes mc (ITag t) = rfc_head 6 (unat t)) \<and>
    (\<forall>n. unat n < 4294967296 \<longrightarrow> item_bytes mc (IArray n) = rfc_head 4 (unat n)) \<and>
    (\<forall>n. unat n < 4294967296 \<longrightarrow> item_bytes mc (IMap n) = rfc_head 5 (unat n)) \<and>
    (\<forall>bs. length bs < 4294967296 \<longrightarrow> item_bytes mc (IBytes bs) = cbor_bstr bs) \<and>
    (\<forall>buf pos bs. pos \<le> length buf \<longrightarrow> mc_cursor_write mc (buf, pos) bs =
      (if pos + length bs \<le> length buf then ((copy_at buf pos bs, pos + length bs), True)
       else ((buf, pos), False))) \<and>
    (\<forall>bs. length bs < 4294967296 \<longrightarrow> mc_decode_bytes mc (cbor_bstr bs) = Some (length (cbor_bstr bs)))"

lemma length_rfc_head [simp]: "length (rfc_head m n) = head_len n"
  by (simp add: rfc_head_def head_len_def)

lemma length_cbor_bstr: "length (cbor_bstr bs) = head_len (length bs) + length bs"
  by (simp add: cbor_bstr_def)

lemma length_copy_at: "i + length ys \<le> length xs \<Longrightarrow> length (copy_at xs i ys) = length xs"
  by (simp add: copy_at_def)

lemma take_copy_at: "i \<le> length xs \<Longrightarrow> take (i + length ys) (copy_at xs i ys) = take i xs @ ys"
  by (simp add: copy_at_def)

lemma drop_copy_at:
  "i \<le> length xs \<Longrightarrow> i + length ys \<le> k \<Longrightarrow> drop k (copy_at xs i ys) = drop k xs"
  by (simp add: copy_at_def)

section \<open>Headers are RFC 8949 heads\<close>

lemma or_disjoint: "(x :: 'a::len word) AND y = 0 \<Longrightarrow> x OR y = x + y"
  using word_plus_and_or[of x y] by simp

lemma bstr_tag: "unat (x :: u8) < 32 \<Longrightarrow> 0x40 OR x = of_nat (64 + unat x)"
proof -
  assume x: "unat x < 32"
  have "\<not> bit x k" if "5 \<le> k" for k
  proof -
    have "take_bit 5 x = x" using x by (simp add: word_unat_eq_iff unsigned_take_bit_eq take_bit_nat_eq_self)
    then show ?thesis using that by (metis bit_take_bit_iff not_less)
  qed
  moreover have "bit (0x40 :: u8) k \<longleftrightarrow> k = 6" for k
  proof -
      have "(0x40 :: u8) = push_bit 6 (mask 1)" by (simp add: mask_eq_exp_minus_1)
    then show ?thesis by (subst bit_field[where s = 6 and k = 1]) auto
  qed
  ultimately have "0x40 AND x = 0" by (intro bit_word_eqI) (auto simp: bit_simps)
  then show ?thesis by (simp add: or_disjoint)
qed

lemma ucast8_of_nat: "(ucast (w :: 'a::len word) :: u8) = of_nat (unat w)"
  by (simp add: unsigned_of_nat word_unat_eq_iff unsigned_ucast_eq)

lemma ucast8_drop: "(ucast (drop_bit k (w :: 'a::len word)) :: u8) = of_nat (unat w div 2 ^ k)"
  unfolding ucast8_of_nat unat_drop_bit_eq drop_bit_eq_div[of k "unat w"] ..

lemma be_bytes16: "be_bytes 2 (w :: u16) = [of_nat (unat w div 256), of_nat (unat w)]"
proof -
  have "[0..<2] = [0, 1 :: nat]" by (simp add: upt_rec)
  then show ?thesis
    unfolding be_bytes_def le_bytes_def by (simp only: list.map ucast8_drop) simp
qed

lemma be_bytes32: "be_bytes 4 (w :: u32) =
    [of_nat (unat w div 16777216), of_nat (unat w div 65536), of_nat (unat w div 256), of_nat (unat w)]"
proof -
  have "[0..<4] = [0, 1, 2, 3 :: nat]" by (simp add: upt_rec)
  then show ?thesis
    unfolding be_bytes_def le_bytes_def by (simp only: list.map ucast8_drop) simp
qed

lemma bstr_header:
  assumes "encode_cbor_major_len_header 2 n (replicate 9 0) = (header, hl)"
  shows "take hl header = rfc_head 2 (unat n) \<and> hl = head_len (unat n) \<and> length header = 9"
proof -
  have le: "n \<le> 23 \<longleftrightarrow> unat n < 24" "n \<le> 0xff \<longleftrightarrow> unat n < 256" "n \<le> 0xffff \<longleftrightarrow> unat n < 65536"
    by (auto simp: word_le_nat_alt)
  have top: "n \<le> 0xffffffff" by (simp add: word_le_nat_alt) (use unat_lt_usize[of n] in linarith)
  have tag: "push_bit 5 2 = (0x40 :: u8)" by simp
  have nine: "replicate 9 0 = [0, 0, 0, 0, 0, 0, 0, 0, 0 :: u8]" by (simp add: numeral_eq_Suc)
  consider (a) "unat n < 24" | (b) "24 \<le> unat n" "unat n < 256" | (c) "256 \<le> unat n" "unat n < 65536"
    | (d) "65536 \<le> unat n" by linarith
  then show ?thesis
  proof cases
    case a
    then have "unat (ucast n :: u8) = unat n"
      using a by (simp add: unsigned_ucast_eq take_bit_nat_eq_self)
    then have "0x40 OR ucast n = (of_nat (64 + unat n) :: u8)"
      using a bstr_tag[of "ucast n"] by (simp only:)
    moreover have "header = [0x40 OR ucast n, 0, 0, 0, 0, 0, 0, 0, 0] \<and> hl = 1"
      using assms a unfolding encode_cbor_major_len_header_def Let_def le tag nine by simp
    ultimately show ?thesis using a by (simp add: rfc_head_def head_len_def)
  next
    case b
    then show ?thesis
      using assms unfolding encode_cbor_major_len_header_def Let_def le tag nine
      by (auto simp: rfc_head_def head_len_def)
  next
    case c
    have "unat (ucast n :: u16) = unat n"
      using c by (simp add: unsigned_ucast_eq take_bit_nat_eq_self)
    then show ?thesis
      using assms c unfolding encode_cbor_major_len_header_def Let_def le tag nine be_bytes16
      by (auto simp: rfc_head_def head_len_def copy_at_def)
  next
    case d
    then show ?thesis
      using assms top unfolding encode_cbor_major_len_header_def Let_def le tag nine be_bytes32
      by (auto simp: rfc_head_def head_len_def copy_at_def)
  qed
qed

section \<open>The Sig_structure\<close>

definition sig_bytes :: "u8 list \<Rightarrow> u8 list \<Rightarrow> u8 list \<Rightarrow> u8 list" where
  "sig_bytes prot aad payload =
    0x84 # 0x6a # SIG_CONTEXT_STRING @ cbor_bstr prot @ cbor_bstr aad @ payload"

lemma checked_add_of_nat:
  assumes "a < 4294967296" "b < 4294967296"
  shows "checked_add (of_nat a :: usize) (of_nat b) =
    (if a + b < 4294967296 then Some (of_nat (a + b)) else None)"
  using assms by (simp add: checked_add_def unsigned_of_nat take_bit_nat_eq_self)

lemma fill_step:
  assumes "take i xs = bs \<and> length xs = n" "i + length ys \<le> n"
  shows "take (i + length ys) (copy_at xs i ys) = bs @ ys \<and> length (copy_at xs i ys) = n"
  using assms take_copy_at[of i xs ys] length_copy_at[of i ys xs] by auto

lemma length_sig_bytes: "length (sig_bytes prot aad payload) =
    12 + head_len (length prot) + length prot + head_len (length aad) + length aad + length payload"
  by (simp add: sig_bytes_def SIG_CONTEXT_STRING_def length_cbor_bstr)

lemma head_len_bounds: "1 \<le> head_len n" "head_len n \<le> 5"
  by (simp_all add: head_len_def)

lemma bstr_header_len:
  assumes "length bs < 4294967296"
  shows "\<exists>header. encode_cbor_major_len_header 2 (len bs) (replicate 9 0) = (header, head_len (length bs)) \<and>
    take (head_len (length bs)) header = rfc_head 2 (length bs) \<and> length header = 9"
proof -
  obtain header hl where h: "encode_cbor_major_len_header 2 (len bs) (replicate 9 0) = (header, hl)" by fastforce
  have "unat (len bs) = length bs" using assms by (simp add: unat_of_nat)
  then show ?thesis using bstr_header[OF h] h by auto
qed

lemma build_sig_structure_core:
  assumes l: "length prot < 4294967296" "length aad < 4294967296" "length payload < 4294967296"
    and out: "length out < 4294967296"
  defines "L \<equiv> length (sig_bytes prot aad payload)"
  shows "if L \<le> length out
    then \<exists>out'. build_sig_structure prot aad payload out = (out', Inr L) \<and>
      take L out' = sig_bytes prot aad payload \<and> length out' = length out
    else build_sig_structure prot aad payload out = (out, Inl CoseBufferTooSmall)"
proof -
  obtain ah where ah: "encode_cbor_major_len_header 2 (len aad) (replicate 9 0) = (ah, head_len (length aad))"
    "take (head_len (length aad)) ah = rfc_head 2 (length aad)"
    using bstr_header_len[OF l(2)] by blast
  obtain ph where ph: "encode_cbor_major_len_header 2 (len prot) (replicate 9 0) = (ph, head_len (length prot))"
    "take (head_len (length prot)) ph = rfc_head 2 (length prot)"
    using bstr_header_len[OF l(1)] by blast
  have ctx: "2 + length SIG_CONTEXT_STRING = 12" by (simp add: SIG_CONTEXT_STRING_def)
  have L: "L = 12 + head_len (length prot) + length prot + head_len (length aad) + length aad + length payload"
    unfolding L_def by (rule length_sig_bytes)
  have hb: "head_len (length prot) < 4294967296" "head_len (length aad) < 4294967296"
    using head_len_bounds(2)[of "length prot"] head_len_bounds(2)[of "length aad"] by linarith+
  have tot: "Option.bind (Option.bind (Option.bind (Option.bind
             (checked_add (of_nat (2 + length SIG_CONTEXT_STRING) :: usize) (of_nat (head_len (length prot))))
             (\<lambda>l. checked_add l (len prot)))
             (\<lambda>l. checked_add l (of_nat (head_len (length aad)))))
             (\<lambda>l. checked_add l (len aad)))
             (\<lambda>l. checked_add l (len payload)) = (if L < 4294967296 then Some (of_nat L) else None)"
    unfolding ctx L
    by (auto simp: checked_add_of_nat l hb add.assoc simp del: of_nat_add of_nat_numeral)
  show ?thesis
  proof (cases "L \<le> length out")
    case True
    define o0 where "o0 = (out[0 := 0x84])[0 + 1 := 0x6a]"
    have "2 \<le> length out" using True L by simp
    then have f0: "take (0 + 2) o0 = [0x84, 0x6a] \<and> length o0 = length out"
      unfolding o0_def by (cases out; cases "tl out") simp_all
    note f1 = fill_step[OF f0, of SIG_CONTEXT_STRING]
    note f2 = fill_step[OF f1, of "take (head_len (length prot)) ph", unfolded ph(2) length_rfc_head]
    note f3 = fill_step[OF f2, of prot]
    note f4 = fill_step[OF f3, of "take (head_len (length aad)) ah", unfolded ah(2) length_rfc_head]
    note f5 = fill_step[OF f4, of aad]
    note f6 = fill_step[OF f5, of payload]
    have sz: "length SIG_CONTEXT_STRING = 10" by (simp add: SIG_CONTEXT_STRING_def)
    have lt: "\<not> len out < (of_nat L :: usize)" "L < 4294967296"
      using True out by (simp_all add: word_less_nat_alt unsigned_of_nat take_bit_nat_eq_self)
    show ?thesis
      unfolding build_sig_structure_def Let_def ah(1) ph(1) tot prod.case ph(2) ah(2) o0_def[symmetric]
      using True f6 sz L lt
      by (simp add: sig_bytes_def cbor_bstr_def)
  next
    case False
    have "len out < (of_nat L :: usize)" if "L < 4294967296"
      using False out that by (simp add: word_less_nat_alt unsigned_of_nat take_bit_nat_eq_self)
    then show ?thesis
      unfolding build_sig_structure_def Let_def ah(1) ph(1) tot prod.case
      using False by simp
  qed
qed

lemma hash_sig_structure_core:
  assumes "length prot < 4294967296" "length aad < 4294967296" "length payload < 4294967296"
  shows "hash_sig_structure crypto prot aad payload s =
    (if length (sig_bytes prot aad payload) \<le> 700 then hash_sha256 crypto (sig_bytes prot aad payload) s
     else (s, Inl CoseBufferTooSmall))"
  using build_sig_structure_core[OF assms, of "replicate 700 0"]
  unfolding hash_sig_structure_def SIG_STRUCTURE_MAX_SIZE_def by (auto split: if_splits)

section \<open>The payload byte string, in place\<close>

lemma encode_in_place_core:
  assumes n: "unat n \<le> length out" and out: "length out < 4294967296"
  defines "T \<equiv> length (cbor_bstr (take (unat n) out))"
  shows "if T \<le> length out
    then encode_payload_bstr_in_place n out =
      (cbor_bstr (take (unat n) out) @ drop T out, Inr (of_nat T))
    else encode_payload_bstr_in_place n out = (out, Inl CoseBufferTooSmall)"
proof -
  obtain header hl where h: "encode_cbor_major_len_header 2 n (replicate 9 0) = (header, hl)" by fastforce
  note hd = bstr_header[OF h]
  have T: "T = hl + unat n" using n hd by (simp add: T_def length_cbor_bstr)
  have hl: "hl \<le> 5" using hd head_len_bounds(2) by simp
  have add: "checked_add n (of_nat hl) = (if T < 4294967296 then Some (of_nat T) else None)"
    using checked_add_of_nat[of "unat n" hl] unat_lt_usize[of n] hl by (simp add: T add.commute)
  show ?thesis
  proof (cases "T \<le> length out")
    case True
    have "\<not> (of_nat T :: usize) > len out" "T < 4294967296"
      using True out by (simp_all add: word_less_nat_alt unsigned_of_nat take_bit_nat_eq_self)
    moreover have "copy_at (copy_at out hl (take (unat n) out)) 0 (take hl header) =
        rfc_head 2 (unat n) @ take (unat n) out @ drop T out"
      using True n hl hd[THEN conjunct1] hd[THEN conjunct2, THEN conjunct2]
        hd[THEN conjunct2, THEN conjunct1, symmetric]
      by (simp add: copy_at_def T add.commute min_def)
    moreover have "hl \<le> length (copy_at out hl (take (unat n) out))"
      using True n by (simp add: length_copy_at T)
    ultimately show ?thesis
      using True n hl hd[THEN conjunct2, THEN conjunct2]
      unfolding encode_payload_bstr_in_place_def h Let_def prod.case add by (simp add: cbor_bstr_def)
  next
    case False
    then have "(of_nat T :: usize) > len out" if "T < 4294967296"
      using that out by (simp add: word_less_nat_alt unsigned_of_nat take_bit_nat_eq_self)
    then show ?thesis
      using False unfolding encode_payload_bstr_in_place_def h Let_def prod.case add by simp
  qed
qed

section \<open>Encoding through a writer\<close>

text \<open>A writer that takes every slice whole, or refuses it, seen through the bytes it has room for.\<close>

lemma cbor_documentedD:
  assumes "cbor_documented mc"
  shows "mc_item mc it \<noteq> None" "item_bytes mc it \<noteq> []"
    "mc_item mc it = Some chunks \<Longrightarrow> c \<in> set chunks \<Longrightarrow> length c < 4294967296"
    "unat t < 4294967296 \<Longrightarrow> item_bytes mc (ITag t) = rfc_head 6 (unat t)"
    "unat t < 4294967296 \<Longrightarrow> item_bytes mc (IArray t) = rfc_head 4 (unat t)"
    "unat t < 4294967296 \<Longrightarrow> item_bytes mc (IMap t) = rfc_head 5 (unat t)"
    "length bs < 4294967296 \<Longrightarrow> item_bytes mc (IBytes bs) = cbor_bstr bs"
    "pos \<le> length buf \<Longrightarrow> mc_cursor_write mc (buf, pos) bs =
      (if pos + length bs \<le> length buf then ((copy_at buf pos bs, pos + length bs), True)
       else ((buf, pos), False))"
    "length bs < 4294967296 \<Longrightarrow> mc_decode_bytes mc (cbor_bstr bs) = Some (length (cbor_bstr bs))"
  using assms unfolding cbor_documented_def by blast+

text \<open>What an encoder step writes to a cursor: bs, if there is room, else an error of the writer.\<close>

definition cursor_writes :: "cursor encoder \<Rightarrow> u8 list \<Rightarrow> bool" where
  "cursor_writes e bs \<longleftrightarrow> (\<forall>buf pos. pos \<le> length buf \<longrightarrow>
    (\<exists>buf' pos'. length buf' = length buf \<and> pos' \<le> length buf \<and>
      e (buf, pos) = (if pos + length bs \<le> length buf
        then ((copy_at buf pos bs, pos + length bs), Inr ()) else ((buf', pos'), Inl Write_Error))))"

lemma cursor_writes_raw:
  assumes "cbor_documented mc"
  shows "cursor_writes (enc_raw (mc_cursor_write mc) bs) bs"
  using cbor_documentedD(8)[OF assms] by (fastforce simp: cursor_writes_def enc_raw_def)

lemma copy_at_copy_at:
  assumes "i + length xs + length ys \<le> length buf"
  shows "copy_at (copy_at buf i xs) (i + length xs) ys = copy_at buf i (xs @ ys)"
proof -
  have "take (i + length xs) (copy_at buf i xs) = take i buf @ xs"
    using assms by (intro take_copy_at) simp
  moreover have "drop (i + length xs + length ys) (copy_at buf i xs) = drop (i + length xs + length ys) buf"
    using assms by (intro drop_copy_at) simp_all
  ultimately show ?thesis by (simp add: copy_at_def[of _ "i + length xs"] copy_at_def[of buf] add.assoc)
qed

lemma copy_at_nil [simp]: "copy_at buf i [] = buf"
  by (simp add: copy_at_def)

lemma cursor_writes_all:
  assumes "list_all2 cursor_writes es bss"
  shows "cursor_writes (enc_all es) (concat bss)"
  using assms
proof (induction rule: list_all2_induct)
  case Nil
  then show ?case by (auto simp: cursor_writes_def)
next
  case (Cons e es bs bss)
  show ?case
    unfolding cursor_writes_def
  proof (intro allI impI)
    fix buf :: "u8 list" and pos assume pos: "pos \<le> length buf"
    obtain buf' pos' where e: "length buf' = length buf" "pos' \<le> length buf"
      "e (buf, pos) = (if pos + length bs \<le> length buf
        then ((copy_at buf pos bs, pos + length bs), Inr ()) else ((buf', pos'), Inl Write_Error))"
      using Cons(1) pos unfolding cursor_writes_def by blast
    show "\<exists>buf' pos'. length buf' = length buf \<and> pos' \<le> length buf \<and>
      enc_all (e # es) (buf, pos) = (if pos + length (concat (bs # bss)) \<le> length buf
        then ((copy_at buf pos (concat (bs # bss)), pos + length (concat (bs # bss))), Inr ())
        else ((buf', pos'), Inl Write_Error))"
    proof (cases "pos + length bs \<le> length buf")
      case False
      then show ?thesis using e pos by (intro exI[of _ buf'] exI[of _ pos']) auto
    next
      case True
      then have len: "length (copy_at buf pos bs) = length buf" by (rule length_copy_at)
      obtain b p where "length b = length buf" "p \<le> length buf"
        "enc_all es (copy_at buf pos bs, pos + length bs) =
         (if pos + length bs + length (concat bss) \<le> length buf
          then ((copy_at (copy_at buf pos bs) (pos + length bs) (concat bss), pos + length bs + length (concat bss)), Inr ())
          else ((b, p), Inl Write_Error))"
        using Cons(3) True len unfolding cursor_writes_def by metis
      then show ?thesis
        using True by (intro exI[of _ b] exI[of _ p]) (auto simp: e(3) copy_at_copy_at add.assoc)
    qed
  qed
qed

lemma cursor_writes_item:
  assumes "cbor_documented mc"
  shows "cursor_writes (enc_item mc (mc_cursor_write mc) it) (item_bytes mc it)"
proof -
  obtain chunks where c: "mc_item mc it = Some chunks" using cbor_documentedD(1)[OF assms] by blast
  have "list_all2 cursor_writes (map (enc_raw (mc_cursor_write mc)) chunks) chunks"
    using cursor_writes_raw[OF assms] by (simp add: list_all2_conv_all_nth)
  from cursor_writes_all[OF this] have "cursor_writes (enc_all (map (enc_raw (mc_cursor_write mc)) chunks)) (concat chunks)" .
  moreover have "enc_item mc (mc_cursor_write mc) it = enc_all (map (enc_raw (mc_cursor_write mc)) chunks)"
    by (rule ext) (simp add: enc_item_def c)
  ultimately show ?thesis by (simp add: item_bytes_def c)
qed

section \<open>The whole message\<close>

text \<open>The bytes of a COSE_Sign1 message.\<close>

definition sign1_bytes :: "minicbor \<Rightarrow> 's cose_sign1 \<Rightarrow> u8 list \<Rightarrow> u8 list \<Rightarrow> u8 list" where
  "sign1_bytes mc c payload_bstr signature_bytes =
    (if omit_cbor_tag (cs_option_flags c) then [] else [0xd2]) @ [0x84] @
    cbor_bstr PROTECTED_HEADERS_ES256 @
    (case cs_key_id c of
       None \<Rightarrow> [0xa0]
     | Some kid \<Rightarrow> [0xa1] @ item_bytes mc (IU8 4) @ cbor_bstr kid) @
    (if detached_payload (cs_option_flags c) then item_bytes mc INull else payload_bstr) @
    cbor_bstr signature_bytes"

lemma encode_sign1_writes:
  assumes mc: "cbor_documented mc" and sg: "length sg < 4294967296"
    and kid: "\<forall>k. cs_key_id c = Some k \<longrightarrow> length k < 4294967296"
  shows "cursor_writes (encode_sign1 mc c payload sg) (sign1_bytes mc c payload sg)"
proof -
  have nums: "item_bytes mc (ITag CBOR_TAG_COSE_SIGN1) = [0xd2]" "item_bytes mc (IArray 4) = [0x84]"
    "item_bytes mc (IMap 1) = [0xa1]" "item_bytes mc (IMap 0) = [0xa0]"
    by (simp_all add: cbor_documentedD(4-6)[OF mc] CBOR_TAG_COSE_SIGN1_def rfc_head_def)
  have strs: "item_bytes mc (IBytes PROTECTED_HEADERS_ES256) = cbor_bstr PROTECTED_HEADERS_ES256"
    "item_bytes mc (IBytes sg) = cbor_bstr sg"
    "\<And>k. cs_key_id c = Some k \<Longrightarrow> item_bytes mc (IBytes k) = cbor_bstr k"
    using sg kid by (simp_all add: cbor_documentedD(7)[OF mc] PROTECTED_HEADERS_ES256_def)
  define bss where "bss =
    (if omit_cbor_tag (cs_option_flags c) then [] else [[0xd2]]) @
    [[0x84], cbor_bstr PROTECTED_HEADERS_ES256] @
    (case cs_key_id c of Some kid \<Rightarrow> [[0xa1], item_bytes mc (IU8 4), cbor_bstr kid] | None \<Rightarrow> [[0xa0]]) @
    [if detached_payload (cs_option_flags c) then item_bytes mc INull else payload, cbor_bstr sg]"
  note w = cursor_writes_item[OF mc, of "ITag CBOR_TAG_COSE_SIGN1", unfolded nums]
    cursor_writes_item[OF mc, of "IArray 4", unfolded nums]
    cursor_writes_item[OF mc, of "IMap 0", unfolded nums]
    cursor_writes_item[OF mc, of "IMap 1", unfolded nums]
    cursor_writes_item[OF mc, of "IBytes PROTECTED_HEADERS_ES256", unfolded strs(1)]
    cursor_writes_item[OF mc, of "IBytes sg", unfolded strs(2)]
    cursor_writes_item[OF mc, of "IU8 4"] cursor_writes_item[OF mc, of INull] cursor_writes_raw[OF mc]
  have k: "cursor_writes (enc_item mc (mc_cursor_write mc) (IBytes k)) (cbor_bstr k)" if "cs_key_id c = Some k" for k
    using cursor_writes_item[OF mc, of "IBytes k"] by (simp add: strs(3)[OF that])
  have "cursor_writes (encode_sign1 mc c payload sg) (concat bss)"
    unfolding encode_sign1_def Let_def
    by (rule cursor_writes_all)
      (auto simp: bss_def w k cose_header_kid_def list_all2_append split: option.splits)
  moreover have "concat bss = sign1_bytes mc c payload sg"
    by (simp add: bss_def sign1_bytes_def split: option.splits)
  ultimately show ?thesis by simp
qed

lemma encode_from_payload_core:
  assumes mc: "cbor_documented mc" and p: "length p < 4294967296" "payload = cbor_bstr p" "length payload < 4294967296"
    and aad: "length (cs_external_aad c) < 4294967296" and kid: "\<forall>k. cs_key_id c = Some k \<longrightarrow> length k < 4294967296"
    and small: "length (sig_bytes PROTECTED_HEADERS_ES256 (cs_external_aad c) payload) \<le> 700"
    and h: "hash_sha256 (cs_crypto c) (sig_bytes PROTECTED_HEADERS_ES256 (cs_external_aad c) payload) s = (s1, Inr d)"
    and sg: "sign_es256_prehash (cs_crypto c) d s1 = (s2, Inr sg)" "length sg < 4294967296"
  defines "B \<equiv> sign1_bytes mc c payload sg"
  shows "\<exists>out'. length out' = length out \<and>
    (length B \<le> length out \<longrightarrow> out' = B @ drop (length B) out) \<and>
    encode_from_payload_bstr mc c payload out s = (s2, out',
      if length B \<le> length out
      then Inr \<lparr>encoded_len = length B, payload_is_detached = detached_payload (cs_option_flags c)\<rparr>
      else Inl CoseBufferTooSmall)"
proof -
  have v: "validate_payload_bstr mc payload = Inr ()"
    using cbor_documentedD(9)[OF mc p(1)] by (simp add: validate_payload_bstr_def p(2))
  have hs: "hash_sig_structure (cs_crypto c) PROTECTED_HEADERS_ES256 (cs_external_aad c) payload s = (s1, Inr d)"
    using hash_sig_structure_core[of PROTECTED_HEADERS_ES256 "cs_external_aad c" payload "cs_crypto c" s]
      aad p(3) small h by (simp add: PROTECTED_HEADERS_ES256_def)
  obtain buf' pos' where e: "length buf' = length out"
    "encode_sign1 mc c payload sg (out, 0) = (if 0 + length B \<le> length out
        then ((copy_at out 0 B, 0 + length B), Inr ()) else ((buf', pos'), Inl Write_Error))"
    using encode_sign1_writes[OF mc sg(2) kid, of payload] unfolding cursor_writes_def B_def by blast
  show ?thesis
  proof (cases "length B \<le> length out")
    case True
    then show ?thesis
      by (intro exI[of _ "copy_at out 0 B"])
        (simp add: encode_from_payload_bstr_def v hs sg(1) e(2) length_copy_at copy_at_def)
  next
    case False
    then show ?thesis
      using e(1) by (intro exI[of _ buf'])
        (simp add: encode_from_payload_bstr_def v hs sg(1) e(2) cose_error_from_def)
  qed
qed

section \<open>A library that is as documented\<close>

definition rfc_item :: "cbor_item \<Rightarrow> u8 list list" where
  "rfc_item it =
    (case it of
       ITag t \<Rightarrow> [rfc_head 6 (unat t)]
     | IArray n \<Rightarrow> [rfc_head 4 (unat n)]
     | IMap n \<Rightarrow> [rfc_head 5 (unat n)]
     | INull \<Rightarrow> [[0xf6]]
     | IU8 x \<Rightarrow> [rfc_head 0 (unat x)]
     | II32 x \<Rightarrow> [if x <s 0 then rfc_head 1 (unat (NOT x)) else rfc_head 0 (unat x)]
     | IU64 x \<Rightarrow> [rfc_head 0 (unat x)]
     | II64 x \<Rightarrow> [if x <s 0 then rfc_head 1 (unat (NOT x)) else rfc_head 0 (unat x)]
     | IBytes bs \<Rightarrow> [rfc_head 2 (length bs)] @ (if length bs < 4294967296 then [bs] else [])
     | IStr bs \<Rightarrow> [rfc_head 3 (length bs)] @ (if length bs < 4294967296 then [bs] else []))"

definition rfc_cbor :: minicbor where
  "rfc_cbor =
    \<lparr>mc_item = (\<lambda>it. Some (rfc_item it)),
     mc_cursor_write = (\<lambda>(buf, pos) bs. if pos + length bs \<le> length buf
       then ((copy_at buf pos bs, pos + length bs), True) else ((buf, pos), False)),
     mc_decode_bytes = (\<lambda>bs.
       if list_ex (\<lambda>n. bs = rfc_head 2 n @ drop (head_len n) bs \<and> head_len n + n = length bs) [0..<length bs]
       then Some (length bs) else None)\<rparr>"

lemma rfc_cbor_documented: "cbor_documented rfc_cbor"
proof -
  have ne: "rfc_head m n \<noteq> []" for m n by (simp add: rfc_head_def)
  have lt: "head_len n < 4294967296" for n by (simp add: head_len_def)
  have item: "item_bytes rfc_cbor it = concat (rfc_item it)" for it
    by (simp add: item_bytes_def rfc_cbor_def)
  have "list_ex (\<lambda>n. cbor_bstr bs = rfc_head 2 n @ drop (head_len n) (cbor_bstr bs) \<and>
      head_len n + n = length (cbor_bstr bs)) [0..<length (cbor_bstr bs)]" for bs
    unfolding list_ex_iff
    by (rule bexI[of _ "length bs"]) (simp_all add: cbor_bstr_def head_len_def)
  then have dec: "mc_decode_bytes rfc_cbor (cbor_bstr bs) = Some (length (cbor_bstr bs))" for bs
    by (simp add: rfc_cbor_def)
  have ne': "item_bytes rfc_cbor it \<noteq> []" for it
    unfolding item by (cases it) (simp_all add: rfc_item_def ne)
  have sm: "\<forall>c\<in>set (rfc_item it). length c < 4294967296" for it
    by (cases it) (simp_all add: rfc_item_def lt)
  have some: "mc_item rfc_cbor it = Some (rfc_item it)" for it by (simp add: rfc_cbor_def)
  have wr: "mc_cursor_write rfc_cbor (buf, pos) bs = (if pos + length bs \<le> length buf
       then ((copy_at buf pos bs, pos + length bs), True) else ((buf, pos), False))" for buf pos bs
    by (simp add: rfc_cbor_def)
  show ?thesis
    unfolding cbor_documented_def
    using ne' sm by (simp add: dec wr some) (simp add: item rfc_item_def cbor_bstr_def)
qed

end
