(* ===== verification/PsaTypes.thy ===== *)
theory PsaTypes
  imports Prelude
begin

text \<open>
  The wire vocabulary of the PSA interface crate: status codes (status.rs), service handles,
  the packed control parameter, the iovec descriptors and the packed crypto header (types.rs).
\<close>

section \<open>Status codes\<close>

text \<open>The enum StatusCode; the source writes the first constructor with an underscore.\<close>

datatype status_code =
    Success
  | ProgrammerError
  | ConnectionRefused
  | ConnectionBusy
  | GenericError
  | NotPermitted
  | NotSupported
  | InvalidArgument
  | InvalidHandle
  | BadState
  | BufferTooSmall
  | AlreadyExists
  | DoesNotExist
  | InsufficientMemory
  | InsufficientStorage
  | InsufficientData
  | ServiceFailure
  | CommunicationFailure
  | StorageFailure
  | HardwareFailure
  | InvalidSignature
  | CorruptionDetected
  | DataCorrupt
  | DataInvalid
  | OperationIncomplete

primrec status_value :: "status_code \<Rightarrow> isize" where
  "status_value Success = 0"
| "status_value ProgrammerError = - 129"
| "status_value ConnectionRefused = - 130"
| "status_value ConnectionBusy = - 131"
| "status_value GenericError = - 132"
| "status_value NotPermitted = - 133"
| "status_value NotSupported = - 134"
| "status_value InvalidArgument = - 135"
| "status_value InvalidHandle = - 136"
| "status_value BadState = - 137"
| "status_value BufferTooSmall = - 138"
| "status_value AlreadyExists = - 139"
| "status_value DoesNotExist = - 140"
| "status_value InsufficientMemory = - 141"
| "status_value InsufficientStorage = - 142"
| "status_value InsufficientData = - 143"
| "status_value ServiceFailure = - 144"
| "status_value CommunicationFailure = - 145"
| "status_value StorageFailure = - 146"
| "status_value HardwareFailure = - 147"
| "status_value InvalidSignature = - 149"
| "status_value CorruptionDetected = - 151"
| "status_value DataCorrupt = - 152"
| "status_value DataInvalid = - 153"
| "status_value OperationIncomplete = - 248"

definition status_try_from :: "isize \<Rightarrow> isize + status_code" where
  "status_try_from s =
    (if s = 0 then Inr Success
    else if s = - 129 then Inr ProgrammerError
    else if s = - 130 then Inr ConnectionRefused
    else if s = - 131 then Inr ConnectionBusy
    else if s = - 132 then Inr GenericError
    else if s = - 133 then Inr NotPermitted
    else if s = - 134 then Inr NotSupported
    else if s = - 135 then Inr InvalidArgument
    else if s = - 136 then Inr InvalidHandle
    else if s = - 137 then Inr BadState
    else if s = - 138 then Inr BufferTooSmall
    else if s = - 139 then Inr AlreadyExists
    else if s = - 140 then Inr DoesNotExist
    else if s = - 141 then Inr InsufficientMemory
    else if s = - 142 then Inr InsufficientStorage
    else if s = - 143 then Inr InsufficientData
    else if s = - 144 then Inr ServiceFailure
    else if s = - 145 then Inr CommunicationFailure
    else if s = - 146 then Inr StorageFailure
    else if s = - 147 then Inr HardwareFailure
    else if s = - 149 then Inr InvalidSignature
    else if s = - 151 then Inr CorruptionDetected
    else if s = - 152 then Inr DataCorrupt
    else if s = - 153 then Inr DataInvalid
    else if s = - 248 then Inr OperationIncomplete
    else Inl s)"

text \<open>TryFrom for usize casts to the signed integer of the same width: the same bits.\<close>

definition status_try_from_usize :: "usize \<Rightarrow> isize + status_code" where
  "status_try_from_usize s = status_try_from (scast s)"

definition into_psa_status :: "status_code + unit \<Rightarrow> isize" where
  "into_psa_status r = (case r of Inr _ \<Rightarrow> status_value Success | Inl e \<Rightarrow> status_value e)"

type_synonym 'a res = "status_code + 'a"

lemma status_value_inj: "status_value a = status_value b \<Longrightarrow> a = b"
  by (cases a; cases b) simp_all

lemma status_value_inject [simp]: "status_value a = status_value b \<longleftrightarrow> a = b"
  using status_value_inj by blast

lemma status_value_zero_iff [simp]: "status_value a = 0 \<longleftrightarrow> a = Success"
  by (cases a) simp_all

lemma status_try_from_value [simp]: "status_try_from (status_value c) = Inr c"
  by (cases c) (simp_all add: status_try_from_def)

lemma status_try_from_usize_value [simp]: "status_try_from_usize (status_value c) = Inr c"
  by (simp add: status_try_from_usize_def)

lemma status_try_from_InrD: "status_try_from s = Inr c \<Longrightarrow> s = status_value c"
  by (auto simp: status_try_from_def split: if_splits)

lemma status_try_from_InlD: "status_try_from s = Inl e \<Longrightarrow> e = s"
  by (auto simp: status_try_from_def split: if_splits)

lemma status_value_negative: "c \<noteq> Success \<Longrightarrow> status_value c <s 0"
  by (cases c) (simp_all add: word_sless_alt)

text \<open>The order of the status codes is the order of their wire values, most negative first.\<close>

instantiation status_code :: linorder
begin
definition less_eq_status_code :: "status_code \<Rightarrow> status_code \<Rightarrow> bool" where
  "less_eq_status_code a b \<longleftrightarrow> sint (status_value a) \<le> sint (status_value b)"
definition less_status_code :: "status_code \<Rightarrow> status_code \<Rightarrow> bool" where
  "less_status_code a b \<longleftrightarrow> sint (status_value a) < sint (status_value b)"
instance
proof
  fix a b c :: status_code
  show "(a < b) = (a \<le> b \<and> \<not> b \<le> a)"
    by (auto simp: less_eq_status_code_def less_status_code_def)
  show "a \<le> a" by (simp add: less_eq_status_code_def)
  show "a \<le> c" if "a \<le> b" "b \<le> c" using that by (simp add: less_eq_status_code_def)
  show "a = b" if "a \<le> b" "b \<le> a"
  proof -
    from that have "sint (status_value a) = sint (status_value b)"
      by (simp add: less_eq_status_code_def)
    then have "status_value a = status_value b" by (rule signed_word_eqI)
    then show ?thesis by simp
  qed
  show "a \<le> b \<or> b \<le> a" by (auto simp: less_eq_status_code_def)
qed
end

lemma Success_is_max: "(c::status_code) \<le> Success"
  by (cases c) (simp_all add: less_eq_status_code_def)

section \<open>Service handles\<close>

datatype service_handle = InternalTrustedStorageService | Crypto | AttestationService

primrec service_handle_value :: "service_handle \<Rightarrow> u32" where
  "service_handle_value InternalTrustedStorageService = 0x40000102"
| "service_handle_value Crypto = 0x40000100"
| "service_handle_value AttestationService = 0x40000103"

definition service_handle_try_from :: "u32 \<Rightarrow> unit + service_handle" where
  "service_handle_try_from v =
    (if v = service_handle_value Crypto then Inr Crypto
    else if v = service_handle_value InternalTrustedStorageService
      then Inr InternalTrustedStorageService
    else if v = service_handle_value AttestationService then Inr AttestationService
    else Inl ())"

lemma service_handle_try_from_value [simp]:
  "service_handle_try_from (service_handle_value h) = Inr h"
  by (cases h) (simp_all add: service_handle_try_from_def)

lemma service_handle_try_from_InrD:
  "service_handle_try_from v = Inr h \<Longrightarrow> v = service_handle_value h"
  by (auto simp: service_handle_try_from_def split: if_splits)

lemma service_handle_value_inject [simp]:
  "service_handle_value a = service_handle_value b \<longleftrightarrow> a = b"
  by (cases a; cases b) simp_all

definition PSA_FRAMEWORK_VERSION :: u32 where "PSA_FRAMEWORK_VERSION = 0x0100"

datatype attestation_service_type = GetToken | GetTokenSize

primrec attestation_service_value :: "attestation_service_type \<Rightarrow> u16" where
  "attestation_service_value GetToken = 1001"
| "attestation_service_value GetTokenSize = 1002"

datatype crypto_service_type = SignHash

primrec crypto_service_value :: "crypto_service_type \<Rightarrow> u16" where
  "crypto_service_value SignHash = 1"

section \<open>I/O vectors\<close>

record ffi_vec =
  iov_base :: usize
  iov_len :: usize

text \<open>FFInVec and FFOutVec have the same two fields, a pointer and a length.\<close>

type_synonym FFInVec = ffi_vec
type_synonym FFOutVec = ffi_vec

section \<open>Control parameter\<close>

datatype ctrl_param = CtrlParam (ctrl_bits: u32)

definition NS_VEC_DESC_BIT :: u32 where "NS_VEC_DESC_BIT = 0x80000000"

definition ctrl_new :: "u16 \<Rightarrow> u8 \<Rightarrow> bool \<Rightarrow> u8 \<Rightarrow> bool \<Rightarrow> ctrl_param" where
  "ctrl_new type in_len in_ns out_len out_ns =
    (let val = (ucast type :: u32) AND 0xFFFF;
         val = val OR (push_bit 24 (ucast in_len) AND 0x07000000);
         val = val OR (push_bit 16 (ucast out_len) AND 0x00070000);
         val = (if in_ns then val OR 0x08000000 else val);
         val = (if out_ns then val OR 0x00080000 else val)
     in CtrlParam val)"

text \<open>The low half word read back as a signed 16-bit integer and sign-extended.\<close>

definition unpack_type :: "ctrl_param \<Rightarrow> u32" where
  "unpack_type c =
    (let bytes = le_bytes32 (ctrl_bits c)
     in scast (from_le_bytes [bytes ! 0, bytes ! 1] :: u16))"

definition has_iovec :: "ctrl_param \<Rightarrow> bool" where
  "has_iovec c \<longleftrightarrow> ctrl_bits c AND NOT 0xFFFF \<noteq> 0"

definition set_ns_vec :: "ctrl_param \<Rightarrow> ctrl_param" where
  "set_ns_vec c = CtrlParam (ctrl_bits c OR NS_VEC_DESC_BIT)"

definition is_ns_vec :: "ctrl_param \<Rightarrow> bool" where
  "is_ns_vec c \<longleftrightarrow> ctrl_bits c AND NS_VEC_DESC_BIT \<noteq> 0"

definition is_ns_ivec :: "ctrl_param \<Rightarrow> bool" where
  "is_ns_ivec c \<longleftrightarrow> ctrl_bits c AND 0x08000000 \<noteq> 0"

definition is_ns_ovec :: "ctrl_param \<Rightarrow> bool" where
  "is_ns_ovec c \<longleftrightarrow> ctrl_bits c AND 0x00080000 \<noteq> 0"

definition ctrl_in_len :: "ctrl_param \<Rightarrow> usize" where
  "ctrl_in_len c = drop_bit 24 (ctrl_bits c) AND 7"

definition ctrl_out_len :: "ctrl_param \<Rightarrow> usize" where
  "ctrl_out_len c = drop_bit 16 (ctrl_bits c) AND 7"

lemma and_single_bit: "(w::u32) AND 2 ^ n \<noteq> 0 \<longleftrightarrow> bit w n"
  by (metis and_exp_eq_0_iff_not_bit)

lemma and_7_bits: "(w::u32) AND 7 = take_bit 3 w"
  by (simp add: take_bit_eq_mask mask_eq_exp_minus_1)

lemma bit_numerals:
  "bit (7::u32) n \<longleftrightarrow> n < 3"
  "bit (0xFFFF::u32) n \<longleftrightarrow> n < 16"
  "bit (0x07000000::u32) n \<longleftrightarrow> 24 \<le> n \<and> n < 27"
  "bit (0x00070000::u32) n \<longleftrightarrow> 16 \<le> n \<and> n < 19"
  "bit (0x08000000::u32) n \<longleftrightarrow> n = 27"
  "bit (0x00080000::u32) n \<longleftrightarrow> n = 19"
  "bit (0x80000000::u32) n \<longleftrightarrow> n = 31"
proof -
  show "bit (7::u32) n \<longleftrightarrow> n < 3"
    using bit_field[of "7::u32" 0 3 n] by (simp add: mask_eq_exp_minus_1)
  show "bit (0xFFFF::u32) n \<longleftrightarrow> n < 16"
    using bit_field[of "0xFFFF::u32" 0 16 n] by (simp add: mask_eq_exp_minus_1)
  show "bit (0x07000000::u32) n \<longleftrightarrow> 24 \<le> n \<and> n < 27"
    using bit_field[of "0x07000000::u32" 24 3 n]
    by (simp add: mask_eq_exp_minus_1 push_bit_eq_mult)
  show "bit (0x00070000::u32) n \<longleftrightarrow> 16 \<le> n \<and> n < 19"
    using bit_field[of "0x00070000::u32" 16 3 n]
    by (simp add: mask_eq_exp_minus_1 push_bit_eq_mult)
  show "bit (0x08000000::u32) n \<longleftrightarrow> n = 27"
    using bit_field[of "0x08000000::u32" 27 1 n]
    by (simp add: mask_eq_exp_minus_1 push_bit_eq_mult) arith
  show "bit (0x00080000::u32) n \<longleftrightarrow> n = 19"
    using bit_field[of "0x00080000::u32" 19 1 n]
    by (simp add: mask_eq_exp_minus_1 push_bit_eq_mult) arith
  show "bit (0x80000000::u32) n \<longleftrightarrow> n = 31"
    using bit_field[of "0x80000000::u32" 31 1 n]
    by (simp add: mask_eq_exp_minus_1 push_bit_eq_mult) arith
qed

lemma bit_ctrl_new:
  "bit (ctrl_bits (ctrl_new t i ins out os)) n \<longleftrightarrow>
    bit t n \<or> (24 \<le> n \<and> n < 27 \<and> bit i (n - 24)) \<or>
    (16 \<le> n \<and> n < 19 \<and> bit out (n - 16)) \<or> (n = 27 \<and> ins) \<or> (n = 19 \<and> os)"
proof -
  have t: "bit t n \<Longrightarrow> n < 16" by (drule bit_imp_le_length) simp
  have b: "bit i j \<Longrightarrow> j < 8" "bit out j \<Longrightarrow> j < 8" for j
    by (drule bit_imp_le_length, simp)+
  have v: "ctrl_bits (ctrl_new t i ins out os) =
      (ucast t AND 0xFFFF) OR (push_bit 24 (ucast i) AND 0x07000000)
      OR (push_bit 16 (ucast out) AND 0x00070000)
      OR (if ins then 0x08000000 else 0) OR (if os then 0x00080000 else 0)"
    by (cases ins; cases os) (simp_all add: ctrl_new_def Let_def or.assoc)
  have if_bit: "bit (if P then w else 0) n \<longleftrightarrow> P \<and> bit w n" for P and w :: u32
    by simp
  have p: "bit (push_bit 24 (ucast i :: u32)) n \<longleftrightarrow> 24 \<le> n \<and> n < 32 \<and> bit i (n - 24)"
    "bit (push_bit 16 (ucast out :: u32)) n \<longleftrightarrow> 16 \<le> n \<and> n < 32 \<and> bit out (n - 16)"
    "bit (ucast t :: u32) n \<longleftrightarrow> bit t n"
    using t b[of "n - 24"] b[of "n - 16"] by (auto simp: bit_push_bit_iff bit_ucast_iff)
  show ?thesis
    unfolding v bit_or_iff bit_and_iff if_bit p bit_numerals using t by auto
qed

lemma is_ns_simps:
  "is_ns_vec c \<longleftrightarrow> bit (ctrl_bits c) 31" "is_ns_ivec c \<longleftrightarrow> bit (ctrl_bits c) 27"
  "is_ns_ovec c \<longleftrightarrow> bit (ctrl_bits c) 19"
  using and_single_bit[of "ctrl_bits c" 31] and_single_bit[of "ctrl_bits c" 27] and_single_bit[of "ctrl_bits c" 19]
  by (simp_all add: is_ns_vec_def is_ns_ivec_def is_ns_ovec_def NS_VEC_DESC_BIT_def)

lemma ctrl_len_new:
  "ctrl_in_len (ctrl_new t i ins out os) = ucast (i AND 7)"
  "ctrl_out_len (ctrl_new t i ins out os) = ucast (out AND 7)"
proof -
  have 7: "bit (7::u8) n \<longleftrightarrow> n < 3" for n
    using bit_field[of "7::u8" 0 3 n] by (simp add: mask_eq_exp_minus_1)
  have t: "bit t n \<Longrightarrow> n < 16" for n by (drule bit_imp_le_length) simp
  have t': "\<not> bit t (24 + n)" "\<not> bit t (16 + n)" for n using t by fastforce+
  show "ctrl_in_len (ctrl_new t i ins out os) = ucast (i AND 7)"
    by (rule bit_word_eqI)
      (use t' in \<open>auto simp: ctrl_in_len_def bit_ctrl_new bit_numerals 7 bit_and_iff
        bit_drop_bit_eq bit_ucast_iff\<close>)
  show "ctrl_out_len (ctrl_new t i ins out os) = ucast (out AND 7)"
    by (rule bit_word_eqI)
      (use t' in \<open>auto simp: ctrl_out_len_def bit_ctrl_new bit_numerals 7 bit_and_iff
        bit_drop_bit_eq bit_ucast_iff\<close>)
qed

lemma ctrl_len_bound: "unat (ctrl_in_len c) \<le> 7" "unat (ctrl_out_len c) \<le> 7"
  using and_mask_bound[of "drop_bit 24 (ctrl_bits c)" 3] and_mask_bound[of "drop_bit 16 (ctrl_bits c)" 3]
  by (simp_all add: ctrl_in_len_def ctrl_out_len_def mask_eq_exp_minus_1)

lemma unpack_type_eq: "unpack_type c = scast (ucast (ctrl_bits c) :: u16)"
proof -
  have "from_le_bytes [le_bytes32 w ! 0, le_bytes32 w ! 1] = (ucast w :: u16)" for w
    by (rule bit_word_eqI) (auto simp: le_bytes32_def bit_simps)
  then show ?thesis by (simp add: unpack_type_def Let_def)
qed

lemma unpack_type_new: "unpack_type (ctrl_new t i ins out os) = scast t"
proof -
  have "(ucast (ctrl_bits (ctrl_new t i ins out os)) :: u16) = t"
    by (rule bit_word_eqI) (auto simp: bit_ctrl_new bit_ucast_iff)
  then show ?thesis by (simp add: unpack_type_eq)
qed

lemma is_ns_new:
  "is_ns_ivec (ctrl_new t i ins out os) = ins"
  "is_ns_ovec (ctrl_new t i ins out os) = os"
  "\<not> is_ns_vec (ctrl_new t i ins out os)"
proof -
  have "bit t n \<Longrightarrow> n < 16" for n by (drule bit_imp_le_length) simp
  then have "\<not> bit t 27" "\<not> bit t 19" "\<not> bit t 31" by fastforce+
  then show "is_ns_ivec (ctrl_new t i ins out os) = ins"
    "is_ns_ovec (ctrl_new t i ins out os) = os" "\<not> is_ns_vec (ctrl_new t i ins out os)"
    by (simp_all add: is_ns_simps bit_ctrl_new)
qed

lemma bit_set_ns_vec: "bit (ctrl_bits (set_ns_vec c)) n \<longleftrightarrow> bit (ctrl_bits c) n \<or> n = 31"
  by (simp add: set_ns_vec_def NS_VEC_DESC_BIT_def bit_or_iff bit_numerals)

lemma set_ns_vec_fields:
  "ctrl_in_len (set_ns_vec c) = ctrl_in_len c" "ctrl_out_len (set_ns_vec c) = ctrl_out_len c"
  "unpack_type (set_ns_vec c) = unpack_type c" "is_ns_vec (set_ns_vec c)"
proof -
  show "ctrl_in_len (set_ns_vec c) = ctrl_in_len c" "ctrl_out_len (set_ns_vec c) = ctrl_out_len c"
    unfolding ctrl_in_len_def ctrl_out_len_def
    by (rule bit_word_eqI; auto simp: bit_and_iff bit_drop_bit_eq bit_set_ns_vec bit_numerals)+
  have "(ucast (ctrl_bits (set_ns_vec c)) :: u16) = ucast (ctrl_bits c)"
    by (rule bit_word_eqI) (auto simp: bit_ucast_iff bit_set_ns_vec)
  then show "unpack_type (set_ns_vec c) = unpack_type c" by (simp add: unpack_type_eq)
  show "is_ns_vec (set_ns_vec c)" by (simp add: is_ns_simps bit_set_ns_vec)
qed

section \<open>Packed crypto header\<close>

definition PSA_ALG_SHA_256 :: u32 where "PSA_ALG_SHA_256 = 0x02000009"
definition PSA_ALG_ECDSA_SHA256 :: u32 where "PSA_ALG_ECDSA_SHA256 = 0x06000609"
definition TFM_CRYPTO_HASH_COMPUTE_SID :: u16 where "TFM_CRYPTO_HASH_COMPUTE_SID = 0x0300"
definition TFM_CRYPTO_ASYMMETRIC_SIGN_HASH_SID :: u16 where
  "TFM_CRYPTO_ASYMMETRIC_SIGN_HASH_SID = 0x0702"

record tfm_crypto_aead_pack_input =
  aead_nonce :: "u8 list"
  aead_nonce_length :: u32

record tfm_crypto_pack_iovec =
  pk_key_id :: u32
  pk_alg :: u32
  pk_op_handle :: u32
  pk_ad_length :: u32
  pk_plaintext_length :: u32
  pk_aead_in :: tfm_crypto_aead_pack_input
  pk_function_id :: u16
  pk_step :: u16
  pk_reserved :: "u8 list"
  pk_capacity :: u64

definition pack_iovec_size :: nat where "pack_iovec_size = 56"

definition for_sign_hash :: "u32 \<Rightarrow> u32 \<Rightarrow> tfm_crypto_pack_iovec" where
  "for_sign_hash key_id alg =
    \<lparr>pk_key_id = key_id, pk_alg = alg, pk_op_handle = 0, pk_ad_length = 0,
     pk_plaintext_length = 0,
     pk_aead_in = \<lparr>aead_nonce = replicate 16 0, aead_nonce_length = 0\<rparr>,
     pk_function_id = TFM_CRYPTO_ASYMMETRIC_SIGN_HASH_SID, pk_step = 0,
     pk_reserved = replicate 4 0, pk_capacity = 0\<rparr>"

definition for_hash_compute :: "u32 \<Rightarrow> tfm_crypto_pack_iovec" where
  "for_hash_compute alg =
    \<lparr>pk_key_id = 0, pk_alg = alg, pk_op_handle = 0, pk_ad_length = 0,
     pk_plaintext_length = 0,
     pk_aead_in = \<lparr>aead_nonce = replicate 16 0, aead_nonce_length = 0\<rparr>,
     pk_function_id = TFM_CRYPTO_HASH_COMPUTE_SID, pk_step = 0,
     pk_reserved = replicate 4 0, pk_capacity = 0\<rparr>"

text \<open>
  The repr(C) layout of the header: fields in declaration order, little-endian, 56 bytes with
  no padding (the reserved bytes fill the gap before the 8-aligned capacity).
\<close>

definition pack_iovec_bytes :: "tfm_crypto_pack_iovec \<Rightarrow> u8 list" where
  "pack_iovec_bytes p =
    le_bytes 4 (pk_key_id p) @ le_bytes 4 (pk_alg p) @ le_bytes 4 (pk_op_handle p) @
    le_bytes 4 (pk_ad_length p) @ le_bytes 4 (pk_plaintext_length p) @
    aead_nonce (pk_aead_in p) @ le_bytes 4 (aead_nonce_length (pk_aead_in p)) @
    le_bytes 2 (pk_function_id p) @ le_bytes 2 (pk_step p) @ pk_reserved p @
    le_bytes 8 (pk_capacity p)"

definition field_at :: "u8 list \<Rightarrow> nat \<Rightarrow> nat \<Rightarrow> u8 list" where
  "field_at bs off n = take n (drop off bs)"

definition pack_iovec_of_bytes :: "u8 list \<Rightarrow> tfm_crypto_pack_iovec" where
  "pack_iovec_of_bytes bs =
    \<lparr>pk_key_id = from_le_bytes (field_at bs 0 4), pk_alg = from_le_bytes (field_at bs 4 4),
     pk_op_handle = from_le_bytes (field_at bs 8 4),
     pk_ad_length = from_le_bytes (field_at bs 12 4),
     pk_plaintext_length = from_le_bytes (field_at bs 16 4),
     pk_aead_in = \<lparr>aead_nonce = field_at bs 20 16,
                    aead_nonce_length = from_le_bytes (field_at bs 36 4)\<rparr>,
     pk_function_id = from_le_bytes (field_at bs 40 2),
     pk_step = from_le_bytes (field_at bs 42 2), pk_reserved = field_at bs 44 4,
     pk_capacity = from_le_bytes (field_at bs 48 8)\<rparr>"

definition pack_iovec_wf :: "tfm_crypto_pack_iovec \<Rightarrow> bool" where
  "pack_iovec_wf p \<longleftrightarrow> length (aead_nonce (pk_aead_in p)) = 16 \<and> length (pk_reserved p) = 4"

lemma length_pack_iovec_bytes:
  "pack_iovec_wf p \<Longrightarrow> length (pack_iovec_bytes p) = pack_iovec_size"
  by (simp add: pack_iovec_wf_def pack_iovec_bytes_def pack_iovec_size_def)

lemma pack_iovec_roundtrip:
  "pack_iovec_wf p \<Longrightarrow> pack_iovec_of_bytes (pack_iovec_bytes p) = p"
  by (simp add: pack_iovec_wf_def pack_iovec_bytes_def pack_iovec_of_bytes_def field_at_def
      from_le_bytes_le_bytes)

lemma pack_iovec_wf_builders [simp]:
  "pack_iovec_wf (for_sign_hash k a)" "pack_iovec_wf (for_hash_compute a)"
  by (simp_all add: for_sign_hash_def for_hash_compute_def pack_iovec_wf_def)

section \<open>Properties\<close>

text \<open>The packed control word keeps its parts apart: what new packs is what the accessors read, the
  vector counts modulo eight, the type as a sign-extended 16-bit number, and marking the vectors
  as non-secure descriptors changes neither type nor counts.\<close>

theorem ctrl_word_roundtrip:
  fixes i out :: u8
  shows "unpack_type (ctrl_new t i ins out os) = scast t \<and>
    ctrl_in_len (ctrl_new t i ins out os) = ucast (i AND 7) \<and>
    ctrl_out_len (ctrl_new t i ins out os) = ucast (out AND 7) \<and>
    is_ns_ivec (ctrl_new t i ins out os) = ins \<and> is_ns_ovec (ctrl_new t i ins out os) = os \<and>
    \<not> is_ns_vec (ctrl_new t i ins out os) \<and> is_ns_vec (set_ns_vec (ctrl_new t i ins out os)) \<and>
    unpack_type (set_ns_vec (ctrl_new t i ins out os)) = scast t \<and>
    ctrl_in_len (set_ns_vec (ctrl_new t i ins out os)) = ucast (i AND 7) \<and>
    ctrl_out_len (set_ns_vec (ctrl_new t i ins out os)) = ucast (out AND 7)"
  by (simp add: unpack_type_new ctrl_len_new is_ns_new set_ns_vec_fields)

end
