(* ===== verification/Connections.thy ===== *)
theory Connections
  imports PsaTypes
begin

text \<open>
  The data the partition manager keeps about calls in flight: caller attributes, the message
  handed to a service and its sentinel-encoded lengths (spm_api/api.rs), the connection record
  and the fixed-size connection stack (spm/spm.rs).  Indices and counters of the four-slot
  arrays are natural numbers (they never exceed four); addresses and lengths are machine words.
  An uninitialised slot is None; reading one is undefined behaviour in the source and the
  unspecified value here, and the invariant shows it never happens.
\<close>

section \<open>Optional lengths with a sentinel\<close>

datatype maybe_usize = MaybeUsize (raw_usize: usize)

definition NONE_SENTINEL :: usize where "NONE_SENTINEL = usize_max"

definition mu_none :: maybe_usize where "mu_none = MaybeUsize NONE_SENTINEL"

definition mu_some :: "usize \<Rightarrow> maybe_usize" where "mu_some v = MaybeUsize v"

definition mu_is_some :: "maybe_usize \<Rightarrow> bool" where
  "mu_is_some m \<longleftrightarrow> raw_usize m \<noteq> NONE_SENTINEL"

definition mu_is_none :: "maybe_usize \<Rightarrow> bool" where
  "mu_is_none m \<longleftrightarrow> raw_usize m = NONE_SENTINEL"

definition mu_as_option :: "maybe_usize \<Rightarrow> usize option" where
  "mu_as_option m = (if mu_is_some m then Some (raw_usize m) else None)"

definition mu_unwrap_or :: "maybe_usize \<Rightarrow> usize \<Rightarrow> usize" where
  "mu_unwrap_or m d = (if mu_is_some m then raw_usize m else d)"

definition mu_from :: "usize option \<Rightarrow> maybe_usize" where
  "mu_from opt = (case opt of None \<Rightarrow> mu_none | Some v \<Rightarrow> mu_some v)"

lemma mu_as_option_simps [simp]:
  "mu_as_option mu_none = None"
  "v \<noteq> NONE_SENTINEL \<Longrightarrow> mu_as_option (mu_some v) = Some v"
  by (simp_all add: mu_as_option_def mu_none_def mu_some_def mu_is_some_def)

lemma mu_unwrap_or_simps [simp]:
  "mu_unwrap_or mu_none d = d"
  "v \<noteq> NONE_SENTINEL \<Longrightarrow> mu_unwrap_or (mu_some v) d = v"
  by (simp_all add: mu_unwrap_or_def mu_none_def mu_some_def mu_is_some_def)

lemma mu_is_none_iff: "mu_is_none m \<longleftrightarrow> \<not> mu_is_some m"
  by (simp add: mu_is_none_def mu_is_some_def)

lemma mu_from_as_option: "mu_from (mu_as_option m) = m"
  by (cases m) (simp add: mu_from_def mu_as_option_def mu_is_some_def mu_none_def mu_some_def)

section \<open>Messages and connections\<close>

definition PSA_MAX_IOVEC :: nat where "PSA_MAX_IOVEC = 4"
definition MAX_CONNECTIONS :: nat where "MAX_CONNECTIONS = 4"

record caller_attributes =
  ca_ns :: bool
  ca_privileged :: bool

definition NS_PRIVILEGED :: caller_attributes where
  "NS_PRIVILEGED = \<lparr>ca_ns = True, ca_privileged = True\<rparr>"
definition NS_UNPRIVILEGED :: caller_attributes where
  "NS_UNPRIVILEGED = \<lparr>ca_ns = True, ca_privileged = False\<rparr>"
definition SECURE_PRIVILEGED :: caller_attributes where
  "SECURE_PRIVILEGED = \<lparr>ca_ns = False, ca_privileged = True\<rparr>"
definition SECURE_UNPRIVILEGED :: caller_attributes where
  "SECURE_UNPRIVILEGED = \<lparr>ca_ns = False, ca_privileged = False\<rparr>"

record psa_msg =
  msg_handle :: service_handle
  msg_type :: u32
  msg_caller :: caller_attributes
  msg_in_size :: "maybe_usize list"
  msg_out_size :: "maybe_usize list"

definition psa_msg_new :: "service_handle \<Rightarrow> u32 \<Rightarrow> caller_attributes \<Rightarrow> psa_msg" where
  "psa_msg_new handle type caller =
    \<lparr>msg_handle = handle, msg_type = type, msg_caller = caller,
     msg_in_size = replicate PSA_MAX_IOVEC mu_none,
     msg_out_size = replicate PSA_MAX_IOVEC mu_none\<rparr>"

record connection =
  cn_msg :: psa_msg
  invec_base :: "usize list"
  invec_accessed :: "usize list"
  invec_mapped :: "bool list"
  invec_unmapped :: "bool list"
  outvec_base :: "usize list"
  outvec_written :: "usize list"
  outvec_mapped :: "bool list"
  outvec_unmapped :: "bool list"

text \<open>Every array of a connection has the length its Rust type gives it.\<close>

definition connection_wf :: "connection \<Rightarrow> bool" where
  "connection_wf c \<longleftrightarrow>
    length (msg_in_size (cn_msg c)) = PSA_MAX_IOVEC \<and>
    length (msg_out_size (cn_msg c)) = PSA_MAX_IOVEC \<and>
    length (invec_base c) = PSA_MAX_IOVEC \<and> length (invec_accessed c) = PSA_MAX_IOVEC \<and>
    length (invec_mapped c) = PSA_MAX_IOVEC \<and> length (invec_unmapped c) = PSA_MAX_IOVEC \<and>
    length (outvec_base c) = PSA_MAX_IOVEC \<and> length (outvec_written c) = PSA_MAX_IOVEC \<and>
    length (outvec_mapped c) = PSA_MAX_IOVEC \<and> length (outvec_unmapped c) = PSA_MAX_IOVEC"

lemma connection_wfD:
  assumes "connection_wf c"
  shows "length (msg_in_size (cn_msg c)) = 4" "length (msg_out_size (cn_msg c)) = 4"
    "length (invec_base c) = 4" "length (invec_accessed c) = 4"
    "length (invec_mapped c) = 4" "length (invec_unmapped c) = 4"
    "length (outvec_base c) = 4" "length (outvec_written c) = 4"
    "length (outvec_mapped c) = 4" "length (outvec_unmapped c) = 4"
  using assms by (simp_all add: connection_wf_def PSA_MAX_IOVEC_def)

section \<open>The connection stack\<close>

datatype spm_error =
    MutexBusy
  | ConnectionStackFull
  | EmptyConnectionStack
  | NoActiveConnection
  | CorruptedConnectionStack

record connection_array =
  connections :: "connection option list"
  present :: "bool list"
  top_connection :: nat

definition ca_new :: connection_array where
  "ca_new = \<lparr>connections = replicate MAX_CONNECTIONS None,
             present = replicate MAX_CONNECTIONS False, top_connection = 0\<rparr>"

definition ca_add_connection ::
    "connection \<Rightarrow> connection_array \<Rightarrow> connection_array \<times> (spm_error + unit)" where
  "ca_add_connection c a =
    (if top_connection a \<ge> MAX_CONNECTIONS then (a, Inl ConnectionStackFull)
     else case list_get (connections a) (top_connection a) of
       None \<Rightarrow> (a, Inl ConnectionStackFull)
     | Some _ \<Rightarrow> (case list_get (present a) (top_connection a) of
         None \<Rightarrow> (a, Inl ConnectionStackFull)
       | Some _ \<Rightarrow>
           (\<lparr>connections = (connections a)[top_connection a := Some c],
             present = (present a)[top_connection a := True],
             top_connection = top_connection a + 1\<rparr>, Inr ())))"

definition ca_take_active ::
    "connection_array \<Rightarrow> connection_array \<times> (spm_error + nat \<times> connection)" where
  "ca_take_active a =
    (if top_connection a = 0 then (a, Inl NoActiveConnection)
     else let index = top_connection a - 1 in
       case list_get (present a) index of
         None \<Rightarrow> (a, Inl CorruptedConnectionStack)
       | Some False \<Rightarrow> (a, Inl CorruptedConnectionStack)
       | Some True \<Rightarrow> (case list_get (connections a) index of
           None \<Rightarrow> (a, Inl CorruptedConnectionStack)
         | Some slot \<Rightarrow>
             (a\<lparr>present := (present a)[index := False]\<rparr>, Inr (index, the slot))))"

definition ca_restore_active ::
    "nat \<Rightarrow> connection \<Rightarrow> connection_array \<Rightarrow> connection_array \<times> (spm_error + unit)" where
  "ca_restore_active index c a =
    (if index \<ge> MAX_CONNECTIONS then (a, Inl CorruptedConnectionStack)
     else case list_get (present a) index of
         None \<Rightarrow> (a, Inl CorruptedConnectionStack)
       | Some True \<Rightarrow> (a, Inl CorruptedConnectionStack)
       | Some False \<Rightarrow> (case list_get (connections a) index of
           None \<Rightarrow> (a, Inl CorruptedConnectionStack)
         | Some _ \<Rightarrow>
             (a\<lparr>connections := (connections a)[index := Some c],
                present := (present a)[index := True]\<rparr>, Inr ())))"

text \<open>Dropping a connection in place has no effect (it is Copy); the slot counts as uninitialised.\<close>

definition ca_pop_connection :: "connection_array \<Rightarrow> connection_array" where
  "ca_pop_connection a =
    (if top_connection a > 0 then
       let index = top_connection a - 1; a = a\<lparr>top_connection := index\<rparr> in
       (case list_get (present a) index of
          Some True \<Rightarrow>
            (let a = (case list_get (connections a) index of
                        None \<Rightarrow> a
                      | Some _ \<Rightarrow> a\<lparr>connections := (connections a)[index := None]\<rparr>)
             in a\<lparr>present := (present a)[index := False]\<rparr>)
        | _ \<Rightarrow> a)
     else a)"

definition ca_peek_active :: "connection_array \<Rightarrow> spm_error + connection" where
  "ca_peek_active a =
    (if top_connection a = 0 then Inl EmptyConnectionStack
     else let index = top_connection a - 1 in
       case list_get (present a) index of
         None \<Rightarrow> Inl CorruptedConnectionStack
       | Some True \<Rightarrow> (case list_get (connections a) index of
           None \<Rightarrow> Inl CorruptedConnectionStack
         | Some slot \<Rightarrow> Inr (the slot))
       | Some False \<Rightarrow> Inl CorruptedConnectionStack)"

section \<open>Invariant and abstract stack\<close>

definition ca_wf :: "connection_array \<Rightarrow> bool" where
  "ca_wf a \<longleftrightarrow>
    length (connections a) = MAX_CONNECTIONS \<and> length (present a) = MAX_CONNECTIONS \<and>
    top_connection a \<le> MAX_CONNECTIONS \<and>
    (\<forall>i<MAX_CONNECTIONS. present a ! i \<longrightarrow>
      i < top_connection a \<and> (\<exists>c. connections a ! i = Some c \<and> connection_wf c))"

text \<open>
  The abstract state: a stack, bottom first, of connections; None marks a connection that is
  on loan to the closure of with_active_connection.
\<close>

definition ca_slot :: "connection_array \<Rightarrow> nat \<Rightarrow> connection option" where
  "ca_slot a i = (if present a ! i then connections a ! i else None)"

definition ca_stack :: "connection_array \<Rightarrow> connection option list" where
  "ca_stack a = map (ca_slot a) [0..<top_connection a]"

lemmas ca_defs = ca_add_connection_def ca_take_active_def ca_restore_active_def
  ca_pop_connection_def ca_peek_active_def

lemmas max_defs = MAX_CONNECTIONS_def PSA_MAX_IOVEC_def

lemma ca_wfD:
  assumes "ca_wf a"
  shows "length (connections a) = 4" "length (present a) = 4" "top_connection a \<le> 4"
    "i < 4 \<Longrightarrow> present a ! i \<Longrightarrow>
      i < top_connection a \<and> (\<exists>c. connections a ! i = Some c \<and> connection_wf c)"
  using assms by (auto simp: ca_wf_def max_defs)

lemma ca_wf_new [simp]: "ca_wf ca_new"
  by (auto simp: ca_wf_def ca_new_def max_defs)

lemma ca_stack_new [simp]: "ca_stack ca_new = []"
  by (simp add: ca_stack_def ca_new_def)

lemma length_ca_stack [simp]: "length (ca_stack a) = top_connection a"
  by (simp add: ca_stack_def)

lemma ca_stack_eqI:
  assumes "top_connection a = length xs" "\<And>i. i < length xs \<Longrightarrow> ca_slot a i = xs ! i"
  shows "ca_stack a = xs"
  using assms by (intro nth_equalityI) (simp_all add: ca_stack_def)

lemma last_ca_stack:
  "top_connection a \<noteq> 0 \<Longrightarrow> last (ca_stack a) = ca_slot a (top_connection a - 1)"
  by (simp add: ca_stack_def last_map last_upt)

lemma ca_slot_wf:
  "ca_wf a \<Longrightarrow> i < 4 \<Longrightarrow> ca_slot a i = Some c \<Longrightarrow> connection_wf c"
  using ca_wfD(4)[of a i] by (auto simp: ca_slot_def split: if_splits)

section \<open>Each operation against the abstract stack\<close>

lemma ca_slot_None_iff:
  "ca_wf a \<Longrightarrow> i < 4 \<Longrightarrow> ca_slot a i = None \<longleftrightarrow> \<not> present a ! i"
  using ca_wfD(4)[of a i] by (auto simp: ca_slot_def)

lemma ca_add_ok:
  assumes "ca_wf a" "connection_wf c" "top_connection a < MAX_CONNECTIONS"
  obtains a' where "ca_add_connection c a = (a', Inr ())" "ca_wf a'"
    "ca_stack a' = ca_stack a @ [Some c]"
proof -
  let ?t = "top_connection a"
  let ?a' = "\<lparr>connections = (connections a)[?t := Some c], present = (present a)[?t := True],
    top_connection = ?t + 1\<rparr>"
  note w = ca_wfD[OF assms(1)]
  have t: "?t < 4" using assms(3) by (simp add: max_defs)
  have "ca_add_connection c a = (?a', Inr ())"
    using w(1,2) t by (simp add: ca_add_connection_def max_defs)
  moreover have "ca_wf ?a'"
    using w assms(2) t unfolding ca_wf_def max_defs
    by (auto simp: nth_list_update less_Suc_eq)
  moreover have "ca_stack ?a' = ca_stack a @ [Some c]"
  proof (rule ca_stack_eqI)
    fix i assume "i < length (ca_stack a @ [Some c])"
    then show "ca_slot ?a' i = (ca_stack a @ [Some c]) ! i"
      using w(1,2) t by (auto simp: ca_slot_def nth_append ca_stack_def nth_list_update less_Suc_eq)
  qed simp
  ultimately show ?thesis by (rule that)
qed

lemma ca_add_full:
  "top_connection a \<ge> MAX_CONNECTIONS \<Longrightarrow> ca_add_connection c a = (a, Inl ConnectionStackFull)"
  by (simp add: ca_add_connection_def)

lemma ca_take_empty: "top_connection a = 0 \<Longrightarrow> ca_take_active a = (a, Inl NoActiveConnection)"
  by (simp add: ca_take_active_def)

lemma ca_take_loaned:
  assumes "ca_wf a" "top_connection a \<noteq> 0" "last (ca_stack a) = None"
  shows "ca_take_active a = (a, Inl CorruptedConnectionStack)"
  using assms ca_wfD[OF assms(1)] ca_slot_None_iff[OF assms(1), of "top_connection a - 1"]
  by (simp add: ca_take_active_def Let_def last_ca_stack)

lemma ca_take_ok:
  assumes "ca_wf a" "top_connection a \<noteq> 0" "last (ca_stack a) = Some c"
  obtains a' where "ca_take_active a = (a', Inr (top_connection a - 1, c))" "ca_wf a'"
    "ca_stack a' = butlast (ca_stack a) @ [None]"
    "a' = a\<lparr>present := (present a)[top_connection a - 1 := False]\<rparr>"
proof -
  let ?i = "top_connection a - 1"
  let ?a' = "a\<lparr>present := (present a)[?i := False]\<rparr>"
  note w = ca_wfD[OF assms(1)]
  have i: "?i < 4" "?i < top_connection a" using w(3) assms(2) by auto
  have p: "present a ! ?i" "connections a ! ?i = Some c"
    using assms(3) by (auto simp: last_ca_stack assms(2) ca_slot_def split: if_splits)
  have "ca_take_active a = (?a', Inr (?i, c))"
    using w(1,2) i p assms(2) by (simp add: ca_take_active_def Let_def)
  moreover have "ca_wf ?a'"
    using w i unfolding ca_wf_def max_defs by (auto simp: nth_list_update)
  moreover have "ca_stack ?a' = butlast (ca_stack a) @ [None]"
  proof (rule ca_stack_eqI)
    fix j assume "j < length (butlast (ca_stack a) @ [None])"
    then show "ca_slot ?a' j = (butlast (ca_stack a) @ [None]) ! j"
      using w i by (auto simp: ca_slot_def nth_append nth_butlast ca_stack_def nth_list_update
          less_Suc_eq)
  qed (use assms(2) in simp)
  ultimately show ?thesis by (rule that[OF _ _ _ refl])
qed

lemma ca_restore_ok:
  assumes "ca_wf a" "connection_wf c" "i < top_connection a" "ca_stack a ! i = None"
  obtains a' where "ca_restore_active i c a = (a', Inr ())" "ca_wf a'"
    "ca_stack a' = (ca_stack a)[i := Some c]"
    "a' = a\<lparr>connections := (connections a)[i := Some c], present := (present a)[i := True]\<rparr>"
proof -
  let ?a' = "a\<lparr>connections := (connections a)[i := Some c], present := (present a)[i := True]\<rparr>"
  note w = ca_wfD[OF assms(1)]
  have i: "i < 4" using w(3) assms(3) by simp
  have "ca_slot a i = None" using assms(3,4) by (simp add: ca_stack_def)
  then have p: "\<not> present a ! i" using ca_slot_None_iff[OF assms(1) i] by simp
  have "ca_restore_active i c a = (?a', Inr ())"
    using w(1,2) i p by (simp add: ca_restore_active_def max_defs)
  moreover have "ca_wf ?a'"
    using w i assms(2,3) unfolding ca_wf_def max_defs by (auto simp: nth_list_update)
  moreover have "ca_stack ?a' = (ca_stack a)[i := Some c]"
  proof (rule ca_stack_eqI)
    fix j assume "j < length ((ca_stack a)[i := Some c])"
    then show "ca_slot ?a' j = (ca_stack a)[i := Some c] ! j"
      using w i by (auto simp: ca_slot_def ca_stack_def nth_list_update)
  qed simp
  ultimately show ?thesis by (rule that[OF _ _ _ refl])
qed

lemma ca_restore_present:
  "i < 4 \<Longrightarrow> ca_wf a \<Longrightarrow> present a ! i \<Longrightarrow>
    ca_restore_active i c a = (a, Inl CorruptedConnectionStack)"
  using ca_wfD(1,2)[of a] by (simp add: ca_restore_active_def max_defs)

lemma ca_pop_refines:
  assumes "ca_wf a"
  shows "ca_wf (ca_pop_connection a)" "ca_stack (ca_pop_connection a) = butlast (ca_stack a)"
proof -
  let ?i = "top_connection a - 1" and ?a' = "ca_pop_connection a"
  note w = ca_wfD[OF assms]
  have a': "?a' = (if top_connection a = 0 then a
      else if present a ! ?i
        then a\<lparr>top_connection := ?i, connections := (connections a)[?i := None],
               present := (present a)[?i := False]\<rparr>
        else a\<lparr>top_connection := ?i\<rparr>)"
    using w(1-3) by (simp add: ca_pop_connection_def Let_def split: bool.split)
  have lt: "top_connection a \<noteq> 0 \<Longrightarrow> i < top_connection a \<longleftrightarrow> i < ?i \<or> i = ?i" for i
    by linarith
  show "ca_wf ?a'"
    using w lt unfolding ca_wf_def a' max_defs by (auto simp: nth_list_update)
  show "ca_stack ?a' = butlast (ca_stack a)"
  proof (rule ca_stack_eqI)
    show "top_connection ?a' = length (butlast (ca_stack a))" by (simp add: a')
    fix j assume "j < length (butlast (ca_stack a))"
    then show "ca_slot ?a' j = butlast (ca_stack a) ! j"
      using w by (auto simp: a' ca_slot_def nth_butlast ca_stack_def nth_list_update)
  qed
qed

text \<open>Reading the active connection: the top of the stack, unless it is empty or on loan.\<close>

definition stack_active :: "connection option list \<Rightarrow> connection option" where
  "stack_active xs = (if xs = [] then None else last xs)"

lemma ca_peek_refines:
  assumes "ca_wf a"
  shows "ok_of (ca_peek_active a) = stack_active (ca_stack a)"
proof (cases "top_connection a = 0")
  case True
  then show ?thesis by (simp add: ca_peek_active_def stack_active_def ca_stack_def)
next
  case False
  then have "ca_stack a \<noteq> []" using length_ca_stack[of a] by force
  moreover have "top_connection a - 1 < 4" using False ca_wfD(3)[OF assms] by simp
  ultimately show ?thesis
    using False ca_wfD(1-3)[OF assms] ca_wfD(4)[OF assms, of "top_connection a - 1"]
    by (auto simp: ca_peek_active_def stack_active_def Let_def last_ca_stack ca_slot_def
        split: bool.split)
qed

lemma ca_take_cases:
  assumes "ca_wf a"
  obtains (empty) "top_connection a = 0" "ca_take_active a = (a, Inl NoActiveConnection)"
  | (loaned) "top_connection a \<noteq> 0" "last (ca_stack a) = None"
      "ca_take_active a = (a, Inl CorruptedConnectionStack)"
  | (taken) c a' where "top_connection a \<noteq> 0" "last (ca_stack a) = Some c"
      "ca_take_active a = (a', Inr (top_connection a - 1, c))" "ca_wf a'"
      "ca_stack a' = butlast (ca_stack a) @ [None]" "connection_wf c"
proof (cases "top_connection a = 0")
  case True
  then show ?thesis using ca_take_empty empty by blast
next
  case False
  show ?thesis
  proof (cases "last (ca_stack a)")
    case None
    then show ?thesis using ca_take_loaned[OF assms False] loaned False by blast
  next
    case (Some c)
    have "connection_wf c"
      using ca_slot_wf[OF assms, of "top_connection a - 1" c] ca_wfD(3)[OF assms] False Some
      by (simp add: last_ca_stack)
    then show ?thesis using ca_take_ok[OF assms False Some] taken False Some by metis
  qed
qed

section \<open>Refinement of the stack\<close>

datatype stack_op = Push connection | Take | Restore nat connection | Pop | Peek

datatype stack_result =
    Done "spm_error + unit"
  | Taken "spm_error + nat \<times> connection"
  | Peeked "connection option"

primrec ca_op :: "stack_op \<Rightarrow> connection_array \<Rightarrow> connection_array \<times> stack_result" where
  "ca_op (Push c) a = map_prod id Done (ca_add_connection c a)"
| "ca_op Take a = map_prod id Taken (ca_take_active a)"
| "ca_op (Restore i c) a = map_prod id Done (ca_restore_active i c a)"
| "ca_op Pop a = (ca_pop_connection a, Done (Inr ()))"
| "ca_op Peek a = (a, Peeked (ok_of (ca_peek_active a)))"

text \<open>The same operations on the abstract stack.\<close>

primrec stack_op_spec ::
    "stack_op \<Rightarrow> connection option list \<Rightarrow> connection option list \<times> stack_result" where
  "stack_op_spec (Push c) xs =
    (if length xs < 4 then (xs @ [Some c], Done (Inr ()))
     else (xs, Done (Inl ConnectionStackFull)))"
| "stack_op_spec Take xs =
    (if xs = [] then (xs, Taken (Inl NoActiveConnection))
     else case last xs of
       None \<Rightarrow> (xs, Taken (Inl CorruptedConnectionStack))
     | Some c \<Rightarrow> (butlast xs @ [None], Taken (Inr (length xs - 1, c))))"
| "stack_op_spec (Restore i c) xs =
    (if xs ! i = None then (xs[i := Some c], Done (Inr ()))
     else (xs, Done (Inl CorruptedConnectionStack)))"
| "stack_op_spec Pop xs = (butlast xs, Done (Inr ()))"
| "stack_op_spec Peek xs = (xs, Peeked (stack_active xs))"

text \<open>What the callers guarantee: well-formed connections, restored where they were taken.\<close>

primrec stack_op_ok :: "stack_op \<Rightarrow> connection option list \<Rightarrow> bool" where
  "stack_op_ok (Push c) xs = connection_wf c"
| "stack_op_ok Take xs = True"
| "stack_op_ok (Restore i c) xs = (i < length xs \<and> connection_wf c)"
| "stack_op_ok Pop xs = True"
| "stack_op_ok Peek xs = True"

fun ca_run :: "stack_op list \<Rightarrow> connection_array \<Rightarrow> connection_array \<times> stack_result list" where
  "ca_run [] a = (a, [])"
| "ca_run (op # ops) a =
    (case ca_op op a of (a, r) \<Rightarrow> (case ca_run ops a of (a, rs) \<Rightarrow> (a, r # rs)))"

fun stack_run ::
    "stack_op list \<Rightarrow> connection option list \<Rightarrow> connection option list \<times> stack_result list" where
  "stack_run [] xs = (xs, [])"
| "stack_run (op # ops) xs =
    (case stack_op_spec op xs of (xs, r) \<Rightarrow> (case stack_run ops xs of (xs, rs) \<Rightarrow> (xs, r # rs)))"

fun stack_ops_ok :: "stack_op list \<Rightarrow> connection option list \<Rightarrow> bool" where
  "stack_ops_ok [] xs = True"
| "stack_ops_ok (op # ops) xs = (stack_op_ok op xs \<and> stack_ops_ok ops (fst (stack_op_spec op xs)))"

lemma ca_op_refines:
  assumes "ca_wf a" "stack_op_ok op (ca_stack a)"
  shows "ca_wf (fst (ca_op op a)) \<and>
    (ca_stack (fst (ca_op op a)), snd (ca_op op a)) = stack_op_spec op (ca_stack a)"
proof (cases op)
  case (Push c)
  show ?thesis
  proof (cases "top_connection a < MAX_CONNECTIONS")
    case True
    obtain a' where "ca_add_connection c a = (a', Inr ())" "ca_wf a'"
      "ca_stack a' = ca_stack a @ [Some c]"
      using ca_add_ok[OF assms(1) _ True] assms(2) Push by auto
    then show ?thesis using Push True by (simp add: MAX_CONNECTIONS_def)
  next
    case False
    then show ?thesis using Push assms(1) by (simp add: ca_add_full not_less MAX_CONNECTIONS_def)
  qed
next
  case Take
  have e: "ca_stack a = [] \<longleftrightarrow> top_connection a = 0" by (metis length_0_conv length_ca_stack)
  show ?thesis
    using assms(1) by (cases rule: ca_take_cases) (use Take e assms(1) in auto)
next
  case (Restore i c)
  have i: "i < top_connection a" "connection_wf c" using assms(2) Restore by simp_all
  then have i4: "i < 4" using ca_wfD(3)[OF assms(1)] by simp
  show ?thesis
  proof (cases "ca_stack a ! i = None")
    case True
    obtain a' where "ca_restore_active i c a = (a', Inr ())" "ca_wf a'"
      "ca_stack a' = (ca_stack a)[i := Some c]"
      using ca_restore_ok[OF assms(1) i(2,1) True] by blast
    then show ?thesis using Restore True by simp
  next
    case False
    then have "ca_slot a i \<noteq> None" using i by (simp add: ca_stack_def)
    then have "present a ! i" using ca_slot_None_iff[OF assms(1) i4] by simp
    then show ?thesis using Restore False assms(1) ca_restore_present[OF i4 assms(1)] by simp
  qed
next
  case Pop
  then show ?thesis using ca_pop_refines[OF assms(1)] by simp
next
  case Peek
  then show ?thesis using ca_peek_refines[OF assms(1)] assms(1) by simp
qed


definition sample_connection :: connection where
  "sample_connection =
    \<lparr>cn_msg = psa_msg_new Crypto 1 NS_UNPRIVILEGED,
     invec_base = replicate 4 0, invec_accessed = replicate 4 0,
     invec_mapped = replicate 4 False, invec_unmapped = replicate 4 False,
     outvec_base = replicate 4 0, outvec_written = replicate 4 0,
     outvec_mapped = replicate 4 False, outvec_unmapped = replicate 4 False\<rparr>"

lemma connection_wf_sample [simp]: "connection_wf sample_connection"
  by (simp add: sample_connection_def connection_wf_def psa_msg_new_def PSA_MAX_IOVEC_def)


end
