(* ===== verification/ConnOps.thy ===== *)
theory ConnOps
  imports Connections
begin

text \<open>
  The request path of the partition manager (spm_api/connection.rs): validation of a call's
  control word and vectors, construction of the connection, and the mapping protocol by which
  a service reads its input vectors and writes its output vectors.  Functions that take the
  SPM object are parameterised by the two halves of with_active_connection (take and restore)
  or by the memory-permission check, exactly the operations they call on it; the locale
  spm_store states what they rely on, and each dispatcher interprets it.
\<close>

section \<open>Access to the active connection\<close>

text \<open>
  with_active_connection of either dispatcher: take the connection off the stack, run the
  closure with the lock released, put it back.  A closure maps the connection and the state to
  their successors and a result.
\<close>

definition with_active ::
    "('s \<Rightarrow> 's \<times> (spm_error + nat \<times> connection)) \<Rightarrow>
     (nat \<Rightarrow> connection \<Rightarrow> 's \<Rightarrow> 's \<times> (spm_error + unit)) \<Rightarrow>
     (connection \<Rightarrow> 's \<Rightarrow> connection \<times> 's \<times> 'r) \<Rightarrow> 's \<Rightarrow> 's \<times> (spm_error + 'r)" where
  "with_active take_op restore_op f s =
    (case take_op s of
       (s, Inl err) \<Rightarrow> (s, Inl err)
     | (s, Inr (index, connection)) \<Rightarrow>
         (case f connection s of (connection, s, result) \<Rightarrow>
            (case restore_op index connection s of
               (s, Inl err) \<Rightarrow> (s, Inl err)
             | (s, Inr _) \<Rightarrow> (s, Inr result))))"

text \<open>The closure with_validated_connection passes on: the message checks, then f.\<close>

definition validated_closure ::
    "service_handle \<Rightarrow> (connection \<Rightarrow> 's \<Rightarrow> connection \<times> 's \<times> 'r res) \<Rightarrow>
     connection \<Rightarrow> 's \<Rightarrow> connection \<times> 's \<times> 'r res" where
  "validated_closure handle f connection s =
    (if service_handle_value (msg_handle (cn_msg connection)) \<noteq> service_handle_value handle
     then (connection, s, Inl InvalidHandle)
     else if msg_type (cn_msg connection) <s 0
     then (connection, s, Inl ProgrammerError)
     else f connection s)"

definition with_validated_connection ::
    "((connection \<Rightarrow> 's \<Rightarrow> connection \<times> 's \<times> 'r res) \<Rightarrow> 's \<Rightarrow> 's \<times> (spm_error + 'r res)) \<Rightarrow>
     service_handle \<Rightarrow> (connection \<Rightarrow> 's \<Rightarrow> connection \<times> 's \<times> 'r res) \<Rightarrow> 's \<Rightarrow> 's \<times> 'r res" where
  "with_validated_connection wa handle f s =
    (case wa (validated_closure handle f) s of
       (s, Inr result) \<Rightarrow> (s, result)
     | (s, Inl _) \<Rightarrow> (s, Inl CommunicationFailure))"

definition with_connection_for_handle ::
    "((connection \<Rightarrow> 's \<Rightarrow> connection \<times> 's \<times> 'r res) \<Rightarrow> 's \<Rightarrow> 's \<times> (spm_error + 'r res)) \<Rightarrow>
     service_handle \<Rightarrow> (connection \<Rightarrow> 's \<Rightarrow> connection \<times> 's \<times> 'r res) \<Rightarrow> 's \<Rightarrow> 's \<times> 'r res" where
  "with_connection_for_handle wa handle f = with_validated_connection wa handle f"

section \<open>Validation of a call\<close>

definition validate_call_params :: "ctrl_param \<Rightarrow> (u32 \<times> usize \<times> usize) res" where
  "validate_call_params ctrl =
    (let mtype = unpack_type ctrl in
     if mtype <s 0 then Inl ProgrammerError
     else if \<not> has_iovec ctrl then Inr (mtype, 0, 0)
     else let ivec_num = ctrl_in_len ctrl; ovec_num = ctrl_out_len ctrl in
       case checked_add ivec_num ovec_num of
         Some n \<Rightarrow>
           if unat n \<le> PSA_MAX_IOVEC then Inr (mtype, ivec_num, ovec_num)
           else Inl ProgrammerError
       | None \<Rightarrow> Inl ProgrammerError)"

definition validate_vec_pointer_shape ::
    "bool \<Rightarrow> usize \<Rightarrow> usize \<Rightarrow> usize \<Rightarrow> usize \<Rightarrow> unit res" where
  "validate_vec_pointer_shape has_iov ivec_num ovec_num in_vec out_vec =
    (if \<not> has_iov then Inr ()
     else if ivec_num > 0 \<and> in_vec = 0 then Inl ProgrammerError
     else if ovec_num > 0 \<and> out_vec = 0 then Inl ProgrammerError
     else Inr ())"

definition overlap_check :: "usize \<Rightarrow> usize \<Rightarrow> ffi_vec \<Rightarrow> unit res" where
  "overlap_check left_base left_end right =
    (let right_base = iov_base right in
     and_then (ok_or (checked_add right_base (iov_len right)) ProgrammerError) (\<lambda>right_end.
       if right_base < left_end \<and> left_base < right_end then Inl ProgrammerError else Inr ()))"

text \<open>The outer loop runs over every vector but the last, the inner one over those after it.\<close>

fun nonoverlap_loop :: "ffi_vec list \<Rightarrow> unit res" where
  "nonoverlap_loop (left_vec # right # rest) =
    (let left_base = iov_base left_vec in
     and_then (ok_or (checked_add left_base (iov_len left_vec)) ProgrammerError) (\<lambda>left_end.
     and_then (check_all (overlap_check left_base left_end) (right # rest)) (\<lambda>_.
     nonoverlap_loop (right # rest))))"
| "nonoverlap_loop _ = Inr ()"

definition validate_invec_payload_nonoverlap :: "ffi_vec list \<Rightarrow> unit res" where
  "validate_invec_payload_nonoverlap in_vecs =
    (if length in_vecs < 2 then Inr () else nonoverlap_loop in_vecs)"

definition validate_pointer_range :: "usize \<Rightarrow> usize \<Rightarrow> unit res" where
  "validate_pointer_range base len =
    (if len = 0 then Inr ()
     else if base = 0 then Inl ProgrammerError
     else if checked_add base len = None then Inl ProgrammerError
     else Inr ())"

text \<open>The permission check of the platform: base, length, write access, caller.\<close>

type_synonym permission = "usize \<Rightarrow> usize \<Rightarrow> bool \<Rightarrow> caller_attributes \<Rightarrow> bool"

definition validate_memory_permission ::
    "permission \<Rightarrow> usize \<Rightarrow> usize \<Rightarrow> bool \<Rightarrow> caller_attributes \<Rightarrow> unit res" where
  "validate_memory_permission perm base len is_write caller =
    (if len = 0 then Inr ()
     else if perm base len is_write caller then Inr ()
     else Inl InvalidArgument)"

text \<open>
  One vector of the loops of call_from_slices: record base and length in the slot, clear the
  progress counter, then validate.  The triple is (sizes in the message, bases, counters).
\<close>

fun load_vecs ::
    "permission \<Rightarrow> bool \<Rightarrow> caller_attributes \<Rightarrow> nat \<Rightarrow> ffi_vec list \<Rightarrow>
     maybe_usize list \<times> usize list \<times> usize list \<Rightarrow>
     (maybe_usize list \<times> usize list \<times> usize list) res" where
  "load_vecs perm is_write caller idx [] acc = Inr acc"
| "load_vecs perm is_write caller idx (v # vs) (sizes, bases, counters) =
    (let bases = list_set bases idx (iov_base v);
         counters = list_set counters idx 0;
         sizes = list_set sizes idx (mu_some (iov_len v))
     in and_then (validate_pointer_range (iov_base v) (iov_len v)) (\<lambda>_.
        and_then (validate_memory_permission perm (iov_base v) (iov_len v) is_write caller) (\<lambda>_.
        load_vecs perm is_write caller (idx + 1) vs (sizes, bases, counters))))"

definition call_from_slices ::
    "permission \<Rightarrow> service_handle \<Rightarrow> ctrl_param \<Rightarrow> ffi_vec list \<Rightarrow> ffi_vec list \<Rightarrow>
     caller_attributes \<Rightarrow> connection res" where
  "call_from_slices perm handle ctrl in_vecs out_vecs caller =
    and_then (validate_call_params ctrl) (\<lambda>(mtype, ivec_num, ovec_num).
    if length in_vecs \<noteq> unat ivec_num \<or> length out_vecs \<noteq> unat ovec_num
    then Inl ProgrammerError
    else
      and_then (validate_invec_payload_nonoverlap in_vecs) (\<lambda>_.
      let msg = psa_msg_new handle mtype caller;
          zeros = replicate PSA_MAX_IOVEC 0 :: usize list;
          flags = replicate PSA_MAX_IOVEC False
      in
      and_then (load_vecs perm False caller 0 in_vecs (msg_in_size msg, zeros, zeros))
        (\<lambda>(in_sizes, ibase, iaccessed).
      and_then (load_vecs perm True caller 0 out_vecs (msg_out_size msg, zeros, zeros))
        (\<lambda>(out_sizes, obase, owritten).
      Inr \<lparr>cn_msg = msg\<lparr>msg_in_size := in_sizes, msg_out_size := out_sizes\<rparr>,
           invec_base = ibase, invec_accessed = iaccessed,
           invec_mapped = flags, invec_unmapped = flags,
           outvec_base = obase, outvec_written = owritten,
           outvec_mapped = flags, outvec_unmapped = flags\<rparr>))))"

section \<open>The mapping protocol on one connection\<close>

definition in_len_of :: "connection \<Rightarrow> nat \<Rightarrow> usize" where
  "in_len_of c index =
    (case list_get (msg_in_size (cn_msg c)) index of None \<Rightarrow> 0 | Some m \<Rightarrow> mu_unwrap_or m 0)"

definition out_len_of :: "connection \<Rightarrow> nat \<Rightarrow> usize" where
  "out_len_of c index =
    (case list_get (msg_out_size (cn_msg c)) index of None \<Rightarrow> 0 | Some m \<Rightarrow> mu_unwrap_or m 0)"

definition prepare_invec ::
    "connection \<Rightarrow> u32 \<Rightarrow> connection \<times> (nat \<times> usize \<times> usize) res" where
  "prepare_invec c invec_idx =
    (let index = unat invec_idx in
     if index \<ge> PSA_MAX_IOVEC then (c, Inl ProgrammerError)
     else
       let in_len = in_len_of c index;
           is_mapped = (case list_get (invec_mapped c) index of Some b \<Rightarrow> b | None \<Rightarrow> True);
           is_accessed = (case list_get (invec_accessed c) index of
                            Some v \<Rightarrow> v \<noteq> 0 | None \<Rightarrow> True)
       in
       if is_mapped \<or> is_accessed then (c, Inl ProgrammerError)
       else case list_get (invec_base c) index of
         None \<Rightarrow> (c, Inl ProgrammerError)
       | Some base \<Rightarrow>
           (c\<lparr>invec_mapped := list_set (invec_mapped c) index True\<rparr>, Inr (index, in_len, base)))"

definition mark_invec_unmapped :: "connection \<Rightarrow> nat \<Rightarrow> connection \<times> unit res" where
  "mark_invec_unmapped c index =
    (case list_get (invec_unmapped c) index of
       None \<Rightarrow> (c, Inl ProgrammerError)
     | Some slot \<Rightarrow>
         if slot then (c, Inl ProgrammerError)
         else (c\<lparr>invec_unmapped := (invec_unmapped c)[index := True]\<rparr>, Inr ()))"

definition prepare_outvec ::
    "connection \<Rightarrow> u32 \<Rightarrow> connection \<times> (nat \<times> usize \<times> usize) res" where
  "prepare_outvec c outvec_idx =
    (let index = unat outvec_idx in
     if index \<ge> PSA_MAX_IOVEC then (c, Inl ProgrammerError)
     else
       let out_len = out_len_of c index;
           is_mapped = (case list_get (outvec_mapped c) index of Some b \<Rightarrow> b | None \<Rightarrow> True);
           is_written = (case list_get (outvec_written c) index of
                           Some v \<Rightarrow> v \<noteq> 0 | None \<Rightarrow> True)
       in
       if is_mapped \<or> is_written then (c, Inl ProgrammerError)
       else case list_get (outvec_base c) index of
         None \<Rightarrow> (c, Inl ProgrammerError)
       | Some base \<Rightarrow>
           (c\<lparr>outvec_mapped := list_set (outvec_mapped c) index True\<rparr>, Inr (index, out_len, base)))"

definition commit_outvec_write ::
    "connection \<Rightarrow> nat \<Rightarrow> usize \<Rightarrow> usize \<Rightarrow> connection \<times> unit res" where
  "commit_outvec_write c out_index out_len written_len =
    (case list_get (outvec_unmapped c) out_index of
       None \<Rightarrow> (c, Inl ProgrammerError)
     | Some unmapped \<Rightarrow>
         if unmapped \<or> written_len > out_len then (c, Inl ProgrammerError)
         else
           (c\<lparr>outvec_written := list_set (outvec_written c) out_index written_len,
              cn_msg := (cn_msg c)\<lparr>msg_out_size :=
                list_set (msg_out_size (cn_msg c)) out_index (mu_some written_len)\<rparr>,
              outvec_unmapped := (outvec_unmapped c)[out_index := True]\<rparr>, Inr ()))"

text \<open>
  The isolated dispatcher's update_vec_mapping on the connection, which its map_vec and unmap_vec
  run after a vector was mapped or released: mapped takes the flag, unmapped its negation, and an
  index out of range is ignored.
\<close>

definition set_vec_mapping :: "bool \<Rightarrow> nat \<Rightarrow> bool \<Rightarrow> connection \<Rightarrow> connection" where
  "set_vec_mapping is_outvec idx mapped conn =
    (if is_outvec then
       conn\<lparr>outvec_mapped := list_set (outvec_mapped conn) idx mapped,
            outvec_unmapped := list_set (outvec_unmapped conn) idx (\<not> mapped)\<rparr>
     else
       conn\<lparr>invec_mapped := list_set (invec_mapped conn) idx mapped,
            invec_unmapped := list_set (invec_unmapped conn) idx (\<not> mapped)\<rparr>)"

text \<open>
  A slice handed to a service closure: its address and its length.  The source hands out the
  empty slice for a zero length, whatever the base; its address is the dangling 1.
\<close>

type_synonym slice = "usize \<times> usize"

definition empty_slice :: slice where "empty_slice = (1, 0)"

definition slice_of :: "usize \<Rightarrow> usize \<Rightarrow> slice" where
  "slice_of base len = (if len = 0 then empty_slice else (base, len))"

definition with_mapped_invec ::
    "u32 \<Rightarrow> (slice \<Rightarrow> 's \<Rightarrow> 's \<times> 'r) \<Rightarrow> connection \<Rightarrow> 's \<Rightarrow> connection \<times> 's \<times> 'r res" where
  "with_mapped_invec invec_idx f c s =
    (case prepare_invec c invec_idx of
       (c, Inl e) \<Rightarrow> (c, s, Inl e)
     | (c, Inr (index, in_len, base)) \<Rightarrow>
         (case f (slice_of base in_len) s of (s, result) \<Rightarrow>
            (case mark_invec_unmapped c index of
               (c, Inl e) \<Rightarrow> (c, s, Inl e)
             | (c, Inr _) \<Rightarrow> (c, s, Inr result))))"

definition with_mapped_outvec ::
    "u32 \<Rightarrow> (slice \<Rightarrow> 's \<Rightarrow> 's \<times> 'r \<times> usize) \<Rightarrow> connection \<Rightarrow> 's \<Rightarrow> connection \<times> 's \<times> 'r res" where
  "with_mapped_outvec outvec_idx f c s =
    (case prepare_outvec c outvec_idx of
       (c, Inl e) \<Rightarrow> (c, s, Inl e)
     | (c, Inr (index, out_len, base)) \<Rightarrow>
         (case f (slice_of base out_len) s of (s, result, written_len) \<Rightarrow>
            (case commit_outvec_write c index out_len written_len of
               (c, Inl e) \<Rightarrow> (c, s, Inl e)
             | (c, Inr _) \<Rightarrow> (c, s, Inr result))))"

section \<open>The mapping protocol through a raw handle\<close>

record raw_vec =
  rv_base :: usize
  rv_len :: usize

definition prepare_invec_raw ::
    "((connection \<Rightarrow> 's \<Rightarrow> connection \<times> 's \<times> raw_vec res) \<Rightarrow> 's \<Rightarrow>
      's \<times> (spm_error + raw_vec res)) \<Rightarrow> service_handle \<Rightarrow> u32 \<Rightarrow> 's \<Rightarrow> 's \<times> raw_vec res" where
  "prepare_invec_raw wa handle invec_idx =
    with_validated_connection wa handle (\<lambda>c s.
      case prepare_invec c invec_idx of
        (c, Inl e) \<Rightarrow> (c, s, Inl e)
      | (c, Inr (_, in_len, base)) \<Rightarrow> (c, s, Inr \<lparr>rv_base = base, rv_len = in_len\<rparr>))"

definition finish_invec_raw ::
    "((connection \<Rightarrow> 's \<Rightarrow> connection \<times> 's \<times> unit res) \<Rightarrow> 's \<Rightarrow>
      's \<times> (spm_error + unit res)) \<Rightarrow> service_handle \<Rightarrow> u32 \<Rightarrow> 's \<Rightarrow> 's \<times> unit res" where
  "finish_invec_raw wa handle invec_idx =
    with_validated_connection wa handle (\<lambda>c s.
      case mark_invec_unmapped c (unat invec_idx) of (c, r) \<Rightarrow> (c, s, r))"

definition prepare_outvec_raw ::
    "((connection \<Rightarrow> 's \<Rightarrow> connection \<times> 's \<times> raw_vec res) \<Rightarrow> 's \<Rightarrow>
      's \<times> (spm_error + raw_vec res)) \<Rightarrow> service_handle \<Rightarrow> u32 \<Rightarrow> 's \<Rightarrow> 's \<times> raw_vec res" where
  "prepare_outvec_raw wa handle outvec_idx =
    with_validated_connection wa handle (\<lambda>c s.
      case prepare_outvec c outvec_idx of
        (c, Inl e) \<Rightarrow> (c, s, Inl e)
      | (c, Inr (_, out_len, base)) \<Rightarrow> (c, s, Inr \<lparr>rv_base = base, rv_len = out_len\<rparr>))"

definition finish_outvec_raw ::
    "((connection \<Rightarrow> 's \<Rightarrow> connection \<times> 's \<times> unit res) \<Rightarrow> 's \<Rightarrow>
      's \<times> (spm_error + unit res)) \<Rightarrow> service_handle \<Rightarrow> u32 \<Rightarrow> usize \<Rightarrow> 's \<Rightarrow>
      's \<times> unit res" where
  "finish_outvec_raw wa handle outvec_idx written_len =
    with_validated_connection wa handle (\<lambda>c s.
      let index = unat outvec_idx; out_len = out_len_of c index in
      case commit_outvec_write c index out_len written_len of (c, r) \<Rightarrow> (c, s, r))"

section \<open>What validation accepts\<close>

lemma validate_call_params_Inr:
  "validate_call_params ctrl = Inr (t, i, n) \<longleftrightarrow>
    t = unpack_type ctrl \<and> \<not> t <s 0 \<and>
    (if has_iovec ctrl
     then i = ctrl_in_len ctrl \<and> n = ctrl_out_len ctrl \<and> unat i + unat n \<le> PSA_MAX_IOVEC
     else i = 0 \<and> n = 0)"
proof -
  have lt: "unat (ctrl_in_len ctrl) + unat (ctrl_out_len ctrl) < 2 ^ LENGTH(32)"
    using ctrl_len_bound[of ctrl] by simp
  have "unat (ctrl_in_len ctrl + ctrl_out_len ctrl) =
      unat (ctrl_in_len ctrl) + unat (ctrl_out_len ctrl)"
    using lt by (simp add: unat_word_ariths)
  then show ?thesis
    using lt by (auto simp: validate_call_params_def Let_def checked_add_def split: if_splits)
qed

lemma validate_call_params_Inl: "validate_call_params ctrl = Inl e \<Longrightarrow> e = ProgrammerError"
  by (auto simp: validate_call_params_def Let_def split: if_splits option.splits)

lemma validate_vec_pointer_shape_Inr [simp]:
  "validate_vec_pointer_shape h i n a b = Inr u \<longleftrightarrow>
    (h \<longrightarrow> (i > 0 \<longrightarrow> a \<noteq> 0) \<and> (n > 0 \<longrightarrow> b \<noteq> 0))"
  by (auto simp: validate_vec_pointer_shape_def)

text \<open>Two vectors are separated when one ends, in the integers, before the other begins.\<close>

definition vec_fits :: "ffi_vec \<Rightarrow> bool" where
  "vec_fits v \<longleftrightarrow> unat (iov_base v) + unat (iov_len v) < 4294967296"

definition separated :: "ffi_vec \<Rightarrow> ffi_vec \<Rightarrow> bool" where
  "separated v w \<longleftrightarrow>
    unat (iov_base v) + unat (iov_len v) \<le> unat (iov_base w) \<or>
    unat (iov_base w) + unat (iov_len w) \<le> unat (iov_base v)"

lemma checked_add_fits:
  "checked_add (iov_base v) (iov_len v) = Some e \<longleftrightarrow> vec_fits v \<and> e = iov_base v + iov_len v"
  by (auto simp: checked_add_def vec_fits_def)

lemma unat_end: "vec_fits v \<Longrightarrow> unat (iov_base v + iov_len v) = unat (iov_base v) + unat (iov_len v)"
  by (simp add: vec_fits_def unat_word_ariths)

lemma overlap_check_Inr:
  assumes "vec_fits l"
  shows "overlap_check (iov_base l) (iov_base l + iov_len l) r = Inr u \<longleftrightarrow> vec_fits r \<and> separated l r"
  by (auto simp: overlap_check_def Let_def res_simps checked_add_fits separated_def
      word_less_nat_alt unat_end assms)

lemma nonoverlap_loop_Cons:
  assumes "vs \<noteq> []"
  shows "nonoverlap_loop (l # vs) = Inr u \<longleftrightarrow>
    vec_fits l \<and> (\<forall>r\<in>set vs. vec_fits r \<and> separated l r) \<and> nonoverlap_loop vs = Inr ()"
proof -
  obtain r rest where vs: "vs = r # rest" using assms by (cases vs) auto
  show ?thesis
  proof (cases "vec_fits l")
    case True
    then have "ok_or (checked_add (iov_base l) (iov_len l)) ProgrammerError =
        Inr (iov_base l + iov_len l)"
      by (simp add: checked_add_fits res_simps)
    moreover have "check_all (overlap_check (iov_base l) (iov_base l + iov_len l)) vs = Inr w \<longleftrightarrow>
        (\<forall>r\<in>set vs. vec_fits r \<and> separated l r)" for w
      using True by (simp add: check_all_Inr_iff overlap_check_Inr)
    ultimately show ?thesis using True
      by (simp only: vs nonoverlap_loop.simps Let_def and_then_simps and_then_Inr_iff) auto
  next
    case False
    then have "checked_add (iov_base l) (iov_len l) = None"
      by (cases "checked_add (iov_base l) (iov_len l)") (auto simp: checked_add_fits)
    then show ?thesis using False vs by simp
  qed
qed

lemma nonoverlap_loop_Inr:
  "nonoverlap_loop vs = Inr u \<longleftrightarrow>
    length vs < 2 \<or> (list_all vec_fits vs \<and> sorted_wrt separated vs)"
proof (induction vs arbitrary: u)
  case (Cons l vs)
  show ?case
  proof (cases "vs = []")
    case False
    then have "nonoverlap_loop (l # vs) = Inr u \<longleftrightarrow>
      vec_fits l \<and> (\<forall>r\<in>set vs. vec_fits r \<and> separated l r) \<and> nonoverlap_loop vs = Inr ()"
      by (rule nonoverlap_loop_Cons)
    also have "\<dots> \<longleftrightarrow> list_all vec_fits (l # vs) \<and> sorted_wrt separated (l # vs)"
      unfolding Cons.IH using False
      by (cases vs; cases "List.tl vs") (auto simp: list_all_iff)
    finally show ?thesis using False by (cases vs) auto
  qed simp
qed simp

lemma validate_nonoverlap_Inr:
  "validate_invec_payload_nonoverlap vs = Inr u \<longleftrightarrow>
    length vs < 2 \<or> (list_all vec_fits vs \<and> sorted_wrt separated vs)"
  by (simp add: validate_invec_payload_nonoverlap_def nonoverlap_loop_Inr)

lemma validate_pointer_range_Inr:
  "validate_pointer_range b n = Inr u \<longleftrightarrow>
    n = 0 \<or> (b \<noteq> 0 \<and> unat b + unat n < 4294967296)"
  by (auto simp: validate_pointer_range_def checked_add_def)

lemma validate_memory_permission_Inr:
  "validate_memory_permission perm b n w ca = Inr u \<longleftrightarrow> n = 0 \<or> perm b n w ca"
  by (simp add: validate_memory_permission_def)

text \<open>A vector the loops accept: empty, or non-null, in the address space and permitted.\<close>

definition vec_ok :: "permission \<Rightarrow> bool \<Rightarrow> caller_attributes \<Rightarrow> ffi_vec \<Rightarrow> bool" where
  "vec_ok perm w ca v \<longleftrightarrow>
    iov_len v = 0 \<or> (iov_base v \<noteq> 0 \<and> vec_fits v \<and> perm (iov_base v) (iov_len v) w ca)"

text \<open>The first entries of a list replaced from an index on.\<close>

definition overwrite :: "'a list \<Rightarrow> nat \<Rightarrow> 'a list \<Rightarrow> 'a list" where
  "overwrite xs i ys = List.take i xs @ ys @ List.drop (i + length ys) xs"

lemma overwrite_Nil [simp]: "overwrite xs i [] = xs"
  by (simp add: overwrite_def)

lemma length_overwrite [simp]:
  "i + length ys \<le> length xs \<Longrightarrow> length (overwrite xs i ys) = length xs"
  by (simp add: overwrite_def)

lemma overwrite_Cons:
  "i < length xs \<Longrightarrow> overwrite (xs[i := y]) (Suc i) ys = overwrite xs i (y # ys)"
  by (simp add: overwrite_def take_Suc_conv_app_nth)

lemma overwrite_nth:
  "i + length ys \<le> length xs \<Longrightarrow> j < length xs \<Longrightarrow>
    overwrite xs i ys ! j = (if i \<le> j \<and> j < i + length ys then ys ! (j - i) else xs ! j)"
  by (auto simp: overwrite_def nth_append)

lemma load_vecs_Inr:
  assumes "idx + length vs \<le> length sz" "length bs = length sz" "length ct = length sz"
  shows "load_vecs perm w ca idx vs (sz, bs, ct) = Inr r \<longleftrightarrow>
    list_all (vec_ok perm w ca) vs \<and>
    r = (overwrite sz idx (map (\<lambda>v. mu_some (iov_len v)) vs), overwrite bs idx (map iov_base vs),
         overwrite ct idx (map (\<lambda>_. 0) vs))"
  using assms
proof (induction vs arbitrary: idx sz bs ct)
  case (Cons v vs)
  have "load_vecs perm w ca (Suc idx) vs (sz[idx := mu_some (iov_len v)], bs[idx := iov_base v],
      ct[idx := 0]) = Inr r \<longleftrightarrow> list_all (vec_ok perm w ca) vs \<and>
    r = (overwrite sz idx (map (\<lambda>v. mu_some (iov_len v)) (v # vs)),
         overwrite bs idx (map iov_base (v # vs)), overwrite ct idx (map (\<lambda>_. 0) (v # vs)))"
    using Cons by (subst Cons.IH) (auto simp: overwrite_Cons)
  moreover have "load_vecs perm w ca idx (v # vs) (sz, bs, ct) = Inr r \<longleftrightarrow>
    vec_ok perm w ca v \<and>
    load_vecs perm w ca (Suc idx) vs (sz[idx := mu_some (iov_len v)], bs[idx := iov_base v],
      ct[idx := 0]) = Inr r"
    by (auto simp: res_simps validate_pointer_range_Inr validate_memory_permission_Inr vec_ok_def
        vec_fits_def)
  ultimately show ?case by auto
qed auto

lemma vec_ok_not_sentinel: "vec_ok perm w ca v \<Longrightarrow> iov_len v \<noteq> NONE_SENTINEL"
proof
  assume v: "vec_ok perm w ca v" and s: "iov_len v = NONE_SENTINEL"
  have "unat NONE_SENTINEL = 4294967295" by (simp add: NONE_SENTINEL_def)
  moreover have "0 < unat (iov_base v)" if "iov_base v \<noteq> 0" using that by (simp add: unat_gt_0)
  ultimately show False using v s by (auto simp: vec_ok_def vec_fits_def NONE_SENTINEL_def)
qed

text \<open>The connection that call_from_slices builds, written down directly.\<close>

definition fresh_connection ::
    "service_handle \<Rightarrow> u32 \<Rightarrow> caller_attributes \<Rightarrow> ffi_vec list \<Rightarrow> ffi_vec list \<Rightarrow> connection" where
  "fresh_connection h t ca ins outs =
    (let sizes = (\<lambda>vs. overwrite (replicate 4 mu_none) 0 (map (\<lambda>v. mu_some (iov_len v)) vs));
         bases = (\<lambda>vs. overwrite (replicate 4 0) 0 (map iov_base vs)) in
     \<lparr>cn_msg = \<lparr>msg_handle = h, msg_type = t, msg_caller = ca,
               msg_in_size = sizes ins, msg_out_size = sizes outs\<rparr>,
      invec_base = bases ins, invec_accessed = replicate 4 0,
      invec_mapped = replicate 4 False, invec_unmapped = replicate 4 False,
      outvec_base = bases outs, outvec_written = replicate 4 0,
      outvec_mapped = replicate 4 False, outvec_unmapped = replicate 4 False\<rparr>)"

definition call_accepted ::
    "permission \<Rightarrow> ctrl_param \<Rightarrow> ffi_vec list \<Rightarrow> ffi_vec list \<Rightarrow> caller_attributes \<Rightarrow> bool" where
  "call_accepted perm ctrl ins outs ca \<longleftrightarrow>
    \<not> unpack_type ctrl <s 0 \<and>
    length ins = (if has_iovec ctrl then unat (ctrl_in_len ctrl) else 0) \<and>
    length outs = (if has_iovec ctrl then unat (ctrl_out_len ctrl) else 0) \<and>
    length ins + length outs \<le> PSA_MAX_IOVEC \<and>
    (length ins < 2 \<or> (list_all vec_fits ins \<and> sorted_wrt separated ins)) \<and>
    list_all (vec_ok perm False ca) ins \<and> list_all (vec_ok perm True ca) outs"

lemma overwrite_zeros: "n \<le> m \<Longrightarrow> overwrite (replicate m z) 0 (map (\<lambda>_. z) (xs::'b list)) = replicate m z"
  if "length xs = n" for n
  using that by (intro nth_equalityI) (auto simp: overwrite_nth)

lemma call_from_slices_Inr:
  "call_from_slices perm h ctrl ins outs ca = Inr c \<longleftrightarrow>
    call_accepted perm ctrl ins outs ca \<and> c = fresh_connection h (unpack_type ctrl) ca ins outs"
proof -
  have in_ok: "load_vecs perm w ca 0 vs (replicate 4 mu_none, replicate 4 0, replicate 4 0) = Inr r
      \<longleftrightarrow> list_all (vec_ok perm w ca) vs \<and>
        r = (overwrite (replicate 4 mu_none) 0 (map (\<lambda>v. mu_some (iov_len v)) vs),
             overwrite (replicate 4 0) 0 (map iov_base vs), replicate 4 0)"
    if "length vs \<le> 4" for w vs r
    using that by (subst load_vecs_Inr) (auto simp: overwrite_zeros[OF refl])
  show ?thesis
  proof (cases "call_accepted perm ctrl ins outs ca")
    case True
    then have len: "length ins \<le> 4" "length outs \<le> 4"
      by (auto simp: call_accepted_def PSA_MAX_IOVEC_def)
    obtain i n where v: "validate_call_params ctrl = Inr (unpack_type ctrl, i, n)"
      "length ins = unat i" "length outs = unat n"
    proof (cases "has_iovec ctrl")
      case True
      with \<open>call_accepted perm ctrl ins outs ca\<close> show ?thesis
        using that[of "ctrl_in_len ctrl" "ctrl_out_len ctrl"]
        by (simp add: call_accepted_def validate_call_params_Inr)
    next
      case False
      with \<open>call_accepted perm ctrl ins outs ca\<close> show ?thesis
        using that[of 0 0] by (simp add: call_accepted_def validate_call_params_Inr)
    qed
    show ?thesis
      using True in_ok[OF len(1)] in_ok[OF len(2)]
      by (auto simp: call_from_slices_def v res_simps validate_nonoverlap_Inr psa_msg_new_def
          PSA_MAX_IOVEC_def fresh_connection_def call_accepted_def Let_def)
  next
    case False
    {
      assume ok: "call_from_slices perm h ctrl ins outs ca = Inr c"
      obtain t i n where v: "validate_call_params ctrl = Inr (t, i, n)"
        using ok by (cases "validate_call_params ctrl") (auto simp: call_from_slices_def)
      from ok v have l: "length ins = unat i" "length outs = unat n"
        and o: "validate_invec_payload_nonoverlap ins = Inr ()"
        and li: "\<exists>r. load_vecs perm False ca 0 ins (replicate 4 mu_none, replicate 4 0, replicate 4 0) = Inr r"
        and lo: "\<exists>r. load_vecs perm True ca 0 outs (replicate 4 mu_none, replicate 4 0, replicate 4 0) = Inr r"
        by (auto simp: call_from_slices_def res_simps psa_msg_new_def PSA_MAX_IOVEC_def Let_def
            split: if_splits prod.splits)
      have s: "unat i + unat n \<le> 4"
        using v by (auto simp: validate_call_params_Inr PSA_MAX_IOVEC_def split: if_splits)
      have "list_all (vec_ok perm False ca) ins" "list_all (vec_ok perm True ca) outs"
        using in_ok[of ins] in_ok[of outs] l s li lo by auto
      then have "call_accepted perm ctrl ins outs ca"
        using v l s o by (auto simp: call_accepted_def validate_nonoverlap_Inr
            validate_call_params_Inr PSA_MAX_IOVEC_def split: if_splits)
    }
    with False show ?thesis by blast
  qed
qed

lemma connection_wf_fresh:
  "length ins \<le> 4 \<Longrightarrow> length outs \<le> 4 \<Longrightarrow> connection_wf (fresh_connection h t ca ins outs)"
  by (simp add: connection_wf_def fresh_connection_def Let_def PSA_MAX_IOVEC_def)

section \<open>The mapping protocol, operation by operation\<close>

lemma prepare_invec_eq:
  assumes "connection_wf c"
  shows "prepare_invec c idx =
    (let k = unat idx in
     if k < 4 \<and> \<not> invec_mapped c ! k \<and> invec_accessed c ! k = 0
     then (c\<lparr>invec_mapped := (invec_mapped c)[k := True]\<rparr>, Inr (k, in_len_of c k, invec_base c ! k))
     else (c, Inl ProgrammerError))"
  using connection_wfD[OF assms] by (auto simp: prepare_invec_def Let_def PSA_MAX_IOVEC_def)

lemma prepare_outvec_eq:
  assumes "connection_wf c"
  shows "prepare_outvec c idx =
    (let k = unat idx in
     if k < 4 \<and> \<not> outvec_mapped c ! k \<and> outvec_written c ! k = 0
     then (c\<lparr>outvec_mapped := (outvec_mapped c)[k := True]\<rparr>, Inr (k, out_len_of c k, outvec_base c ! k))
     else (c, Inl ProgrammerError))"
  using connection_wfD[OF assms] by (auto simp: prepare_outvec_def Let_def PSA_MAX_IOVEC_def)

lemma mark_invec_unmapped_eq:
  assumes "connection_wf c"
  shows "mark_invec_unmapped c k =
    (if k < 4 \<and> \<not> invec_unmapped c ! k
     then (c\<lparr>invec_unmapped := (invec_unmapped c)[k := True]\<rparr>, Inr ())
     else (c, Inl ProgrammerError))"
  using connection_wfD[OF assms] by (cases "k < 4") (auto simp: mark_invec_unmapped_def)

lemma commit_outvec_write_eq:
  assumes "connection_wf c"
  shows "commit_outvec_write c k n w =
    (if k < 4 \<and> \<not> outvec_unmapped c ! k \<and> w \<le> n
     then (c\<lparr>outvec_written := (outvec_written c)[k := w],
             cn_msg := (cn_msg c)\<lparr>msg_out_size := (msg_out_size (cn_msg c))[k := mu_some w]\<rparr>,
             outvec_unmapped := (outvec_unmapped c)[k := True]\<rparr>, Inr ())
     else (c, Inl ProgrammerError))"
  using connection_wfD[OF assms] by (cases "k < 4") (auto simp: commit_outvec_write_def not_le)

text \<open>
  What a service can do to its connection through the mapping protocol, one operation each;
  a commit uses the length the connection currently records, as finish_outvec_raw does.  The last
  operation is only the isolated dispatcher's, whose system calls run it after a prepare (with
  True) and after a release or a commit (with False); it clears flags the others set.
\<close>

datatype map_op = PrepareIn u32 | ReleaseIn u32 | PrepareOut u32 | CommitOut u32 usize | UpdateVec bool u32 bool

primrec map_op_run :: "map_op \<Rightarrow> connection \<Rightarrow> connection" where
  "map_op_run (PrepareIn i) c = fst (prepare_invec c i)"
| "map_op_run (ReleaseIn i) c = fst (mark_invec_unmapped c (unat i))"
| "map_op_run (PrepareOut i) c = fst (prepare_outvec c i)"
| "map_op_run (CommitOut i w) c = fst (commit_outvec_write c (unat i) (out_len_of c (unat i)) w)"
| "map_op_run (UpdateVec is_outvec i mapped) c = set_vec_mapping is_outvec (unat i) mapped c"

text \<open>The operation is an update of vector k (an output vector if out) with the given flag.\<close>

fun updates :: "bool \<Rightarrow> nat \<Rightarrow> bool \<Rightarrow> map_op \<Rightarrow> bool" where
  "updates out k mapped (UpdateVec is_outvec i m) \<longleftrightarrow> is_outvec = out \<and> unat i = k \<and> m = mapped"
| "updates out k mapped _ \<longleftrightarrow> False"

text \<open>
  c descends from c0: same vectors, same message; a length reported for an output vector, and
  the count of bytes written to it, never exceed the buffer the caller gave.
\<close>

definition conn_tracks :: "connection \<Rightarrow> connection \<Rightarrow> bool" where
  "conn_tracks c0 c \<longleftrightarrow> connection_wf c \<and>
    invec_base c = invec_base c0 \<and> outvec_base c = outvec_base c0 \<and>
    invec_accessed c = invec_accessed c0 \<and>
    msg_in_size (cn_msg c) = msg_in_size (cn_msg c0) \<and>
    msg_handle (cn_msg c) = msg_handle (cn_msg c0) \<and> msg_type (cn_msg c) = msg_type (cn_msg c0) \<and>
    msg_caller (cn_msg c) = msg_caller (cn_msg c0) \<and>
    (\<forall>i<4. out_len_of c i \<le> out_len_of c0 i \<and>
           (outvec_written c ! i = 0 \<or> outvec_written c ! i \<le> out_len_of c0 i))"

lemma conn_tracks_refl: "connection_wf c \<Longrightarrow> outvec_written c = replicate 4 0 \<Longrightarrow> conn_tracks c c"
  by (simp add: conn_tracks_def)

lemma conn_tracks_wf: "conn_tracks c0 c \<Longrightarrow> connection_wf c"
  by (simp add: conn_tracks_def)

lemmas map_op_eqs = prepare_invec_eq prepare_outvec_eq mark_invec_unmapped_eq
  commit_outvec_write_eq

lemma connection_wf_map_op: "connection_wf c \<Longrightarrow> connection_wf (map_op_run op c)"
  by (cases op) (auto simp: map_op_eqs Let_def connection_wf_def set_vec_mapping_def)

lemma set_vec_mapping_eq:
  assumes "connection_wf c"
  shows "set_vec_mapping out k m c =
    (if k < 4 then
       (if out then c\<lparr>outvec_mapped := (outvec_mapped c)[k := m], outvec_unmapped := (outvec_unmapped c)[k := \<not> m]\<rparr>
        else c\<lparr>invec_mapped := (invec_mapped c)[k := m], invec_unmapped := (invec_unmapped c)[k := \<not> m]\<rparr>)
     else c)"
  using connection_wfD[OF assms] by (cases c; cases "k < 4") (simp_all add: set_vec_mapping_def list_update_beyond)

text \<open>
  What each flag survives.  A mapped flag is cleared by an unmapping update of its vector only, an
  unmapped flag by a mapping one; and a count of written bytes stays while the output vector stays
  released.
\<close>

definition released_with_data :: "nat \<Rightarrow> connection \<Rightarrow> bool" where
  "released_with_data k c \<longleftrightarrow> outvec_unmapped c ! k \<and> outvec_written c ! k \<noteq> 0"

lemma flags_map_op:
  assumes "connection_wf c" "k < 4"
  shows "invec_mapped c ! k \<Longrightarrow> \<not> updates False k False op \<Longrightarrow> invec_mapped (map_op_run op c) ! k"
    and "outvec_mapped c ! k \<Longrightarrow> \<not> updates True k False op \<Longrightarrow> outvec_mapped (map_op_run op c) ! k"
    and "invec_unmapped c ! k \<Longrightarrow> \<not> updates False k True op \<Longrightarrow> invec_unmapped (map_op_run op c) ! k"
    and "outvec_unmapped c ! k \<Longrightarrow> \<not> updates True k True op \<Longrightarrow> outvec_unmapped (map_op_run op c) ! k"
    and "released_with_data k c \<Longrightarrow> \<not> updates True k True op \<Longrightarrow> released_with_data k (map_op_run op c)"
  using assms(2) connection_wfD[OF assms(1)]
  by (cases op; auto simp: map_op_eqs[OF assms(1)] set_vec_mapping_eq[OF assms(1)] Let_def nth_list_update
      released_with_data_def)+

lemma out_len_of_set:
  assumes "connection_wf c" "i < 4"
  shows "out_len_of (c\<lparr>outvec_written := x,
      cn_msg := (cn_msg c)\<lparr>msg_out_size := (msg_out_size (cn_msg c))[k := mu_some w]\<rparr>,
      outvec_unmapped := y\<rparr>) i =
    (if i = k then mu_unwrap_or (mu_some w) 0 else out_len_of c i)"
  using connection_wfD(2)[OF assms(1)] assms(2)
  by (auto simp: out_len_of_def list_get_def nth_list_update)

lemma mu_unwrap_or_le: "mu_unwrap_or (mu_some w) 0 \<le> w"
  by (simp add: mu_unwrap_or_def mu_some_def mu_is_some_def)

lemma conn_tracks_commit:
  assumes "conn_tracks c0 c"
  shows "conn_tracks c0 (fst (commit_outvec_write c k (out_len_of c k) w))"
proof (cases "k < 4 \<and> \<not> outvec_unmapped c ! k \<and> w \<le> out_len_of c k")
  case True
  note wf = conn_tracks_wf[OF assms]
  have "w \<le> out_len_of c0 k"
    using True assms by (auto simp: conn_tracks_def intro: order.trans)
  moreover have "mu_unwrap_or (mu_some w) 0 \<le> out_len_of c0 k"
    using \<open>w \<le> out_len_of c0 k\<close> mu_unwrap_or_le order.trans by blast
  moreover have "connection_wf (fst (commit_outvec_write c k (out_len_of c k) w))"
    using wf by (auto simp: commit_outvec_write_eq connection_wf_def)
  ultimately show ?thesis
    using assms True connection_wfD(8)[OF wf]
    by (auto simp: commit_outvec_write_eq wf conn_tracks_def out_len_of_set nth_list_update)
next
  case False
  then show ?thesis using assms conn_tracks_wf[OF assms]
    by (auto simp: commit_outvec_write_eq)
qed

lemma out_len_of_update [simp]:
  "out_len_of (c\<lparr>invec_mapped := a\<rparr>) = out_len_of c"
  "out_len_of (c\<lparr>outvec_mapped := a\<rparr>) = out_len_of c"
  "out_len_of (c\<lparr>invec_unmapped := a\<rparr>) = out_len_of c"
  "out_len_of (c\<lparr>outvec_unmapped := a\<rparr>) = out_len_of c"
  by (auto simp: out_len_of_def fun_eq_iff)

lemma conn_tracks_map_op:
  assumes "conn_tracks c0 c"
  shows "conn_tracks c0 (map_op_run op c)"
proof (cases op)
  case (CommitOut i w)
  then show ?thesis using conn_tracks_commit[OF assms] by simp
qed (use assms conn_tracks_wf[OF assms] connection_wf_map_op[of c op] in
      \<open>auto simp: map_op_eqs set_vec_mapping_eq Let_def conn_tracks_def split: if_splits\<close>)

lemma conn_tracks_run:
  "conn_tracks c0 c \<Longrightarrow> conn_tracks c0 (fold map_op_run ops c)"
  by (induction ops arbitrary: c) (auto intro: conn_tracks_map_op)

lemma connection_wf_run: "connection_wf c \<Longrightarrow> connection_wf (fold map_op_run ops c)"
  by (induction ops arbitrary: c) (auto intro: connection_wf_map_op)

lemma map_run_keeps:
  assumes "\<And>d op. connection_wf d \<Longrightarrow> P d \<Longrightarrow> \<not> Q op \<Longrightarrow> P (map_op_run op d)"
  shows "connection_wf c \<Longrightarrow> P c \<Longrightarrow> \<not> list_ex Q ops \<Longrightarrow> P (fold map_op_run ops c)"
  by (induction ops arbitrary: c) (auto intro: assms connection_wf_map_op)

lemmas flags_run =
  map_run_keeps[of "\<lambda>d. invec_mapped d ! k" "updates False k False", OF flags_map_op(1)]
  map_run_keeps[of "\<lambda>d. outvec_mapped d ! k" "updates True k False", OF flags_map_op(2)]
  map_run_keeps[of "\<lambda>d. invec_unmapped d ! k" "updates False k True", OF flags_map_op(3)]
  map_run_keeps[of "\<lambda>d. outvec_unmapped d ! k" "updates True k True", OF flags_map_op(4)]
  map_run_keeps[of "released_with_data k" "updates True k True", OF flags_map_op(5)] for k

section \<open>Keeping the stack\<close>

text \<open>
  Two ways a step of a service can respect the stack.  keeps_stack: it hands the stack back
  unchanged.  keeps_frame: it may update the active connection (that is what mapping a vector
  does) but nothing below it, and nothing at all while the active connection is on loan.
\<close>

definition keeps_stack :: "('s \<Rightarrow> bool) \<Rightarrow> ('s \<Rightarrow> connection option list) \<Rightarrow> ('s \<Rightarrow> 's \<times> 'r) \<Rightarrow> bool" where
  "keeps_stack ok stack f \<longleftrightarrow>
    (\<forall>s s' r. ok s \<longrightarrow> f s = (s', r) \<longrightarrow> ok s' \<and> stack s' = stack s)"

lemma keeps_stackD:
  "keeps_stack ok stack f \<Longrightarrow> ok s \<Longrightarrow> f s = (s', r) \<Longrightarrow> ok s' \<and> stack s' = stack s"
  by (auto simp: keeps_stack_def)

lemma keeps_stackI:
  "(\<And>s s' r. ok s \<Longrightarrow> f s = (s', r) \<Longrightarrow> ok s' \<and> stack s' = stack s) \<Longrightarrow> keeps_stack ok stack f"
  by (auto simp: keeps_stack_def)

definition frame_le :: "connection option list \<Rightarrow> connection option list \<Rightarrow> bool" where
  "frame_le xs ys \<longleftrightarrow> length ys = length xs \<and> butlast ys = butlast xs \<and>
    (stack_active xs = None \<longrightarrow> ys = xs)"

definition keeps_frame :: "('s \<Rightarrow> bool) \<Rightarrow> ('s \<Rightarrow> connection option list) \<Rightarrow> ('s \<Rightarrow> 's \<times> 'r) \<Rightarrow> bool" where
  "keeps_frame ok stack f \<longleftrightarrow>
    (\<forall>s s' r. ok s \<longrightarrow> f s = (s', r) \<longrightarrow> ok s' \<and> frame_le (stack s) (stack s'))"

lemma frame_le_refl [simp]: "frame_le xs xs"
  by (simp add: frame_le_def)

lemma frame_le_trans: "frame_le xs ys \<Longrightarrow> frame_le ys zs \<Longrightarrow> frame_le xs zs"
  by (auto simp: frame_le_def)

lemma frame_le_top: "xs \<noteq> [] \<Longrightarrow> last xs = Some c \<Longrightarrow> frame_le xs (butlast xs @ [d])"
  by (cases xs rule: rev_cases) (auto simp: frame_le_def stack_active_def)

lemma keeps_frameD:
  "keeps_frame ok stack f \<Longrightarrow> ok s \<Longrightarrow> f s = (s', r) \<Longrightarrow> ok s' \<and> frame_le (stack s) (stack s')"
  by (auto simp: keeps_frame_def)

lemma keeps_frameI:
  "(\<And>s s' r. ok s \<Longrightarrow> f s = (s', r) \<Longrightarrow> ok s' \<and> frame_le (stack s) (stack s')) \<Longrightarrow>
    keeps_frame ok stack f"
  by (auto simp: keeps_frame_def)

lemma keeps_stack_frame: "keeps_stack ok stack f \<Longrightarrow> keeps_frame ok stack f"
  by (auto simp: keeps_stack_def keeps_frame_def)

lemma keeps_frame_return: "keeps_frame ok stack (\<lambda>s. (s, r s))"
  by (auto simp: keeps_frame_def)

lemma keeps_frame_bind:
  assumes "keeps_frame ok stack f" "\<And>r. keeps_frame ok stack (g r)"
  shows "keeps_frame ok stack (\<lambda>s. case f s of (s', r) \<Rightarrow> g r s')"
proof (rule keeps_frameI)
  fix s s' r assume ok: "ok s" and run: "(case f s of (s', r) \<Rightarrow> g r s') = (s', r)"
  obtain s1 r1 where f: "f s = (s1, r1)" by (cases "f s")
  then show "ok s' \<and> frame_le (stack s) (stack s')"
    using keeps_frameD[OF assms(1) ok f] keeps_frameD[OF assms(2)] run frame_le_trans by fastforce
qed

text \<open>Mapping a vector around a closure keeps the connection well formed.\<close>

lemma with_mapped_invec_run:
  assumes "connection_wf c" "with_mapped_invec i f c s = (c', s', r)"
  shows "connection_wf c' \<and> (s' = s \<or> (\<exists>sl q. f sl s = (s', q)))"
proof (cases "prepare_invec c i")
  case (Pair c1 q)
  have w: "connection_wf c1" using connection_wf_map_op[OF assms(1), of "PrepareIn i"] Pair by simp
  have "connection_wf (fst (mark_invec_unmapped c1 k))" for k
    using w by (auto simp: mark_invec_unmapped_eq connection_wf_def)
  then have "mark_invec_unmapped c1 k = (c2, q2) \<Longrightarrow> connection_wf c2" for k c2 q2
    by (metis fst_conv)
  then show ?thesis using assms(2) Pair w
    by (auto simp: with_mapped_invec_def simp del: split_paired_All split_paired_Ex
        split: sum.splits prod.splits)
qed

lemma with_mapped_outvec_run:
  assumes "connection_wf c" "with_mapped_outvec i f c s = (c', s', r)"
  shows "connection_wf c' \<and> (s' = s \<or> (\<exists>sl q. f sl s = (s', q)))"
proof (cases "prepare_outvec c i")
  case (Pair c1 q)
  have w: "connection_wf c1" using connection_wf_map_op[OF assms(1), of "PrepareOut i"] Pair by simp
  have "connection_wf (fst (commit_outvec_write c1 k n l))" for k n l
    using w by (auto simp: commit_outvec_write_eq connection_wf_def)
  then have "commit_outvec_write c1 k n l = (c2, q2) \<Longrightarrow> connection_wf c2" for k n l c2 q2
    by (metis fst_conv)
  then show ?thesis using assms(2) Pair w
    by (auto simp: with_mapped_outvec_def simp del: split_paired_All split_paired_Ex
        split: sum.splits prod.splits)
qed

section \<open>The interface to the dispatcher's connection store\<close>

text \<open>The message check of with_validated_connection as a result.\<close>

definition msg_check :: "service_handle \<Rightarrow> connection \<Rightarrow> unit res" where
  "msg_check h c =
    (if msg_handle (cn_msg c) \<noteq> h then Inl InvalidHandle
     else if msg_type (cn_msg c) <s 0 then Inl ProgrammerError else Inr ())"

lemma validated_closure_simps:
  "msg_check h c = Inl e \<Longrightarrow> validated_closure h f c s = (c, s, Inl e)"
  "msg_check h c = Inr u \<Longrightarrow> validated_closure h f c s = f c s"
  by (auto simp: msg_check_def validated_closure_def split: if_splits)

text \<open>
  What the request path relies on: taking the active connection marks the top of the stack as
  on loan and hands it out; restoring fills a loaned slot; both leave everything but the stack
  alone (view other), and keep the store's own invariant (ok).
\<close>

locale spm_store =
  fixes take_op :: "'s \<Rightarrow> 's \<times> (spm_error + nat \<times> connection)"
    and restore_op :: "nat \<Rightarrow> connection \<Rightarrow> 's \<Rightarrow> 's \<times> (spm_error + unit)"
    and ok :: "'s \<Rightarrow> bool"
    and stack :: "'s \<Rightarrow> connection option list"
    and other :: "'s \<Rightarrow> 'o"
  assumes take_none: "ok s \<Longrightarrow> stack_active (stack s) = None \<Longrightarrow> \<exists>e. take_op s = (s, Inl e)"
    and take_some: "ok s \<Longrightarrow> stack_active (stack s) = Some c \<Longrightarrow>
      \<exists>s1. take_op s = (s1, Inr (length (stack s) - 1, c)) \<and> ok s1 \<and>
        stack s1 = butlast (stack s) @ [None] \<and> other s1 = other s \<and> connection_wf c"
    and restore: "ok s \<Longrightarrow> connection_wf c \<Longrightarrow> i < length (stack s) \<Longrightarrow> stack s ! i = None \<Longrightarrow>
      \<exists>s1. restore_op i c s = (s1, Inr ()) \<and> ok s1 \<and> stack s1 = (stack s)[i := Some c] \<and>
        other s1 = other s"
begin

text \<open>
  A closure that keeps the invariant and the stack it finds, and returns a well-formed
  connection, leaves the connection it returns on top; its result is the call's result.
\<close>

lemma with_active_some:
  assumes "ok s" "stack_active (stack s) = Some c"
    and f: "\<And>s1 c' s2 r. ok s1 \<Longrightarrow> stack s1 = butlast (stack s) @ [None] \<Longrightarrow> other s1 = other s \<Longrightarrow>
      f c s1 = (c', s2, r) \<Longrightarrow> ok s2 \<and> stack s2 = stack s1 \<and> connection_wf c'"
  obtains s1 c' s2 r s3 where "f c s1 = (c', s2, r)" "other s1 = other s" "ok s1"
    "stack s1 = butlast (stack s) @ [None]"
    "with_active take_op restore_op f s = (s3, Inr r)" "ok s3"
    "stack s3 = butlast (stack s) @ [Some c']" "other s3 = other s2"
proof -
  obtain s1 where s1: "take_op s = (s1, Inr (length (stack s) - 1, c))" "ok s1"
    "stack s1 = butlast (stack s) @ [None]" "other s1 = other s"
    using take_some[OF assms(1,2)] by blast
  obtain c' s2 r where fr: "f c s1 = (c', s2, r)" by (cases "f c s1")
  have s2: "ok s2" "stack s2 = stack s1" "connection_wf c'" using f[OF s1(2-4) fr] by auto
  have "stack s \<noteq> []" using assms(2) by (auto simp: stack_active_def)
  then have "length (stack s) - 1 < length (stack s2)" "stack s2 ! (length (stack s) - 1) = None"
    using s2(2) s1(3) by (simp_all add: nth_append)
  then obtain s3 where s3: "restore_op (length (stack s) - 1) c' s2 = (s3, Inr ())" "ok s3"
    "stack s3 = (stack s2)[length (stack s) - 1 := Some c']" "other s3 = other s2"
    using restore[OF s2(1,3)] by blast
  have "stack s3 = butlast (stack s) @ [Some c']"
    using s3(3) s2(2) s1(3) by (simp add: list_update_append)
  moreover have "with_active take_op restore_op f s = (s3, Inr r)"
    using s1(1) fr s3(1) by (simp add: with_active_def)
  ultimately show ?thesis using that fr s1 s3 by blast
qed

lemma with_active_none:
  "ok s \<Longrightarrow> stack_active (stack s) = None \<Longrightarrow> \<exists>e. with_active take_op restore_op f s = (s, Inl e)"
  using take_none[of s] by (auto simp: with_active_def)

text \<open>The message check of with_validated_connection: which error, and no effect with it.\<close>

lemma validated_none:
  assumes "ok s" "stack_active (stack s) = None"
  shows "with_validated_connection (with_active take_op restore_op) h f s = (s, Inl CommunicationFailure)"
proof -
  obtain e where "with_active take_op restore_op (validated_closure h f) s = (s, Inl e)"
    using with_active_none[OF assms] by blast
  then show ?thesis by (simp add: with_validated_connection_def)
qed

lemma validated_rejected:
  assumes "ok s" "stack_active (stack s) = Some c" "msg_check h c = Inl e"
  obtains s3 where "with_validated_connection (with_active take_op restore_op) h f s = (s3, Inl e)"
    "ok s3" "stack s3 = stack s" "other s3 = other s"
proof -
  have wf: "connection_wf c" using take_some[OF assms(1,2)] by blast
  obtain s1 c' s2 r s3 where g: "validated_closure h f c s1 = (c', s2, r)" "other s1 = other s"
    "with_active take_op restore_op (validated_closure h f) s = (s3, Inr r)" "ok s3"
    "stack s3 = butlast (stack s) @ [Some c']" "other s3 = other s2"
    by (rule with_active_some[OF assms(1,2), of "validated_closure h f"])
      (use wf in \<open>auto simp: validated_closure_simps(1)[OF assms(3)]\<close>)
  have e: "c' = c" "s2 = s1" "r = Inl e"
    using g(1) by (simp_all add: validated_closure_simps(1)[OF assms(3)])
  have "stack s \<noteq> []" "last (stack s) = Some c"
    using assms(2) by (auto simp: stack_active_def split: if_splits)
  then have "stack s3 = stack s" using g(5) e(1) by (metis append_butlast_last_id)
  then show ?thesis using that g e by (auto simp: with_validated_connection_def)
qed

lemma validated_accepted:
  assumes "ok s" "stack_active (stack s) = Some c" "msg_check h c = Inr ()"
    and f: "\<And>s1 c' s2 r. ok s1 \<Longrightarrow> stack s1 = butlast (stack s) @ [None] \<Longrightarrow> other s1 = other s \<Longrightarrow>
      f c s1 = (c', s2, r) \<Longrightarrow> ok s2 \<and> stack s2 = stack s1 \<and> connection_wf c'"
  obtains s1 c' s2 r s3 where "f c s1 = (c', s2, r)" "other s1 = other s" "ok s1"
    "stack s1 = butlast (stack s) @ [None]"
    "with_validated_connection (with_active take_op restore_op) h f s = (s3, r)" "ok s3"
    "stack s3 = butlast (stack s) @ [Some c']" "other s3 = other s2"
proof -
  have v: "validated_closure h f c s1 = f c s1" for s1
    by (rule validated_closure_simps(2)[OF assms(3)])
  have f': "ok s2 \<and> stack s2 = stack s1 \<and> connection_wf c'"
    if "ok s1" "stack s1 = butlast (stack s) @ [None]" "other s1 = other s"
      "validated_closure h f c s1 = (c', s2, r)" for s1 c' s2 r
    using f[OF that(1-3)] that(4) by (simp add: v)
  obtain s1 c' s2 r s3 where g: "validated_closure h f c s1 = (c', s2, r)" "other s1 = other s"
    "ok s1" "stack s1 = butlast (stack s) @ [None]"
    "with_active take_op restore_op (validated_closure h f) s = (s3, Inr r)" "ok s3"
    "stack s3 = butlast (stack s) @ [Some c']" "other s3 = other s2"
    by (rule with_active_some[OF assms(1,2) f'])
  show ?thesis
    by (rule that[OF g(1)[unfolded v] g(2-4) _ g(6-8)])
      (simp add: with_validated_connection_def g(5))
qed

text \<open>
  The case the raw operations are in: the closure is a function of the connection alone.  Then
  the state after the call is the state before it with the top of the stack replaced.
\<close>

lemma validated_pure:
  assumes "ok s" "stack_active (stack s) = Some c" "msg_check h c = Inr ()"
    and f: "\<And>s. f c s = (c', s, r)" and wf: "connection_wf c'"
  shows "\<exists>s3. with_validated_connection (with_active take_op restore_op) h f s = (s3, r) \<and>
    ok s3 \<and> stack s3 = butlast (stack s) @ [Some c'] \<and> other s3 = other s"
proof -
  have f': "ok s2 \<and> stack s2 = stack s1 \<and> connection_wf d"
    if "ok s1" "stack s1 = butlast (stack s) @ [None]" "other s1 = other s"
      "f c s1 = (d, s2, q)" for s1 d s2 q
    using that wf by (simp add: f)
  obtain s1 d s2 q s3 where "f c s1 = (d, s2, q)" "other s1 = other s"
    "with_validated_connection (with_active take_op restore_op) h f s = (s3, q)" "ok s3"
    "stack s3 = butlast (stack s) @ [Some d]" "other s3 = other s2"
    by (rule validated_accepted[OF assms(1-3) f'])
  then show ?thesis by (auto simp: f)
qed

text \<open>Any access whose closure keeps a loaned stack keeps the frame.\<close>

lemma validated_keeps_frame:
  assumes f: "\<And>c s c' s' r. ok s \<Longrightarrow> connection_wf c \<Longrightarrow> stack_active (stack s) = None \<Longrightarrow>
      f c s = (c', s', r) \<Longrightarrow> ok s' \<and> stack s' = stack s \<and> connection_wf c'"
  shows "keeps_frame ok stack (with_validated_connection (with_active take_op restore_op) h f)"
proof (rule keeps_frameI)
  fix s s' r
  assume ok: "ok s" and run: "with_validated_connection (with_active take_op restore_op) h f s = (s', r)"
  show "ok s' \<and> frame_le (stack s) (stack s')"
  proof (cases "stack_active (stack s)")
    case None
    then show ?thesis using validated_none[OF ok None, of h f] ok run by simp
  next
    case c: (Some c)
    have wf: "connection_wf c" using take_some[OF ok c] by blast
    have top: "stack s \<noteq> []" "last (stack s) = Some c"
      using c by (auto simp: stack_active_def split: if_splits)
    show ?thesis
    proof (cases "msg_check h c")
      case (Inl e)
      show ?thesis
        by (rule validated_rejected[OF ok c Inl, of f]) (use run in auto)
    next
      case (Inr u)
      have f': "ok s2 \<and> stack s2 = stack s1 \<and> connection_wf c'"
        if "ok s1" "stack s1 = butlast (stack s) @ [None]" "other s1 = other s"
          "f c s1 = (c', s2, q)" for s1 c' s2 q
        using f[OF that(1) wf _ that(4)] that(2) by (simp add: stack_active_def)
      from Inr have m: "msg_check h c = Inr ()" by simp
      show ?thesis
        by (rule validated_accepted[OF ok c m f']) (use run frame_le_top[OF top] in auto)
    qed
  qed
qed

lemma mapped_invec_keeps_frame:
  assumes "\<And>sl. keeps_frame ok stack (f sl)"
  shows "keeps_frame ok stack
    (with_connection_for_handle (with_active take_op restore_op) h (with_mapped_invec i f))"
  unfolding with_connection_for_handle_def
proof (rule validated_keeps_frame)
  fix c s c' s' r
  assume *: "ok s" "connection_wf c" "stack_active (stack s) = None"
    "with_mapped_invec i f c s = (c', s', r)"
  show "ok s' \<and> stack s' = stack s \<and> connection_wf c'"
    using with_mapped_invec_run[OF *(2,4)] *(1,3) keeps_frameD[OF assms *(1)]
    by (auto simp: frame_le_def)
qed

lemma mapped_outvec_keeps_frame:
  assumes "\<And>sl. keeps_frame ok stack (f sl)"
  shows "keeps_frame ok stack
    (with_connection_for_handle (with_active take_op restore_op) h (with_mapped_outvec i f))"
  unfolding with_connection_for_handle_def
proof (rule validated_keeps_frame)
  fix c s c' s' r
  assume *: "ok s" "connection_wf c" "stack_active (stack s) = None"
    "with_mapped_outvec i f c s = (c', s', r)"
  show "ok s' \<and> stack s' = stack s \<and> connection_wf c'"
    using with_mapped_outvec_run[OF *(2,4)] *(1,3) keeps_frameD[OF assms *(1)]
    by (auto simp: frame_le_def)
qed

text \<open>Preparing through the raw handle: the length and base of the vector, once.\<close>

lemma prepare_invec_raw_spec:
  assumes "ok s" "stack_active (stack s) = Some c" "msg_check h c = Inr ()"
  shows "\<exists>s3. prepare_invec_raw (with_active take_op restore_op) h i s =
      (s3, map_sum id (\<lambda>(k, n, b). \<lparr>rv_base = b, rv_len = n\<rparr>) (snd (prepare_invec c i))) \<and> ok s3 \<and>
    stack s3 = butlast (stack s) @ [Some (fst (prepare_invec c i))] \<and>
    other s3 = other s"
proof -
  have "connection_wf c" using take_some[OF assms(1,2)] by blast
  then have wf: "connection_wf (fst (prepare_invec c i))"
    using connection_wf_map_op[of c "PrepareIn i"] by simp
  show ?thesis unfolding prepare_invec_raw_def
    by (rule validated_pure[OF assms _ wf])
      (auto simp: Let_def split: prod.splits sum.splits)
qed

lemma prepare_outvec_raw_spec:
  assumes "ok s" "stack_active (stack s) = Some c" "msg_check h c = Inr ()"
  shows "\<exists>s3. prepare_outvec_raw (with_active take_op restore_op) h i s =
      (s3, map_sum id (\<lambda>(k, n, b). \<lparr>rv_base = b, rv_len = n\<rparr>) (snd (prepare_outvec c i))) \<and> ok s3 \<and>
    stack s3 = butlast (stack s) @ [Some (fst (prepare_outvec c i))] \<and>
    other s3 = other s"
proof -
  have "connection_wf c" using take_some[OF assms(1,2)] by blast
  then have wf: "connection_wf (fst (prepare_outvec c i))"
    using connection_wf_map_op[of c "PrepareOut i"] by simp
  show ?thesis unfolding prepare_outvec_raw_def
    by (rule validated_pure[OF assms _ wf])
      (auto simp: Let_def split: prod.splits sum.splits)
qed

lemma finish_invec_raw_spec:
  assumes "ok s" "stack_active (stack s) = Some c" "msg_check h c = Inr ()"
  shows "\<exists>s3. finish_invec_raw (with_active take_op restore_op) h i s =
      (s3, snd (mark_invec_unmapped c (unat i))) \<and> ok s3 \<and>
    stack s3 = butlast (stack s) @ [Some (fst (mark_invec_unmapped c (unat i)))] \<and>
    other s3 = other s"
proof -
  have "connection_wf c" using take_some[OF assms(1,2)] by blast
  then have wf: "connection_wf (fst (mark_invec_unmapped c (unat i)))"
    using connection_wf_map_op[of c "ReleaseIn i"] by simp
  show ?thesis unfolding finish_invec_raw_def
    by (rule validated_pure[OF assms _ wf])
      (auto simp: Let_def split: prod.splits sum.splits)
qed

lemma finish_outvec_raw_spec:
  assumes "ok s" "stack_active (stack s) = Some c" "msg_check h c = Inr ()"
  shows "\<exists>s3. finish_outvec_raw (with_active take_op restore_op) h i w s =
      (s3, snd (commit_outvec_write c (unat i) (out_len_of c (unat i)) w)) \<and> ok s3 \<and>
    stack s3 = butlast (stack s) @ [Some (fst (commit_outvec_write c (unat i) (out_len_of c (unat i)) w))] \<and>
    other s3 = other s"
proof -
  have "connection_wf c" using take_some[OF assms(1,2)] by blast
  then have wf: "connection_wf (fst (commit_outvec_write c (unat i) (out_len_of c (unat i)) w))"
    using connection_wf_map_op[of c "CommitOut i w"] by simp
  show ?thesis unfolding finish_outvec_raw_def
    by (rule validated_pure[OF assms _ wf])
      (auto simp: Let_def split: prod.splits sum.splits)
qed

end

text \<open>The interface a dispatcher adds for a call: push the connection, pop it afterwards.\<close>

locale spm_calls = spm_store +
  fixes known :: "connection \<Rightarrow> bool"
    and push :: "connection \<Rightarrow> 's \<Rightarrow> 's \<times> (spm_error + 'p)"
    and pop :: "'s \<Rightarrow> 's"
  assumes push_ok: "ok s \<Longrightarrow> connection_wf c \<Longrightarrow> known c \<Longrightarrow>
      length (stack s) < MAX_CONNECTIONS \<Longrightarrow>
      \<exists>s1 p. push c s = (s1, Inr p) \<and> ok s1 \<and> stack s1 = stack s @ [Some c] \<and> other s1 = other s"
    and push_full: "ok s \<Longrightarrow> known c \<Longrightarrow> length (stack s) \<ge> MAX_CONNECTIONS \<Longrightarrow>
      push c s = (s, Inl ConnectionStackFull)"
    and pop_ok: "ok s \<Longrightarrow> ok (pop s) \<and> stack (pop s) = butlast (stack s) \<and> other (pop s) = other s"
begin

text \<open>A body that keeps the stack, between a push and a pop, leaves the stack as it was.\<close>

lemma call_balanced:
  assumes "ok s" "connection_wf c" "known c" "length (stack s) < MAX_CONNECTIONS"
    and "\<And>s1 s2 r p. ok s1 \<Longrightarrow> stack s1 = stack s @ [Some c] \<Longrightarrow> other s1 = other s \<Longrightarrow>
      body p s1 = (s2, r) \<Longrightarrow> ok s2 \<and> length (stack s2) = length (stack s1) \<and>
      butlast (stack s2) = butlast (stack s1)"
  obtains s1 p s2 r where "push c s = (s1, Inr p)" "ok s1" "stack s1 = stack s @ [Some c]"
    "other s1 = other s" "body p s1 = (s2, r)" "ok s2" "ok (pop s2)" "stack (pop s2) = stack s"
    "other (pop s2) = other s2"
proof -
  obtain s1 p where s1: "push c s = (s1, Inr p)" "ok s1" "stack s1 = stack s @ [Some c]"
    "other s1 = other s"
    using push_ok[OF assms(1-4)] by blast
  obtain s2 r where b: "body p s1 = (s2, r)" by (cases "body p s1")
  have s2: "ok s2" "butlast (stack s2) = stack s" using assms(5)[OF s1(2-4) b] s1(3) by auto
  then show ?thesis using that[OF s1 b] pop_ok[of s2] by simp
qed

end

section \<open>Properties of the request path\<close>

text \<open>C20. Exact acceptance: call_from_slices succeeds exactly for a non-negative request type, the
  announced numbers of vectors (at most four together), input payloads that neither wrap nor
  overlap one another, and vectors that are empty or non-null, inside the address space and
  permitted to the caller; and then it returns the connection that records them.\<close>

theorem call_from_slices_exact:
  "call_from_slices perm h ctrl ins outs ca = Inr c \<longleftrightarrow>
    call_accepted perm ctrl ins outs ca \<and> c = fresh_connection h (unpack_type ctrl) ca ins outs"
  by (rule call_from_slices_Inr)

lemma load_vecs_Inl:
  "load_vecs perm w ca idx vs acc = Inl e \<Longrightarrow>
    e = ProgrammerError \<or> e = InvalidArgument \<and>
      (\<exists>v\<in>set vs. iov_len v \<noteq> 0 \<and> \<not> perm (iov_base v) (iov_len v) w ca)"
proof (induction perm w ca idx vs acc rule: load_vecs.induct)
  case (2 perm w ca idx v vs sizes bases counters)
  show ?case
  proof (cases "validate_pointer_range (iov_base v) (iov_len v)")
    case (Inl a)
    then have "a = ProgrammerError" by (auto simp: validate_pointer_range_def split: if_splits)
    then show ?thesis using 2(2) Inl by simp
  next
    case r: (Inr a)
    show ?thesis
    proof (cases "validate_memory_permission perm (iov_base v) (iov_len v) w ca")
      case (Inl b)
      then have "b = InvalidArgument" "iov_len v \<noteq> 0" "\<not> perm (iov_base v) (iov_len v) w ca"
        by (auto simp: validate_memory_permission_def split: if_splits)
      then show ?thesis using 2(2) r Inl by auto
    next
      case (Inr b)
      then have "load_vecs perm w ca (idx + 1) vs (list_set sizes idx (mu_some (iov_len v)),
          list_set bases idx (iov_base v), list_set counters idx 0) = Inl e"
        using 2(2) r by simp
      then show ?thesis using 2(1)[OF refl refl refl] by auto
    qed
  qed
qed simp

lemma nonoverlap_Inl: "nonoverlap_loop vs = Inl e \<Longrightarrow> e = ProgrammerError"
proof (induction vs rule: nonoverlap_loop.induct)
  case (1 l r rest)
  have inner: "check_all (overlap_check a b) ws = Inl e \<Longrightarrow> e = ProgrammerError" for a b ws
    by (auto dest!: check_all_InlD simp: overlap_check_def Let_def res_simps split: if_splits)
  show ?case
  proof (cases "checked_add (iov_base l) (iov_len l)")
    case (Some x)
    show ?thesis
    proof (cases "check_all (overlap_check (iov_base l) x) (r # rest)")
      case Inl: (Inl a)
      then show ?thesis using 1(2) Some inner[of "iov_base l" x "r # rest"] by simp
    next
      case Inr: (Inr a)
      then show ?thesis using 1 Some by (simp del: check_all.simps)
    qed
  qed (use 1(2) in simp)
qed simp_all

text \<open>Every error of call_from_slices is one of two: ProgrammerError, or InvalidArgument, and the
  latter only when some non-empty vector is one the platform denies to the caller (reading for
  input vectors, writing for output vectors).\<close>

theorem call_from_slices_errors:
  assumes "call_from_slices perm h ctrl ins outs ca = Inl e"
  shows "e = ProgrammerError \<or> e = InvalidArgument \<and>
    ((\<exists>v\<in>set ins. iov_len v \<noteq> 0 \<and> \<not> perm (iov_base v) (iov_len v) False ca) \<or>
     (\<exists>v\<in>set outs. iov_len v \<noteq> 0 \<and> \<not> perm (iov_base v) (iov_len v) True ca))"
proof (cases "validate_call_params ctrl")
  case (Inl a)
  then show ?thesis using assms validate_call_params_Inl by (auto simp: call_from_slices_def)
next
  case (Inr t)
  obtain mt i n where t: "t = (mt, i, n)" by (cases t)
  let ?z = "replicate PSA_MAX_IOVEC 0 :: usize list"
  let ?L = "load_vecs perm False ca 0 ins (msg_in_size (psa_msg_new h mt ca), ?z, ?z)"
  let ?M = "load_vecs perm True ca 0 outs (msg_out_size (psa_msg_new h mt ca), ?z, ?z)"
  show ?thesis
  proof (cases "length ins \<noteq> unat i \<or> length outs \<noteq> unat n")
    case True
    then show ?thesis using assms Inr t by (auto simp: call_from_slices_def)
  next
    case len: False
    note run = assms[unfolded call_from_slices_def Inr t, simplified len Let_def, simplified]
    show ?thesis
    proof (cases "validate_invec_payload_nonoverlap ins")
      case (Inl a)
      then have "a = ProgrammerError"
        using nonoverlap_Inl by (auto simp: validate_invec_payload_nonoverlap_def split: if_splits)
      then show ?thesis using run Inl len by simp
    next
      case over: (Inr u)
      show ?thesis
      proof (cases ?L)
        case (Inl a)
        then have "e = a" using run over len by simp
        then show ?thesis using load_vecs_Inl[OF Inl] by blast
      next
        case ld: (Inr r)
        show ?thesis
        proof (cases ?M)
          case (Inl a)
          then have "e = a" using run over len ld by (cases r) simp
          then show ?thesis using load_vecs_Inl[OF Inl] by blast
        next
          case (Inr q)
          then show ?thesis using run over len ld by (cases r; cases q) simp
        qed
      qed
    qed
  qed
qed

theorem call_from_slices_errors_witness:
  "call_from_slices (\<lambda>_ _ _ _. False) Crypto (ctrl_new 1 1 True 0 True)
    [\<lparr>iov_base = 64, iov_len = 8\<rparr>] [] NS_UNPRIVILEGED = Inl InvalidArgument \<and>
   (InvalidArgument = ProgrammerError \<or> InvalidArgument = InvalidArgument \<and>
    ((\<exists>v\<in>set [\<lparr>iov_base = 64, iov_len = 8\<rparr>]. iov_len v \<noteq> 0) \<or> (\<exists>v\<in>set []. iov_len v \<noteq> 0)))"
proof -
  let ?call = "call_from_slices (\<lambda>_ _ _ _. False) Crypto (ctrl_new 1 1 True 0 True)
    [\<lparr>iov_base = 64, iov_len = 8\<rparr>] [] NS_UNPRIVILEGED"
  have h: "has_iovec (ctrl_new 1 1 True 0 True)"
    by (simp add: has_iovec_def ctrl_new_def Let_def)
  have "validate_call_params (ctrl_new 1 1 True 0 True) = Inr (1, 1, 0)"
    unfolding validate_call_params_Inr using h
    by (simp add: unpack_type_new ctrl_len_new word_sless_alt PSA_MAX_IOVEC_def)
  then have call: "?call = Inl InvalidArgument"
    by (simp add: call_from_slices_def validate_invec_payload_nonoverlap_def Let_def
        validate_pointer_range_def checked_add_def validate_memory_permission_def)
  then show ?thesis using call_from_slices_errors[OF call] by auto
qed

lemma fresh_nth:
  assumes "length ins \<le> 4" "i < length ins"
  shows "invec_base (fresh_connection h t ca ins outs) ! i = iov_base (ins ! i)"
    "msg_in_size (cn_msg (fresh_connection h t ca ins outs)) ! i = mu_some (iov_len (ins ! i))"
  using assms by (auto simp: fresh_connection_def Let_def overwrite_nth)

lemma fresh_out_nth:
  assumes "length outs \<le> 4" "i < length outs"
  shows "outvec_base (fresh_connection h t ca ins outs) ! i = iov_base (outs ! i)"
    "msg_out_size (cn_msg (fresh_connection h t ca ins outs)) ! i = mu_some (iov_len (outs ! i))"
  using assms by (auto simp: fresh_connection_def Let_def overwrite_nth)

lemma fresh_lens:
  assumes "length ins \<le> 4" "i < length ins" "vec_ok perm w ca' (ins ! i)"
  shows "in_len_of (fresh_connection h t ca ins outs) i = iov_len (ins ! i)"
proof -
  have "i < length (msg_in_size (cn_msg (fresh_connection h t ca ins outs)))"
    using assms(1,2) by (simp add: fresh_connection_def Let_def)
  then show ?thesis
    using fresh_nth(2)[OF assms(1,2)] vec_ok_not_sentinel[OF assms(3)] by (simp add: in_len_of_def)
qed

lemma fresh_out_lens:
  assumes "length outs \<le> 4" "i < length outs" "vec_ok perm w ca' (outs ! i)"
  shows "out_len_of (fresh_connection h t ca ins outs) i = iov_len (outs ! i)"
proof -
  have "i < length (msg_out_size (cn_msg (fresh_connection h t ca ins outs)))"
    using assms(1,2) by (simp add: fresh_connection_def Let_def)
  then show ?thesis
    using fresh_out_nth(2)[OF assms(1,2)] vec_ok_not_sentinel[OF assms(3)]
    by (simp add: out_len_of_def)
qed

definition covers :: "usize \<Rightarrow> usize \<Rightarrow> nat \<Rightarrow> bool" where
  "covers b n x \<longleftrightarrow> unat b \<le> x \<and> x < unat b + unat n"

text \<open>C5. What a service is later handed is what the caller may touch: for every vector of an accepted
  call the connection records its base and length, the length is never the sentinel, a non-empty
  vector is non-null, inside the address space and permitted to the caller, and two distinct
  input payloads share no byte.\<close>

theorem accepted_vectors_safe:
  assumes "call_from_slices perm h ctrl ins outs ca = Inr c"
  shows "(\<forall>i<length ins. invec_base c ! i = iov_base (ins ! i) \<and> in_len_of c i = iov_len (ins ! i) \<and>
        iov_len (ins ! i) \<noteq> NONE_SENTINEL \<and> vec_ok perm False ca (ins ! i)) \<and>
    (\<forall>i<length outs. outvec_base c ! i = iov_base (outs ! i) \<and> out_len_of c i = iov_len (outs ! i) \<and>
        iov_len (outs ! i) \<noteq> NONE_SENTINEL \<and> vec_ok perm True ca (outs ! i)) \<and>
    (\<forall>i j x. i < j \<longrightarrow> j < length ins \<longrightarrow>
        \<not> (covers (invec_base c ! i) (in_len_of c i) x \<and> covers (invec_base c ! j) (in_len_of c j) x))"
proof -
  have acc: "call_accepted perm ctrl ins outs ca"
    and c: "c = fresh_connection h (unpack_type ctrl) ca ins outs"
    using assms by (simp_all add: call_from_slices_Inr)
  have len: "length ins \<le> 4" "length outs \<le> 4"
    using acc by (auto simp: call_accepted_def PSA_MAX_IOVEC_def)
  have ok: "i < length ins \<Longrightarrow> vec_ok perm False ca (ins ! i)"
    "i < length outs \<Longrightarrow> vec_ok perm True ca (outs ! i)" for i
    using acc by (auto simp: call_accepted_def list_all_length)
  have ins: "invec_base c ! i = iov_base (ins ! i)" "in_len_of c i = iov_len (ins ! i)"
    if "i < length ins" for i
    using fresh_nth(1)[OF len(1) that] fresh_lens[OF len(1) that ok(1)[OF that]] c by simp_all
  have outs: "outvec_base c ! i = iov_base (outs ! i)" "out_len_of c i = iov_len (outs ! i)"
    if "i < length outs" for i
    using fresh_out_nth(1)[OF len(2) that] fresh_out_lens[OF len(2) that ok(2)[OF that]] c
    by simp_all
  have sep: "separated (ins ! i) (ins ! j)" if "i < j" "j < length ins" for i j
    using acc that by (auto simp: call_accepted_def sorted_wrt_iff_nth_less)
  have "\<not> (covers (invec_base c ! i) (in_len_of c i) x \<and> covers (invec_base c ! j) (in_len_of c j) x)"
    if "i < j" "j < length ins" for i j x
    using sep[OF that] ins[of i] ins[of j] that by (auto simp: covers_def separated_def)
  moreover have "\<forall>i<length ins. invec_base c ! i = iov_base (ins ! i) \<and>
      in_len_of c i = iov_len (ins ! i) \<and> iov_len (ins ! i) \<noteq> NONE_SENTINEL \<and>
      vec_ok perm False ca (ins ! i)"
    using ins ok(1) vec_ok_not_sentinel[OF ok(1)] by simp
  moreover have "\<forall>i<length outs. outvec_base c ! i = iov_base (outs ! i) \<and>
      out_len_of c i = iov_len (outs ! i) \<and> iov_len (outs ! i) \<noteq> NONE_SENTINEL \<and>
      vec_ok perm True ca (outs ! i)"
    using outs ok(2) vec_ok_not_sentinel[OF ok(2)] by simp
  ultimately show ?thesis by simp
qed

theorem accepted_vectors_safe_witness:
  "\<exists>c. call_from_slices (\<lambda>_ _ _ _. True) Crypto (ctrl_new 1 1 True 0 True)
      [\<lparr>iov_base = 64, iov_len = 8\<rparr>] [] NS_UNPRIVILEGED = Inr c \<and>
    invec_base c ! 0 = 64 \<and> in_len_of c 0 = 8"
proof -
  have h: "has_iovec (ctrl_new 1 1 True 0 True)"
    by (simp add: has_iovec_def ctrl_new_def Let_def)
  then have "call_accepted (\<lambda>_ _ _ _. True) (ctrl_new 1 1 True 0 True)
      [\<lparr>iov_base = 64, iov_len = 8\<rparr>] [] NS_UNPRIVILEGED"
    by (simp add: call_accepted_def unpack_type_new ctrl_len_new word_sless_alt PSA_MAX_IOVEC_def
        vec_ok_def vec_fits_def)
  then obtain c where c: "call_from_slices (\<lambda>_ _ _ _. True) Crypto (ctrl_new 1 1 True 0 True)
      [\<lparr>iov_base = 64, iov_len = 8\<rparr>] [] NS_UNPRIVILEGED = Inr c"
    by (simp add: call_from_slices_Inr)
  then show ?thesis using accepted_vectors_safe[OF c] by auto
qed

text \<open>C21. A vector is handed out at most once, as long as it is not unmapped.  After a successful prepare of
  an input or output vector no operations on the connection make a second prepare of it succeed,
  unless one of them is the isolated dispatcher's unmapping update of that vector (the function-call
  dispatcher has no such operation; the isolated one runs it after a release or commit, and
  isolated_reaccess shows that an input vector can then be accessed again).  A second release of an
  input vector and a second commit of an output vector fail until the vector is mapped anew.  An
  output vector committed with a non-zero length is never handed out again, in either build, unless
  a mapping update comes first, which the isolated dispatcher makes only after a prepare of that
  vector has succeeded.\<close>

theorem vectors_mapped_once:
  assumes "connection_wf c"
  shows "(\<not> list_ex (updates False (unat i) False) ops \<longrightarrow>
      (case prepare_invec c i of (c', Inr _) \<Rightarrow>
        snd (prepare_invec (fold map_op_run ops c') i) = Inl ProgrammerError | _ \<Rightarrow> True)) \<and>
    (\<not> list_ex (updates True (unat i) False) ops \<longrightarrow>
      (case prepare_outvec c i of (c', Inr _) \<Rightarrow>
        snd (prepare_outvec (fold map_op_run ops c') i) = Inl ProgrammerError | _ \<Rightarrow> True)) \<and>
    (\<not> list_ex (updates False k True) ops \<longrightarrow>
      (case mark_invec_unmapped c k of (c', Inr _) \<Rightarrow>
        snd (mark_invec_unmapped (fold map_op_run ops c') k) = Inl ProgrammerError | _ \<Rightarrow> True)) \<and>
    (\<not> list_ex (updates True k True) ops \<longrightarrow>
      (case commit_outvec_write c k n w of (c', Inr _) \<Rightarrow>
        snd (commit_outvec_write (fold map_op_run ops c') k n' w') = Inl ProgrammerError \<and>
        (w \<noteq> 0 \<and> unat j = k \<longrightarrow> snd (prepare_outvec (fold map_op_run ops c') j) = Inl ProgrammerError)
      | _ \<Rightarrow> True))"
proof -
  note lens = connection_wfD[OF assms]
  note wf = connection_wf_run
  have 1: "connection_wf (c\<lparr>invec_mapped := (invec_mapped c)[j := True]\<rparr>)"
    "connection_wf (c\<lparr>outvec_mapped := (outvec_mapped c)[j := True]\<rparr>)"
    "connection_wf (c\<lparr>invec_unmapped := (invec_unmapped c)[j := True]\<rparr>)"
    "connection_wf (c\<lparr>outvec_written := (outvec_written c)[j := w],
       cn_msg := (cn_msg c)\<lparr>msg_out_size := (msg_out_size (cn_msg c))[j := mu_some w]\<rparr>,
       outvec_unmapped := (outvec_unmapped c)[j := True]\<rparr>)" for j
    using assms by (simp_all add: connection_wf_def)
  have in_once: "snd (prepare_invec (fold map_op_run ops d) i) = Inl ProgrammerError"
    if "connection_wf d" "unat i < 4" "invec_mapped d ! unat i" "\<not> list_ex (updates False (unat i) False) ops" for d
    using flags_run(1)[OF _ that(2), of d ops] that by (simp add: prepare_invec_eq wf Let_def)
  have out_once: "snd (prepare_outvec (fold map_op_run ops d) i) = Inl ProgrammerError"
    if "connection_wf d" "unat i < 4" "outvec_mapped d ! unat i" "\<not> list_ex (updates True (unat i) False) ops" for d
    using flags_run(2)[OF _ that(2), of d ops] that by (simp add: prepare_outvec_eq wf Let_def)
  have release_once: "snd (mark_invec_unmapped (fold map_op_run ops d) k) = Inl ProgrammerError"
    if "connection_wf d" "k < 4" "invec_unmapped d ! k" "\<not> list_ex (updates False k True) ops" for d
    using flags_run(3)[OF _ that(2), of d ops] that by (simp add: mark_invec_unmapped_eq wf)
  have commit_once: "snd (commit_outvec_write (fold map_op_run ops d) k n' w') = Inl ProgrammerError"
    if "connection_wf d" "k < 4" "outvec_unmapped d ! k" "\<not> list_ex (updates True k True) ops" for d
    using flags_run(4)[OF _ that(2), of d ops] that by (simp add: commit_outvec_write_eq wf)
  have no_data_again: "snd (prepare_outvec (fold map_op_run ops d) j) = Inl ProgrammerError"
    if "connection_wf d" "k < 4" "released_with_data k d" "\<not> list_ex (updates True k True) ops" "unat j = k" for d
    using flags_run(5)[OF _ that(2), of d ops] that by (simp add: prepare_outvec_eq wf Let_def released_with_data_def)
  show ?thesis
    using lens in_once[OF 1(1)] out_once[OF 1(2)] release_once[OF 1(3)] commit_once[OF 1(4)] no_data_again[OF 1(4)]
    by (simp add: map_op_eqs[OF assms] Let_def released_with_data_def)
qed

theorem vectors_mapped_once_witness:
  "snd (prepare_invec sample_connection 2) = Inr (2, 0, 0) \<and>
   snd (prepare_invec (fold map_op_run [ReleaseIn 2, PrepareOut 1, UpdateVec False 2 True, UpdateVec False 1 False]
     (fst (prepare_invec sample_connection 2))) 2) = Inl ProgrammerError"
proof -
  have wf: "connection_wf sample_connection" by simp
  have p: "prepare_invec sample_connection 2 =
      (sample_connection\<lparr>invec_mapped := (invec_mapped sample_connection)[2 := True]\<rparr>, Inr (2, 0, 0))"
    unfolding prepare_invec_eq[OF wf]
    by (simp add: sample_connection_def in_len_of_def psa_msg_new_def PSA_MAX_IOVEC_def)
  have n: "\<not> list_ex (updates False (unat (2 :: u32)) False)
      [ReleaseIn 2, PrepareOut 1, UpdateVec False 2 True, UpdateVec False 1 False]" by simp
  show ?thesis
    using conjunct1[OF vectors_mapped_once[OF wf, where i = 2 and
        ops = "[ReleaseIn 2, PrepareOut 1, UpdateVec False 2 True, UpdateVec False 1 False]"], THEN mp, OF n]
    unfolding p by (simp del: fold_simps)
qed

text \<open>C22. Output accounting: whatever a service does through the mapping protocol, the isolated dispatcher's
  flag updates included, the vectors of the
  connection stay those of the call, and the length reported for an output vector and the count
  of bytes written to it never exceed the buffer the caller gave.\<close>

theorem output_accounting:
  assumes "call_from_slices perm h ctrl ins outs ca = Inr c" "i < length outs"
  shows "outvec_base (fold map_op_run ops c) ! i = iov_base (outs ! i) \<and>
    out_len_of (fold map_op_run ops c) i \<le> iov_len (outs ! i) \<and>
    outvec_written (fold map_op_run ops c) ! i \<le> iov_len (outs ! i)"
proof -
  have acc: "call_accepted perm ctrl ins outs ca"
    and c: "c = fresh_connection h (unpack_type ctrl) ca ins outs"
    using assms by (simp_all add: call_from_slices_Inr)
  have len: "length ins \<le> 4" "length outs \<le> 4"
    using acc by (auto simp: call_accepted_def PSA_MAX_IOVEC_def)
  have ok: "vec_ok perm True ca (outs ! i)"
    using acc assms(2) by (auto simp: call_accepted_def list_all_length)
  have "connection_wf c" unfolding c by (rule connection_wf_fresh[OF len])
  then have "conn_tracks c (fold map_op_run ops c)"
    by (intro conn_tracks_run conn_tracks_refl) (simp_all add: c fresh_connection_def Let_def)
  then show ?thesis
    using fresh_out_nth(1)[OF len(2) assms(2)] fresh_out_lens[OF len(2) assms(2) ok] c assms(2) len
    by (auto simp: conn_tracks_def dest!: spec[of _ i])
qed

theorem output_accounting_witness:
  "\<exists>c. call_from_slices (\<lambda>_ _ _ _. True) Crypto (ctrl_new 1 0 True 1 True)
      [] [\<lparr>iov_base = 64, iov_len = 8\<rparr>] NS_UNPRIVILEGED = Inr c \<and>
    out_len_of (fold map_op_run [PrepareOut 0, CommitOut 0 5] c) 0 \<le> 8"
proof -
  have h: "has_iovec (ctrl_new 1 0 True 1 True)"
    by (simp add: has_iovec_def ctrl_new_def Let_def)
  then have "call_accepted (\<lambda>_ _ _ _. True) (ctrl_new 1 0 True 1 True)
      [] [\<lparr>iov_base = 64, iov_len = 8\<rparr>] NS_UNPRIVILEGED"
    by (simp add: call_accepted_def unpack_type_new ctrl_len_new word_sless_alt PSA_MAX_IOVEC_def
        vec_ok_def vec_fits_def)
  then obtain c where c: "call_from_slices (\<lambda>_ _ _ _. True) Crypto (ctrl_new 1 0 True 1 True)
      [] [\<lparr>iov_base = 64, iov_len = 8\<rparr>] NS_UNPRIVILEGED = Inr c"
    by (simp add: call_from_slices_Inr)
  then show ?thesis using output_accounting[OF c, of 0 "[PrepareOut 0, CommitOut 0 5]"] by auto
qed

end
