(* ===== verification/Sync.thy ===== *)
theory Sync
  imports Prelude
begin

text \<open>
  The synchronisation primitives of the partition manager: the try-lock mutex (libs/mutex.rs)
  and the once-initialised cell (libs/once_lock.rs).  Each is given as the sequential function
  its callers use, and as a step relation in which threads interleave between the atomic
  operations of the source (compare_exchange, the plain write under the lock, the store).
\<close>

section \<open>Mutex, sequentially\<close>

record 'a mutex =
  mx_lock :: bool
  mx_value :: 'a

definition mutex_new :: "'a \<Rightarrow> 'a mutex" where
  "mutex_new v = \<lparr>mx_lock = False, mx_value = v\<rparr>"

datatype try_lock_error = TryLockError

definition try_lock :: "('a \<Rightarrow> 'a \<times> 'r) \<Rightarrow> 'a mutex \<Rightarrow> 'a mutex \<times> (try_lock_error + 'r)" where
  "try_lock f m =
    (if \<not> mx_lock m then
       (let m = m\<lparr>mx_lock := True\<rparr>;
            (v, result) = f (mx_value m);
            m = m\<lparr>mx_value := v, mx_lock := False\<rparr>
        in (m, Inr result))
     else (m, Inl TryLockError))"

lemma try_lock_free:
  "\<not> mx_lock m \<Longrightarrow> try_lock f m = (m\<lparr>mx_value := fst (f (mx_value m))\<rparr>, Inr (snd (f (mx_value m))))"
  by (simp add: try_lock_def Let_def split: prod.split)

lemma try_lock_busy: "mx_lock m \<Longrightarrow> try_lock f m = (m, Inl TryLockError)"
  by (simp add: try_lock_def)

section \<open>Mutex, interleaved\<close>

text \<open>
  Thread t runs one try_lock whose closure is f t: it either wins the compare_exchange and
  enters, runs the closure on the value in place and releases the flag, or loses and fails.
  The log records, newest first, the threads whose closure has run.
\<close>

datatype lock_pc = Trying | Inside | Leaving | Finished | Failed

record 'a lock_sys =
  ls_mutex :: "'a mutex"
  ls_pc :: "nat \<Rightarrow> lock_pc"
  ls_log :: "nat list"

definition lock_init :: "'a \<Rightarrow> 'a lock_sys" where
  "lock_init v = \<lparr>ls_mutex = mutex_new v, ls_pc = (\<lambda>_. Trying), ls_log = []\<rparr>"

inductive lock_step :: "(nat \<Rightarrow> 'a \<Rightarrow> 'a) \<Rightarrow> 'a lock_sys \<Rightarrow> 'a lock_sys \<Rightarrow> bool"
  for f where
  cas_win: "ls_pc s t = Trying \<Longrightarrow> \<not> mx_lock (ls_mutex s) \<Longrightarrow>
    lock_step f s (s\<lparr>ls_mutex := (ls_mutex s)\<lparr>mx_lock := True\<rparr>, ls_pc := (ls_pc s)(t := Inside)\<rparr>)"
| cas_lose: "ls_pc s t = Trying \<Longrightarrow> mx_lock (ls_mutex s) \<Longrightarrow>
    lock_step f s (s\<lparr>ls_pc := (ls_pc s)(t := Failed)\<rparr>)"
| closure: "ls_pc s t = Inside \<Longrightarrow>
    lock_step f s (s\<lparr>ls_mutex := (ls_mutex s)\<lparr>mx_value := f t (mx_value (ls_mutex s))\<rparr>,
                     ls_pc := (ls_pc s)(t := Leaving), ls_log := t # ls_log s\<rparr>)"
| unlock: "ls_pc s t = Leaving \<Longrightarrow>
    lock_step f s (s\<lparr>ls_mutex := (ls_mutex s)\<lparr>mx_lock := False\<rparr>, ls_pc := (ls_pc s)(t := Finished)\<rparr>)"

inductive lock_reach :: "(nat \<Rightarrow> 'a \<Rightarrow> 'a) \<Rightarrow> 'a \<Rightarrow> 'a lock_sys \<Rightarrow> bool" for f v where
  lock_start: "lock_reach f v (lock_init v)"
| lock_next: "lock_reach f v s \<Longrightarrow> lock_step f s s' \<Longrightarrow> lock_reach f v s'"


definition holds_lock :: "lock_pc \<Rightarrow> bool" where
  "holds_lock p \<longleftrightarrow> p = Inside \<or> p = Leaving"

lemma holds_lock_simps [simp]:
  "\<not> holds_lock Trying" "holds_lock Inside" "holds_lock Leaving" "\<not> holds_lock Finished"
  "\<not> holds_lock Failed"
  by (simp_all add: holds_lock_def)

text \<open>
  The flag is set exactly while one thread is between its compare_exchange and its store, no
  two threads are there at once, and the value is the closures of the log applied in order,
  each once, to the initial value.
\<close>

definition lock_inv :: "(nat \<Rightarrow> 'a \<Rightarrow> 'a) \<Rightarrow> 'a \<Rightarrow> 'a lock_sys \<Rightarrow> bool" where
  "lock_inv f v s \<longleftrightarrow>
    (mx_lock (ls_mutex s) = (\<exists>t. holds_lock (ls_pc s t))) \<and>
    (\<forall>t u. holds_lock (ls_pc s t) \<and> holds_lock (ls_pc s u) \<longrightarrow> t = u) \<and>
    mx_value (ls_mutex s) = foldr f (ls_log s) v \<and>
    distinct (ls_log s) \<and> set (ls_log s) = {t. ls_pc s t = Leaving \<or> ls_pc s t = Finished}"

lemma lock_inv_init: "lock_inv f v (lock_init v)"
  by (simp add: lock_inv_def lock_init_def mutex_new_def)

lemma lock_inv_step:
  assumes "lock_inv f v s" "lock_step f s s'"
  shows "lock_inv f v s'"
  using assms(2)
proof (cases rule: lock_step.cases)
  case (cas_win t)
  then show ?thesis using assms(1) unfolding lock_inv_def
    by (auto split: if_splits)
next
  case (cas_lose t)
  then have "holds_lock (((ls_pc s)(t := Failed)) u) = holds_lock (ls_pc s u)" for u by simp
  moreover have "{u. ((ls_pc s)(t := Failed)) u = Leaving \<or> ((ls_pc s)(t := Failed)) u = Finished} =
      {u. ls_pc s u = Leaving \<or> ls_pc s u = Finished}"
    using cas_lose(2) by auto
  ultimately show ?thesis using assms(1) unfolding lock_inv_def cas_lose(1) by simp
next
  case (closure t)
  have "ls_pc s u = Inside \<or> ls_pc s u = Leaving \<longrightarrow> u = t" for u
    using assms(1) closure(2) by (auto simp: lock_inv_def holds_lock_def)
  with closure show ?thesis using assms(1) unfolding lock_inv_def
    by (auto simp: holds_lock_def split: if_splits)
next
  case (unlock t)
  have "ls_pc s u = Inside \<or> ls_pc s u = Leaving \<longrightarrow> u = t" for u
    using assms(1) unlock(2) by (auto simp: lock_inv_def holds_lock_def)
  with unlock show ?thesis using assms(1) unfolding lock_inv_def
    by (auto simp: holds_lock_def split: if_splits)
qed

lemma lock_inv_reach: "lock_reach f v s \<Longrightarrow> lock_inv f v s"
  by (induction rule: lock_reach.induct) (auto intro: lock_inv_init lock_inv_step)

section \<open>OnceLock, sequentially\<close>

datatype once_state = Uninitialized | Initializing | Initialized

primrec once_u8 :: "once_state \<Rightarrow> u8" where
  "once_u8 Uninitialized = 0"
| "once_u8 Initializing = 1"
| "once_u8 Initialized = 2"

record 'a once_lock =
  ol_state :: u8
  ol_value :: "'a option"

definition once_new :: "'a once_lock" where
  "once_new = \<lparr>ol_state = once_u8 Uninitialized, ol_value = None\<rparr>"

definition once_try_get :: "'a once_lock \<Rightarrow> once_state + 'a" where
  "once_try_get l =
    (if ol_state l = once_u8 Initializing then Inl Initializing
     else if ol_state l = once_u8 Initialized then Inr (the (ol_value l))
     else Inl Uninitialized)"

definition once_try_set :: "'a \<Rightarrow> 'a once_lock \<Rightarrow> 'a once_lock \<times> ('a + unit)" where
  "once_try_set v l =
    (if ol_state l = once_u8 Uninitialized then
       (let l = l\<lparr>ol_state := once_u8 Initializing\<rparr>;
            l = l\<lparr>ol_value := Some v\<rparr>;
            l = l\<lparr>ol_state := once_u8 Initialized\<rparr>
        in (l, Inr ()))
     else (l, Inl v))"

definition once_drop :: "'a once_lock \<Rightarrow> 'a once_lock" where
  "once_drop l = (if ol_state l = once_u8 Initialized then l\<lparr>ol_value := None\<rparr> else l)"

lemma once_u8_inject [simp]: "once_u8 a = once_u8 b \<longleftrightarrow> a = b"
  by (cases a; cases b) simp_all

section \<open>OnceLock, interleaved\<close>

text \<open>
  Thread t calls try_set with its own value w t.  Readers load the state at any moment; the
  result of such a load is once_try_get of the state reached.
\<close>

datatype set_pc = Set_start | Set_won | Set_written | Set_ok | Set_err

record 'a once_sys =
  os_lock :: "'a once_lock"
  os_pc :: "nat \<Rightarrow> set_pc"

definition once_init :: "'a once_sys" where
  "once_init = \<lparr>os_lock = once_new, os_pc = (\<lambda>_. Set_start)\<rparr>"

inductive once_step :: "(nat \<Rightarrow> 'a) \<Rightarrow> 'a once_sys \<Rightarrow> 'a once_sys \<Rightarrow> bool" for w where
  set_win: "os_pc s t = Set_start \<Longrightarrow> ol_state (os_lock s) = once_u8 Uninitialized \<Longrightarrow>
    once_step w s (s\<lparr>os_lock := (os_lock s)\<lparr>ol_state := once_u8 Initializing\<rparr>,
                     os_pc := (os_pc s)(t := Set_won)\<rparr>)"
| set_lose: "os_pc s t = Set_start \<Longrightarrow> ol_state (os_lock s) \<noteq> once_u8 Uninitialized \<Longrightarrow>
    once_step w s (s\<lparr>os_pc := (os_pc s)(t := Set_err)\<rparr>)"
| set_write: "os_pc s t = Set_won \<Longrightarrow>
    once_step w s (s\<lparr>os_lock := (os_lock s)\<lparr>ol_value := Some (w t)\<rparr>,
                     os_pc := (os_pc s)(t := Set_written)\<rparr>)"
| set_publish: "os_pc s t = Set_written \<Longrightarrow>
    once_step w s (s\<lparr>os_lock := (os_lock s)\<lparr>ol_state := once_u8 Initialized\<rparr>,
                     os_pc := (os_pc s)(t := Set_ok)\<rparr>)"

inductive once_reach :: "(nat \<Rightarrow> 'a) \<Rightarrow> 'a once_sys \<Rightarrow> bool" for w where
  once_start: "once_reach w once_init"
| once_next: "once_reach w s \<Longrightarrow> once_step w s s' \<Longrightarrow> once_reach w s'"


definition set_owner :: "set_pc \<Rightarrow> bool" where
  "set_owner p \<longleftrightarrow> p = Set_won \<or> p = Set_written \<or> p = Set_ok"

text \<open>The winner's progress determines the state byte and the stored value.\<close>

definition once_phase :: "'a \<Rightarrow> set_pc \<Rightarrow> 'a once_lock \<Rightarrow> bool" where
  "once_phase v p l = (case p of
     Set_won \<Rightarrow> ol_state l = once_u8 Initializing
   | Set_written \<Rightarrow> ol_state l = once_u8 Initializing \<and> ol_value l = Some v
   | Set_ok \<Rightarrow> ol_state l = once_u8 Initialized \<and> ol_value l = Some v
   | _ \<Rightarrow> False)"

definition once_inv :: "(nat \<Rightarrow> 'a) \<Rightarrow> 'a once_sys \<Rightarrow> bool" where
  "once_inv w s \<longleftrightarrow>
    (ol_state (os_lock s) = once_u8 Uninitialized \<and> (\<forall>t. \<not> set_owner (os_pc s t))) \<or>
    (\<exists>t. (\<forall>u. u \<noteq> t \<longrightarrow> \<not> set_owner (os_pc s u)) \<and> once_phase (w t) (os_pc s t) (os_lock s))"

lemma set_owner_simps [simp]:
  "\<not> set_owner Set_start" "\<not> set_owner Set_err" "set_owner Set_won" "set_owner Set_written"
  "set_owner Set_ok"
  by (simp_all add: set_owner_def)

lemma once_phase_simps [simp]:
  "\<not> once_phase v Set_start l" "\<not> once_phase v Set_err l"
  "once_phase v Set_won l \<longleftrightarrow> ol_state l = 1"
  "once_phase v Set_written l \<longleftrightarrow> ol_state l = 1 \<and> ol_value l = Some v"
  "once_phase v Set_ok l \<longleftrightarrow> ol_state l = 2 \<and> ol_value l = Some v"
  by (simp_all add: once_phase_def)

lemma once_inv_init: "once_inv w once_init"
  by (simp add: once_inv_def once_init_def once_new_def)

lemma once_inv_step:
  assumes inv: "once_inv w s" and "once_step w s s'"
  shows "once_inv w s'"
  using assms(2)
proof (cases rule: once_step.cases)
  case (set_win t)
  have "ol_state (os_lock s) \<noteq> 0" if "once_phase v p (os_lock s)" for v p
    using that by (cases p) auto
  then have "\<not> set_owner (os_pc s u)" for u
    using inv set_win(3) by (auto simp: once_inv_def)
  then show ?thesis unfolding once_inv_def set_win(1)
    by (intro disjI2 exI[of _ t]) simp
next
  case (set_lose t)
  then obtain o' where o': "\<forall>u. u \<noteq> o' \<longrightarrow> \<not> set_owner (os_pc s u)"
      "once_phase (w o') (os_pc s o') (os_lock s)"
    using inv by (auto simp: once_inv_def)
  then have "o' \<noteq> t" using set_lose(2) by auto
  with o' show ?thesis unfolding once_inv_def set_lose(1)
    by (intro disjI2 exI[of _ o']) simp
next
  case (set_write t)
  then obtain o' where o': "\<forall>u. u \<noteq> o' \<longrightarrow> \<not> set_owner (os_pc s u)"
      "once_phase (w o') (os_pc s o') (os_lock s)"
    using inv by (auto simp: once_inv_def) (metis set_owner_simps(3))
  moreover have "o' = t" using o' set_write(2) by (metis set_owner_simps(3))
  ultimately show ?thesis using set_write(2) unfolding once_inv_def set_write(1)
    by (intro disjI2 exI[of _ t]) simp
next
  case (set_publish t)
  then obtain o' where o': "\<forall>u. u \<noteq> o' \<longrightarrow> \<not> set_owner (os_pc s u)"
      "once_phase (w o') (os_pc s o') (os_lock s)"
    using inv by (auto simp: once_inv_def) (metis set_owner_simps(4))
  moreover have "o' = t" using o' set_publish(2) by (metis set_owner_simps(4))
  ultimately show ?thesis using set_publish(2) unfolding once_inv_def set_publish(1)
    by (intro disjI2 exI[of _ t]) simp
qed

lemma once_inv_reach: "once_reach w s \<Longrightarrow> once_inv w s"
  by (induction rule: once_reach.induct) (auto intro: once_inv_init once_inv_step)

lemma once_ok_stable:
  assumes "once_step w s s'" "os_pc s t = Set_ok"
  shows "os_pc s' t = Set_ok"
  using assms by (cases rule: once_step.cases) auto

section \<open>Properties\<close>

text \<open>C32. The try-lock mutex excludes: in every interleaving at most one thread is inside its closure, the
  flag is set exactly while one is, and the protected value is the effect of the closures that
  ran, each once and one after the other; a thread that lost the compare_exchange has had no
  effect.\<close>

theorem mutex_exclusion:
  assumes "lock_reach f v s"
  shows "(\<forall>t u. holds_lock (ls_pc s t) \<longrightarrow> holds_lock (ls_pc s u) \<longrightarrow> t = u) \<and>
    (mx_lock (ls_mutex s) \<longleftrightarrow> (\<exists>t. holds_lock (ls_pc s t))) \<and>
    mx_value (ls_mutex s) = foldr f (ls_log s) v \<and> distinct (ls_log s) \<and>
    (\<forall>t. t \<in> set (ls_log s) \<longleftrightarrow> ls_pc s t = Leaving \<or> ls_pc s t = Finished)"
  using lock_inv_reach[OF assms] by (simp add: lock_inv_def)

text \<open>A run: thread 3 enters, thread 4 tries and loses, thread 3 runs its closure and leaves, thread 5
  enters and runs its closure.\<close>

abbreviation sample_lock_sys :: "bool \<Rightarrow> nat \<Rightarrow> (nat \<Rightarrow> lock_pc) \<Rightarrow> nat list \<Rightarrow> nat lock_sys" where
  "sample_lock_sys l x pc log \<equiv> \<lparr>ls_mutex = \<lparr>mx_lock = l, mx_value = x\<rparr>, ls_pc = pc, ls_log = log\<rparr>"

abbreviation sample_closure :: "nat \<Rightarrow> nat \<Rightarrow> nat" where
  "sample_closure t x \<equiv> 10 * x + t"

lemma sample_lock_run:
  "lock_reach sample_closure 7
    (sample_lock_sys True 735 ((\<lambda>_. Trying)(3 := Finished, 4 := Failed, 5 := Leaving)) [5, 3])"
proof -
  let ?t = "(\<lambda>_. Trying) :: nat \<Rightarrow> lock_pc"
  have "lock_reach sample_closure 7 (sample_lock_sys False 7 ?t [])"
    using lock_start[of sample_closure 7] by (simp add: lock_init_def mutex_new_def)
  then have "lock_reach sample_closure 7 (sample_lock_sys True 7 (?t(3 := Inside)) [])"
    by (rule lock_next) (use cas_win[of "sample_lock_sys False 7 ?t []" 3] in simp)
  then have "lock_reach sample_closure 7 (sample_lock_sys True 7 (?t(3 := Inside, 4 := Failed)) [])"
    by (rule lock_next) (use cas_lose[of "sample_lock_sys True 7 (?t(3 := Inside)) []" 4] in simp)
  then have "lock_reach sample_closure 7 (sample_lock_sys True 73 (?t(3 := Leaving, 4 := Failed)) [3])"
    by (rule lock_next)
      (use closure[of "sample_lock_sys True 7 (?t(3 := Inside, 4 := Failed)) []" 3 sample_closure] in \<open>simp add: fun_upd_twist\<close>)
  then have "lock_reach sample_closure 7 (sample_lock_sys False 73 (?t(3 := Finished, 4 := Failed)) [3])"
    by (rule lock_next)
      (use unlock[of "sample_lock_sys True 73 (?t(3 := Leaving, 4 := Failed)) [3]" 3] in \<open>simp add: fun_upd_twist\<close>)
  then have "lock_reach sample_closure 7 (sample_lock_sys True 73 (?t(3 := Finished, 4 := Failed, 5 := Inside)) [3])"
    by (rule lock_next)
      (use cas_win[of "sample_lock_sys False 73 (?t(3 := Finished, 4 := Failed)) [3]" 5] in simp)
  then show ?thesis
    by (rule lock_next)
      (use closure[of "sample_lock_sys True 73 (?t(3 := Finished, 4 := Failed, 5 := Inside)) [3]" 5 sample_closure] in simp)
qed

theorem mutex_exclusion_witness:
  "\<exists>s. lock_reach sample_closure 7 s \<and> ls_log s = [5, 3] \<and> ls_pc s 5 = Leaving \<and> ls_pc s 4 = Failed \<and>
    mx_lock (ls_mutex s) \<and> (\<forall>t. holds_lock (ls_pc s t) \<longrightarrow> t = 5) \<and> mx_value (ls_mutex s) = 735"
proof -
  let ?s = "sample_lock_sys True 735 ((\<lambda>_. Trying)(3 := Finished, 4 := Failed, 5 := Leaving)) [5, 3]"
  note ex = mutex_exclusion[OF sample_lock_run]
  have h: "holds_lock (ls_pc ?s 5)" by simp
  have locked: "mx_lock (ls_mutex ?s)" using conjunct1[OF conjunct2[OF ex]] h by (metis (no_types))
  have alone: "\<forall>t. holds_lock (ls_pc ?s t) \<longrightarrow> t = 5" using conjunct1[OF ex] h by (metis (no_types))
  have "mx_value (ls_mutex ?s) = foldr sample_closure (ls_log ?s) 7" using ex by (elim conjE) assumption
  then have val: "mx_value (ls_mutex ?s) = 735" by simp
  show ?thesis
    by (rule exI[of _ ?s], intro conjI) (rule sample_lock_run, simp, simp, simp, rule locked, rule alone, rule val)
qed

text \<open>The once-cell is set once: in every interleaving at most one try_set succeeds, a reader that
  gets a value gets the value of that thread and only after it has been written, and once a
  thread has succeeded every reader gets its value.\<close>

theorem once_set_once:
  assumes "once_reach w s"
  shows "(\<forall>t u. os_pc s t = Set_ok \<longrightarrow> os_pc s u = Set_ok \<longrightarrow> t = u) \<and>
    (\<forall>t. os_pc s t = Set_ok \<longrightarrow> once_try_get (os_lock s) = Inr (w t)) \<and>
    (\<forall>x. once_try_get (os_lock s) = Inr x \<longrightarrow> (\<exists>t. os_pc s t = Set_ok \<and> x = w t))"
  using once_inv_reach[OF assms] unfolding once_inv_def
proof
  assume "ol_state (os_lock s) = once_u8 Uninitialized \<and> (\<forall>t. \<not> set_owner (os_pc s t))"
  moreover from this have "os_pc s t \<noteq> Set_ok" for t by (metis set_owner_simps(5))
  ultimately show ?thesis by (simp add: once_try_get_def)
next
  assume "\<exists>t. (\<forall>u. u \<noteq> t \<longrightarrow> \<not> set_owner (os_pc s u)) \<and> once_phase (w t) (os_pc s t) (os_lock s)"
  then obtain t where t: "\<forall>u. u \<noteq> t \<longrightarrow> \<not> set_owner (os_pc s u)"
    "once_phase (w t) (os_pc s t) (os_lock s)" by blast
  have only: "os_pc s u = Set_ok \<Longrightarrow> u = t" for u using t(1) by (metis set_owner_simps(5))
  have one: "\<forall>t u. os_pc s t = Set_ok \<longrightarrow> os_pc s u = Set_ok \<longrightarrow> t = u"
    using only by metis
  show ?thesis
  proof (cases "os_pc s t = Set_ok")
    case True
    then have g: "once_try_get (os_lock s) = Inr (w t)" using t(2) by (simp add: once_try_get_def)
    then have "\<forall>x. once_try_get (os_lock s) = Inr x \<longrightarrow> (\<exists>t. os_pc s t = Set_ok \<and> x = w t)"
      using True by (intro allI impI exI[of _ t]) simp
    then show ?thesis using one only g by metis
  next
    case False
    then have "once_try_get (os_lock s) = Inl Initializing"
      using t(2) by (cases "os_pc s t") (simp_all add: once_try_get_def)
    then show ?thesis using one only False by (metis sum.distinct(1))
  qed
qed

definition set_once_state :: "nat once_sys" where
  "set_once_state = \<lparr>os_lock = \<lparr>ol_state = once_u8 Initialized, ol_value = Some 3\<rparr>,
    os_pc = (\<lambda>_. Set_start)(3 := Set_ok)\<rparr>"

lemma set_once_reach: "once_reach id set_once_state"
proof -
  let ?s1 = "\<lparr>os_lock = \<lparr>ol_state = once_u8 Initializing, ol_value = None\<rparr>,
    os_pc = (\<lambda>_. Set_start)(3 := Set_won)\<rparr> :: nat once_sys"
  let ?s2 = "\<lparr>os_lock = \<lparr>ol_state = once_u8 Initializing, ol_value = Some 3\<rparr>,
    os_pc = (\<lambda>_. Set_start)(3 := Set_written)\<rparr> :: nat once_sys"
  have "once_step id once_init ?s1"
    using set_win[of once_init 3 id] by (simp add: once_init_def once_new_def)
  then have "once_reach id ?s1" by (rule once_next[OF once_start])
  moreover have "once_step id ?s1 ?s2" using set_write[of ?s1 3 id] by simp
  ultimately have "once_reach id ?s2" by (rule once_next)
  moreover have "once_step id ?s2 set_once_state"
    using set_publish[of ?s2 3 id] by (simp add: set_once_state_def)
  ultimately show ?thesis by (rule once_next)
qed

theorem once_set_once_witness:
  "os_pc set_once_state 3 = Set_ok \<and> once_try_get (os_lock set_once_state) = Inr 3"
proof -
  have ok: "os_pc set_once_state 3 = Set_ok" by (simp add: set_once_state_def)
  have "\<forall>t. os_pc set_once_state t = Set_ok \<longrightarrow> once_try_get (os_lock set_once_state) = Inr (id t)"
    using once_set_once[OF set_once_reach] by (rule conjunct2[THEN conjunct1])
  then have "once_try_get (os_lock set_once_state) = Inr (id 3)" using ok by blast
  then show ?thesis using ok by simp
qed

end
