(* ===== verification/SpmFn.thy ===== *)
theory SpmFn
  imports ConnOps Sync
begin

text \<open>
  The function-call dispatcher (spm/spm_fn.rs) and the API a service and a client reach through
  it (the define_spm_api macro of spm_api/api.rs).  The state holds the connection mutex, the
  OnceLock cell in which the SPM is published, the veneer guard, memory and the platform's own
  state; the platform (its dispatch, its memory-permission check, its version table) is a
  parameter, since each board supplies its own.  Interpreting the connection-store interface
  here shows that a call leaves the connection stack as it found it.
\<close>

section \<open>State and platform\<close>

record 'd spm_fn =
  sf_connections :: "connection_array mutex"
  sf_cell :: "unit once_lock"
  sf_in_secure :: bool
  sf_mem :: mem
  sf_dev :: 'd

record 'd sfn_platform =
  sp_call :: "psa_msg \<Rightarrow> 'd spm_fn \<Rightarrow> 'd spm_fn \<times> unit res"
  sp_has_permission :: "'d spm_fn \<Rightarrow> permission"
  sp_version :: "service_handle \<Rightarrow> u32 option"

section \<open>The dispatcher\<close>

definition sfn_add_connection :: "connection \<Rightarrow> 'd spm_fn \<Rightarrow> 'd spm_fn \<times> (spm_error + unit)" where
  "sfn_add_connection c s =
    (case try_lock (ca_add_connection c) (sf_connections s) of
       (m, Inl _) \<Rightarrow> (s\<lparr>sf_connections := m\<rparr>, Inl MutexBusy)
     | (m, Inr result) \<Rightarrow> (s\<lparr>sf_connections := m\<rparr>, result))"

definition sfn_pop_connection :: "'d spm_fn \<Rightarrow> 'd spm_fn" where
  "sfn_pop_connection s =
    s\<lparr>sf_connections := fst (try_lock (\<lambda>a. (ca_pop_connection a, ())) (sf_connections s))\<rparr>"

definition sfn_call :: "'d sfn_platform \<Rightarrow> connection \<Rightarrow> 'd spm_fn \<Rightarrow> 'd spm_fn \<times> unit res" where
  "sfn_call p c s =
    (let msg = cn_msg c in
     case sfn_add_connection c s of
       (s, Inl _) \<Rightarrow> (s, Inl ConnectionBusy)
     | (s, Inr _) \<Rightarrow>
         (case sp_call p msg s of (s, result) \<Rightarrow> (sfn_pop_connection s, result)))"

definition sfn_take :: "'d spm_fn \<Rightarrow> 'd spm_fn \<times> (spm_error + nat \<times> connection)" where
  "sfn_take s =
    (case try_lock ca_take_active (sf_connections s) of
       (m, Inr result) \<Rightarrow> (s\<lparr>sf_connections := m\<rparr>, result)
     | (m, Inl _) \<Rightarrow> (s\<lparr>sf_connections := m\<rparr>, Inl MutexBusy))"

definition sfn_restore :: "nat \<Rightarrow> connection \<Rightarrow> 'd spm_fn \<Rightarrow> 'd spm_fn \<times> (spm_error + unit)" where
  "sfn_restore index c s =
    (case try_lock (ca_restore_active index c) (sf_connections s) of
       (m, Inr result) \<Rightarrow> (s\<lparr>sf_connections := m\<rparr>, result)
     | (m, Inl _) \<Rightarrow> (s\<lparr>sf_connections := m\<rparr>, Inl MutexBusy))"

definition sfn_with_active ::
    "(connection \<Rightarrow> 'd spm_fn \<Rightarrow> connection \<times> 'd spm_fn \<times> 'r) \<Rightarrow>
     'd spm_fn \<Rightarrow> 'd spm_fn \<times> (spm_error + 'r)" where
  "sfn_with_active = with_active sfn_take sfn_restore"

text \<open>The mapping hooks of this dispatcher are empty.\<close>

definition sfn_map_vec :: "bool \<Rightarrow> u32 \<Rightarrow> usize \<Rightarrow> usize \<Rightarrow> 'd spm_fn \<Rightarrow> 'd spm_fn" where
  "sfn_map_vec is_outvec vec_idx base sz s = s"

definition sfn_unmap_vec :: "bool \<Rightarrow> u32 \<Rightarrow> 'd spm_fn \<Rightarrow> 'd spm_fn" where
  "sfn_unmap_vec is_outvec vec_idx s = s"

section \<open>The SPM API of the function-call build\<close>

definition try_get_spm :: "'d spm_fn \<Rightarrow> unit res" where
  "try_get_spm s = map_err (\<lambda>_. BadState) (once_try_get (sf_cell s))"

definition sfn_access_invec ::
    "service_handle \<Rightarrow> u32 \<Rightarrow> (slice \<Rightarrow> 'd spm_fn \<Rightarrow> 'd spm_fn \<times> 'r) \<Rightarrow>
     'd spm_fn \<Rightarrow> 'd spm_fn \<times> 'r res" where
  "sfn_access_invec handle invec_idx f s =
    (case try_get_spm s of
       Inl e \<Rightarrow> (s, Inl e)
     | Inr _ \<Rightarrow> with_connection_for_handle sfn_with_active handle (with_mapped_invec invec_idx f) s)"

definition sfn_access_outvec ::
    "service_handle \<Rightarrow> u32 \<Rightarrow> (slice \<Rightarrow> 'd spm_fn \<Rightarrow> 'd spm_fn \<times> 'r \<times> usize) \<Rightarrow>
     'd spm_fn \<Rightarrow> 'd spm_fn \<times> 'r res" where
  "sfn_access_outvec handle outvec_idx f s =
    (case try_get_spm s of
       Inl e \<Rightarrow> (s, Inl e)
     | Inr _ \<Rightarrow> with_connection_for_handle sfn_with_active handle (with_mapped_outvec outvec_idx f) s)"

text \<open>The closure of access_invec_outvec: both vectors prepared, one closure, both released.\<close>

definition with_mapped_both ::
    "u32 \<Rightarrow> u32 \<Rightarrow> (slice \<Rightarrow> slice \<Rightarrow> 's \<Rightarrow> 's \<times> 'r \<times> usize) \<Rightarrow>
     connection \<Rightarrow> 's \<Rightarrow> connection \<times> 's \<times> 'r res" where
  "with_mapped_both invec_idx outvec_idx f c s =
    (case prepare_invec c invec_idx of
       (c, Inl e) \<Rightarrow> (c, s, Inl e)
     | (c, Inr (in_index, in_len, in_base)) \<Rightarrow>
       (case prepare_outvec c outvec_idx of
          (c, Inl e) \<Rightarrow> (c, s, Inl e)
        | (c, Inr (out_index, out_len, out_base)) \<Rightarrow>
          (case f (slice_of in_base in_len) (slice_of out_base out_len) s of
             (s, result, written_len) \<Rightarrow>
               (case commit_outvec_write c out_index out_len written_len of
                  (c, Inl e) \<Rightarrow> (c, s, Inl e)
                | (c, Inr _) \<Rightarrow>
                  (case mark_invec_unmapped c in_index of
                     (c, Inl e) \<Rightarrow> (c, s, Inl e)
                   | (c, Inr _) \<Rightarrow> (c, s, Inr result))))))"

definition sfn_access_invec_outvec ::
    "service_handle \<Rightarrow> u32 \<Rightarrow> u32 \<Rightarrow> (slice \<Rightarrow> slice \<Rightarrow> 'd spm_fn \<Rightarrow> 'd spm_fn \<times> 'r \<times> usize) \<Rightarrow>
     'd spm_fn \<Rightarrow> 'd spm_fn \<times> 'r res" where
  "sfn_access_invec_outvec handle invec_idx outvec_idx f s =
    (case try_get_spm s of
       Inl e \<Rightarrow> (s, Inl e)
     | Inr _ \<Rightarrow> with_connection_for_handle sfn_with_active handle
                (with_mapped_both invec_idx outvec_idx f) s)"

text \<open>An array of n descriptors (pointer, length: eight bytes each) read from memory.\<close>

definition read_vecs :: "mem \<Rightarrow> usize \<Rightarrow> nat \<Rightarrow> ffi_vec list" where
  "read_vecs m p n =
    map (\<lambda>i. \<lparr>iov_base = read_u32 m (p + of_nat (8 * i)),
              iov_len = read_u32 m (p + of_nat (8 * i + 4))\<rparr>) [0..<n]"

text \<open>The validation half of SfnApi::call, up to the connection it hands to the dispatcher; spm is the
  outcome of try_get_spm.\<close>

definition api_connection ::
    "unit res \<Rightarrow> mem \<Rightarrow> permission \<Rightarrow> service_handle \<Rightarrow> ctrl_param \<Rightarrow> usize \<Rightarrow> usize \<Rightarrow>
     caller_attributes \<Rightarrow> connection res" where
  "api_connection spm m perm handle ctrl in_vec out_vec caller =
    and_then spm (\<lambda>_.
    and_then (validate_call_params ctrl) (\<lambda>(_, ivec_num, ovec_num).
    and_then (validate_vec_pointer_shape (has_iovec ctrl) ivec_num ovec_num in_vec out_vec) (\<lambda>_.
    let in_vecs = (if ivec_num = 0 then [] else read_vecs m in_vec (unat ivec_num));
        out_vecs = (if ovec_num = 0 then [] else read_vecs m out_vec (unat ovec_num))
    in call_from_slices perm handle ctrl in_vecs out_vecs caller)))"

definition sfn_api_connection ::
    "permission \<Rightarrow> service_handle \<Rightarrow> ctrl_param \<Rightarrow> usize \<Rightarrow> usize \<Rightarrow> caller_attributes \<Rightarrow>
     'd spm_fn \<Rightarrow> connection res" where
  "sfn_api_connection perm handle ctrl in_vec out_vec caller s =
    api_connection (try_get_spm s) (sf_mem s) perm handle ctrl in_vec out_vec caller"

definition sfn_api_call ::
    "'d sfn_platform \<Rightarrow> service_handle \<Rightarrow> ctrl_param \<Rightarrow> usize \<Rightarrow> usize \<Rightarrow> caller_attributes \<Rightarrow>
     'd spm_fn \<Rightarrow> 'd spm_fn \<times> unit res" where
  "sfn_api_call p handle ctrl in_vec out_vec caller s =
    (case sfn_api_connection (sp_has_permission p s) handle ctrl in_vec out_vec caller s of
       Inl e \<Rightarrow> (s, Inl e)
     | Inr connection \<Rightarrow> sfn_call p connection s)"

section \<open>Veneers and the in-process client\<close>

definition enter_secure_state :: "'d spm_fn \<Rightarrow> 'd spm_fn \<times> unit res" where
  "enter_secure_state s =
    (let old = sf_in_secure s; s = s\<lparr>sf_in_secure := True\<rparr> in
     if old then (s, Inl ProgrammerError) else (s, Inr ()))"

definition exit_secure_state :: "'d spm_fn \<Rightarrow> 'd spm_fn" where
  "exit_secure_state s = s\<lparr>sf_in_secure := False\<rparr>"

definition psa_framework_version_veneer :: "'d spm_fn \<Rightarrow> 'd spm_fn \<times> u32" where
  "psa_framework_version_veneer s =
    (case enter_secure_state s of
       (s, Inl _) \<Rightarrow> (s, 0)
     | (s, Inr _) \<Rightarrow> (exit_secure_state s, PSA_FRAMEWORK_VERSION))"

definition psa_version_impl :: "'d sfn_platform \<Rightarrow> u32 \<Rightarrow> 'd spm_fn \<Rightarrow> u32" where
  "psa_version_impl p service_id s =
    (case service_handle_try_from service_id of
       Inl _ \<Rightarrow> 0
     | Inr handle \<Rightarrow>
         (case try_get_spm s of
            Inl _ \<Rightarrow> 0
          | Inr _ \<Rightarrow> (case sp_version p handle of None \<Rightarrow> 0 | Some v \<Rightarrow> v)))"

definition psa_version_veneer :: "'d sfn_platform \<Rightarrow> u32 \<Rightarrow> 'd spm_fn \<Rightarrow> 'd spm_fn \<times> u32" where
  "psa_version_veneer p service_id s =
    (case enter_secure_state s of
       (s, Inl _) \<Rightarrow> (s, 0)
     | (s, Inr _) \<Rightarrow> (exit_secure_state s, psa_version_impl p service_id s))"

definition psa_call_impl ::
    "'d sfn_platform \<Rightarrow> service_handle \<Rightarrow> ctrl_param \<Rightarrow> usize \<Rightarrow> usize \<Rightarrow>
     'd spm_fn \<Rightarrow> 'd spm_fn \<times> isize" where
  "psa_call_impl p handle ctrl in_vec out_vec s =
    (case sfn_api_call p handle ctrl in_vec out_vec NS_UNPRIVILEGED s of
       (s, r) \<Rightarrow> (s, into_psa_status r))"

definition psa_call_veneer ::
    "'d sfn_platform \<Rightarrow> service_handle \<Rightarrow> ctrl_param \<Rightarrow> usize \<Rightarrow> usize \<Rightarrow>
     'd spm_fn \<Rightarrow> 'd spm_fn \<times> isize" where
  "psa_call_veneer p handle ctrl in_vec out_vec s =
    (case enter_secure_state s of
       (s, Inl _) \<Rightarrow> (s, into_psa_status (Inl ProgrammerError))
     | (s, Inr _) \<Rightarrow>
         (case psa_call_impl p handle ctrl in_vec out_vec s of
            (s, res) \<Rightarrow> (exit_secure_state s, res)))"

text \<open>
  InternalPsaClient: descriptor slices are (address, count); an empty slice becomes null.  Its
  psa_version calls itself, so it is a partial function: not returning is None.
\<close>

definition slice_ptr :: "usize \<times> nat \<Rightarrow> usize" where
  "slice_ptr v = (if snd v = 0 then 0 else fst v)"

definition internal_psa_call ::
    "'d sfn_platform \<Rightarrow> service_handle \<Rightarrow> ctrl_param \<Rightarrow> usize \<times> nat \<Rightarrow> usize \<times> nat \<Rightarrow>
     'd spm_fn \<Rightarrow> 'd spm_fn \<times> isize" where
  "internal_psa_call p handle ctrl in_vec out_vec s =
    (case sfn_api_call p handle ctrl (slice_ptr in_vec) (slice_ptr out_vec) SECURE_PRIVILEGED s of
       (s, r) \<Rightarrow> (s, into_psa_status r))"

partial_function (option) internal_psa_version :: "u32 \<Rightarrow> u32 option" where
  "internal_psa_version service_id = internal_psa_version service_id"

section \<open>The dispatcher implements the store interface\<close>

definition sfn_ok :: "'d spm_fn \<Rightarrow> bool" where
  "sfn_ok s \<longleftrightarrow> \<not> mx_lock (sf_connections s) \<and> ca_wf (mx_value (sf_connections s))"

definition sfn_stack :: "'d spm_fn \<Rightarrow> connection option list" where
  "sfn_stack s = ca_stack (mx_value (sf_connections s))"

definition sfn_other :: "'d spm_fn \<Rightarrow> unit once_lock \<times> bool \<times> mem \<times> 'd" where
  "sfn_other s = (sf_cell s, sf_in_secure s, sf_mem s, sf_dev s)"

lemmas sfn_views = sfn_ok_def sfn_stack_def sfn_other_def

lemma stack_active_length: "stack_active xs = Some c \<longleftrightarrow> length xs \<noteq> 0 \<and> last xs = Some c"
  by (auto simp: stack_active_def)

lemma stack_active_None: "stack_active xs = None \<longleftrightarrow> length xs = 0 \<or> last xs = None"
  by (auto simp: stack_active_def)

lemma sfn_take_none:
  assumes "sfn_ok s" "stack_active (sfn_stack s) = None"
  shows "\<exists>e. sfn_take s = (s, Inl e)"
proof -
  let ?a = "mx_value (sf_connections s)"
  have "ca_wf ?a" "\<not> mx_lock (sf_connections s)" using assms(1) by (auto simp: sfn_ok_def)
  from this(1) show ?thesis
    by (cases rule: ca_take_cases)
      (use \<open>\<not> mx_lock (sf_connections s)\<close> assms(2) in
        \<open>auto simp: sfn_take_def try_lock_free sfn_stack_def stack_active_None\<close>)
qed

lemma sfn_take_some:
  assumes "sfn_ok s" "stack_active (sfn_stack s) = Some c"
  shows "\<exists>s1. sfn_take s = (s1, Inr (length (sfn_stack s) - 1, c)) \<and> sfn_ok s1 \<and>
    sfn_stack s1 = butlast (sfn_stack s) @ [None] \<and> sfn_other s1 = sfn_other s \<and> connection_wf c"
proof -
  let ?a = "mx_value (sf_connections s)"
  have "ca_wf ?a" "\<not> mx_lock (sf_connections s)" using assms(1) by (auto simp: sfn_ok_def)
  from this(1) show ?thesis
    by (cases rule: ca_take_cases)
      (use \<open>\<not> mx_lock (sf_connections s)\<close> assms(2) in
        \<open>auto simp: sfn_take_def try_lock_free sfn_views stack_active_length\<close>)
qed

lemma sfn_restore_ok:
  assumes "sfn_ok s" "connection_wf c" "i < length (sfn_stack s)" "sfn_stack s ! i = None"
  shows "\<exists>s1. sfn_restore i c s = (s1, Inr ()) \<and> sfn_ok s1 \<and>
    sfn_stack s1 = (sfn_stack s)[i := Some c] \<and> sfn_other s1 = sfn_other s"
proof -
  let ?a = "mx_value (sf_connections s)"
  have a: "ca_wf ?a" "\<not> mx_lock (sf_connections s)" using assms(1) by (auto simp: sfn_ok_def)
  obtain a' where "ca_restore_active i c ?a = (a', Inr ())" "ca_wf a'"
    "ca_stack a' = (ca_stack ?a)[i := Some c]"
    using ca_restore_ok[OF a(1) assms(2)] assms(3,4) by (metis length_ca_stack sfn_stack_def)
  then show ?thesis using a by (auto simp: sfn_restore_def try_lock_free sfn_views)
qed

lemma sfn_push_ok:
  assumes "sfn_ok s" "connection_wf c" "length (sfn_stack s) < MAX_CONNECTIONS"
  shows "\<exists>s1 u. sfn_add_connection c s = (s1, Inr u) \<and> sfn_ok s1 \<and>
    sfn_stack s1 = sfn_stack s @ [Some c] \<and> sfn_other s1 = sfn_other s"
proof -
  let ?a = "mx_value (sf_connections s)"
  have a: "ca_wf ?a" "\<not> mx_lock (sf_connections s)" using assms(1) by (auto simp: sfn_ok_def)
  obtain a' where "ca_add_connection c ?a = (a', Inr ())" "ca_wf a'"
    "ca_stack a' = ca_stack ?a @ [Some c]"
    using ca_add_ok[OF a(1) assms(2)] assms(3) by (metis length_ca_stack sfn_stack_def)
  then show ?thesis using a by (auto simp: sfn_add_connection_def try_lock_free sfn_views)
qed

lemma sfn_push_full:
  "sfn_ok s \<Longrightarrow> length (sfn_stack s) \<ge> MAX_CONNECTIONS \<Longrightarrow>
    sfn_add_connection c s = (s, Inl ConnectionStackFull)"
  by (simp add: sfn_add_connection_def try_lock_free sfn_views ca_add_full)

lemma sfn_pop_ok:
  "sfn_ok s \<Longrightarrow> sfn_ok (sfn_pop_connection s) \<and>
    sfn_stack (sfn_pop_connection s) = butlast (sfn_stack s) \<and>
    sfn_other (sfn_pop_connection s) = sfn_other s"
  by (simp add: sfn_pop_connection_def try_lock_free sfn_views ca_pop_refines)

interpretation sfn: spm_calls sfn_take sfn_restore sfn_ok sfn_stack sfn_other
    "\<lambda>_. True" sfn_add_connection sfn_pop_connection
  by unfold_locales
    (rule sfn_take_none sfn_take_some sfn_restore_ok sfn_push_ok sfn_push_full sfn_pop_ok; assumption)+

section \<open>Calls are balanced\<close>

text \<open>A platform whose dispatch touches the stack only as a service may.\<close>

definition platform_keeps :: "'d sfn_platform \<Rightarrow> bool" where
  "platform_keeps p \<longleftrightarrow> (\<forall>msg. keeps_frame sfn_ok sfn_stack (sp_call p msg))"

lemma platform_keepsD:
  "platform_keeps p \<Longrightarrow> sfn_ok s \<Longrightarrow> sp_call p msg s = (s', r) \<Longrightarrow>
    sfn_ok s' \<and> length (sfn_stack s') = length (sfn_stack s) \<and>
    butlast (sfn_stack s') = butlast (sfn_stack s)"
  unfolding platform_keeps_def by (auto dest!: keeps_frameD simp: frame_le_def)

lemma sfn_call_full:
  "sfn_ok s \<Longrightarrow> length (sfn_stack s) \<ge> MAX_CONNECTIONS \<Longrightarrow> sfn_call p c s = (s, Inl ConnectionBusy)"
  by (simp add: sfn_call_def sfn_push_full)

lemma sfn_call_room:
  assumes "platform_keeps p" "sfn_ok s" "connection_wf c" "length (sfn_stack s) < MAX_CONNECTIONS"
  shows "\<exists>s1 s2 r. sfn_ok s1 \<and> sfn_stack s1 = sfn_stack s @ [Some c] \<and>
    sfn_other s1 = sfn_other s \<and> sp_call p (cn_msg c) s1 = (s2, r) \<and>
    sfn_call p c s = (sfn_pop_connection s2, r) \<and> sfn_ok (sfn_pop_connection s2) \<and>
    sfn_stack (sfn_pop_connection s2) = sfn_stack s \<and>
    sfn_other (sfn_pop_connection s2) = sfn_other s2"
proof -
  have keep: "sfn_ok s2 \<and> length (sfn_stack s2) = length (sfn_stack s1) \<and>
      butlast (sfn_stack s2) = butlast (sfn_stack s1)"
    if "sfn_ok s1" "sfn_stack s1 = sfn_stack s @ [Some c]" "sfn_other s1 = sfn_other s"
      "(\<lambda>u. sp_call p (cn_msg c)) q s1 = (s2, r)" for s1 s2 r and q :: unit
    using platform_keepsD[OF assms(1)] that(1,4) by blast
  obtain s1 q s2 r where
    "sfn_add_connection c s = (s1, Inr q)" "sfn_ok s1" "sfn_stack s1 = sfn_stack s @ [Some c]"
    "sfn_other s1 = sfn_other s" "(\<lambda>u. sp_call p (cn_msg c)) q s1 = (s2, r)"
    "sfn_ok (sfn_pop_connection s2)" "sfn_stack (sfn_pop_connection s2) = sfn_stack s"
    "sfn_other (sfn_pop_connection s2) = sfn_other s2"
    by (rule sfn.call_balanced[OF assms(2,3) TrueI assms(4) keep])
  then show ?thesis by (auto simp: sfn_call_def)
qed

lemma sfn_call_keeps:
  assumes "platform_keeps p" "connection_wf c"
  shows "keeps_stack sfn_ok sfn_stack (sfn_call p c)"
proof (rule keeps_stackI)
  fix s s' r assume "sfn_ok s" "sfn_call p c s = (s', r)"
  then show "sfn_ok s' \<and> sfn_stack s' = sfn_stack s"
    using sfn_call_room[OF assms(1) _ assms(2), of s] sfn_call_full[of s p c]
    by (cases "length (sfn_stack s) < MAX_CONNECTIONS") auto
qed

lemma api_connection_wf:
  assumes "api_connection spm m perm h ctrl i j ca = Inr c"
  shows "connection_wf c"
proof -
  obtain ins outs where "call_from_slices perm h ctrl ins outs ca = Inr c"
    using assms by (auto simp: api_connection_def res_simps Let_def)
  then show ?thesis
    by (auto simp: call_from_slices_Inr call_accepted_def PSA_MAX_IOVEC_def
        intro!: connection_wf_fresh)
qed

lemma sfn_api_connection_wf:
  "sfn_api_connection perm h ctrl i j ca s = Inr c \<Longrightarrow> connection_wf c"
  unfolding sfn_api_connection_def by (rule api_connection_wf)

lemma sfn_api_call_keeps:
  assumes "platform_keeps p"
  shows "keeps_stack sfn_ok sfn_stack (sfn_api_call p h ctrl iv ov caller)"
proof (rule keeps_stackI)
  fix s s' r assume ok: "sfn_ok s" and run: "sfn_api_call p h ctrl iv ov caller s = (s', r)"
  show "sfn_ok s' \<and> sfn_stack s' = sfn_stack s"
  proof (cases "sfn_api_connection (sp_has_permission p s) h ctrl iv ov caller s")
    case (Inl e)
    then show ?thesis using ok run by (simp add: sfn_api_call_def)
  next
    case (Inr c)
    then show ?thesis
      using keeps_stackD[OF sfn_call_keeps[OF assms sfn_api_connection_wf[OF Inr]] ok] run
      by (simp add: sfn_api_call_def)
  qed
qed

section \<open>Services keep the frame\<close>

lemma sfn_access_invec_keeps:
  assumes "\<And>sl. keeps_frame sfn_ok sfn_stack (f sl)"
  shows "keeps_frame sfn_ok sfn_stack (sfn_access_invec h i f)"
proof (rule keeps_frameI)
  fix s s' r assume "sfn_ok s" "sfn_access_invec h i f s = (s', r)"
  then show "sfn_ok s' \<and> frame_le (sfn_stack s) (sfn_stack s')"
    using keeps_frameD[OF sfn.mapped_invec_keeps_frame[of f, OF assms], of s h i]
    by (auto simp: sfn_access_invec_def sfn_with_active_def split: sum.splits)
qed

lemma sfn_access_outvec_keeps:
  assumes "\<And>sl. keeps_frame sfn_ok sfn_stack (f sl)"
  shows "keeps_frame sfn_ok sfn_stack (sfn_access_outvec h i f)"
proof (rule keeps_frameI)
  fix s s' r assume "sfn_ok s" "sfn_access_outvec h i f s = (s', r)"
  then show "sfn_ok s' \<and> frame_le (sfn_stack s) (sfn_stack s')"
    using keeps_frameD[OF sfn.mapped_outvec_keeps_frame[of f, OF assms], of s h i]
    by (auto simp: sfn_access_outvec_def sfn_with_active_def split: sum.splits)
qed

lemma with_mapped_both_run:
  assumes "connection_wf c" "with_mapped_both i j f c s = (c', s', r)"
  shows "connection_wf c' \<and> (s' = s \<or> (\<exists>sl sl' q. f sl sl' s = (s', q)))"
proof -
  obtain c1 q where p: "prepare_invec c i = (c1, q)" by (cases "prepare_invec c i")
  have w: "connection_wf c1" using connection_wf_map_op[OF assms(1), of "PrepareIn i"] p by simp
  obtain c2 q2 where p2: "prepare_outvec c1 j = (c2, q2)" by (cases "prepare_outvec c1 j")
  have w2: "connection_wf c2" using connection_wf_map_op[OF w, of "PrepareOut j"] p2 by simp
  have w3: "commit_outvec_write c2 k n l = (c3, q3) \<Longrightarrow> connection_wf c3" for k n l c3 q3
    using w2 by (auto simp: commit_outvec_write_eq connection_wf_def split: if_splits)
  have w4: "connection_wf d \<Longrightarrow> mark_invec_unmapped d k = (c3, q3) \<Longrightarrow> connection_wf c3"
    for k d c3 q3
    by (auto simp: mark_invec_unmapped_eq connection_wf_def split: if_splits)
  show ?thesis using assms(2) p p2 w w2
    by (auto simp: with_mapped_both_def simp del: split_paired_All split_paired_Ex
        split: sum.splits prod.splits dest: w3 intro: w4[OF w3])
qed

lemma sfn_access_both_keeps:
  assumes f: "\<And>sl sl'. keeps_frame sfn_ok sfn_stack (f sl sl')"
  shows "keeps_frame sfn_ok sfn_stack (sfn_access_invec_outvec h i j f)"
proof -
  have "keeps_frame sfn_ok sfn_stack
      (with_validated_connection sfn_with_active h (with_mapped_both i j f))"
    unfolding sfn_with_active_def
  proof (rule sfn.validated_keeps_frame)
    fix c s c' s' r
    assume *: "sfn_ok s" "connection_wf c" "stack_active (sfn_stack s) = None"
      "with_mapped_both i j f c s = (c', s', r)"
    show "sfn_ok s' \<and> sfn_stack s' = sfn_stack s \<and> connection_wf c'"
      using with_mapped_both_run[OF *(2,4)] *(1,3) keeps_frameD[OF f *(1)]
      by (auto simp: frame_le_def)
  qed
  then show ?thesis
    by (auto simp: keeps_frame_def sfn_access_invec_outvec_def with_connection_for_handle_def
        split: sum.splits)
qed

section \<open>The whole system: services that call services\<close>

text \<open>
  A service is given the client call it may use; the platform's dispatch runs it.  A call made
  by a service goes back through sfn_api_call into the same dispatch: fuel counts the nesting.
\<close>

type_synonym 'd client_call =
  "service_handle \<Rightarrow> ctrl_param \<Rightarrow> usize \<Rightarrow> usize \<Rightarrow> caller_attributes \<Rightarrow>
   'd spm_fn \<Rightarrow> 'd spm_fn \<times> unit res"

type_synonym 'd services = "'d client_call \<Rightarrow> psa_msg \<Rightarrow> 'd spm_fn \<Rightarrow> 'd spm_fn \<times> unit res"

fun sfn_system ::
    "'d services \<Rightarrow> ('d spm_fn \<Rightarrow> permission) \<Rightarrow> (service_handle \<Rightarrow> u32 option) \<Rightarrow> nat \<Rightarrow>
     'd sfn_platform" where
  "sfn_system svc perm ver 0 =
    \<lparr>sp_call = (\<lambda>msg s. (s, Inl ServiceFailure)), sp_has_permission = perm, sp_version = ver\<rparr>"
| "sfn_system svc perm ver (Suc n) =
    \<lparr>sp_call = svc (sfn_api_call (sfn_system svc perm ver n)), sp_has_permission = perm,
     sp_version = ver\<rparr>"

lemma sfn_system_sel [simp]:
  "sp_has_permission (sfn_system svc perm ver n) = perm"
  "sp_version (sfn_system svc perm ver n) = ver"
  by (cases n; simp)+

text \<open>Service code built from the API: it keeps the frame if the calls it makes keep the stack.\<close>

definition services_keep :: "'d services \<Rightarrow> bool" where
  "services_keep svc \<longleftrightarrow>
    (\<forall>call. (\<forall>h ctrl i j ca. keeps_stack sfn_ok sfn_stack (call h ctrl i j ca)) \<longrightarrow>
      (\<forall>msg. keeps_frame sfn_ok sfn_stack (svc call msg)))"

lemma sfn_system_keeps: "services_keep svc \<Longrightarrow> platform_keeps (sfn_system svc perm ver n)"
proof (induction n)
  case 0
  then show ?case by (simp add: platform_keeps_def keeps_frame_return)
next
  case (Suc n)
  then have "keeps_stack sfn_ok sfn_stack (sfn_api_call (sfn_system svc perm ver n) h ctrl i j ca)"
    for h ctrl i j ca
    using sfn_api_call_keeps by blast
  then show ?case using Suc.prems by (simp add: platform_keeps_def services_keep_def)
qed

text \<open>Service code reaches the client call only at the nesting depth at which it runs, as long as the calls
  themselves return to that depth.\<close>

definition services_local :: "'d services \<Rightarrow> bool" where
  "services_local svc \<longleftrightarrow>
    (\<forall>c1 c2 msg s. sfn_ok s \<longrightarrow>
      (\<forall>h ctrl i j ca. keeps_stack sfn_ok sfn_stack (c1 h ctrl i j ca)) \<longrightarrow>
      (\<forall>h ctrl i j ca s'. sfn_ok s' \<longrightarrow> length (sfn_stack s') = length (sfn_stack s) \<longrightarrow>
        c1 h ctrl i j ca s' = c2 h ctrl i j ca s') \<longrightarrow>
      svc c1 msg s = svc c2 msg s)"

lemma sfn_api_call_cong:
  assumes "\<And>c. connection_wf c \<Longrightarrow> sfn_call p c s = sfn_call q c s"
    and "sp_has_permission p = sp_has_permission q"
  shows "sfn_api_call p h ctrl i j ca s = sfn_api_call q h ctrl i j ca s"
  using assms(1)[OF sfn_api_connection_wf]
  by (auto simp: sfn_api_call_def assms(2) split: sum.split)

lemma sfn_call_cong:
  assumes "sfn_ok s" "connection_wf c"
    and "\<And>s1. sfn_ok s1 \<Longrightarrow> sfn_stack s1 = sfn_stack s @ [Some c] \<Longrightarrow>
      sp_call p (cn_msg c) s1 = sp_call q (cn_msg c) s1"
  shows "sfn_call p c s = sfn_call q c s"
proof (cases "length (sfn_stack s) < MAX_CONNECTIONS")
  case True
  obtain s1 where "sfn_add_connection c s = (s1, Inr ())" "sfn_ok s1"
    "sfn_stack s1 = sfn_stack s @ [Some c]"
    using sfn_push_ok[OF assms(1,2) True] by auto
  then show ?thesis using assms(3) by (simp add: sfn_call_def)
next
  case False
  then show ?thesis using assms(1) by (simp add: sfn_call_full)
qed

lemma sfn_system_fuel:
  assumes "services_keep svc" "services_local svc" "sfn_ok s"
    "MAX_CONNECTIONS < length (sfn_stack s) + n" "MAX_CONNECTIONS < length (sfn_stack s) + m"
  shows "sp_call (sfn_system svc perm ver n) msg s = sp_call (sfn_system svc perm ver m) msg s"
  using assms(3-5)
proof (induction "MAX_CONNECTIONS - length (sfn_stack s)" arbitrary: s n m msg rule: less_induct)
  case less
  have len: "length (sfn_stack t) \<le> MAX_CONNECTIONS" if "sfn_ok t" for t :: "'a spm_fn"
    using that by (simp add: sfn_views ca_wf_def)
  obtain n' where n: "n = Suc n'" using less.prems len[of s] by (cases n) auto
  obtain m' where m: "m = Suc m'" using less.prems len[of s] by (cases m) auto
  have "sfn_api_call (sfn_system svc perm ver n') h ctrl i j ca s' =
      sfn_api_call (sfn_system svc perm ver m') h ctrl i j ca s'"
    if s': "sfn_ok s'" "length (sfn_stack s') = length (sfn_stack s)" for h ctrl i j ca s'
  proof (rule sfn_api_call_cong)
    fix c :: connection assume c: "connection_wf c"
    show "sfn_call (sfn_system svc perm ver n') c s' = sfn_call (sfn_system svc perm ver m') c s'"
    proof (cases "length (sfn_stack s') < MAX_CONNECTIONS")
      case True
      show ?thesis
        by (rule sfn_call_cong[OF s'(1) c], rule less.hyps)
          (use True s'(2) less.prems n m in auto)
    next
      case False
      then show ?thesis using s' by (simp add: sfn_call_full)
    qed
  qed simp
  moreover have "keeps_stack sfn_ok sfn_stack (sfn_api_call (sfn_system svc perm ver n') h ctrl i j ca)"
    for h ctrl i j ca
    by (rule sfn_api_call_keeps[OF sfn_system_keeps[OF assms(1)]])
  ultimately show ?case
    using assms(2) less.prems(1) unfolding services_local_def n m by simp
qed

section \<open>Properties of the function-call build\<close>

lemma sfn_guard_views [simp]:
  "sfn_ok (s\<lparr>sf_in_secure := b\<rparr>) = sfn_ok s" "sfn_stack (s\<lparr>sf_in_secure := b\<rparr>) = sfn_stack s"
  by (simp_all add: sfn_ok_def sfn_stack_def)

text \<open>A small system: attestation reads its input vector and calls crypto while it holds it.\<close>

definition sample_services :: "'d services" where
  "sample_services call msg =
    (if msg_handle msg = Crypto
     then sfn_access_outvec Crypto 0 (\<lambda>sl s. (s\<lparr>sf_mem := (sf_mem s)(fst sl := 7)\<rparr>, (), 1))
     else sfn_access_invec (msg_handle msg) 0 (\<lambda>sl s.
       case call Crypto (ctrl_new 1 0 False 0 False) 0 0 SECURE_PRIVILEGED s of (s, _) \<Rightarrow> (s, ())))"

lemma sample_services_keep: "services_keep (sample_services :: 'd services)"
proof -
  have store: "keeps_frame sfn_ok sfn_stack (\<lambda>s. (s\<lparr>sf_mem := g (sf_mem s)\<rparr>, r))" for g r
    by (rule keeps_frameI) (auto simp: sfn_ok_def sfn_stack_def)
  show ?thesis unfolding services_keep_def
  proof (intro allI impI)
    fix call :: "'d client_call" and msg
    assume call: "\<forall>h ctrl i j ca. keeps_stack sfn_ok sfn_stack (call h ctrl i j ca)"
    have "keeps_frame sfn_ok sfn_stack (\<lambda>s.
        case call Crypto (ctrl_new 1 0 False 0 False) 0 0 SECURE_PRIVILEGED s of (s, _) \<Rightarrow> (s, ()))"
      by (rule keeps_frame_bind[OF keeps_stack_frame])
        (use call in \<open>auto intro: keeps_frame_return\<close>)
    then show "keeps_frame sfn_ok sfn_stack (sample_services call msg)"
      unfolding sample_services_def
      by (auto intro: sfn_access_outvec_keeps sfn_access_invec_keeps store)
  qed
qed

lemma validated_cong:
  assumes "sfn_ok s" "\<And>c s1. sfn_ok s1 \<Longrightarrow> length (sfn_stack s1) = length (sfn_stack s) \<Longrightarrow>
    f c s1 = g c s1"
  shows "with_validated_connection sfn_with_active h f s = with_validated_connection sfn_with_active h g s"
proof (cases "stack_active (sfn_stack s)")
  case None
  obtain e where e: "sfn_take s = (s, Inl e)" using sfn_take_none[OF assms(1) None] by blast
  show ?thesis
    by (simp add: with_validated_connection_def sfn_with_active_def with_active_def e)
next
  case (Some c)
  obtain s1 where s1: "sfn_take s = (s1, Inr (length (sfn_stack s) - 1, c))" "sfn_ok s1"
    "sfn_stack s1 = butlast (sfn_stack s) @ [None]"
    using sfn_take_some[OF assms(1) Some] by blast
  have "length (sfn_stack s1) = length (sfn_stack s)"
    using s1(3) Some by (cases "sfn_stack s") (auto simp: stack_active_def)
  then have "f c s1 = g c s1" using assms(2) s1(2) by simp
  then show ?thesis
    by (simp add: with_validated_connection_def sfn_with_active_def with_active_def s1(1)
        validated_closure_def)
qed

lemma sample_services_local: "services_local sample_services"
  unfolding services_local_def
proof (intro allI impI)
  fix c1 c2 :: "'a client_call" and msg and s :: "'a spm_fn"
  assume s: "sfn_ok s" and "\<forall>h ctrl i j ca. keeps_stack sfn_ok sfn_stack (c1 h ctrl i j ca)"
    and eq: "\<forall>h ctrl i j ca s'. sfn_ok s' \<longrightarrow>
    length (sfn_stack s') = length (sfn_stack s) \<longrightarrow> c1 h ctrl i j ca s' = c2 h ctrl i j ca s'"
  show "sample_services c1 msg s = sample_services c2 msg s"
  proof (cases "msg_handle msg = Crypto")
    case False
    let ?f = "\<lambda>call. with_mapped_invec 0 (\<lambda>sl s.
       case call Crypto (ctrl_new 1 0 False 0 False) 0 0 SECURE_PRIVILEGED s of (s, _) \<Rightarrow> (s, ()))"
    have "?f c1 c s1 = ?f c2 c s1"
      if "sfn_ok s1" "length (sfn_stack s1) = length (sfn_stack s)" for c s1
    proof -
      have "c1 Crypto (ctrl_new 1 0 False 0 False) 0 0 SECURE_PRIVILEGED s1 =
          c2 Crypto (ctrl_new 1 0 False 0 False) 0 0 SECURE_PRIVILEGED s1"
        using eq that by blast
      then show ?thesis unfolding with_mapped_invec_def by (simp only:)
    qed
    then have "with_validated_connection sfn_with_active (msg_handle msg) (?f c1) s =
        with_validated_connection sfn_with_active (msg_handle msg) (?f c2) s"
      by (rule validated_cong[OF s])
    then show ?thesis using False
      by (simp add: sample_services_def sfn_access_invec_def with_connection_for_handle_def
          split: sum.split)
  qed (simp add: sample_services_def)
qed

definition sample_spm :: "unit spm_fn" where
  "sample_spm = \<lparr>sf_connections = mutex_new ca_new,
    sf_cell = \<lparr>ol_state = once_u8 Initialized, ol_value = Some ()\<rparr>, sf_in_secure = False,
    sf_mem = (\<lambda>_. 0), sf_dev = ()\<rparr>"

lemma sample_spm_ok [simp]: "sfn_ok sample_spm" "sfn_stack sample_spm = []"
  "try_get_spm sample_spm = Inr ()"
  by (simp_all add: sample_spm_def sfn_ok_def sfn_stack_def mutex_new_def try_get_spm_def
      once_try_get_def)

lemma veneer_balanced_core:
  assumes "services_keep svc" "sfn_ok s"
    and "psa_call_veneer (sfn_system svc perm ver n) h ctrl iv ov s = (s', status)"
  shows "sfn_ok s' \<and> sfn_stack s' = sfn_stack s"
proof -
  note keep = sfn_api_call_keeps[OF sfn_system_keeps[OF assms(1)]]
  let ?s = "s\<lparr>sf_in_secure := True\<rparr>"
  obtain s2 r where run: "sfn_api_call (sfn_system svc perm ver n) h ctrl iv ov NS_UNPRIVILEGED ?s = (s2, r)"
    by fastforce
  have "sfn_ok s2 \<and> sfn_stack s2 = sfn_stack s"
    using keeps_stackD[OF keep _ run] assms(2) by simp
  then show ?thesis using assms(2,3) run
    by (auto simp: psa_call_veneer_def enter_secure_state_def exit_secure_state_def Let_def
        psa_call_impl_def split: if_splits)
qed

text \<open>C4. Every call is balanced: with any services written against the SPM API (their own nested
  calls included, to any depth), a call through the non-secure veneer leaves the connection
  stack exactly as it found it and the mutex free, whatever it returns.\<close>

theorem veneer_call_balanced:
  assumes "services_keep svc" "sfn_ok s"
    and "psa_call_veneer (sfn_system svc perm ver n) h ctrl iv ov s = (s', status)"
  shows "sfn_ok s' \<and> sfn_stack s' = sfn_stack s"
  using assms by (rule veneer_balanced_core)

theorem veneer_call_balanced_witness:
  "\<exists>s' status. psa_call_veneer (sfn_system sample_services (\<lambda>_ _ _ _ _. True) (\<lambda>_. None) 5)
      AttestationService (ctrl_new 1 0 False 0 False) 0 0 sample_spm = (s', status) \<and>
    sfn_ok s' \<and> sfn_stack s' = []"
proof -
  obtain s' status where "psa_call_veneer (sfn_system sample_services (\<lambda>_ _ _ _ _. True) (\<lambda>_. None) 5)
      AttestationService (ctrl_new 1 0 False 0 False) 0 0 sample_spm = (s', status)" by fastforce
  then show ?thesis
    using veneer_call_balanced[OF sample_services_keep sample_spm_ok(1)] by fastforce
qed

lemma nested_calls_core:
  assumes "services_keep svc" "services_local svc" "sfn_ok s" "5 \<le> n"
  shows "psa_call_veneer (sfn_system svc perm ver n) h ctrl iv ov s =
    psa_call_veneer (sfn_system svc perm ver 5) h ctrl iv ov s"
proof -
  let ?s = "s\<lparr>sf_in_secure := True\<rparr>"
  have "sfn_api_call (sfn_system svc perm ver n) h ctrl iv ov NS_UNPRIVILEGED ?s =
      sfn_api_call (sfn_system svc perm ver 5) h ctrl iv ov NS_UNPRIVILEGED ?s"
  proof (rule sfn_api_call_cong)
    fix c :: connection assume "connection_wf c"
    then show "sfn_call (sfn_system svc perm ver n) c ?s = sfn_call (sfn_system svc perm ver 5) c ?s"
      by (rule sfn_call_cong[rotated])
        (use assms in \<open>auto intro!: sfn_system_fuel simp: MAX_CONNECTIONS_def\<close>)
  qed simp
  then show ?thesis
    by (simp add: psa_call_veneer_def enter_secure_state_def Let_def psa_call_impl_def)
qed

text \<open>C13. Nested calls terminate: a call chain is at most MAX_CONNECTIONS calls deep, because the
  connection stack refuses a fifth.  So for services that reach other services only through the
  client call, five levels of fuel already give the result, and more change nothing.\<close>

theorem nested_calls_terminate:
  assumes "services_keep svc" "services_local svc" "sfn_ok s" "5 \<le> n"
  shows "psa_call_veneer (sfn_system svc perm ver n) h ctrl iv ov s =
    psa_call_veneer (sfn_system svc perm ver 5) h ctrl iv ov s"
  using assms by (rule nested_calls_core)

theorem nested_calls_terminate_witness:
  "psa_call_veneer (sfn_system sample_services (\<lambda>_ _ _ _ _. True) (\<lambda>_. None) 9)
      AttestationService (ctrl_new 1 0 False 0 False) 0 0 sample_spm =
    psa_call_veneer (sfn_system sample_services (\<lambda>_ _ _ _ _. True) (\<lambda>_. None) 5)
      AttestationService (ctrl_new 1 0 False 0 False) 0 0 sample_spm"
  using nested_calls_terminate[OF sample_services_keep sample_services_local sample_spm_ok(1), of 9] by simp

lemma access_invec_core:
  assumes "sfn_ok s" "try_get_spm s = Inr ()" "stack_active (sfn_stack s) = Some c"
    "msg_handle (cn_msg c) = h" "\<not> msg_type (cn_msg c) <s 0" "unat i < 4"
    "\<not> invec_mapped c ! unat i" "invec_accessed c ! unat i = 0" "\<not> invec_unmapped c ! unat i"
    and f: "\<And>sl. keeps_frame sfn_ok sfn_stack (f sl)"
  shows "\<exists>s1 s2 q s3. f (slice_of (invec_base c ! unat i) (in_len_of c (unat i))) s1 = (s2, q) \<and>
    sfn_other s1 = sfn_other s \<and> sfn_stack s1 = butlast (sfn_stack s) @ [None] \<and>
    sfn_access_invec h i f s = (s3, Inr q) \<and> sfn_ok s3 \<and> sfn_other s3 = sfn_other s2 \<and>
    sfn_stack s3 = butlast (sfn_stack s) @ [Some (c\<lparr>
      invec_mapped := (invec_mapped c)[unat i := True],
      invec_unmapped := (invec_unmapped c)[unat i := True]\<rparr>)]"
proof -
  let ?k = "unat i"
  have wf: "connection_wf c" using sfn_take_some[OF assms(1,3)] by blast
  let ?c1 = "c\<lparr>invec_mapped := (invec_mapped c)[?k := True]\<rparr>"
  let ?c2 = "?c1\<lparr>invec_unmapped := (invec_unmapped c)[?k := True]\<rparr>"
  have wf1: "connection_wf ?c1" "connection_wf ?c2" using wf by (simp_all add: connection_wf_def)
  have run: "with_mapped_invec i f c s1 =
      (?c2, fst (f (slice_of (invec_base c ! ?k) (in_len_of c ?k)) s1),
        Inr (snd (f (slice_of (invec_base c ! ?k) (in_len_of c ?k)) s1)))" for s1
    using assms(6-9) by (simp add: with_mapped_invec_def prepare_invec_eq[OF wf] Let_def
        mark_invec_unmapped_eq[OF wf1(1)] split_beta)
  have chk: "msg_check h c = Inr ()" using assms(4,5) by (simp add: msg_check_def)
  have f': "sfn_ok s2 \<and> sfn_stack s2 = sfn_stack s1 \<and> connection_wf c'"
    if "sfn_ok s1" "sfn_stack s1 = butlast (sfn_stack s) @ [None]" "sfn_other s1 = sfn_other s"
      "with_mapped_invec i f c s1 = (c', s2, r)" for s1 c' s2 r
    using keeps_frameD[OF f that(1) prod.collapse[symmetric],
        of "slice_of (invec_base c ! ?k) (in_len_of c ?k)"] that(2,4) wf1
    by (auto simp: run frame_le_def stack_active_def)
  obtain s1 c' s2 r s3 where "with_mapped_invec i f c s1 = (c', s2, r)" "sfn_other s1 = sfn_other s"
    "sfn_ok s1" "sfn_stack s1 = butlast (sfn_stack s) @ [None]"
    "with_validated_connection (with_active sfn_take sfn_restore) h (with_mapped_invec i f) s = (s3, r)"
    "sfn_ok s3" "sfn_stack s3 = butlast (sfn_stack s) @ [Some c']" "sfn_other s3 = sfn_other s2"
    by (rule sfn.validated_accepted[OF assms(1,3) chk f'])
  moreover obtain t q where "f (slice_of (invec_base c ! ?k) (in_len_of c ?k)) s1 = (t, q)"
    by fastforce
  ultimately show ?thesis
    using assms(2) by (intro exI[of _ s1] exI[of _ t] exI[of _ q] exI[of _ s3])
      (auto simp: run sfn_access_invec_def with_connection_for_handle_def sfn_with_active_def)
qed

lemma access_both_core:
  assumes "sfn_ok s" "try_get_spm s = Inr ()" "stack_active (sfn_stack s) = Some c"
    "msg_handle (cn_msg c) = h" "\<not> msg_type (cn_msg c) <s 0" "unat i < 4"
    "\<not> invec_mapped c ! unat i" "invec_accessed c ! unat i = 0" "\<not> invec_unmapped c ! unat i"
    and o: "unat j < 4" "\<not> outvec_mapped c ! unat j" "outvec_written c ! unat j = 0" "\<not> outvec_unmapped c ! unat j"
    and f: "\<And>sl sl'. keeps_frame sfn_ok sfn_stack (f sl sl')"
    and n: "\<And>s1 s2 q n. sfn_ok s1 \<Longrightarrow> sfn_stack s1 = butlast (sfn_stack s) @ [None] \<Longrightarrow> sfn_other s1 = sfn_other s \<Longrightarrow>
      f (slice_of (invec_base c ! unat i) (in_len_of c (unat i)))
        (slice_of (outvec_base c ! unat j) (out_len_of c (unat j))) s1 = (s2, q, n) \<Longrightarrow>
      n \<le> out_len_of c (unat j)"
  shows "\<exists>s1 s2 q n s3. f (slice_of (invec_base c ! unat i) (in_len_of c (unat i)))
      (slice_of (outvec_base c ! unat j) (out_len_of c (unat j))) s1 = (s2, q, n) \<and>
    sfn_ok s1 \<and> sfn_stack s1 = butlast (sfn_stack s) @ [None] \<and>
    sfn_other s1 = sfn_other s \<and> sfn_access_invec_outvec h i j f s = (s3, Inr q) \<and>
    sfn_ok s3 \<and> sfn_other s3 = sfn_other s2"
proof -
  have wf: "connection_wf c" using sfn_take_some[OF assms(1,3)] by blast
  let ?sl = "slice_of (invec_base c ! unat i) (in_len_of c (unat i))"
  let ?c1 = "c\<lparr>invec_mapped := (invec_mapped c)[unat i := True]\<rparr>"
  let ?c2 = "?c1\<lparr>outvec_mapped := (outvec_mapped c)[unat j := True]\<rparr>"
  let ?c3 = "\<lambda>w. ?c2\<lparr>outvec_written := (outvec_written c)[unat j := w],
    cn_msg := (cn_msg c)\<lparr>msg_out_size := (msg_out_size (cn_msg c))[unat j := mu_some w]\<rparr>,
    outvec_unmapped := (outvec_unmapped c)[unat j := True]\<rparr>"
  let ?c4 = "\<lambda>w. (?c3 w)\<lparr>invec_unmapped := (invec_unmapped c)[unat i := True]\<rparr>"
  have wfs: "connection_wf ?c1" "connection_wf ?c2" "\<And>w. connection_wf (?c3 w)" "\<And>w. connection_wf (?c4 w)"
    using wf by (simp_all add: connection_wf_def)
  have out: "out_len_of ?c1 (unat j) = out_len_of c (unat j)" by (simp add: out_len_of_def)
  have run: "with_mapped_both i j f c s1 = (?c4 n, s2, Inr q)"
    if r: "f ?sl (slice_of (outvec_base c ! unat j) (out_len_of c (unat j))) s1 = (s2, q, n)"
      and s1: "sfn_ok s1" "sfn_stack s1 = butlast (sfn_stack s) @ [None]" "sfn_other s1 = sfn_other s" for s1 s2 q n
  proof -
    have le: "n \<le> out_len_of c (unat j)" by (rule n[OF s1 r])
    have p: "prepare_invec c i = (?c1, Inr (unat i, in_len_of c (unat i), invec_base c ! unat i))"
      using assms(6-8) by (simp add: prepare_invec_eq[OF wf] Let_def)
    have q: "prepare_outvec ?c1 j = (?c2, Inr (unat j, out_len_of c (unat j), outvec_base c ! unat j))"
      using o by (simp add: prepare_outvec_eq[OF wfs(1)] Let_def out)
    have co: "commit_outvec_write ?c2 (unat j) (out_len_of c (unat j)) n = (?c3 n, Inr ())"
      using o le by (simp add: commit_outvec_write_eq[OF wfs(2)])
    have ma: "mark_invec_unmapped (?c3 n) (unat i) = (?c4 n, Inr ())"
      using assms(6,9) by (simp add: mark_invec_unmapped_eq[OF wfs(3)])
    show ?thesis
      unfolding with_mapped_both_def p prod.case sum.case q r co ma ..
  qed
  have chk: "msg_check h c = Inr ()" using assms(4,5) by (simp add: msg_check_def)
  have f': "sfn_ok s2 \<and> sfn_stack s2 = sfn_stack s1 \<and> connection_wf c'"
    if "sfn_ok s1" "sfn_stack s1 = butlast (sfn_stack s) @ [None]" "sfn_other s1 = sfn_other s"
      "with_mapped_both i j f c s1 = (c', s2, r)" for s1 c' s2 r
  proof -
    obtain s2' q n where g: "f ?sl (slice_of (outvec_base c ! unat j) (out_len_of c (unat j))) s1 = (s2', q, n)"
      by (cases "f ?sl (slice_of (outvec_base c ! unat j) (out_len_of c (unat j))) s1")
    show ?thesis
      using keeps_frameD[OF f that(1) g] that(2,4) run[OF g that(1-3)] wfs(4)[of n]
      by (auto simp: frame_le_def stack_active_def)
  qed
  obtain s1 c' s2 r s3 where v: "with_mapped_both i j f c s1 = (c', s2, r)" "sfn_other s1 = sfn_other s"
    "sfn_ok s1" "sfn_stack s1 = butlast (sfn_stack s) @ [None]"
    "with_validated_connection (with_active sfn_take sfn_restore) h (with_mapped_both i j f) s = (s3, r)"
    "sfn_ok s3" "sfn_stack s3 = butlast (sfn_stack s) @ [Some c']" "sfn_other s3 = sfn_other s2"
    by (rule sfn.validated_accepted[OF assms(1,3) chk f'])
  obtain t q n where g: "f ?sl (slice_of (outvec_base c ! unat j) (out_len_of c (unat j))) s1 = (t, q, n)"
    by (cases "f ?sl (slice_of (outvec_base c ! unat j) (out_len_of c (unat j))) s1")
  have "s2 = t" "r = Inr q" using run[OF g v(3,4,2)] v(1) by simp_all
  then show ?thesis
    using g v(2-6,8) assms(2)
    by (intro exI[of _ s1] exI[of _ t] exI[of _ q] exI[of _ n] exI[of _ s3])
      (auto simp: sfn_access_invec_outvec_def with_connection_for_handle_def sfn_with_active_def)
qed

text \<open>C23. Reading an input vector through the API: when the active connection belongs to the service and
  the vector was never mapped, the closure runs once, on exactly the recorded base and length,
  with the connection on loan; its result is the call's result, and afterwards the vector is
  marked mapped and unmapped.\<close>

theorem access_invec_functional:
  assumes "sfn_ok s" "try_get_spm s = Inr ()" "stack_active (sfn_stack s) = Some c"
    "msg_handle (cn_msg c) = h" "\<not> msg_type (cn_msg c) <s 0" "unat i < 4"
    "\<not> invec_mapped c ! unat i" "invec_accessed c ! unat i = 0" "\<not> invec_unmapped c ! unat i"
    and f: "\<And>sl. keeps_frame sfn_ok sfn_stack (f sl)"
  shows "\<exists>s1 s2 q s3. f (slice_of (invec_base c ! unat i) (in_len_of c (unat i))) s1 = (s2, q) \<and>
    sfn_other s1 = sfn_other s \<and> sfn_stack s1 = butlast (sfn_stack s) @ [None] \<and>
    sfn_access_invec h i f s = (s3, Inr q) \<and> sfn_ok s3 \<and> sfn_other s3 = sfn_other s2 \<and>
    sfn_stack s3 = butlast (sfn_stack s) @ [Some (c\<lparr>
      invec_mapped := (invec_mapped c)[unat i := True],
      invec_unmapped := (invec_unmapped c)[unat i := True]\<rparr>)]"
  using access_invec_core[OF assms] .

definition one_call_spm :: "unit spm_fn" where
  "one_call_spm = sample_spm\<lparr>sf_connections := mutex_new (fst (ca_add_connection sample_connection ca_new))\<rparr>"

lemma one_call_spm_ok: "sfn_ok one_call_spm" "sfn_stack one_call_spm = [Some sample_connection]"
  "try_get_spm one_call_spm = Inr ()"
proof -
  obtain a' where "ca_add_connection sample_connection ca_new = (a', Inr ())" "ca_wf a'"
    "ca_stack a' = [Some sample_connection]"
    by (rule ca_add_ok[of ca_new sample_connection])
      (simp_all add: ca_new_def[THEN arg_cong[where f = top_connection]] max_defs)
  then show "sfn_ok one_call_spm" "sfn_stack one_call_spm = [Some sample_connection]"
    "try_get_spm one_call_spm = Inr ()"
    by (simp_all add: one_call_spm_def sfn_ok_def sfn_stack_def mutex_new_def sample_spm_def
        try_get_spm_def once_try_get_def)
qed

theorem access_invec_functional_witness:
  "\<exists>s3. sfn_access_invec Crypto 1 (\<lambda>sl s. (s, snd sl)) one_call_spm = (s3, Inr 0) \<and>
    sfn_stack s3 = [Some (sample_connection\<lparr>invec_mapped := [False, True, False, False],
      invec_unmapped := [False, True, False, False]\<rparr>)]"
proof -
  have f: "\<And>sl. keeps_frame sfn_ok sfn_stack (\<lambda>s. (s, snd (sl :: slice)))"
    by (rule keeps_frame_return)
  have four: "4 = Suc (Suc (Suc (Suc 0)))" by simp
  show ?thesis
    using access_invec_functional[OF one_call_spm_ok(1,3), of sample_connection Crypto 1,
        where f = "\<lambda>sl s. (s, snd sl)", OF _ _ _ _ _ _ _ f]
    by (auto simp: one_call_spm_ok(2) stack_active_def sample_connection_def psa_msg_new_def
        in_len_of_def PSA_MAX_IOVEC_def word_sless_alt slice_of_def empty_slice_def four
        replicate.simps)
qed

text \<open>While a closure holds the active connection no second access can be made through it: every
  access operation then returns CommunicationFailure and changes nothing.\<close>

theorem access_while_on_loan:
  assumes "sfn_ok s" "try_get_spm s = Inr ()" "stack_active (sfn_stack s) = None"
  shows "sfn_access_invec h i f s = (s, Inl CommunicationFailure) \<and>
    sfn_access_outvec h i g s = (s, Inl CommunicationFailure) \<and>
    sfn_access_invec_outvec h i j k s = (s, Inl CommunicationFailure)"
  using assms(2)
  by (simp add: sfn.validated_none[OF assms(1,3)] sfn_access_invec_def sfn_access_outvec_def sfn_access_invec_outvec_def
      with_connection_for_handle_def sfn_with_active_def)

theorem access_while_on_loan_witness:
  "sfn_access_invec Crypto 0 (\<lambda>sl s. (s, ())) sample_spm = (sample_spm, Inl CommunicationFailure) \<and>
   sfn_access_outvec Crypto 0 (\<lambda>sl s. (s, (), 1)) sample_spm = (sample_spm, Inl CommunicationFailure) \<and>
   sfn_access_invec_outvec Crypto 0 0 (\<lambda>sl sl' s. (s, (), 1)) sample_spm =
     (sample_spm, Inl CommunicationFailure)"
  using access_while_on_loan[of sample_spm Crypto 0 "\<lambda>sl s. (s, ())" "\<lambda>sl s. (s, (), 1)" 0
      "\<lambda>sl sl' s. (s, (), 1)"]
  by (simp add: stack_active_def)

text \<open>Re-entry through a veneer is refused: while the guard is set every veneer returns its error
  value and leaves the state as it is; a veneer entered with the guard clear leaves it clear.\<close>

theorem veneer_reentry:
  "(sf_in_secure s \<longrightarrow>
      psa_call_veneer p h ctrl iv ov s = (s, status_value ProgrammerError) \<and>
      psa_version_veneer p sid s = (s, 0) \<and> psa_framework_version_veneer s = (s, 0)) \<and>
   (\<not> sf_in_secure s \<longrightarrow>
      \<not> sf_in_secure (fst (psa_call_veneer p h ctrl iv ov s)) \<and>
      psa_version_veneer p sid s = (s, psa_version_impl p sid (s\<lparr>sf_in_secure := True\<rparr>)) \<and>
      psa_framework_version_veneer s = (s, PSA_FRAMEWORK_VERSION))"
  by (auto simp: psa_call_veneer_def psa_version_veneer_def psa_framework_version_veneer_def
      enter_secure_state_def exit_secure_state_def Let_def into_psa_status_def split: prod.split)

theorem veneer_reentry_witness:
  "psa_framework_version_veneer (sample_spm\<lparr>sf_in_secure := True\<rparr>) =
      (sample_spm\<lparr>sf_in_secure := True\<rparr>, 0) \<and>
   psa_framework_version_veneer sample_spm = (sample_spm, 0x0100)"
  using veneer_reentry[of "sample_spm\<lparr>sf_in_secure := True\<rparr>"] veneer_reentry[of sample_spm]
  by (simp add: PSA_FRAMEWORK_VERSION_def sample_spm_def)

text \<open>A full connection stack refuses a call without running any service: ConnectionBusy, and the
  state is the state before.\<close>

theorem full_stack_refuses:
  assumes "sfn_ok s" "length (sfn_stack s) = MAX_CONNECTIONS" "try_get_spm s = Inr ()"
  shows "fst (sfn_api_call p h ctrl iv ov ca s) = s \<and>
    (snd (sfn_api_call p h ctrl iv ov ca s) = Inl ConnectionBusy \<or>
     (\<exists>e. sfn_api_connection (sp_has_permission p s) h ctrl iv ov ca s = Inl e \<and>
       snd (sfn_api_call p h ctrl iv ov ca s) = Inl e))"
  using sfn_call_full[of s p] assms by (auto simp: sfn_api_call_def split: sum.split)

definition full_spm :: "unit spm_fn" where
  "full_spm = sample_spm\<lparr>sf_connections := mutex_new
    \<lparr>connections = replicate 4 (Some sample_connection), present = replicate 4 True,
     top_connection = 4\<rparr>\<rparr>"

lemma full_spm_ok: "sfn_ok full_spm" "length (sfn_stack full_spm) = MAX_CONNECTIONS"
  "try_get_spm full_spm = Inr ()"
  by (simp_all add: full_spm_def sfn_ok_def sfn_stack_def ca_wf_def mutex_new_def max_defs
      sample_spm_def try_get_spm_def once_try_get_def)

theorem full_stack_refuses_witness:
  "fst (sfn_api_call (sfn_system sample_services (\<lambda>_ _ _ _ _. True) (\<lambda>_. None) 5) Crypto
      (ctrl_new 1 0 False 0 False) 0 0 SECURE_PRIVILEGED full_spm) = full_spm"
  using full_stack_refuses[OF full_spm_ok] by blast

text \<open>C38. The descriptor arrays themselves are read without a permission check: whatever the platform
  denies, a call with one zero-length input vector is accepted for any non-null descriptor
  address, and the base it records is the word found there.\<close>

theorem descriptors_unchecked:
  assumes "try_get_spm s = Inr ()" "iv \<noteq> 0" "read_u32 (sf_mem s) (iv + 4) = 0"
  shows "\<exists>c. sfn_api_connection (\<lambda>_ _ _ _. False) h (ctrl_new 1 1 True 0 True) iv ov
      NS_UNPRIVILEGED s = Inr c \<and> invec_base c ! 0 = read_u32 (sf_mem s) iv"
proof -
  have h: "has_iovec (ctrl_new 1 1 True 0 True)"
    by (simp add: has_iovec_def ctrl_new_def Let_def)
  have v: "validate_call_params (ctrl_new 1 1 True 0 True) = Inr (1, 1, 0)"
    unfolding validate_call_params_Inr using h
    by (simp add: unpack_type_new ctrl_len_new word_sless_alt PSA_MAX_IOVEC_def)
  let ?ins = "[\<lparr>iov_base = read_u32 (sf_mem s) iv, iov_len = 0\<rparr>]"
  have ins: "read_vecs (sf_mem s) iv (Suc 0) = ?ins"
    using assms(3) by (simp add: read_vecs_def)
  have "call_accepted (\<lambda>_ _ _ _. False) (ctrl_new 1 1 True 0 True) ?ins [] NS_UNPRIVILEGED"
    using h by (simp add: call_accepted_def unpack_type_new ctrl_len_new word_sless_alt
        PSA_MAX_IOVEC_def vec_ok_def)
  then have "call_from_slices (\<lambda>_ _ _ _. False) h (ctrl_new 1 1 True 0 True) ?ins [] NS_UNPRIVILEGED =
      Inr (fresh_connection h 1 NS_UNPRIVILEGED ?ins [])"
    by (simp add: call_from_slices_Inr unpack_type_new)
  then have "sfn_api_connection (\<lambda>_ _ _ _. False) h (ctrl_new 1 1 True 0 True) iv ov NS_UNPRIVILEGED s =
      Inr (fresh_connection h 1 NS_UNPRIVILEGED ?ins [])"
    using assms(1,2) h v by (simp add: sfn_api_connection_def api_connection_def ins validate_vec_pointer_shape_def)
  then show ?thesis using fresh_nth(1)[of ?ins 0 h 1 NS_UNPRIVILEGED "[]"] by simp
qed

theorem descriptors_unchecked_witness:
  "\<exists>c. sfn_api_connection (\<lambda>_ _ _ _. False) Crypto (ctrl_new 1 1 True 0 True) 0x34000000 0
      NS_UNPRIVILEGED sample_spm = Inr c \<and> invec_base c ! 0 = 0"
proof -
  have z: "read_u32 (sf_mem sample_spm) a = 0" for a
    by (simp add: sample_spm_def read_u32_def numeral_eq_Suc)
  show ?thesis
    using descriptors_unchecked[where s = sample_spm and iv = "0x34000000" and h = Crypto and ov = 0]
    by (simp add: z)
qed

text \<open>The in-process client's version query never returns: psa_version of InternalPsaClient calls
  itself, so for no service does it produce a value.\<close>

theorem internal_psa_version_diverges: "internal_psa_version service_id = None"
proof -
  have "internal_psa_version x = Some y \<Longrightarrow> False" for x y
    by (rule internal_psa_version.raw_induct[of "\<lambda>x y. False"]) auto
  then show ?thesis by (cases "internal_psa_version service_id") auto
qed

end
