(* ===== verification/PsaApi.thy ===== *)
theory PsaApi
  imports SpmFn
begin

text \<open>
  The client side: the PSA functions an application calls (psa_interface/psa_api.rs) and the
  client that reaches the SPM through the non-secure veneers (psa_veneer_client).  The functions
  are generic over psa_call, as the source is over PsaApiCallInterface, and over the state, of
  which they use only its memory (a getter and an updater).  Slices are address and length;
  locals whose address is taken live at a given address of memory.
\<close>

type_synonym 's psa_call_fn =
  "service_handle \<Rightarrow> ctrl_param \<Rightarrow> ffi_vec list \<Rightarrow> ffi_vec list \<Rightarrow> 's \<Rightarrow> 's \<times> ffi_vec list \<times> isize"

definition status_from_raw :: "isize \<Rightarrow> unit res" where
  "status_from_raw status =
    (case status_try_from status of
       Inr Success \<Rightarrow> Inr ()
     | Inr status \<Rightarrow> Inl status
     | Inl _ \<Rightarrow> Inl CommunicationFailure)"

definition api_psa_version :: "(u32 \<Rightarrow> 's \<Rightarrow> u32) \<Rightarrow> service_handle \<Rightarrow> 's \<Rightarrow> u32" where
  "api_psa_version psa_version h s = psa_version (service_handle_value h) s"

definition vec_of_slice :: "slice \<Rightarrow> ffi_vec" where
  "vec_of_slice sl = \<lparr>iov_base = fst sl, iov_len = snd sl\<rparr>"

definition psa_initial_attest_get_token ::
    "'s psa_call_fn \<Rightarrow> slice \<Rightarrow> slice \<Rightarrow> 's \<Rightarrow> 's \<times> usize res" where
  "psa_initial_attest_get_token call challenge token_buf s =
    (let in_vec = [vec_of_slice challenge]; out_vec = [vec_of_slice token_buf] in
     case call AttestationService
            (ctrl_new (attestation_service_value GetToken) 1 True 1 True) in_vec out_vec s of
       (s, out_vec, status) \<Rightarrow>
         (s, and_then (status_from_raw status) (\<lambda>_. Inr (iov_len (out_vec ! 0)))))"

definition psa_initial_attest_get_token_size ::
    "('s \<Rightarrow> mem) \<Rightarrow> ((mem \<Rightarrow> mem) \<Rightarrow> 's \<Rightarrow> 's) \<Rightarrow> 's psa_call_fn \<Rightarrow> usize \<Rightarrow> usize \<Rightarrow> usize \<Rightarrow>
     's \<Rightarrow> 's \<times> usize res" where
  "psa_initial_attest_get_token_size get upd call in_at out_at challenge_size s =
    (let s = upd (\<lambda>m. write_u32 m in_at challenge_size) s;
         in_vec = [vec_of_slice (in_at, 4)];
         s = upd (\<lambda>m. write_u32 m out_at 0) s;
         out_vec = [vec_of_slice (out_at, 4)] in
     case call AttestationService
            (ctrl_new (attestation_service_value GetTokenSize) 1 True 1 True) in_vec out_vec s of
       (s, out_vec, status) \<Rightarrow>
         (s, and_then (status_from_raw status) (\<lambda>_. Inr (read_u32 (get s) out_at))))"

definition psa_hash_compute ::
    "((mem \<Rightarrow> mem) \<Rightarrow> 's \<Rightarrow> 's) \<Rightarrow> 's psa_call_fn \<Rightarrow> usize \<Rightarrow> u32 \<Rightarrow> slice \<Rightarrow> slice \<Rightarrow>
     's \<Rightarrow> 's \<times> usize res" where
  "psa_hash_compute upd call iov_at alg input hash_buf s =
    (let s = upd (\<lambda>m. write_bytes m iov_at (pack_iovec_bytes (for_hash_compute alg))) s;
         in_vec = [vec_of_slice (iov_at, of_nat pack_iovec_size), vec_of_slice input];
         out_vec = [vec_of_slice hash_buf] in
     case call Crypto (ctrl_new 1 2 True 1 True) in_vec out_vec s of
       (s, out_vec, status) \<Rightarrow>
         (case status_from_raw status of
            Inr _ \<Rightarrow> (s, Inr (iov_len (out_vec ! 0)))
          | Inl status \<Rightarrow> (s, Inl status)))"

definition psa_sign_hash ::
    "((mem \<Rightarrow> mem) \<Rightarrow> 's \<Rightarrow> 's) \<Rightarrow> 's psa_call_fn \<Rightarrow> usize \<Rightarrow> u32 \<Rightarrow> u32 \<Rightarrow> slice \<Rightarrow> slice \<Rightarrow>
     's \<Rightarrow> 's \<times> usize res" where
  "psa_sign_hash upd call iov_at key alg hash_buf signature s =
    (let s = upd (\<lambda>m. write_bytes m iov_at (pack_iovec_bytes (for_sign_hash key alg))) s;
         in_vec = [vec_of_slice (iov_at, of_nat pack_iovec_size), vec_of_slice hash_buf];
         out_vec = [vec_of_slice signature] in
     case call Crypto (ctrl_new (crypto_service_value SignHash) 2 True 1 True) in_vec out_vec s of
       (s, out_vec, status) \<Rightarrow>
         (case status_from_raw status of
            Inr _ \<Rightarrow> (s, Inr (iov_len (out_vec ! 0)))
          | Inl status \<Rightarrow> (s, Inl status)))"

section \<open>Slices in memory\<close>

text \<open>The double question mark on a result inside a result.\<close>

definition flatten :: "'a res res \<Rightarrow> 'a res" where
  "flatten r = and_then r (\<lambda>x. x)"

definition slice_bytes :: "mem \<Rightarrow> slice \<Rightarrow> u8 list" where
  "slice_bytes m sl = read_bytes m (fst sl) (unat (snd sl))"

definition zero_slice :: "slice \<Rightarrow> mem \<Rightarrow> mem" where
  "zero_slice sl m = write_bytes m (fst sl) (replicate (unat (snd sl)) 0)"

section \<open>The veneer client\<close>

text \<open>
  The descriptor arrays are the caller's: they are in memory, at in_at and out_at, when the
  veneer is entered, and the output array is what the caller reads back afterwards.
\<close>

definition vec_bytes :: "ffi_vec \<Rightarrow> u8 list" where
  "vec_bytes v = le_bytes32 (iov_base v) @ le_bytes32 (iov_len v)"

definition store_vecs :: "usize \<Rightarrow> ffi_vec list \<Rightarrow> mem \<Rightarrow> mem" where
  "store_vecs p vs m = write_bytes m p (concat (map vec_bytes vs))"

definition veneer_psa_call ::
    "('s \<Rightarrow> mem) \<Rightarrow> ((mem \<Rightarrow> mem) \<Rightarrow> 's \<Rightarrow> 's) \<Rightarrow>
     (service_handle \<Rightarrow> ctrl_param \<Rightarrow> usize \<Rightarrow> usize \<Rightarrow> 's \<Rightarrow> 's \<times> isize) \<Rightarrow>
     usize \<Rightarrow> usize \<Rightarrow> 's psa_call_fn" where
  "veneer_psa_call get upd veneer in_at out_at h ctrl in_vec out_vec s =
    (let s = upd (store_vecs in_at in_vec) s;
         s = upd (store_vecs out_at out_vec) s;
         in_vec_ptr = (if in_vec = [] then 0 else in_at);
         out_vec_ptr = (if out_vec = [] then 0 else out_at) in
     case veneer h ctrl in_vec_ptr out_vec_ptr s of
       (s, status) \<Rightarrow> (s, read_vecs (get s) out_at (length out_vec), status))"

lemma length_vec_bytes [simp]: "length (vec_bytes v) = 8"
  by (simp add: vec_bytes_def)

lemma length_concat_vec_bytes [simp]: "length (concat (map vec_bytes vs)) = 8 * length vs"
  by (induction vs) simp_all

lemma drop_concat_vec_bytes:
  "i < length vs \<Longrightarrow> drop (8 * i) (concat (map vec_bytes vs)) =
    vec_bytes (vs ! i) @ concat (map vec_bytes (drop (Suc i) vs))"
proof (induction vs arbitrary: i)
  case (Cons v vs)
  then show ?case by (cases i) simp_all
qed simp

text \<open>A stored array of descriptors reads back.\<close>

lemma read_store_vecs:
  assumes "length vs < 536870912"
  shows "read_vecs (store_vecs p vs m) p (length vs) = vs"
proof (rule nth_equalityI)
  fix i assume "i < length (read_vecs (store_vecs p vs m) p (length vs))"
  then have i: "i < length vs" by (simp add: read_vecs_def)
  let ?bs = "concat (map vec_bytes vs)"
  have len: "length ?bs \<le> 4294967296" using assms by simp
  have "read_bytes (write_bytes m p ?bs) (p + of_nat (8 * i)) 4 = take 4 (drop (8 * i) ?bs)"
    by (rule read_write_bytes_part[OF _ len]) (use i in simp)
  then have b: "read_u32 (store_vecs p vs m) (p + of_nat (8 * i)) = iov_base (vs ! i)"
    unfolding drop_concat_vec_bytes[OF i]
    by (simp add: read_u32_def store_vecs_def vec_bytes_def)
  have "read_bytes (write_bytes m p ?bs) (p + of_nat (8 * i + 4)) 4 = take 4 (drop (8 * i + 4) ?bs)"
    by (rule read_write_bytes_part[OF _ len]) (use i in simp)
  moreover have "drop (8 * i + 4) ?bs = drop 4 (drop (8 * i) ?bs)" by (simp add: add.commute)
  ultimately have l: "read_u32 (store_vecs p vs m) (p + of_nat (8 * i + 4)) = iov_len (vs ! i)"
    unfolding drop_concat_vec_bytes[OF i]
    by (simp add: read_u32_def store_vecs_def vec_bytes_def)
  have "read_vecs (store_vecs p vs m) p (length vs) ! i =
      \<lparr>iov_base = read_u32 (store_vecs p vs m) (p + of_nat (8 * i)),
       iov_len = read_u32 (store_vecs p vs m) (p + of_nat (8 * i + 4))\<rparr>"
    using i by (simp add: read_vecs_def del: of_nat_mult of_nat_add)
  then show "read_vecs (store_vecs p vs m) p (length vs) ! i = vs ! i"
    unfolding b l by simp
qed (simp add: read_vecs_def)

section \<open>Properties of the client\<close>

lemma status_from_raw_value:
  "status_from_raw (status_value c) = (if c = Success then Inr () else Inl c)"
  by (cases c) (simp_all add: status_from_raw_def del: status_value.simps)

lemma status_from_raw_into:
  "status_from_raw (into_psa_status r) =
    (case r of Inr _ \<Rightarrow> Inr () | Inl e \<Rightarrow> if e = Success then Inr () else Inl e)"
  by (cases r) (simp_all add: into_psa_status_def status_from_raw_value del: status_value.simps)

text \<open>Statuses cross the boundary intact: the integer into_psa_status makes of a result, read back by
  the client, is that result (an error stays the same error); every integer that is no status
  code reads as CommunicationFailure.\<close>

theorem status_roundtrip:
  "(case r of Inl e \<Rightarrow> e \<noteq> Success | Inr _ \<Rightarrow> True) \<Longrightarrow>
    status_from_raw (into_psa_status r) = r \<and>
    ((\<forall>c. w \<noteq> status_value c) \<longrightarrow> status_from_raw w = Inl CommunicationFailure)"
proof -
  assume r: "case r of Inl e \<Rightarrow> e \<noteq> Success | Inr _ \<Rightarrow> True"
  have "status_from_raw w = Inl CommunicationFailure" if "\<forall>c. w \<noteq> status_value c"
    using that status_try_from_InrD[of w]
    by (cases "status_try_from w") (auto simp: status_from_raw_def)
  then show ?thesis using r by (auto simp: status_from_raw_into split: sum.splits)
qed

theorem status_roundtrip_witness:
  "status_from_raw (into_psa_status (Inl BufferTooSmall)) = Inl BufferTooSmall \<and>
   status_from_raw (- 148) = Inl CommunicationFailure"
proof -
  have "(- 148 :: isize) \<noteq> status_value c" for c by (cases c) simp_all
  then show ?thesis using status_roundtrip[of "Inl BufferTooSmall" "- 148"] by auto
qed

text \<open>The SPM never writes memory itself: only the dispatched service does.\<close>

definition keeps_bytes :: "usize \<Rightarrow> nat \<Rightarrow> 'd sfn_platform \<Rightarrow> bool" where
  "keeps_bytes a n p \<longleftrightarrow>
    (\<forall>msg s x. in_slice a n x \<longrightarrow> sf_mem (fst (sp_call p msg s)) x = sf_mem s x)"

lemma sfn_call_mem:
  "sf_mem (fst (sfn_call p c s)) = sf_mem s \<or>
    (\<exists>s1. sf_mem s1 = sf_mem s \<and> sf_mem (fst (sfn_call p c s)) = sf_mem (fst (sp_call p (cn_msg c) s1)))"
proof (cases "sfn_add_connection c s")
  case (Pair s1 r)
  then have "sf_mem s1 = sf_mem s"
    by (auto simp: sfn_add_connection_def split: prod.splits sum.splits)
  then show ?thesis using Pair
    by (cases r; cases "sp_call p (cn_msg c) s1")
      (auto simp: sfn_call_def sfn_pop_connection_def intro!: exI[of _ s1])
qed

lemma psa_call_veneer_mem:
  assumes "keeps_bytes a n p" "in_slice a n x"
  shows "sf_mem (fst (psa_call_veneer p h ctrl iv ov s)) x = sf_mem s x"
proof -
  let ?s = "s\<lparr>sf_in_secure := True\<rparr>"
  have "sf_mem (fst (sfn_api_call p h ctrl iv ov NS_UNPRIVILEGED ?s)) x = sf_mem ?s x"
    using assms sfn_call_mem[of p _ ?s]
    by (auto simp: sfn_api_call_def keeps_bytes_def split: sum.split) metis
  then show ?thesis
    by (auto simp: psa_call_veneer_def enter_secure_state_def exit_secure_state_def
        psa_call_impl_def Let_def split: prod.splits)
qed

text \<open>The length a client gets back is the capacity it passed in: nothing on the path from the
  veneer to the dispatcher writes the caller's output descriptor, so for any platform that leaves
  those eight bytes alone psa_hash_compute through the veneer returns, on success, the length of
  the hash buffer, whatever number of bytes the service committed.\<close>

theorem reported_length_is_capacity:
  assumes "keeps_bytes out_at 8 p"
    and "psa_hash_compute sf_mem_update
      (veneer_psa_call sf_mem sf_mem_update (psa_call_veneer p) in_at out_at)
      iov_at alg input hash_buf s = (s', Inr n)"
  shows "n = snd hash_buf"
proof -
  let ?outs = "[vec_of_slice hash_buf]"
  let ?ins = "[vec_of_slice (iov_at, of_nat pack_iovec_size), vec_of_slice input]"
  let ?s = "sf_mem_update (store_vecs out_at ?outs \<circ> store_vecs in_at ?ins \<circ>
      (\<lambda>m. write_bytes m iov_at (pack_iovec_bytes (for_hash_compute alg)))) s"
  let ?m = "sf_mem (fst (psa_call_veneer p Crypto (ctrl_new 1 2 True 1 True) in_at out_at ?s))"
  obtain m0 where m0: "sf_mem ?s = store_vecs out_at ?outs m0" by simp
  have call: "n = iov_len (read_vecs ?m out_at 1 ! 0)"
    using assms(2)
    by (auto simp: psa_hash_compute_def veneer_psa_call_def Let_def split: prod.splits sum.splits)
  have same: "?m (out_at + of_nat j) = sf_mem ?s (out_at + of_nat j)" if "j < 8" for j
    by (rule psa_call_veneer_mem[OF assms(1)]) (use that in \<open>simp add: in_slice_def unat_of_nat\<close>)
  have bytes: "read_bytes ?m (out_at + of_nat k) 4 = read_bytes (sf_mem ?s) (out_at + of_nat k) 4"
    if "k \<le> 4" for k
    using same[of "k + _"] that
    by (intro read_bytes_cong) (metis (no_types, lifting) add.assoc add_le_less_mono of_nat_add
        numeral_Bit0)
  have "read_vecs ?m out_at 1 = read_vecs (sf_mem ?s) out_at 1"
    using bytes[of 0] bytes[of 4] by (simp add: read_vecs_def read_u32_def)
  also have "\<dots> = ?outs" using read_store_vecs[of ?outs out_at m0] m0 by simp
  finally show ?thesis using call by (simp add: vec_of_slice_def)
qed

text \<open>A platform whose crypto service succeeds without writing a byte.\<close>

definition silent_platform :: "unit sfn_platform" where
  "silent_platform =
    \<lparr>sp_call = (\<lambda>msg s. (s, Inr ())), sp_has_permission = (\<lambda>_ _ _ _ _. True),
     sp_version = (\<lambda>_. None)\<rparr>"

lemma silent_keeps: "keeps_bytes a n silent_platform" "platform_keeps silent_platform"
  by (simp_all add: keeps_bytes_def platform_keeps_def silent_platform_def keeps_frame_return)

lemma silent_call:
  assumes "sfn_ok s" "sfn_stack s = []" "connection_wf c"
  shows "snd (sfn_call silent_platform c s) = Inr ()"
  using sfn_call_room[OF silent_keeps(2) assms(1,3)] assms(2)
  by (auto simp: silent_platform_def max_defs)

lemma silent_api_call:
  assumes "sfn_ok s" "sfn_stack s = []" "try_get_spm s = Inr ()" "has_iovec ctrl"
    "read_vecs (sf_mem s) iv (unat (ctrl_in_len ctrl)) = ins"
    "read_vecs (sf_mem s) ov (unat (ctrl_out_len ctrl)) = outs" "iv \<noteq> 0" "ov \<noteq> 0"
    "call_accepted (\<lambda>_ _ _ _. True) ctrl ins outs ca"
  shows "snd (sfn_api_call silent_platform h ctrl iv ov ca s) = Inr ()"
proof -
  have v: "validate_call_params ctrl = Inr (unpack_type ctrl, ctrl_in_len ctrl, ctrl_out_len ctrl)"
    using assms(4,9) by (auto simp: validate_call_params_Inr call_accepted_def)
  have e: "ctrl_in_len ctrl = 0 \<Longrightarrow> ins = []" "ctrl_out_len ctrl = 0 \<Longrightarrow> outs = []"
    using assms(5,6) by (auto simp: read_vecs_def)
  have "sfn_api_connection (\<lambda>_ _ _ _. True) h ctrl iv ov ca s =
      Inr (fresh_connection h (unpack_type ctrl) ca ins outs)"
    using assms v e
    by (auto simp: sfn_api_connection_def api_connection_def validate_vec_pointer_shape_def Let_def call_from_slices_Inr)
  moreover from this have "connection_wf (fresh_connection h (unpack_type ctrl) ca ins outs)"
    by (rule sfn_api_connection_wf)
  ultimately show ?thesis using silent_call[OF assms(1,2)]
    by (simp add: sfn_api_call_def) (simp add: silent_platform_def)
qed

theorem reported_length_is_capacity_witness:
  "\<exists>s'. psa_hash_compute sf_mem_update
      (veneer_psa_call sf_mem sf_mem_update (psa_call_veneer silent_platform) 0x1000 0x2000)
      0x3000 PSA_ALG_SHA_256 (0x4000, 3) (0x5000, 32) sample_spm = (s', Inr 32)"
proof -
  let ?outs = "[vec_of_slice (0x5000, 32)]"
  let ?ins = "[vec_of_slice (0x3000, of_nat pack_iovec_size), vec_of_slice (0x4000, 3)]"
  let ?s = "sf_mem_update (store_vecs 0x2000 ?outs \<circ> store_vecs 0x1000 ?ins \<circ>
      (\<lambda>m. write_bytes m 0x3000 (pack_iovec_bytes (for_hash_compute PSA_ALG_SHA_256)))) sample_spm"
  let ?t = "?s\<lparr>sf_in_secure := True\<rparr>"
  have ctrl: "has_iovec (ctrl_new 1 2 True 1 True)"
    by (simp add: has_iovec_def ctrl_new_def Let_def)
  have out: "read_vecs (sf_mem ?t) 0x2000 1 = ?outs"
    using read_store_vecs[of ?outs "0x2000"] by simp
  have dis: "read_bytes (store_vecs 0x2000 ?outs m) (0x1000 + of_nat k) 4 =
      read_bytes m (0x1000 + of_nat k) 4" if "k \<in> {0, 4, 8, 12}" for m k
    unfolding store_vecs_def using that
    by (intro read_write_bytes_disjoint allI impI not_in_slice_apart)
      (auto simp: unat_word_ariths unat_of_nat)
  have "read_vecs (store_vecs 0x2000 ?outs m) 0x1000 2 = read_vecs m 0x1000 2" for m
    using dis[of 0 m] dis[of 4 m] dis[of 8 m] dis[of 12 m]
    by (simp add: read_vecs_def read_u32_def upt_rec)
  then have ins: "read_vecs (sf_mem ?t) 0x1000 2 = ?ins"
    using read_store_vecs[of ?ins "0x1000"] by (simp add: numeral_2_eq_2)
  have acc: "call_accepted (\<lambda>_ _ _ _. True) (ctrl_new 1 2 True 1 True) ?ins ?outs NS_UNPRIVILEGED"
    using ctrl by (simp add: call_accepted_def unpack_type_new ctrl_len_new word_sless_alt
        PSA_MAX_IOVEC_def vec_ok_def vec_fits_def vec_of_slice_def pack_iovec_size_def separated_def)
  have t: "sfn_ok ?t" "sfn_stack ?t = []" "try_get_spm ?t = Inr ()"
    by (simp_all add: sample_spm_def sfn_ok_def sfn_stack_def mutex_new_def try_get_spm_def
        once_try_get_def)
  have "snd (sfn_api_call silent_platform Crypto (ctrl_new 1 2 True 1 True) 0x1000 0x2000
      NS_UNPRIVILEGED ?t) = Inr ()"
    by (rule silent_api_call[OF t ctrl _ _ _ _ acc])
      (use ins out in \<open>simp_all add: ctrl_len_new\<close>)
  then obtain t2 where t2: "sfn_api_call silent_platform Crypto (ctrl_new 1 2 True 1 True)
      0x1000 0x2000 NS_UNPRIVILEGED ?t = (t2, Inr ())" by (metis prod.collapse)
  have "\<not> sf_in_secure ?s" by (simp add: sample_spm_def)
  then have "psa_call_veneer silent_platform Crypto (ctrl_new 1 2 True 1 True) 0x1000 0x2000 ?s =
      (exit_secure_state t2, 0)"
    using t2 by (simp add: psa_call_veneer_def enter_secure_state_def Let_def psa_call_impl_def
        into_psa_status_def)
  moreover have "status_from_raw 0 = Inr ()" using status_from_raw_value[of Success] by simp
  ultimately obtain s'' n where run: "psa_hash_compute sf_mem_update
      (veneer_psa_call sf_mem sf_mem_update (psa_call_veneer silent_platform) 0x1000 0x2000)
      0x3000 PSA_ALG_SHA_256 (0x4000, 3) (0x5000, 32) sample_spm = (s'', Inr n)"
    by (simp add: psa_hash_compute_def veneer_psa_call_def Let_def)
  then have "n = 32" using reported_length_is_capacity[OF silent_keeps(1) run] by simp
  then show ?thesis using run by blast
qed

end
