(* ===== verification/CryptoSrv.thy ===== *)
theory CryptoSrv
  imports Cose PsaApi
begin

text \<open>
  The crypto service (spe_services/crypto/crypto_service.rs) with both of its backends.  The
  libraries behind them, p256 and sha2 or mbedtls, are parameters, and so is bytemuck's cast of
  the request header.  The properties compose the service with the SPM API of the function-call
  build.
\<close>

section \<open>Backends\<close>

definition P256_SIGNATURE_SIZE :: nat where "P256_SIGNATURE_SIZE = 64"
definition SHA256_HASH_SIZE :: nat where "SHA256_HASH_SIZE = 32"

definition sign_hash_rustcrypto ::
    "rust_crypto \<Rightarrow> u8 list \<Rightarrow> u8 list \<Rightarrow> u8 list \<Rightarrow> u8 list \<times> nat res" where
  "sign_hash_rustcrypto rc signing_key hash signature_buf =
    (if length hash \<noteq> SHA256_HASH_SIZE then (signature_buf, Inl InvalidArgument)
     else if length signature_buf < P256_SIGNATURE_SIZE then (signature_buf, Inl BufferTooSmall)
     else if \<not> rc_key_valid rc signing_key then (signature_buf, Inl InvalidArgument)
     else
       (case rc_sign_prehash rc signing_key hash of
          None \<Rightarrow> (signature_buf, Inl GenericError)
        | Some signature \<Rightarrow> (copy_at signature_buf 0 signature, Inr P256_SIGNATURE_SIZE)))"

definition compute_hash_rustcrypto ::
    "rust_crypto \<Rightarrow> u32 \<Rightarrow> u8 list \<Rightarrow> u8 list \<Rightarrow> u8 list \<times> nat res" where
  "compute_hash_rustcrypto rc alg input hash_buf =
    (if alg \<noteq> PSA_ALG_SHA_256 then (hash_buf, Inl NotSupported)
     else if length hash_buf < SHA256_HASH_SIZE then (hash_buf, Inl BufferTooSmall)
     else (copy_at hash_buf 0 (rc_sha256 rc input), Inr SHA256_HASH_SIZE))"

text \<open>
  mbedtls: mbedtls_ecdsa_sign on the P-256 group with the key read from 32 bytes gives a code and
  the two numbers, which mbedtls_mpi_write_binary writes as 32 bytes each; the md functions give
  a digest.
\<close>

record mbedtls =
  mb_ecdsa_sign :: "u8 list \<Rightarrow> u8 list \<Rightarrow> u32 \<times> u8 list \<times> u8 list"
  mb_sha256 :: "u8 list \<Rightarrow> u8 list"

definition sign_hash_unsafe_mbedtls ::
    "mbedtls \<Rightarrow> u8 list \<Rightarrow> u8 list \<Rightarrow> u8 list \<Rightarrow> u8 list \<times> nat res" where
  "sign_hash_unsafe_mbedtls mb signing_key hash signature_buf =
    (if length hash \<noteq> SHA256_HASH_SIZE then (signature_buf, Inl InvalidArgument)
     else if length signature_buf < P256_SIGNATURE_SIZE then (signature_buf, Inl BufferTooSmall)
     else
       (case mb_ecdsa_sign mb signing_key hash of (ret, r, s) \<Rightarrow>
          if ret \<noteq> 0 then (signature_buf, Inl GenericError)
          else (copy_at (copy_at signature_buf 0 r) 32 s, Inr P256_SIGNATURE_SIZE)))"

definition compute_hash_unsafe_mbedtls ::
    "mbedtls \<Rightarrow> u32 \<Rightarrow> u8 list \<Rightarrow> u8 list \<Rightarrow> u8 list \<times> nat res" where
  "compute_hash_unsafe_mbedtls mb alg input hash_buf =
    (if alg \<noteq> PSA_ALG_SHA_256 then (hash_buf, Inl NotSupported)
     else if length hash_buf < SHA256_HASH_SIZE then (hash_buf, Inl BufferTooSmall)
     else (copy_at hash_buf 0 (mb_sha256 mb input), Inr SHA256_HASH_SIZE))"

text \<open>The two features are exclusive: the build has one of the backends.\<close>

datatype crypto_feature = Rustcrypto rust_crypto | Unsafe_Mbedtls mbedtls

definition sign_hash :: "crypto_feature \<Rightarrow> u8 list \<Rightarrow> u8 list \<Rightarrow> u8 list \<Rightarrow> u8 list \<times> nat res" where
  "sign_hash ft signing_key hash signature_buf =
    (case ft of
       Unsafe_Mbedtls mb \<Rightarrow> sign_hash_unsafe_mbedtls mb signing_key hash signature_buf
     | Rustcrypto rc \<Rightarrow> sign_hash_rustcrypto rc signing_key hash signature_buf)"

definition compute_hash :: "crypto_feature \<Rightarrow> u32 \<Rightarrow> u8 list \<Rightarrow> u8 list \<Rightarrow> u8 list \<times> nat res" where
  "compute_hash ft alg input hash_buf =
    (case ft of
       Unsafe_Mbedtls mb \<Rightarrow> compute_hash_unsafe_mbedtls mb alg input hash_buf
     | Rustcrypto rc \<Rightarrow> compute_hash_rustcrypto rc alg input hash_buf)"

section \<open>The service\<close>

text \<open>
  cr_cast: bytemuck::try_from_bytes on a slice of the given address and bytes.  cr_access_invec
  and cr_access_invec_outvec: the SPM API at the two closure types the service uses.
\<close>

record 's crypto_env =
  cr_mem :: "'s \<Rightarrow> mem"
  cr_upd :: "(mem \<Rightarrow> mem) \<Rightarrow> 's \<Rightarrow> 's"
  cr_feature :: crypto_feature
  cr_signing_key :: "u8 list"
  cr_cast :: "usize \<Rightarrow> u8 list \<Rightarrow> tfm_crypto_pack_iovec option"
  cr_access_invec ::
    "service_handle \<Rightarrow> u32 \<Rightarrow> (slice \<Rightarrow> 's \<Rightarrow> 's \<times> tfm_crypto_pack_iovec res) \<Rightarrow> 's \<Rightarrow>
     's \<times> tfm_crypto_pack_iovec res res"
  cr_access_invec_outvec ::
    "service_handle \<Rightarrow> u32 \<Rightarrow> u32 \<Rightarrow> (slice \<Rightarrow> slice \<Rightarrow> 's \<Rightarrow> 's \<times> unit res \<times> usize) \<Rightarrow> 's \<Rightarrow>
     's \<times> unit res res"

definition read_header :: "'s crypto_env \<Rightarrow> slice \<Rightarrow> 's \<Rightarrow> 's \<times> tfm_crypto_pack_iovec res" where
  "read_header env buf s =
    (s, ok_or (cr_cast env (fst buf) (slice_bytes (cr_mem env s) buf)) ProgrammerError)"

text \<open>The closures: on an error the first written_len bytes, none, are cleared.\<close>

definition crypto_closure ::
    "'s crypto_env \<Rightarrow> (u8 list \<Rightarrow> u8 list \<Rightarrow> u8 list \<times> nat res) \<Rightarrow> slice \<Rightarrow> slice \<Rightarrow> 's \<Rightarrow>
     's \<times> unit res \<times> usize" where
  "crypto_closure env f input out s =
    (case f (slice_bytes (cr_mem env s) input) (slice_bytes (cr_mem env s) out) of
       (buf, Inr written_len) \<Rightarrow>
         (cr_upd env (\<lambda>m. write_bytes m (fst out) buf) s, Inr (), of_nat written_len)
     | (buf, Inl e) \<Rightarrow> (cr_upd env (\<lambda>m. write_bytes m (fst out) buf) s, Inl e, 0))"

definition crypto_call :: "'s crypto_env \<Rightarrow> psa_msg \<Rightarrow> 's \<Rightarrow> 's \<times> unit res" where
  "crypto_call env msg s =
    (case cr_access_invec env (msg_handle msg) 0 (read_header env) s of
       (s, r) \<Rightarrow>
     (case flatten r of
       Inl e \<Rightarrow> (s, Inl e)
     | Inr iov \<Rightarrow>
         if pk_function_id iov = TFM_CRYPTO_ASYMMETRIC_SIGN_HASH_SID then
           (case cr_access_invec_outvec env (msg_handle msg) 1 0
                   (crypto_closure env (sign_hash (cr_feature env) (cr_signing_key env))) s of
              (s, r) \<Rightarrow> (s, flatten r))
         else if pk_function_id iov = TFM_CRYPTO_HASH_COMPUTE_SID then
           (case cr_access_invec_outvec env (msg_handle msg) 1 0
                   (crypto_closure env (compute_hash (cr_feature env) (pk_alg iov))) s of
              (s, r) \<Rightarrow> (s, flatten r))
         else (s, Inl NotSupported)))"

section \<open>In the function-call build\<close>

definition sfn_crypto_env ::
    "crypto_feature \<Rightarrow> u8 list \<Rightarrow> (usize \<Rightarrow> u8 list \<Rightarrow> tfm_crypto_pack_iovec option) \<Rightarrow> 'd spm_fn crypto_env" where
  "sfn_crypto_env ft key cast =
    \<lparr>cr_mem = sf_mem, cr_upd = (\<lambda>g s. s\<lparr>sf_mem := g (sf_mem s)\<rparr>), cr_feature = ft,
     cr_signing_key = key, cr_cast = cast, cr_access_invec = sfn_access_invec,
     cr_access_invec_outvec = sfn_access_invec_outvec\<rparr>"

lemma sfn_mem_update_views [simp]:
  "sfn_ok (s\<lparr>sf_mem := m\<rparr>) = sfn_ok s" "sfn_stack (s\<lparr>sf_mem := m\<rparr>) = sfn_stack s"
  by (simp_all add: sfn_ok_def sfn_stack_def)

lemma read_header_keeps: "keeps_frame sfn_ok sfn_stack (read_header env sl)"
  by (auto simp: keeps_frame_def read_header_def)

lemma crypto_closure_keeps:
  "keeps_frame sfn_ok sfn_stack (crypto_closure (sfn_crypto_env ft key cast) f sl sl')"
  by (auto simp: keeps_frame_def crypto_closure_def sfn_crypto_env_def split: prod.splits sum.splits)

lemma sign_hash_length: "length (fst (sign_hash_rustcrypto rc key hash buf)) = length buf"
  if "\<And>sg. rc_sign_prehash rc key hash = Some sg \<Longrightarrow> length sg = 64"
  using that by (auto simp: sign_hash_rustcrypto_def P256_SIGNATURE_SIZE_def length_copy_at split: option.splits)

lemma slice_bytes_empty: "slice_bytes m (slice_of a n) = read_bytes m a (unat n)"
  by (simp add: slice_bytes_def slice_of_def empty_slice_def)

text \<open>A request whose header the service accepts and whose operation succeeds: the output vector gets the
  operation's buffer and nothing else changes.\<close>

lemma crypto_call_core:
  fixes s :: "'d spm_fn"
  assumes "sfn_ok s" "try_get_spm s = Inr ()" "stack_active (sfn_stack s) = Some c"
    and "cn_msg c = msg" "\<not> msg_type msg <s 0"
    and "\<not> invec_mapped c ! 0" "invec_accessed c ! 0 = 0" "\<not> invec_unmapped c ! 0"
    and "\<not> invec_mapped c ! 1" "invec_accessed c ! 1 = 0" "\<not> invec_unmapped c ! 1"
    and "\<not> outvec_mapped c ! 0" "outvec_written c ! 0 = 0" "\<not> outvec_unmapped c ! 0"
    and "hs0 = slice_of (invec_base c ! 0) (in_len_of c 0)" "cast (fst hs0) (slice_bytes (sf_mem s) hs0) = Some iov"
    and op: "pk_function_id iov = TFM_CRYPTO_ASYMMETRIC_SIGN_HASH_SID \<and> f = sign_hash ft key \<or>
      pk_function_id iov = TFM_CRYPTO_HASH_COMPUTE_SID \<and> f = compute_hash ft (pk_alg iov)"
    and res: "f (read_bytes (sf_mem s) (invec_base c ! 1) (unat (in_len_of c 1)))
      (read_bytes (sf_mem s) (outvec_base c ! 0) (unat (out_len_of c 0))) = (buf, Inr n)"
    and n: "of_nat n \<le> out_len_of c 0" and o0: "out_len_of c 0 \<noteq> 0"
  shows "\<exists>s3. crypto_call (sfn_crypto_env ft key cast) msg s = (s3, Inr ()) \<and> sfn_ok s3 \<and>
    sfn_other s3 = sfn_other (s\<lparr>sf_mem := write_bytes (sf_mem s) (outvec_base c ! 0) buf\<rparr>)"
proof -
  let ?env = "sfn_crypto_env ft key cast :: 'd spm_fn crypto_env" and ?h = "msg_handle msg"
  have wf: "connection_wf c" using sfn_take_some[OF assms(1,3)] by blast
  let ?c = "c\<lparr>invec_mapped := (invec_mapped c)[0 := True], invec_unmapped := (invec_unmapped c)[0 := True]\<rparr>"
  have h: "msg_handle (cn_msg c) = ?h" "\<not> msg_type (cn_msg c) <s 0" using assms(4,5) by simp_all
  obtain s0 s1 q s2 where a: "read_header ?env hs0 s0 = (s1, q)" "sfn_other s0 = sfn_other s"
    "sfn_access_invec ?h 0 (read_header ?env) s = (s2, Inr q)" "sfn_ok s2" "sfn_other s2 = sfn_other s1"
    "sfn_stack s2 = butlast (sfn_stack s) @ [Some ?c]"
    using access_invec_core[OF assms(1-3) h, of 0 "read_header ?env", OF _ _ _ _ read_header_keeps]
      assms(6-8) by (auto simp: assms(15))
  have mem: "sfn_other s2 = sfn_other s" "q = Inr iov"
    using a(1,2,5) assms(16) by (auto simp: sfn_other_def read_header_def sfn_crypto_env_def)
  have get: "try_get_spm s2 = Inr ()" using mem(1) assms(2) by (simp add: sfn_other_def try_get_spm_def)
  let ?f = "crypto_closure ?env f"
  let ?hs = "slice_of (invec_base c ! 1) (in_len_of c 1)" and ?os = "slice_of (outvec_base c ! 0) (out_len_of c 0)"
  have os: "fst ?os = outvec_base c ! 0" using o0 by (simp add: slice_of_def)
  have f: "?f ?hs ?os t = (t\<lparr>sf_mem := write_bytes (sf_mem t) (outvec_base c ! 0) buf\<rparr>, Inr (), of_nat n)"
    if "sf_mem t = sf_mem s" for t
    using that res by (simp add: crypto_closure_def sfn_crypto_env_def slice_bytes_empty os)
  have act: "stack_active (sfn_stack s2) = Some ?c" by (simp add: a(6) stack_active_def)
  have sel: "invec_base ?c = invec_base c" "outvec_base ?c = outvec_base c" "in_len_of ?c = in_len_of c"
    "out_len_of ?c = out_len_of c" by (auto simp: in_len_of_def out_len_of_def)
  have same: "sf_mem t = sf_mem s" if "sfn_other t = sfn_other s2" for t
    using that mem(1) by (simp add: sfn_other_def)
  have "\<exists>t0 t1 q' n t2. ?f (slice_of (invec_base ?c ! unat (1 :: u32)) (in_len_of ?c (unat (1 :: u32))))
      (slice_of (outvec_base ?c ! unat (0 :: u32)) (out_len_of ?c (unat (0 :: u32)))) t0 = (t1, q', n) \<and>
      sfn_ok t0 \<and> sfn_stack t0 = butlast (sfn_stack s2) @ [None] \<and>
      sfn_other t0 = sfn_other s2 \<and> sfn_access_invec_outvec ?h 1 0 ?f s2 = (t2, Inr q') \<and>
      sfn_ok t2 \<and> sfn_other t2 = sfn_other t1"
  proof (rule access_both_core[OF a(4) get act])
    fix s1 s2' q k assume "sfn_other s1 = sfn_other s2"
      "?f (slice_of (invec_base ?c ! unat (1 :: u32)) (in_len_of ?c (unat (1 :: u32))))
        (slice_of (outvec_base ?c ! unat (0 :: u32)) (out_len_of ?c (unat (0 :: u32)))) s1 = (s2', q, k)"
    then have "k = of_nat n" using f[OF same] unfolding sel by simp
    then show "k \<le> out_len_of ?c (unat (0 :: u32))" using n unfolding sel by simp
  qed (use h assms(9-14) crypto_closure_keeps in simp_all)
  then obtain t0 t1 q' k t2 where b: "?f ?hs ?os t0 = (t1, q', k)" "sfn_other t0 = sfn_other s2"
    "sfn_access_invec_outvec ?h 1 0 ?f s2 = (t2, Inr q')" "sfn_ok t2" "sfn_other t2 = sfn_other t1"
    unfolding sel by auto
  have t1: "q' = Inr ()" "t1 = t0\<lparr>sf_mem := write_bytes (sf_mem t0) (outvec_base c ! 0) buf\<rparr>"
    using b(1) f[OF same[OF b(2)]] by auto
  have "sfn_other t2 = sfn_other (s\<lparr>sf_mem := write_bytes (sf_mem s) (outvec_base c ! 0) buf\<rparr>)"
    using b(2,5) mem(1) t1(2) by (simp add: sfn_other_def)
  moreover have "crypto_call ?env msg s = (t2, Inr ())"
    using a(3) b(3) op unfolding crypto_call_def
    by (auto simp: sfn_crypto_env_def flatten_def mem(2) t1(1) TFM_CRYPTO_ASYMMETRIC_SIGN_HASH_SID_def
        TFM_CRYPTO_HASH_COMPUTE_SID_def)
  ultimately show ?thesis using b(4) by blast
qed

text \<open>C36. A signature for any client, in a call the function-call dispatcher serves with the RustCrypto backend.  Whoever made
  the call, and whatever key identifier and algorithm the header names: when the header asks for a
  signature, the second input holds 32 bytes, the output vector has room for 64 bytes (less is
  BufferTooSmall), none of the three vectors has been used in this call yet, the device key is valid
  and the library signs, the service signs exactly these 32 bytes with the one device key, writes the
  64 bytes of the signature to the caller's output vector and succeeds.  No condition is on the caller
  or on the key named: nothing ties the key that signs attestation tokens to the attestation
  service.\<close>

theorem any_client_signs:
  fixes s :: "'d spm_fn"
  assumes "sfn_ok s" "try_get_spm s = Inr ()" "stack_active (sfn_stack s) = Some c"
    and "cn_msg c = msg" "\<not> msg_type msg <s 0"
    and "\<not> invec_mapped c ! 0" "invec_accessed c ! 0 = 0" "\<not> invec_unmapped c ! 0"
    and "\<not> invec_mapped c ! 1" "invec_accessed c ! 1 = 0" "\<not> invec_unmapped c ! 1"
    and "\<not> outvec_mapped c ! 0" "outvec_written c ! 0 = 0" "\<not> outvec_unmapped c ! 0"
    and "hs0 = slice_of (invec_base c ! 0) (in_len_of c 0)" "cast (fst hs0) (slice_bytes (sf_mem s) hs0) = Some iov"
    and "pk_function_id iov = TFM_CRYPTO_ASYMMETRIC_SIGN_HASH_SID"
    and "in_len_of c 1 = 32" "64 \<le> unat (out_len_of c 0)"
    and "rc_key_valid rc key" "rc_sign_prehash rc key (read_bytes (sf_mem s) (invec_base c ! 1) 32) = Some sg" "length sg = 64"
  shows "\<exists>s3. crypto_call (sfn_crypto_env (Rustcrypto rc) key cast) msg s = (s3, Inr ()) \<and>
    read_bytes (sf_mem s3) (outvec_base c ! 0) 64 = sg \<and> sfn_ok s3"
proof -
  let ?buf = "copy_at (read_bytes (sf_mem s) (outvec_base c ! 0) (unat (out_len_of c 0))) 0 sg"
  have "\<exists>s3. crypto_call (sfn_crypto_env (Rustcrypto rc) key cast) msg s = (s3, Inr ()) \<and> sfn_ok s3 \<and>
    sfn_other s3 = sfn_other (s\<lparr>sf_mem := write_bytes (sf_mem s) (outvec_base c ! 0) ?buf\<rparr>)"
    by (rule crypto_call_core[where f = "sign_hash (Rustcrypto rc) key" and n = 64 and cast = cast and ?hs0.0 = hs0 and iov = iov and c = c and s = s, OF assms(1-16)])
      (use assms(17-22) in \<open>simp_all add: sign_hash_def sign_hash_rustcrypto_def SHA256_HASH_SIZE_def
        P256_SIGNATURE_SIZE_def word_le_nat_alt unat_gt_0[symmetric]\<close>)
  then obtain s3 where s3: "crypto_call (sfn_crypto_env (Rustcrypto rc) key cast) msg s = (s3, Inr ())" "sfn_ok s3"
    "sf_mem s3 = write_bytes (sf_mem s) (outvec_base c ! 0) ?buf"
    by (auto simp: sfn_other_def)
  have len: "length ?buf = unat (out_len_of c 0)" using assms(19,22) by (simp add: length_copy_at)
  have "read_bytes (sf_mem s3) (outvec_base c ! 0) 64 = take 64 ?buf"
    using read_write_bytes_part[of 0 64 ?buf "sf_mem s" "outvec_base c ! 0"] len assms(19)
      unat_lt_usize[of "out_len_of c 0"] by (simp add: s3(3))
  also have "\<dots> = sg" using take_copy_at[of 0 "read_bytes (sf_mem s) (outvec_base c ! 0) (unat (out_len_of c 0))" sg] assms(22) by simp
  finally show ?thesis using s3(1,2) by blast
qed

definition sign_connection :: connection where
  "sign_connection = sample_connection\<lparr>cn_msg := (psa_msg_new Crypto 1 NS_UNPRIVILEGED)\<lparr>
      msg_in_size := [mu_some 56, mu_some 32, mu_none, mu_none],
      msg_out_size := [mu_some 64, mu_none, mu_none, mu_none]\<rparr>,
    invec_base := [0x8000, 0x9000, 0, 0], outvec_base := [0xA000, 0, 0, 0]\<rparr>"

definition sign_spm :: "unit spm_fn" where
  "sign_spm = sample_spm\<lparr>sf_connections := mutex_new (fst (ca_add_connection sign_connection ca_new))\<rparr>"

lemma sign_spm_ok: "sfn_ok sign_spm" "stack_active (sfn_stack sign_spm) = Some sign_connection"
  "try_get_spm sign_spm = Inr ()"
proof -
  have "connection_wf sign_connection"
    by (simp add: sign_connection_def sample_connection_def connection_wf_def psa_msg_new_def PSA_MAX_IOVEC_def)
  then obtain a' where "ca_add_connection sign_connection ca_new = (a', Inr ())" "ca_wf a'"
    "ca_stack a' = [Some sign_connection]"
    by (rule ca_add_ok[of ca_new sign_connection, rotated])
      (simp_all add: ca_new_def[THEN arg_cong[where f = top_connection]] max_defs)
  then show "sfn_ok sign_spm" "stack_active (sfn_stack sign_spm) = Some sign_connection" "try_get_spm sign_spm = Inr ()"
    by (simp_all add: sign_spm_def sfn_ok_def sfn_stack_def mutex_new_def sample_spm_def
        try_get_spm_def once_try_get_def stack_active_def)
qed

definition sample_rust_crypto :: rust_crypto where
  "sample_rust_crypto = \<lparr>rc_key_valid = (\<lambda>_. True), rc_sha256 = (\<lambda>_. replicate 32 1),
     rc_sign_prehash = (\<lambda>_ _. Some (replicate 64 7))\<rparr>"

theorem any_client_signs_witness:
  "\<exists>s3. crypto_call (sfn_crypto_env (Rustcrypto sample_rust_crypto) (replicate 32 1)
      (\<lambda>_ _. Some (for_sign_hash 99 0))) (cn_msg sign_connection) sign_spm = (s3, Inr ()) \<and>
    read_bytes (sf_mem s3) 0xA000 64 = replicate 64 7"
proof -
  have lens: "in_len_of sign_connection 1 = 32" "out_len_of sign_connection 0 = 64" "outvec_base sign_connection ! 0 = 0xA000"
    by (simp_all add: sign_connection_def in_len_of_def out_len_of_def mu_unwrap_or_def mu_some_def mu_is_some_def
        list_get_def NONE_SENTINEL_def)
  have flags: "\<not> msg_type (cn_msg sign_connection) <s 0"
    "\<not> invec_mapped sign_connection ! k" "invec_accessed sign_connection ! k = 0" "\<not> invec_unmapped sign_connection ! k"
    "\<not> outvec_mapped sign_connection ! k" "outvec_written sign_connection ! k = 0" "\<not> outvec_unmapped sign_connection ! k"
    if "k < 4" for k
    using that by (simp_all add: sign_connection_def sample_connection_def psa_msg_new_def word_sless_alt)
  have sg: "length (replicate 64 (7 :: u8)) = 64" by simp
  have rc: "rc_key_valid sample_rust_crypto k" "rc_sign_prehash sample_rust_crypto k hh = Some (replicate 64 7)" for k hh
    by (simp_all add: sample_rust_crypto_def)
  have hd: "pk_function_id (for_sign_hash 99 0) = TFM_CRYPTO_ASYMMETRIC_SIGN_HASH_SID" by (simp add: for_sign_hash_def)
  have "\<exists>s3. crypto_call (sfn_crypto_env (Rustcrypto sample_rust_crypto) (replicate 32 1)
      (\<lambda>_ _. Some (for_sign_hash 99 0))) (cn_msg sign_connection) sign_spm = (s3, Inr ()) \<and>
    read_bytes (sf_mem s3) (outvec_base sign_connection ! 0) 64 = replicate 64 7 \<and> sfn_ok s3"
    by (rule any_client_signs[OF sign_spm_ok(1,3,2) refl _ _ _ _ _ _ _ _ _ _ refl refl hd lens(1) _ rc sg])
      (use flags[of 0] flags[of 1] lens in simp_all)
  then show ?thesis unfolding lens by blast
qed

end
