(* ===== verification/PsaToken.thy ===== *)
theory PsaToken
  imports Cose PsaApi
begin

text \<open>
  The token encoder of the attestation service (spe_services/attest/psa_token.rs): claims to
  CBOR, the payload byte string, the COSE_Sign1 message signed by the crypto service, and the
  function that computes the size of the token without making it.  The encoders are generic in
  the writer, as in the source: a cursor over a buffer for the token, a counter for its size.
  The lemmas show what the encoders write, and that the two writers agree.
\<close>

section \<open>Claims\<close>

datatype iat_claim =
    Nonce | InstanceId | ProfileDefinition | BootSeed | ClientId | SecurityLifecycle
  | ImplementationId | CertificationReference | SwComponents | VerificationService

primrec iat_claim_value :: "iat_claim \<Rightarrow> u32" where
  "iat_claim_value Nonce = 10"
| "iat_claim_value InstanceId = 256"
| "iat_claim_value ProfileDefinition = 265"
| "iat_claim_value BootSeed = 268"
| "iat_claim_value ClientId = 2394"
| "iat_claim_value SecurityLifecycle = 2395"
| "iat_claim_value ImplementationId = 2396"
| "iat_claim_value CertificationReference = 2398"
| "iat_claim_value SwComponents = 2399"
| "iat_claim_value VerificationService = 2400"

record sw_component =
  measurement_type :: "u8 list option"
  measurement_value :: "u8 list"
  signer_id :: "u8 list"

datatype attest_claim_value =
    VBytes "u8 list"
  | VText "u8 list"
  | VUnsigned u64
  | VSigned u64
  | VSwComponents "sw_component list"

record attest_claim =
  claim_key :: iat_claim
  claim_value :: attest_claim_value

definition map_cose_error :: "cose_error \<Rightarrow> status_code" where
  "map_cose_error err = (case err of CoseBufferTooSmall \<Rightarrow> BufferTooSmall | _ \<Rightarrow> InvalidArgument)"

section \<open>Encoders\<close>

definition encode_sw_component :: "minicbor \<Rightarrow> 'w writer \<Rightarrow> sw_component \<Rightarrow> 'w encoder" where
  "encode_sw_component mc write component =
    (let item = enc_item mc write in
     enc_all
       ([item (IMap (if measurement_type component \<noteq> None then 3 else 2)),
         item (IU8 5), item (IBytes (signer_id component)),
         item (IU8 2), item (IBytes (measurement_value component))] @
        (case measurement_type component of
           Some mt \<Rightarrow> [item (IU8 1), item (IStr mt)]
         | None \<Rightarrow> [])))"

definition encode_sw_components :: "minicbor \<Rightarrow> 'w writer \<Rightarrow> sw_component list \<Rightarrow> 'w encoder" where
  "encode_sw_components mc write components =
    enc_all (enc_item mc write (IArray (of_nat (length components))) #
      map (encode_sw_component mc write) components)"

definition encode_claim_value :: "minicbor \<Rightarrow> 'w writer \<Rightarrow> attest_claim_value \<Rightarrow> 'w encoder" where
  "encode_claim_value mc write v =
    (case v of
       VBytes b \<Rightarrow> enc_item mc write (IBytes b)
     | VText t \<Rightarrow> enc_item mc write (IStr t)
     | VUnsigned u \<Rightarrow> enc_item mc write (IU64 u)
     | VSigned i \<Rightarrow> enc_item mc write (II64 i)
     | VSwComponents c \<Rightarrow> encode_sw_components mc write c)"

definition encode_payload_to :: "minicbor \<Rightarrow> 'w writer \<Rightarrow> attest_claim list \<Rightarrow> 'w encoder" where
  "encode_payload_to mc write claims =
    enc_all (enc_item mc write (IMap (of_nat (length claims))) #
      concat (map (\<lambda>claim. [enc_item mc write (II32 (iat_claim_value (claim_key claim))),
                            encode_claim_value mc write (claim_value claim)]) claims))"

definition encode_payload :: "minicbor \<Rightarrow> attest_claim list \<Rightarrow> u8 list \<Rightarrow> u8 list \<times> nat res" where
  "encode_payload mc claims out =
    (case encode_payload_to mc (mc_cursor_write mc) claims (out, 0) of
       ((out, position), Inl _) \<Rightarrow> (out, Inl BufferTooSmall)
     | ((out, position), Inr _) \<Rightarrow> (out, Inr position))"

section \<open>The crypto backend: the PSA client\<close>

text \<open>
  The input and the result buffer are locals of the service; they live at in_at and out_at.
\<close>

definition psa_result :: "('s \<Rightarrow> mem) \<Rightarrow> usize \<Rightarrow> nat \<Rightarrow> 's \<times> usize res \<Rightarrow> 's \<times> (cose_error + u8 list)" where
  "psa_result get out_at n r =
    (case r of (s, Inr k) \<Rightarrow>
        (s, if k = of_nat n then Inr (read_bytes (get s) out_at n) else Inl CoseBufferTooSmall)
     | (s, Inl e) \<Rightarrow> (s, Inl (if e = BufferTooSmall then CoseBufferTooSmall else Unknown)))"

definition psa_crypto_backend ::
    "('s \<Rightarrow> mem) \<Rightarrow> ((mem \<Rightarrow> mem) \<Rightarrow> 's \<Rightarrow> 's) \<Rightarrow> 's psa_call_fn \<Rightarrow> usize \<Rightarrow> usize \<Rightarrow> usize \<Rightarrow> u32 \<Rightarrow>
     's cose_crypto" where
  "psa_crypto_backend get upd call iov_at in_at out_at key_id =
    \<lparr>hash_sha256 = (\<lambda>input s.
       let s = upd (\<lambda>m. write_bytes m in_at input) s;
           s = upd (\<lambda>m. write_bytes m out_at (replicate 32 0)) s
       in psa_result get out_at 32
            (psa_hash_compute upd call iov_at PSA_ALG_SHA_256 (in_at, len input) (out_at, 32) s)),
     sign_es256_prehash = (\<lambda>digest s.
       let s = upd (\<lambda>m. write_bytes m in_at digest) s;
           s = upd (\<lambda>m. write_bytes m out_at (replicate 64 0)) s
       in psa_result get out_at 64
            (psa_sign_hash upd call iov_at key_id PSA_ALG_ECDSA_SHA256 (in_at, 32) (out_at, 64) s))\<rparr>"

section \<open>The token and its size\<close>

definition encode_initial_attestation_token ::
    "minicbor \<Rightarrow> (u32 \<Rightarrow> 's cose_crypto) \<Rightarrow> attest_claim list \<Rightarrow> u8 list \<Rightarrow> u32 \<Rightarrow> 's \<Rightarrow>
     's \<times> u8 list \<times> nat res" where
  "encode_initial_attestation_token mc backend claims token key_id s =
    (case encode_payload mc claims (replicate 512 0) of
       (payload_buf, Inl e) \<Rightarrow> (s, token, Inl e)
     | (payload_buf, Inr payload_len) \<Rightarrow>
         (case encode_payload_bstr_in_place (of_nat payload_len) payload_buf of
            (payload_buf, Inl e) \<Rightarrow> (s, token, Inl (map_cose_error e))
          | (payload_buf, Inr payload_bstr_len) \<Rightarrow>
              (let signer = cose_sign1_new (backend key_id) sign1_options_default in
               if length payload_buf < unat payload_bstr_len then (s, token, Inl BufferTooSmall)
               else
                 (case encode_from_payload_bstr mc signer (take (unat payload_bstr_len) payload_buf) token s of
                    (s, token, Inl e) \<Rightarrow> (s, token, Inl (map_cose_error e))
                  | (s, token, Inr encoded) \<Rightarrow> (s, token, Inr (encoded_len encoded))))))"

definition saturating_add :: "usize \<Rightarrow> usize \<Rightarrow> usize" where
  "saturating_add a b = (if unat a + unat b < 4294967296 then a + b else usize_max)"

definition size_counter_write :: "usize writer" where
  "size_counter_write n buf = (saturating_add n (len buf), True)"

definition compute_initial_attestation_token_size :: "minicbor \<Rightarrow> attest_claim list \<Rightarrow> u32 \<Rightarrow> usize res" where
  "compute_initial_attestation_token_size mc claims key_id =
    (case encode_payload_to mc size_counter_write claims 0 of
       (counter, Inl _) \<Rightarrow> Inl BufferTooSmall
     | (counter, Inr _) \<Rightarrow>
         (let payload_len = counter;
              bstr_header_len =
                (if payload_len \<le> 23 then 1
                 else if payload_len \<le> 0xff then 2
                 else if payload_len \<le> 0xffff then 3
                 else 5)
          in ok_or (checked_add payload_len (bstr_header_len + 73)) BufferTooSmall))"

section \<open>What the encoders write\<close>

definition comp_bytes :: "minicbor \<Rightarrow> sw_component \<Rightarrow> u8 list" where
  "comp_bytes mc component = concat (map (item_bytes mc)
    ([IMap (if measurement_type component \<noteq> None then 3 else 2), IU8 5, IBytes (signer_id component),
      IU8 2, IBytes (measurement_value component)] @
     (case measurement_type component of Some mt \<Rightarrow> [IU8 1, IStr mt] | None \<Rightarrow> [])))"

definition value_bytes :: "minicbor \<Rightarrow> attest_claim_value \<Rightarrow> u8 list" where
  "value_bytes mc v =
    (case v of
       VBytes b \<Rightarrow> item_bytes mc (IBytes b)
     | VText t \<Rightarrow> item_bytes mc (IStr t)
     | VUnsigned u \<Rightarrow> item_bytes mc (IU64 u)
     | VSigned i \<Rightarrow> item_bytes mc (II64 i)
     | VSwComponents c \<Rightarrow>
         item_bytes mc (IArray (of_nat (length c))) @ concat (map (comp_bytes mc) c))"

definition claim_bytes :: "minicbor \<Rightarrow> attest_claim \<Rightarrow> u8 list" where
  "claim_bytes mc claim =
    item_bytes mc (II32 (iat_claim_value (claim_key claim))) @ value_bytes mc (claim_value claim)"

definition payload_bytes :: "minicbor \<Rightarrow> attest_claim list \<Rightarrow> u8 list" where
  "payload_bytes mc claims =
    item_bytes mc (IMap (of_nat (length claims))) @ concat (map (claim_bytes mc) claims)"

text \<open>
  The encoders for two kinds of writer at once: a step writes bs when it does for both.  What a
  kind of writer does is a property of steps that concatenation respects.
\<close>

locale writer_kind =
  fixes writes :: "'w encoder \<Rightarrow> u8 list \<Rightarrow> bool" and mc :: minicbor and wr :: "'w writer"
  assumes writes_item: "writes (enc_item mc wr it) (item_bytes mc it)"
    and writes_all: "list_all2 writes es bss \<Longrightarrow> writes (enc_all es) (concat bss)"
begin

lemma writes_items: "writes (enc_all (map (enc_item mc wr) its)) (concat (map (item_bytes mc) its))"
  by (rule writes_all) (simp add: list_all2_conv_all_nth writes_item)

lemma writes_comp: "writes (encode_sw_component mc wr component) (comp_bytes mc component)"
proof -
  let ?its = "[IMap (if measurement_type component \<noteq> None then 3 else 2), IU8 5, IBytes (signer_id component),
      IU8 2, IBytes (measurement_value component)] @
     (case measurement_type component of Some mt \<Rightarrow> [IU8 1, IStr mt] | None \<Rightarrow> [])"
  have "encode_sw_component mc wr component = enc_all (map (enc_item mc wr) ?its)"
    unfolding encode_sw_component_def Let_def by (cases "measurement_type component") simp_all
  then show ?thesis using writes_items[of ?its] by (simp only: comp_bytes_def)
qed

lemma writes_value: "writes (encode_claim_value mc wr v) (value_bytes mc v)"
proof (cases v)
  case (VSwComponents c)
  have "writes (enc_all (enc_item mc wr (IArray (of_nat (length c))) # map (encode_sw_component mc wr) c))
      (concat (item_bytes mc (IArray (of_nat (length c))) # map (comp_bytes mc) c))"
    by (rule writes_all) (simp add: writes_item list_all2_map1 list_all2_map2 list_all2_same writes_comp)
  then show ?thesis
    by (simp add: encode_claim_value_def value_bytes_def VSwComponents encode_sw_components_def)
qed (simp_all add: encode_claim_value_def value_bytes_def writes_item)

theorem writes_payload: "writes (encode_payload_to mc wr claims) (payload_bytes mc claims)"
proof -
  have claims: "list_all2 writes
      (concat (map (\<lambda>c. [enc_item mc wr (II32 (iat_claim_value (claim_key c))),
                         encode_claim_value mc wr (claim_value c)]) claims))
      (concat (map (\<lambda>c. [item_bytes mc (II32 (iat_claim_value (claim_key c))), value_bytes mc (claim_value c)]) claims))"
    by (induction claims) (simp_all add: writes_item writes_value)
  have "concat (concat (map (\<lambda>c. [item_bytes mc (II32 (iat_claim_value (claim_key c))), value_bytes mc (claim_value c)]) claims))
      = concat (map (claim_bytes mc) claims)"
    by (induction claims) (simp_all add: claim_bytes_def)
  then show ?thesis
    using writes_all[of "enc_item mc wr (IMap (of_nat (length claims))) # concat (map (\<lambda>c.
        [enc_item mc wr (II32 (iat_claim_value (claim_key c))), encode_claim_value mc wr (claim_value c)]) claims)"
        "item_bytes mc (IMap (of_nat (length claims))) # concat (map (\<lambda>c.
        [item_bytes mc (II32 (iat_claim_value (claim_key c))), value_bytes mc (claim_value c)]) claims)"]
      claims writes_item
    by (simp add: encode_payload_to_def payload_bytes_def)
qed

end

section \<open>The two writers\<close>

interpretation cursor: writer_kind "\<lambda>e bs. cbor_documented mc \<longrightarrow> cursor_writes e bs" mc "mc_cursor_write mc" for mc
proof unfold_locales
  fix es :: "cursor encoder list" and bss
  assume "list_all2 (\<lambda>e bs. cbor_documented mc \<longrightarrow> cursor_writes e bs) es bss"
  then show "cbor_documented mc \<longrightarrow> cursor_writes (enc_all es) (concat bss)"
    using cursor_writes_all[of es bss] by (auto elim: list_all2_mono)
qed (simp add: cursor_writes_item)

definition counted :: "usize \<Rightarrow> nat \<Rightarrow> usize" where
  "counted n k = (if unat n + k < 4294967296 then n + of_nat k else usize_max)"

definition counter_writes :: "usize encoder \<Rightarrow> u8 list \<Rightarrow> bool" where
  "counter_writes e bs \<longleftrightarrow> (\<forall>n. e n = (counted n (length bs), Inr ()))"

lemma unat_usize_max: "unat usize_max = 4294967295" by simp

lemma counted_counted: "counted (counted n a) b = counted n (a + b)"
proof (cases "unat n + a < 4294967296")
  case True
  then have "unat (n + of_nat a) = unat n + a"
    by (subst unat_add_fits) (auto simp: unsigned_of_nat take_bit_nat_eq_self)
  then show ?thesis using True by (simp add: counted_def add.assoc)
next
  case False
  then have "counted n a = usize_max" "counted n (a + b) = usize_max" by (simp_all only: counted_def) simp_all
  moreover have "counted usize_max b = usize_max"
    by (cases b) (simp_all add: counted_def)
  ultimately show ?thesis by simp
qed

lemma counted_0 [simp]: "counted n 0 = n"
  using unat_lt_usize[of n] by (simp add: counted_def)

lemma counter_writes_raw: "length bs < 4294967296 \<Longrightarrow> counter_writes (enc_raw size_counter_write bs) bs"
  by (simp add: counter_writes_def enc_raw_def size_counter_write_def saturating_add_def counted_def
      unsigned_of_nat take_bit_nat_eq_self)

lemma counter_writes_all:
  assumes "list_all2 counter_writes es bss"
  shows "counter_writes (enc_all es) (concat bss)"
  using assms
proof (induction rule: list_all2_induct)
  case (Cons e es bs bss)
  then show ?case by (simp add: counter_writes_def counted_counted)
qed (simp add: counter_writes_def)

lemma counter_writes_item:
  assumes "cbor_documented mc"
  shows "counter_writes (enc_item mc size_counter_write it) (item_bytes mc it)"
proof -
  obtain chunks where c: "mc_item mc it = Some chunks" using cbor_documentedD(1)[OF assms] by blast
  have "list_all2 counter_writes (map (enc_raw size_counter_write) chunks) chunks"
    using cbor_documentedD(3)[OF assms c] by (simp add: list_all2_map1 list_all2_same counter_writes_raw)
  from counter_writes_all[OF this]
  have "counter_writes (enc_all (map (enc_raw size_counter_write) chunks)) (concat chunks)" .
  moreover have "enc_item mc size_counter_write it = enc_all (map (enc_raw size_counter_write) chunks)"
    by (rule ext) (simp add: enc_item_def c)
  ultimately show ?thesis by (simp add: item_bytes_def c)
qed

interpretation counter: writer_kind "\<lambda>e bs. cbor_documented mc \<longrightarrow> counter_writes e bs" mc size_counter_write for mc
proof unfold_locales
  fix es :: "usize encoder list" and bss
  assume "list_all2 (\<lambda>e bs. cbor_documented mc \<longrightarrow> counter_writes e bs) es bss"
  then show "cbor_documented mc \<longrightarrow> counter_writes (enc_all es) (concat bss)"
    using counter_writes_all[of es bss] by (auto elim: list_all2_mono)
qed (simp add: counter_writes_item)

section \<open>Token and size agree\<close>

lemma compute_size_core:
  assumes "cbor_documented mc" "length (payload_bytes mc claims) < 4294967000"
  shows "compute_initial_attestation_token_size mc claims key_id =
    Inr (of_nat (length (cbor_bstr (payload_bytes mc claims)) + 73))"
proof -
  let ?n = "length (payload_bytes mc claims)" and ?w = "of_nat (length (payload_bytes mc claims)) :: usize"
  have "encode_payload_to mc size_counter_write claims 0 = (?w, Inr ())"
    using counter.writes_payload[of mc claims] assms by (simp add: counter_writes_def counted_def)
  moreover have "unat ?w = ?n" using assms(2) by (simp add: unsigned_of_nat take_bit_nat_eq_self)
  then have hl: "(if ?w \<le> 23 then 1 else if ?w \<le> 0xff then 2 else if ?w \<le> 0xffff then 3 else 5) =
      (of_nat (head_len ?n) :: usize)"
    by (simp add: word_le_nat_alt head_len_def)
  moreover have "checked_add ?w (of_nat (head_len ?n) + 73) = Some (of_nat (?n + (head_len ?n + 73)))"
    using checked_add_of_nat[of ?n "head_len ?n + 73"] assms(2) head_len_bounds(2)[of ?n] by simp
  ultimately show ?thesis
    unfolding compute_initial_attestation_token_size_def
    by (simp only: prod.case sum.case Let_def hl ok_or_simps length_cbor_bstr add_ac)
qed

lemma encode_payload_core:
  assumes "cbor_documented mc"
  shows "\<exists>out'. length out' = length out \<and>
    encode_payload mc claims out = (out', if length (payload_bytes mc claims) \<le> length out
      then Inr (length (payload_bytes mc claims)) else Inl BufferTooSmall) \<and>
    (length (payload_bytes mc claims) \<le> length out \<longrightarrow>
      take (length (payload_bytes mc claims)) out' = payload_bytes mc claims)"
proof -
  let ?P = "payload_bytes mc claims"
  obtain buf' pos' where "length buf' = length out"
    "encode_payload_to mc (mc_cursor_write mc) claims (out, 0) = (if 0 + length ?P \<le> length out
        then ((copy_at out 0 ?P, 0 + length ?P), Inr ()) else ((buf', pos'), Inl Write_Error))"
    using cursor.writes_payload[of mc claims] assms unfolding cursor_writes_def by blast
  then show ?thesis
    by (cases "length ?P \<le> length out")
      (auto simp: encode_payload_def length_copy_at copy_at_def intro!: exI[of _ buf'])
qed

text \<open>The bytes of the token: tag 18, array 4, protected headers, empty map, payload, signature.\<close>

definition token_bytes :: "u8 list \<Rightarrow> u8 list \<Rightarrow> u8 list" where
  "token_bytes payload sg = [0xd2, 0x84] @ cbor_bstr [0xa1, 0x01, 0x26] @ [0xa0] @ cbor_bstr payload @ cbor_bstr sg"

lemma length_token_bytes:
  "length sg = 64 \<Longrightarrow> length (token_bytes payload sg) = length (cbor_bstr payload) + 73"
  by (simp add: token_bytes_def length_cbor_bstr head_len_def)

lemma token_sign1_bytes:
  "sign1_bytes mc (cose_sign1_new c sign1_options_default) (cbor_bstr payload) sg = token_bytes payload sg"
  by (simp add: sign1_bytes_def cose_sign1_new_def sign1_options_default_def token_bytes_def PROTECTED_HEADERS_ES256_def)

definition to_be_signed :: "u8 list \<Rightarrow> u8 list" where
  "to_be_signed payload = sig_bytes PROTECTED_HEADERS_ES256 [] (cbor_bstr payload)"

lemma encode_from_payload_error:
  assumes mc: "cbor_documented mc" and p: "length (cbor_bstr p) \<le> 512" and c: "c = cose_sign1_new cr opts"
  shows "hash_sha256 cr (to_be_signed p) s = (s1, Inl e) \<Longrightarrow>
      encode_from_payload_bstr mc c (cbor_bstr p) out s = (s1, out, Inl e)"
    "hash_sha256 cr (to_be_signed p) s = (s1, Inr d) \<Longrightarrow> sign_es256_prehash cr d s1 = (s2, Inl e) \<Longrightarrow>
      encode_from_payload_bstr mc c (cbor_bstr p) out s = (s2, out, Inl e)"
proof -
  have v: "validate_payload_bstr mc (cbor_bstr p) = Inr ()"
    using cbor_documentedD(9)[OF mc, of p] p by (simp add: validate_payload_bstr_def length_cbor_bstr)
  have "length (sig_bytes PROTECTED_HEADERS_ES256 [] (cbor_bstr p)) \<le> 700"
    using p by (simp add: length_sig_bytes PROTECTED_HEADERS_ES256_def head_len_def)
  then have hs: "hash_sig_structure cr PROTECTED_HEADERS_ES256 [] (cbor_bstr p) s = hash_sha256 cr (to_be_signed p) s"
    using hash_sig_structure_core[of PROTECTED_HEADERS_ES256 "[]" "cbor_bstr p" cr s] p
    by (simp add: PROTECTED_HEADERS_ES256_def to_be_signed_def)
  have cc: "cs_crypto c = cr" "cs_external_aad c = []" by (simp_all add: c cose_sign1_new_def)
  show "hash_sha256 cr (to_be_signed p) s = (s1, Inl e) \<Longrightarrow>
      encode_from_payload_bstr mc c (cbor_bstr p) out s = (s1, out, Inl e)"
    by (simp add: encode_from_payload_bstr_def v hs cc)
  show "hash_sha256 cr (to_be_signed p) s = (s1, Inr d) \<Longrightarrow> sign_es256_prehash cr d s1 = (s2, Inl e) \<Longrightarrow>
      encode_from_payload_bstr mc c (cbor_bstr p) out s = (s2, out, Inl e)"
    by (simp add: encode_from_payload_bstr_def v hs cc)
qed

lemma token_too_long:
  assumes "cbor_documented mc" "512 < length (cbor_bstr (payload_bytes mc claims))"
  shows "encode_initial_attestation_token mc backend claims token key_id s = (s, token, Inl BufferTooSmall)"
proof -
  let ?P = "payload_bytes mc claims"
  obtain buf where buf: "length buf = 512"
    "encode_payload mc claims (replicate 512 0) = (buf, if length ?P \<le> 512 then Inr (length ?P) else Inl BufferTooSmall)"
    "length ?P \<le> 512 \<longrightarrow> take (length ?P) buf = ?P"
    using encode_payload_core[OF assms(1), of "replicate 512 0" claims] by auto
  show ?thesis
  proof (cases "length ?P \<le> 512")
    case True
    then have "encode_payload_bstr_in_place (of_nat (length ?P)) buf = (buf, Inl CoseBufferTooSmall)"
      using encode_in_place_core[of "of_nat (length ?P)" buf] buf assms(2)
      by (simp add: unsigned_of_nat take_bit_nat_eq_self)
    then show ?thesis
      using buf True by (simp add: encode_initial_attestation_token_def map_cose_error_def)
  qed (simp add: encode_initial_attestation_token_def buf)
qed

lemma token_from_payload:
  assumes "cbor_documented mc" "length (cbor_bstr (payload_bytes mc claims)) \<le> 512"
  shows "encode_initial_attestation_token mc backend claims token key_id s =
    (case encode_from_payload_bstr mc (cose_sign1_new (backend key_id) sign1_options_default)
            (cbor_bstr (payload_bytes mc claims)) token s of
       (s, token, Inl e) \<Rightarrow> (s, token, Inl (map_cose_error e))
     | (s, token, Inr encoded) \<Rightarrow> (s, token, Inr (encoded_len encoded)))"
proof -
  let ?P = "payload_bytes mc claims"
  have small: "length ?P \<le> 512" using assms(2) by (simp add: length_cbor_bstr)
  then obtain buf where buf: "length buf = 512"
    "encode_payload mc claims (replicate 512 0) = (buf, Inr (length ?P))" "take (length ?P) buf = ?P"
    using encode_payload_core[OF assms(1), of "replicate 512 0" claims] by auto
  have "encode_payload_bstr_in_place (of_nat (length ?P)) buf =
      (cbor_bstr ?P @ drop (length (cbor_bstr ?P)) buf, Inr (of_nat (length (cbor_bstr ?P))))"
    using encode_in_place_core[of "of_nat (length ?P)" buf] buf small assms(2)
    by (simp add: unsigned_of_nat take_bit_nat_eq_self)
  moreover have "unat (of_nat (length (cbor_bstr ?P)) :: usize) = length (cbor_bstr ?P)"
    using assms(2) by (simp add: unsigned_of_nat take_bit_nat_eq_self)
  ultimately show ?thesis
    using assms(2) buf by (simp add: encode_initial_attestation_token_def Let_def)
qed

lemma token_made:
  assumes mc: "cbor_documented mc" and small: "length (cbor_bstr (payload_bytes mc claims)) \<le> 512"
    and h: "hash_sha256 (backend key_id) (to_be_signed (payload_bytes mc claims)) s = (s1, Inr d)"
    and sg: "sign_es256_prehash (backend key_id) d s1 = (s2, Inr sg)" "length sg = 64"
  defines "B \<equiv> token_bytes (payload_bytes mc claims) sg"
  shows "\<exists>token'. length token' = length token \<and> (length B \<le> length token \<longrightarrow> token' = B @ drop (length B) token) \<and>
    encode_initial_attestation_token mc backend claims token key_id s =
      (s2, token', if length B \<le> length token then Inr (length B) else Inl BufferTooSmall)"
proof -
  let ?P = "payload_bytes mc claims" and ?c = "cose_sign1_new (backend key_id) sign1_options_default"
  have "length (sig_bytes PROTECTED_HEADERS_ES256 [] (cbor_bstr ?P)) \<le> 700"
    using small by (simp add: length_sig_bytes PROTECTED_HEADERS_ES256_def head_len_def)
  moreover have "length ?P < 4294967296" using small by (simp add: length_cbor_bstr)
  ultimately obtain token' where "length token' = length token"
    "length B \<le> length token \<longrightarrow> token' = B @ drop (length B) token"
    "encode_from_payload_bstr mc ?c (cbor_bstr ?P) token s = (s2, token',
      if length B \<le> length token
      then Inr \<lparr>encoded_len = length B, payload_is_detached = detached_payload (cs_option_flags ?c)\<rparr>
      else Inl CoseBufferTooSmall)"
    using encode_from_payload_core[OF mc _ refl, of ?P ?c s s1 d s2 sg token] small h sg
    by (auto simp: cose_sign1_new_def to_be_signed_def B_def token_sign1_bytes[unfolded cose_sign1_new_def])
  then show ?thesis
    by (intro exI[of _ token']) (simp add: token_from_payload[OF mc small] map_cose_error_def)
qed

text \<open>C18. The size function and the encoder agree, though they share only the claim encoder and the
  size function adds 73 for all the rest.  When hashing and signing succeed (64 bytes) and the payload fits
  the 512-byte buffer, the size computed is the length of the token; a token buffer of at
  least that size receives the COSE_Sign1 message: tag 18, an array of four, the ES256 header, an empty map,
  the payload and the signature of the Sig_structure's digest, in this order, and the rest of the buffer is
  untouched; any smaller buffer is refused.\<close>

theorem token_size_exact:
  assumes "cbor_documented mc" "length (cbor_bstr (payload_bytes mc claims)) \<le> 512"
    and "hash_sha256 (backend key_id) (to_be_signed (payload_bytes mc claims)) s = (s1, Inr d)"
    and "sign_es256_prehash (backend key_id) d s1 = (s2, Inr sg)" "length sg = 64"
    and "n = length (token_bytes (payload_bytes mc claims) sg)"
  shows "compute_initial_attestation_token_size mc claims key_id = Inr (of_nat n) \<and>
    (\<exists>token'. encode_initial_attestation_token mc backend claims token key_id s =
       (s2, token', if n \<le> length token then Inr n else Inl BufferTooSmall) \<and>
     (n \<le> length token \<longrightarrow> token' = token_bytes (payload_bytes mc claims) sg @ drop n token))"
proof -
  have "length (payload_bytes mc claims) < 4294967000" using assms(2) by (simp add: length_cbor_bstr)
  from compute_size_core[OF assms(1) this, of key_id]
  have "compute_initial_attestation_token_size mc claims key_id = Inr (of_nat n)"
    using assms(6) length_token_bytes[OF assms(5)] by simp
  moreover obtain token' where t: "n \<le> length token \<longrightarrow> token' = token_bytes (payload_bytes mc claims) sg @ drop n token"
    "encode_initial_attestation_token mc backend claims token key_id s =
      (s2, token', if n \<le> length token then Inr n else Inl BufferTooSmall)"
    using token_made[where backend = backend and key_id = key_id and token = token, OF assms(1-5)]
    unfolding assms(6) by blast
  ultimately show ?thesis by blast
qed

definition sample_backend :: "u32 \<Rightarrow> unit cose_crypto" where
  "sample_backend key_id = rust_crypto_backend
    \<lparr>rc_key_valid = (\<lambda>_. True), rc_sha256 = (\<lambda>_. replicate 32 1),
     rc_sign_prehash = (\<lambda>_ _. Some (replicate 64 7))\<rparr> [1]"

definition nonce_claim :: attest_claim where
  "nonce_claim = \<lparr>claim_key = Nonce, claim_value = VBytes (replicate 32 9)\<rparr>"

lemma nonce_payload: "length (payload_bytes rfc_cbor [nonce_claim]) = 36"
  by (simp add: payload_bytes_def claim_bytes_def value_bytes_def nonce_claim_def item_bytes_def
      rfc_cbor_def rfc_item_def rfc_head_def word_sless_alt)

theorem token_size_exact_witness:
  "compute_initial_attestation_token_size rfc_cbor [nonce_claim] 0 = Inr 111 \<and>
    (\<exists>token'. encode_initial_attestation_token rfc_cbor sample_backend [nonce_claim] (replicate 592 0) 0 () =
      ((), token', Inr 111))"
proof -
  have b: "length (cbor_bstr (payload_bytes rfc_cbor [nonce_claim])) = 38"
    by (simp add: length_cbor_bstr nonce_payload head_len_def)
  have sg: "length (replicate 64 (7 :: u8)) = 64" by simp
  have "hash_sha256 (sample_backend 0) (to_be_signed (payload_bytes rfc_cbor [nonce_claim])) () = ((), Inr (replicate 32 1))"
    "sign_es256_prehash (sample_backend 0) (replicate 32 1) () = ((), Inr (replicate 64 7))"
    by (simp_all add: sample_backend_def rust_crypto_backend_def)
  from token_size_exact[where backend = sample_backend and key_id = 0 and token = "replicate 592 0", OF rfc_cbor_documented _ this sg refl] show ?thesis
    using b by (simp add: length_token_bytes[OF sg])
qed

end
