(* ===== verification/Attest.thy ===== *)
theory Attest
  imports PsaToken
begin

text \<open>
  The initial attestation service (spe_services/attest/attest_service.rs): the boot record
  parser, the collection of claims from the platform, the two requests of the service and their
  dispatch.  The platform and the SPM API are records of functions over the state, as they are
  type parameters of the source; vectors are address and length, their bytes are in the memory
  of the state.  Offsets into a slice are naturals: they are bounded by a 16-bit length.
\<close>

section \<open>Constants\<close>

definition CERTIFICATION_REF_MAX_SIZE :: nat where "CERTIFICATION_REF_MAX_SIZE = 19"
definition MAX_TOTAL_CLAIMS :: nat where "MAX_TOTAL_CLAIMS = 16"
definition TEMP_KEY_ID :: u32 where "TEMP_KEY_ID = 0x12345678"
definition SHARED_DATA_TLV_INFO_MAGIC :: u16 where "SHARED_DATA_TLV_INFO_MAGIC = 0x2016"
definition IAS_MEASURE_VALUE_TYPE :: u16 where "IAS_MEASURE_VALUE_TYPE = push_bit 12 0x1 OR 0x08"
definition IAS_SIGNER_ID_TYPE :: u16 where "IAS_SIGNER_ID_TYPE = push_bit 12 0x1 OR 0x01"

definition claim :: "iat_claim \<Rightarrow> attest_claim_value \<Rightarrow> attest_claim" where
  "claim key v = \<lparr>claim_key = key, claim_value = v\<rparr>"

definition EMPTY_CLAIM :: attest_claim where "EMPTY_CLAIM = claim Nonce (VBytes [])"

section \<open>Parsing\<close>

definition get_u16_le :: "u8 list \<Rightarrow> u16 option" where
  "get_u16_le data = (if 2 \<le> length data then Some (from_le_bytes (take 2 data)) else None)"

text \<open>data.get(i..) and data.get(i..j)\<close>

definition get_from :: "'a list \<Rightarrow> nat \<Rightarrow> 'a list option" where
  "get_from xs i = (if i \<le> length xs then Some (drop i xs) else None)"

definition get_range :: "'a list \<Rightarrow> nat \<Rightarrow> nat \<Rightarrow> 'a list option" where
  "get_range xs i j = (if i \<le> j \<and> j \<le> length xs then Some (take (j - i) (drop i xs)) else None)"

text \<open>core::str::from_utf8: well-formed UTF-8 (surrogates and overlong forms excluded).\<close>

definition tail_byte :: "u8 \<Rightarrow> bool" where "tail_byte b \<longleftrightarrow> 0x80 \<le> b \<and> b \<le> 0xBF"

fun utf8_valid :: "u8 list \<Rightarrow> bool" where
  "utf8_valid [] = True"
| "utf8_valid (a # bs) =
    (if a < 0x80 then utf8_valid bs
     else case bs of
       [] \<Rightarrow> False
     | b # cs \<Rightarrow>
       if 0xC2 \<le> a \<and> a \<le> 0xDF then tail_byte b \<and> utf8_valid cs
       else case cs of
         [] \<Rightarrow> False
       | c # ds \<Rightarrow>
         if 0xE0 \<le> a \<and> a \<le> 0xEF
         then tail_byte b \<and> tail_byte c \<and> (a = 0xE0 \<longrightarrow> 0xA0 \<le> b) \<and> (a = 0xED \<longrightarrow> b \<le> 0x9F) \<and> utf8_valid ds
         else case ds of
           [] \<Rightarrow> False
         | d # es \<Rightarrow>
           0xF0 \<le> a \<and> a \<le> 0xF4 \<and> tail_byte b \<and> tail_byte c \<and> tail_byte d \<and>
           (a = 0xF0 \<longrightarrow> 0x90 \<le> b) \<and> (a = 0xF4 \<longrightarrow> b \<le> 0x8F) \<and> utf8_valid es)"

definition parse_utf8_claim :: "u8 list \<Rightarrow> usize \<Rightarrow> u8 list res" where
  "parse_utf8_claim buf n =
    (if unat n \<le> length buf
     then (if utf8_valid (take (unat n) buf) then Inr (take (unat n) buf) else Inl InvalidArgument)
     else Inl InvalidArgument)"

text \<open>The loop over the TLV entries: None when a slice of the source is out of range.\<close>

function parse_tlvs ::
    "u8 list \<Rightarrow> nat \<Rightarrow> nat \<Rightarrow> u8 list option \<Rightarrow> u8 list option \<Rightarrow> (u8 list option \<times> u8 list option) option" where
  "parse_tlvs data tot_len offset measure_val signer =
    (if offset + 4 \<le> tot_len then
       Option.bind (Option.bind (get_from data offset) get_u16_le) (\<lambda>tlv_type.
       Option.bind (Option.bind (get_from data (offset + 2)) get_u16_le) (\<lambda>tlv_len.
       Option.bind (get_range data (offset + 4) (offset + 4 + unat tlv_len)) (\<lambda>payload.
         parse_tlvs data tot_len (offset + 4 + unat tlv_len)
           (if tlv_type = IAS_MEASURE_VALUE_TYPE then Some payload else measure_val)
           (if tlv_type = IAS_MEASURE_VALUE_TYPE then signer
            else if tlv_type = IAS_SIGNER_ID_TYPE then Some payload else signer))))
     else Some (measure_val, signer))"
  by pat_completeness auto
termination by (relation "measure (\<lambda>(data, tot_len, offset, _). tot_len - offset)") auto

declare parse_tlvs.simps [simp del]

definition parse_boot_data :: "u8 list \<Rightarrow> sw_component option" where
  "parse_boot_data data =
    Option.bind (get_u16_le data) (\<lambda>magic.
    Option.bind (Option.bind (get_from data 2) get_u16_le) (\<lambda>tot_len.
      if magic \<noteq> SHARED_DATA_TLV_INFO_MAGIC \<or> unat tot_len > length data \<or> unat tot_len < 4 then None
      else Option.bind (parse_tlvs data (unat tot_len) 4 None None) (\<lambda>(measure_val, signer).
        Option.bind measure_val (\<lambda>mv. Option.bind signer (\<lambda>sid.
          Some \<lparr>measurement_type = None, measurement_value = mv, signer_id = sid\<rparr>)))))"

section \<open>The platform\<close>

text \<open>A method that fills a buffer takes the buffer and returns it.\<close>

record 's attest_platform =
  ap_security_lifecycle :: "'s \<Rightarrow> 's \<times> u32 res"
  ap_verification_service :: "u8 list \<Rightarrow> 's \<Rightarrow> 's \<times> u8 list \<times> usize res"
  ap_profile_definition :: "u8 list \<Rightarrow> 's \<Rightarrow> 's \<times> u8 list \<times> usize res"
  ap_boot_seed :: "u8 list \<Rightarrow> 's \<Rightarrow> 's \<times> u8 list \<times> unit res"
  ap_implementation_id :: "u8 list \<Rightarrow> 's \<Rightarrow> 's \<times> u8 list \<times> unit res"
  ap_instance_id :: "u8 list \<Rightarrow> 's \<Rightarrow> 's \<times> u8 list \<times> unit res"
  ap_cert_ref :: "u8 list \<Rightarrow> 's \<Rightarrow> 's \<times> u8 list \<times> usize res"
  ap_boot_record :: "'s \<Rightarrow> 's \<times> u8 list option"

record platform_buffers =
  pb_boot_seed :: "u8 list"
  pb_profile :: "u8 list"
  pb_verification :: "u8 list"
  pb_cert_ref :: "u8 list"
  pb_impl_id :: "u8 list"
  pb_instance_id :: "u8 list"
  pb_sw_component :: "sw_component option"

definition platform_buffers_new :: platform_buffers where
  "platform_buffers_new =
    \<lparr>pb_boot_seed = replicate 32 0, pb_profile = replicate 64 0, pb_verification = replicate 64 0,
     pb_cert_ref = replicate CERTIFICATION_REF_MAX_SIZE 0, pb_impl_id = replicate 32 0,
     pb_instance_id = replicate 33 0, pb_sw_component = None\<rparr>"

text \<open>Option::as_slice\<close>

definition as_slice :: "'a option \<Rightarrow> 'a list" where
  "as_slice o' = (case o' of None \<Rightarrow> [] | Some x \<Rightarrow> [x])"

definition collected_claims :: "platform_buffers \<Rightarrow> u8 list \<Rightarrow> u8 list \<Rightarrow> u8 list \<Rightarrow> u32 \<Rightarrow> attest_claim list" where
  "collected_claims b prof_str verif_str cert_str sec_lc =
    [claim InstanceId (VBytes (pb_instance_id b)),
     claim ProfileDefinition (VText prof_str),
     claim ClientId (VSigned 1),
     claim SecurityLifecycle (VUnsigned (ucast sec_lc)),
     claim BootSeed (VBytes (pb_boot_seed b)),
     claim SwComponents (VSwComponents (as_slice (pb_sw_component b))),
     claim CertificationReference (VText cert_str),
     claim ImplementationId (VBytes (pb_impl_id b)),
     claim VerificationService (VText verif_str)]"

definition collect_claims :: "'s attest_platform \<Rightarrow> platform_buffers \<Rightarrow> 's \<Rightarrow> 's \<times> attest_claim list res" where
  "collect_claims plat b s =
    (case ap_boot_seed plat (pb_boot_seed b) s of
       (s, seed, Inl e) \<Rightarrow> (s, Inl e) | (s, seed, Inr _) \<Rightarrow>
     (case ap_implementation_id plat (pb_impl_id b) s of
       (s, impl, Inl e) \<Rightarrow> (s, Inl e) | (s, impl, Inr _) \<Rightarrow>
     (case ap_instance_id plat (pb_instance_id b) s of
       (s, inst, Inl e) \<Rightarrow> (s, Inl e) | (s, inst, Inr _) \<Rightarrow>
     (case ap_security_lifecycle plat s of
       (s, Inl e) \<Rightarrow> (s, Inl e) | (s, Inr sec_lc) \<Rightarrow>
     (case ap_profile_definition plat (pb_profile b) s of
       (s, profile, Inl e) \<Rightarrow> (s, Inl e) | (s, profile, Inr prof_len) \<Rightarrow>
     (case parse_utf8_claim profile prof_len of
       Inl e \<Rightarrow> (s, Inl e) | Inr prof_str \<Rightarrow>
     (case ap_verification_service plat (pb_verification b) s of
       (s, verification, Inl e) \<Rightarrow> (s, Inl e) | (s, verification, Inr verif_len) \<Rightarrow>
     (case parse_utf8_claim verification verif_len of
       Inl e \<Rightarrow> (s, Inl e) | Inr verif_str \<Rightarrow>
     (case ap_cert_ref plat (pb_cert_ref b) s of
       (s, cert, Inl e) \<Rightarrow> (s, Inl e) | (s, cert, Inr cert_len) \<Rightarrow>
     (case parse_utf8_claim cert cert_len of
       Inl e \<Rightarrow> (s, Inl e) | Inr cert_str \<Rightarrow>
     (case ap_boot_record plat s of (s, record) \<Rightarrow>
       let b = b\<lparr>pb_boot_seed := seed, pb_profile := profile, pb_verification := verification,
                 pb_cert_ref := cert, pb_impl_id := impl, pb_instance_id := inst,
                 pb_sw_component := Option.bind record parse_boot_data\<rparr>
       in (s, Inr (collected_claims b prof_str verif_str cert_str sec_lc)))))))))))))"

section \<open>Requests\<close>

definition challenge_size_is_supported :: "usize \<Rightarrow> bool" where
  "challenge_size_is_supported n \<longleftrightarrow> n = 32 \<or> n = 48 \<or> n = 64"

definition build_claims :: "u8 list \<Rightarrow> attest_claim list \<Rightarrow> attest_claim list \<Rightarrow> attest_claim list res" where
  "build_claims challenge additional_claims buf =
    and_then (ok_or (checked_add (len additional_claims) 1) InvalidArgument) (\<lambda>tot.
      if tot > of_nat MAX_TOTAL_CLAIMS then Inl InvalidArgument
      else if unat tot \<le> length buf \<and> 0 < tot
      then Inr (take (unat tot)
             (copy_at (buf[0 := claim Nonce (VBytes challenge)]) 1 additional_claims))
      else Inl InvalidArgument)"

definition initial_attest_get_token ::
    "minicbor \<Rightarrow> (u32 \<Rightarrow> 's cose_crypto) \<Rightarrow> u8 list \<Rightarrow> attest_claim list \<Rightarrow> u8 list \<Rightarrow> 's \<Rightarrow>
     's \<times> u8 list \<times> nat res" where
  "initial_attest_get_token mc backend challenge additional_claims token s =
    (if \<not> challenge_size_is_supported (len challenge) then (s, token, Inl InvalidArgument)
     else
       (case build_claims challenge additional_claims (replicate MAX_TOTAL_CLAIMS EMPTY_CLAIM) of
          Inl e \<Rightarrow> (s, token, Inl e)
        | Inr claims \<Rightarrow>
            (case encode_initial_attestation_token mc backend claims token TEMP_KEY_ID s of
               (s, token, Inl e) \<Rightarrow> (s, token, Inl e)
             | (s, token, Inr n) \<Rightarrow>
                 (s, if n \<le> length token then take n token @ replicate (length token - n) 0 else token,
                  Inr n))))"

definition initial_attest_get_token_size :: "minicbor \<Rightarrow> usize \<Rightarrow> attest_claim list \<Rightarrow> usize res" where
  "initial_attest_get_token_size mc challenge_size additional_claims =
    (if \<not> challenge_size_is_supported challenge_size then Inl InvalidArgument
     else if unat challenge_size \<le> 64
     then and_then (build_claims (take (unat challenge_size) (replicate 64 0)) additional_claims
            (replicate MAX_TOTAL_CLAIMS EMPTY_CLAIM)) (\<lambda>claims.
          compute_initial_attestation_token_size mc claims TEMP_KEY_ID)
     else Inl InvalidArgument)"

text \<open>The SPM API at the closure types the service uses.\<close>

record 's attest_api =
  at_access_invec :: "service_handle \<Rightarrow> u32 \<Rightarrow> (slice \<Rightarrow> 's \<Rightarrow> 's \<times> usize res) \<Rightarrow> 's \<Rightarrow> 's \<times> usize res res"
  at_access_outvec ::
    "service_handle \<Rightarrow> u32 \<Rightarrow> (slice \<Rightarrow> 's \<Rightarrow> 's \<times> unit res \<times> usize) \<Rightarrow> 's \<Rightarrow> 's \<times> unit res res"
  at_access_invec_outvec ::
    "service_handle \<Rightarrow> u32 \<Rightarrow> u32 \<Rightarrow> (slice \<Rightarrow> slice \<Rightarrow> 's \<Rightarrow> 's \<times> unit res \<times> usize) \<Rightarrow> 's \<Rightarrow> 's \<times> unit res res"

record 's attest_env =
  ae_mem :: "'s \<Rightarrow> mem"
  ae_upd :: "(mem \<Rightarrow> mem) \<Rightarrow> 's \<Rightarrow> 's"
  ae_cbor :: minicbor
  ae_backend :: "u32 \<Rightarrow> 's cose_crypto"
  ae_platform :: "'s attest_platform"
  ae_api :: "'s attest_api"

definition token_closure ::
    "'s attest_env \<Rightarrow> attest_claim list \<Rightarrow> slice \<Rightarrow> slice \<Rightarrow> 's \<Rightarrow> 's \<times> unit res \<times> usize" where
  "token_closure env claims challenge outvec s =
    (case initial_attest_get_token (ae_cbor env) (ae_backend env)
            (slice_bytes (ae_mem env s) challenge) claims (slice_bytes (ae_mem env s) outvec) s of
       (s, token, Inr written_len) \<Rightarrow>
         (ae_upd env (\<lambda>m. write_bytes m (fst outvec) token) s, Inr (), of_nat written_len)
     | (s, token, Inl e) \<Rightarrow> (ae_upd env (zero_slice outvec) s, Inl e, 0))"

definition handle_get_token :: "'s attest_env \<Rightarrow> psa_msg \<Rightarrow> 's \<Rightarrow> 's \<times> unit res" where
  "handle_get_token env msg s =
    (case collect_claims (ae_platform env) platform_buffers_new s of
       (s, Inl e) \<Rightarrow> (s, Inl e)
     | (s, Inr claims) \<Rightarrow>
         (case at_access_invec_outvec (ae_api env) (msg_handle msg) 0 0 (token_closure env claims) s of
            (s, r) \<Rightarrow> (s, flatten r)))"

definition size_challenge :: "'s attest_env \<Rightarrow> slice \<Rightarrow> 's \<Rightarrow> 's \<times> usize res" where
  "size_challenge env buf s =
    (s, let bytes = slice_bytes (ae_mem env s) buf in
        if 4 \<le> length bytes then Inr (from_le_bytes (take 4 bytes)) else Inl InvalidArgument)"

definition size_closure :: "'s attest_env \<Rightarrow> usize \<Rightarrow> slice \<Rightarrow> 's \<Rightarrow> 's \<times> unit res \<times> usize" where
  "size_closure env token_size outvec s =
    (if snd outvec < 4 then (ae_upd env (zero_slice outvec) s, Inl BufferTooSmall, 0)
     else (ae_upd env (\<lambda>m. write_u32 m (fst outvec) token_size) s, Inr (), 4))"

text \<open>The claims the size request counts.\<close>

definition size_claims :: "u8 list \<Rightarrow> sw_component option \<Rightarrow> attest_claim list" where
  "size_claims boot_seed parsed_comp =
    [claim BootSeed (VBytes boot_seed), claim SwComponents (VSwComponents (as_slice parsed_comp))]"

definition handle_get_token_size :: "'s attest_env \<Rightarrow> psa_msg \<Rightarrow> 's \<Rightarrow> 's \<times> unit res" where
  "handle_get_token_size env msg s =
    (case at_access_invec (ae_api env) (msg_handle msg) 0 (size_challenge env) s of
       (s, r) \<Rightarrow>
     (case flatten r of
       Inl e \<Rightarrow> (s, Inl e)
     | Inr challenge_size \<Rightarrow>
     (case ap_boot_seed (ae_platform env) (replicate 32 0) s of
       (s, boot_seed, Inl e) \<Rightarrow> (s, Inl e)
     | (s, boot_seed, Inr _) \<Rightarrow>
     (case ap_boot_record (ae_platform env) s of
       (s, record) \<Rightarrow>
     (case initial_attest_get_token_size (ae_cbor env) challenge_size
             (size_claims boot_seed (Option.bind record parse_boot_data)) of
       Inl e \<Rightarrow> (s, Inl e)
     | Inr token_size \<Rightarrow>
     (case at_access_outvec (ae_api env) (msg_handle msg) 0 (size_closure env token_size) s of
       (s, r) \<Rightarrow> (s, flatten r)))))))"

definition has_exactly_one_iovec :: "psa_msg \<Rightarrow> bool" where
  "has_exactly_one_iovec msg \<longleftrightarrow>
    (case msg_in_size msg of [] \<Rightarrow> False | x # _ \<Rightarrow> mu_as_option x \<noteq> None) \<and>
    (case msg_out_size msg of [] \<Rightarrow> False | x # _ \<Rightarrow> mu_as_option x \<noteq> None) \<and>
    (case get_from (msg_in_size msg) 1 of None \<Rightarrow> False | Some xs \<Rightarrow> list_all mu_is_none xs) \<and>
    (case get_from (msg_out_size msg) 1 of None \<Rightarrow> False | Some xs \<Rightarrow> list_all mu_is_none xs)"

definition attest_call :: "'s attest_env \<Rightarrow> psa_msg \<Rightarrow> 's \<Rightarrow> 's \<times> unit res" where
  "attest_call env msg s =
    (if \<not> has_exactly_one_iovec msg then (s, Inl InvalidArgument)
     else if msg_type msg = ucast (attestation_service_value GetToken) then handle_get_token env msg s
     else if msg_type msg = ucast (attestation_service_value GetTokenSize) then handle_get_token_size env msg s
     else (s, Inl NotSupported))"

section \<open>The boot record\<close>

definition tlv_bytes :: "u16 \<times> u8 list \<Rightarrow> u8 list" where
  "tlv_bytes tlv = le_bytes16 (fst tlv) @ le_bytes16 (of_nat (length (snd tlv))) @ snd tlv"

definition tlv_body :: "(u16 \<times> u8 list) list \<Rightarrow> u8 list" where
  "tlv_body tlvs = concat (map tlv_bytes tlvs)"

definition boot_record_bytes :: "(u16 \<times> u8 list) list \<Rightarrow> u8 list" where
  "boot_record_bytes tlvs =
    le_bytes16 SHARED_DATA_TLV_INFO_MAGIC @ le_bytes16 (of_nat (4 + length (tlv_body tlvs))) @ tlv_body tlvs"

text \<open>The last entry of a type.\<close>

definition last_tlv :: "u16 \<Rightarrow> (u16 \<times> u8 list) list \<Rightarrow> u8 list option \<Rightarrow> u8 list option" where
  "last_tlv t tlvs v = fold (\<lambda>tlv v. if fst tlv = t then Some (snd tlv) else v) tlvs v"

lemma get_u16_le_append [simp]: "get_u16_le (le_bytes16 w @ rest) = Some w"
  by (simp add: get_u16_le_def)

lemma get_from_append [simp]: "get_from (pre @ rest) (length pre) = Some rest"
  by (simp add: get_from_def)

lemma length_tlv_bytes: "length (tlv_bytes tlv) = 4 + length (snd tlv)"
  by (simp add: tlv_bytes_def)

lemma tlv_type_distinct: "IAS_SIGNER_ID_TYPE \<noteq> IAS_MEASURE_VALUE_TYPE"
  by (simp add: IAS_SIGNER_ID_TYPE_def IAS_MEASURE_VALUE_TYPE_def)

lemma parse_tlvs_body:
  assumes "\<forall>tlv\<in>set tlvs. length (snd tlv) < 65536"
  shows "parse_tlvs (pre @ tlv_body tlvs @ extra) (length pre + length (tlv_body tlvs)) (length pre) mv sid =
    Some (last_tlv IAS_MEASURE_VALUE_TYPE tlvs mv, last_tlv IAS_SIGNER_ID_TYPE tlvs sid)"
  using assms
proof (induction tlvs arbitrary: pre mv sid)
  case Nil
  then show ?case by (simp add: parse_tlvs.simps tlv_body_def last_tlv_def)
next
  case (Cons tlv tlvs)
  obtain t v where tlv: "tlv = (t, v)" by (cases tlv)
  let ?data = "pre @ tlv_body (tlv # tlvs) @ extra" and ?rest = "v @ tlv_body tlvs @ extra"
  have l: "length v < 65536" using Cons.prems by (simp add: tlv)
  have data: "?data = pre @ le_bytes16 t @ le_bytes16 (of_nat (length v)) @ ?rest"
    by (simp add: tlv_body_def tlv_bytes_def tlv)
  have u: "unat (of_nat (length v) :: u16) = length v"
    using l by (simp add: unsigned_of_nat take_bit_nat_eq_self)
  have g1: "get_from ?data (length pre) = Some (le_bytes16 t @ le_bytes16 (of_nat (length v)) @ ?rest)"
    unfolding data by simp
  have g2: "get_from ?data (length pre + 2) = Some (le_bytes16 (of_nat (length v)) @ ?rest)"
    unfolding data using get_from_append[of "pre @ le_bytes16 t"] by simp
  have g3: "get_range ?data (length pre + 4) (length pre + 4 + length v) = Some v"
    unfolding data get_range_def by simp
  define pre' where "pre' = pre @ tlv_bytes tlv"
  have pre': "length pre' = length pre + 4 + length v" "?data = pre' @ tlv_body tlvs @ extra"
    "length pre + length (tlv_body (tlv # tlvs)) = length pre' + length (tlv_body tlvs)"
    by (simp_all add: pre'_def length_tlv_bytes tlv tlv_body_def)
  have "parse_tlvs ?data (length pre + length (tlv_body (tlv # tlvs))) (length pre) mv sid =
      parse_tlvs ?data (length pre + length (tlv_body (tlv # tlvs))) (length pre + 4 + length v)
        (if t = IAS_MEASURE_VALUE_TYPE then Some v else mv)
        (if t = IAS_MEASURE_VALUE_TYPE then sid else if t = IAS_SIGNER_ID_TYPE then Some v else sid)"
    using g1 g2 g3 pre'(1,3) by (subst parse_tlvs.simps) (simp add: u)
  also have "\<dots> = Some (last_tlv IAS_MEASURE_VALUE_TYPE tlvs (if t = IAS_MEASURE_VALUE_TYPE then Some v else mv),
      last_tlv IAS_SIGNER_ID_TYPE tlvs
        (if t = IAS_MEASURE_VALUE_TYPE then sid else if t = IAS_SIGNER_ID_TYPE then Some v else sid))"
    unfolding pre'(2,3) pre'(1)[symmetric] using Cons by (intro Cons.IH) simp
  also have "\<dots> = Some (last_tlv IAS_MEASURE_VALUE_TYPE (tlv # tlvs) mv, last_tlv IAS_SIGNER_ID_TYPE (tlv # tlvs) sid)"
    using tlv_type_distinct by (simp add: last_tlv_def tlv)
  finally show ?case .
qed

text \<open>C19. The parser reads back any boot record: the entries of whatever types, in any order, with
  anything after the record, give the last measurement and the last signer id, and no component when
  one of the two is missing.  (The parser is total: its offset grows in every turn.)\<close>

theorem boot_record_roundtrip:
  assumes "4 + length (tlv_body tlvs) < 65536"
  shows "parse_boot_data (boot_record_bytes tlvs @ extra) =
    (case (last_tlv IAS_MEASURE_VALUE_TYPE tlvs None, last_tlv IAS_SIGNER_ID_TYPE tlvs None) of
       (Some mv, Some sid) \<Rightarrow> Some \<lparr>measurement_type = None, measurement_value = mv, signer_id = sid\<rparr>
     | _ \<Rightarrow> None)"
proof -
  let ?n = "4 + length (tlv_body tlvs)" and ?pre = "le_bytes16 SHARED_DATA_TLV_INFO_MAGIC @ le_bytes16 (of_nat (4 + length (tlv_body tlvs)))"
  have small: "\<forall>tlv\<in>set tlvs. length (snd tlv) < 65536"
  proof
    fix tlv assume "tlv \<in> set tlvs"
    then have "length (tlv_bytes tlv) \<le> length (tlv_body tlvs)"
      by (induction tlvs) (auto simp: tlv_body_def)
    then show "length (snd tlv) < 65536" using assms by (simp add: length_tlv_bytes)
  qed
  have u: "unat (of_nat ?n :: u16) = ?n" using assms by (simp add: unsigned_of_nat take_bit_nat_eq_self del: of_nat_add)
  have g: "get_from (boot_record_bytes tlvs @ extra) 2 = Some (le_bytes16 (of_nat ?n) @ tlv_body tlvs @ extra)"
    using get_from_append[of "le_bytes16 SHARED_DATA_TLV_INFO_MAGIC"] by (simp add: boot_record_bytes_def)
  have p: "parse_tlvs (boot_record_bytes tlvs @ extra) ?n 4 None None =
      Some (last_tlv IAS_MEASURE_VALUE_TYPE tlvs None, last_tlv IAS_SIGNER_ID_TYPE tlvs None)"
    using parse_tlvs_body[OF small, of ?pre extra None None] by (simp add: boot_record_bytes_def)
  have m: "get_u16_le (boot_record_bytes tlvs @ extra) = Some SHARED_DATA_TLV_INFO_MAGIC"
    by (simp add: boot_record_bytes_def)
  have l: "?n \<le> length (boot_record_bytes tlvs @ extra)" by (simp add: boot_record_bytes_def)
  show ?thesis
    unfolding parse_boot_data_def m g bind.bind_lunit get_u16_le_append u p
    using l by (simp split: option.splits)
qed

theorem boot_record_roundtrip_witness:
  "parse_boot_data (boot_record_bytes [(0x1001, [1]), (7, []), (0x1008, [2, 3]), (0x1001, [4])] @ [9]) =
    Some \<lparr>measurement_type = None, measurement_value = [2, 3], signer_id = [4]\<rparr>"
  using boot_record_roundtrip[of "[(0x1001, [1]), (7, []), (0x1008, [2, 3]), (0x1001, [4])]" "[9]"]
  by (simp add: last_tlv_def IAS_MEASURE_VALUE_TYPE_def IAS_SIGNER_ID_TYPE_def tlv_body_def tlv_bytes_def)

section \<open>The size request and the token request\<close>

lemma build_claims_value:
  assumes "length add \<le> 15"
  shows "build_claims ch add (replicate MAX_TOTAL_CLAIMS EMPTY_CLAIM) = Inr (claim Nonce (VBytes ch) # add)"
proof -
  have c: "checked_add (len add) 1 = Some (of_nat (length add + 1))"
    using checked_add_of_nat[of "length add" 1] assms by simp
  have u: "unat (of_nat (length add + 1) :: usize) = length add + 1"
    by (rule unat_of_nat_small) (use assms in simp)
  have le: "\<not> of_nat (length add + 1) > (of_nat MAX_TOTAL_CLAIMS :: usize)" "0 < (of_nat (length add + 1) :: usize)"
    using assms u by (simp_all add: word_less_nat_alt MAX_TOTAL_CLAIMS_def del: of_nat_add)
  have "take (length add + 1) (copy_at ((replicate 16 EMPTY_CLAIM)[0 := x]) 1 add) = x # add" for x
  proof -
    have "take (1 + length add) (copy_at ((replicate 16 EMPTY_CLAIM)[0 := x]) 1 add) =
        take 1 ((replicate 16 EMPTY_CLAIM)[0 := x]) @ add" by (rule take_copy_at) simp
    then show ?thesis by (simp add: numeral_eq_Suc)
  qed
  then show ?thesis
    using assms le unfolding build_claims_def c ok_or_simps and_then_simps u by (simp add: MAX_TOTAL_CLAIMS_def)
qed

lemma length_payload_bytes:
  assumes "cbor_documented mc" "length claims < 24"
  shows "length (payload_bytes mc claims) = 1 + sum_list (map (\<lambda>c. length (claim_bytes mc c)) claims)"
proof -
  have "unat (of_nat (length claims) :: u64) = length claims"
    using assms(2) by (simp add: unsigned_of_nat take_bit_nat_eq_self)
  then have "item_bytes mc (IMap (of_nat (length claims))) = rfc_head 5 (length claims)"
    using cbor_documentedD(6)[OF assms(1), of "of_nat (length claims)"] assms(2) by simp
  then show ?thesis using assms(2)
    by (simp add: payload_bytes_def length_concat comp_def head_len_def)
qed

lemma length_claim_bytes:
  assumes "cbor_documented mc"
  shows "2 \<le> length (claim_bytes mc (claim k v))"
    "length bs < 4294967296 \<Longrightarrow> 1 + length (cbor_bstr bs) \<le> length (claim_bytes mc (claim k (VBytes bs)))"
    "length bs = length bs' \<Longrightarrow> length bs < 4294967296 \<Longrightarrow>
      length (claim_bytes mc (claim k (VBytes bs))) = length (claim_bytes mc (claim k (VBytes bs')))"
proof -
  have ne: "0 < length (item_bytes mc it)" for it using cbor_documentedD(2)[OF assms, of it] by simp
  have "0 < length (value_bytes mc v)"
    using ne by (cases v) (auto simp: value_bytes_def simp del: length_greater_0_conv)
  then show "2 \<le> length (claim_bytes mc (claim k v))"
    using ne[of "II32 (iat_claim_value k)"] by (simp add: claim_bytes_def claim_def del: length_greater_0_conv)
  show "length bs < 4294967296 \<Longrightarrow> 1 + length (cbor_bstr bs) \<le> length (claim_bytes mc (claim k (VBytes bs)))"
    using ne[of "II32 (iat_claim_value k)"] cbor_documentedD(7)[OF assms, of bs]
    by (simp add: claim_bytes_def claim_def value_bytes_def Suc_le_eq)
  show "length bs = length bs' \<Longrightarrow> length bs < 4294967296 \<Longrightarrow>
      length (claim_bytes mc (claim k (VBytes bs))) = length (claim_bytes mc (claim k (VBytes bs')))"
    using cbor_documentedD(7)[OF assms, of bs] cbor_documentedD(7)[OF assms, of bs']
    by (simp add: claim_bytes_def claim_def value_bytes_def length_cbor_bstr)
qed

text \<open>The claims of a token take at least 81 bytes more than the claims the size request counts.\<close>

lemma size_claims_shorter:
  assumes mc: "cbor_documented mc" and ch: "length ch = length ch'" "length ch < 4294967296"
    and b: "length (pb_instance_id b) = 33" "length (pb_impl_id b) = 32" "length seed = 32" "length (pb_boot_seed b) = 32"
  shows "length (payload_bytes mc (claim Nonce (VBytes ch) # size_claims seed (pb_sw_component b))) + 81 \<le>
    length (payload_bytes mc (claim Nonce (VBytes ch') # collected_claims b prof verif cert lc))"
proof -
  let ?l = "\<lambda>c. length (claim_bytes mc c)"
  have "36 \<le> ?l (claim InstanceId (VBytes (pb_instance_id b)))"
    "35 \<le> ?l (claim ImplementationId (VBytes (pb_impl_id b)))"
    using length_claim_bytes(2)[OF mc, of "pb_instance_id b" InstanceId]
      length_claim_bytes(2)[OF mc, of "pb_impl_id b" ImplementationId] b
    by (simp_all add: length_cbor_bstr head_len_def)
  moreover have "2 \<le> ?l (claim ProfileDefinition (VText prof))" "2 \<le> ?l (claim ClientId (VSigned 1))"
    "2 \<le> ?l (claim SecurityLifecycle (VUnsigned (ucast lc)))"
    "2 \<le> ?l (claim CertificationReference (VText cert))" "2 \<le> ?l (claim VerificationService (VText verif))"
    by (rule length_claim_bytes(1)[OF mc])+
  moreover have "?l (claim Nonce (VBytes ch)) = ?l (claim Nonce (VBytes ch'))"
    "?l (claim BootSeed (VBytes seed)) = ?l (claim BootSeed (VBytes (pb_boot_seed b)))"
    using ch b by (auto intro!: length_claim_bytes(3)[OF mc])
  ultimately show ?thesis
    by (simp add: length_payload_bytes[OF mc] size_claims_def collected_claims_def)
qed

text \<open>C37. A client that asks for the size and then for a token in a buffer of that size never gets one.
  The size request counts the nonce, the boot seed and the software components, the token holds
  seven more claims, so the size reported falls short of the token's length by at least 81 bytes and
  the token request answers BufferTooSmall (hashing and signing succeeding).\<close>

theorem reported_size_too_small:
  assumes "cbor_documented mc" "challenge_size_is_supported (len ch)" "length ch \<le> 64"
    and "length (pb_instance_id b) = 33" "length (pb_impl_id b) = 32" "length seed = 32" "length (pb_boot_seed b) = 32"
    and "\<forall>x s. \<exists>s' d. hash_sha256 (backend TEMP_KEY_ID) x s = (s', Inr d)"
    and "\<forall>x s. \<exists>s' sg. sign_es256_prehash (backend TEMP_KEY_ID) x s = (s', Inr sg) \<and> length sg = 64"
    and "length (payload_bytes mc (claim Nonce (VBytes ch) # size_claims seed (pb_sw_component b))) < 4294967000"
    and "initial_attest_get_token_size mc (len ch) (size_claims seed (pb_sw_component b)) = Inr m"
    and "length token = unat m"
  shows "(\<exists>s' token'. initial_attest_get_token mc backend ch (collected_claims b prof verif cert lc) token s =
      (s', token', Inl BufferTooSmall)) \<and>
    (\<forall>sg. length sg = 64 \<longrightarrow> unat m + 81 \<le>
      length (token_bytes (payload_bytes mc (claim Nonce (VBytes ch) # collected_claims b prof verif cert lc)) sg))"
proof -
  let ?dummy = "take (length ch) (replicate 64 (0 :: u8))"
  let ?P2 = "payload_bytes mc (claim Nonce (VBytes ?dummy) # size_claims seed (pb_sw_component b))"
  let ?cl = "claim Nonce (VBytes ch) # collected_claims b prof verif cert lc"
  let ?P1 = "payload_bytes mc ?cl"
  have uch: "unat (len ch) = length ch" using assms(3) by (simp add: unsigned_of_nat take_bit_nat_eq_self)
  have dl: "length ?dummy = length ch" using assms(3) by simp
  have sl: "length (size_claims seed (pb_sw_component b)) \<le> 15" "length (collected_claims b prof verif cert lc) \<le> 15"
    by (simp_all add: size_claims_def collected_claims_def)
  have gap: "length ?P2 + 81 \<le> length ?P1"
    using size_claims_shorter[OF assms(1) dl _ assms(4-7)] assms(3) by simp
  have "length ?P2 = length (payload_bytes mc (claim Nonce (VBytes ch) # size_claims seed (pb_sw_component b)))"
    using length_claim_bytes(3)[OF assms(1) dl, of Nonce] assms(3)
    by (simp add: length_payload_bytes[OF assms(1)] size_claims_def)
  then have small: "length ?P2 < 4294967000" using assms(10) by simp
  then have "m = of_nat (length (cbor_bstr ?P2) + 73)"
    using assms(2,3,11) compute_size_core[OF assms(1) small, of TEMP_KEY_ID]
    by (simp add: initial_attest_get_token_size_def uch build_claims_value[OF sl(1)])
  moreover have "head_len (length ?P2) \<le> head_len (length ?P1)" using gap by (simp add: head_len_def)
  ultimately have room: "unat m + 81 \<le> length (cbor_bstr ?P1) + 73"
    using gap small head_len_bounds(2)[of "length ?P2"]
    by (simp add: length_cbor_bstr unsigned_of_nat take_bit_nat_eq_self del: of_nat_add)
  then have short: "length token < length (cbor_bstr ?P1) + 73" using assms(12) by simp
  have "\<exists>s' token'. encode_initial_attestation_token mc backend ?cl token TEMP_KEY_ID s = (s', token', Inl BufferTooSmall)"
  proof (cases "length (cbor_bstr ?P1) \<le> 512")
    case False
    then show ?thesis using token_too_long[OF assms(1), of ?cl backend token TEMP_KEY_ID s] by simp
  next
    case True
    obtain s1 d where h: "hash_sha256 (backend TEMP_KEY_ID) (to_be_signed ?P1) s = (s1, Inr d)" using assms(8) by blast
    obtain s2 sg where g: "sign_es256_prehash (backend TEMP_KEY_ID) d s1 = (s2, Inr sg)" "length sg = 64"
      using assms(9) by blast
    show ?thesis
      using token_made[where backend = backend and key_id = TEMP_KEY_ID and token = token, OF assms(1) True h g]
        short by (auto simp: length_token_bytes[OF g(2)])
  qed
  then obtain s' token' where
    "encode_initial_attestation_token mc backend ?cl token TEMP_KEY_ID s = (s', token', Inl BufferTooSmall)" by blast
  then have "initial_attest_get_token mc backend ch (collected_claims b prof verif cert lc) token s =
      (s', token', Inl BufferTooSmall)"
    using assms(2) by (simp add: initial_attest_get_token_def build_claims_value[OF sl(2)])
  then show ?thesis using room by (auto simp: length_token_bytes)
qed

definition sample_buffers :: platform_buffers where
  "sample_buffers = platform_buffers_new"

theorem reported_size_too_small_witness:
  "\<exists>m s' token'. initial_attest_get_token_size rfc_cbor 32 (size_claims (replicate 32 0) None) = Inr m \<and>
    initial_attest_get_token rfc_cbor sample_backend (replicate 32 1)
      (collected_claims sample_buffers [] [] [] 0) (replicate (unat m) 0) () = (s', token', Inl BufferTooSmall) \<and>
    unat m + 81 \<le> length (token_bytes (payload_bytes rfc_cbor
      (claim Nonce (VBytes (replicate 32 1)) # collected_claims sample_buffers [] [] [] 0)) (replicate 64 7))"
proof -
  have l: "length (payload_bytes rfc_cbor (claim Nonce (VBytes ch) # size_claims (replicate 32 0) None)) < 4294967000"
    if "length ch = 32" for ch
    using that by (simp add: payload_bytes_def claim_bytes_def value_bytes_def size_claims_def claim_def as_slice_def
        item_bytes_def rfc_cbor_def rfc_item_def rfc_head_def word_sless_alt)
  have cs: "challenge_size_is_supported 32" by (simp add: challenge_size_is_supported_def)
  have "length (size_claims (replicate 32 0) None) \<le> 15" by (simp add: size_claims_def)
  then obtain m where m: "initial_attest_get_token_size rfc_cbor 32 (size_claims (replicate 32 0) None) = Inr m"
    using compute_size_core[OF rfc_cbor_documented l, of "replicate 32 0" TEMP_KEY_ID] cs
    by (simp add: initial_attest_get_token_size_def build_claims_value take_replicate)
  have b: "pb_sw_component sample_buffers = None" "length (pb_instance_id sample_buffers) = 33"
    "length (pb_impl_id sample_buffers) = 32" "length (pb_boot_seed sample_buffers) = 32"
    by (simp_all add: sample_buffers_def platform_buffers_new_def)
  have cr: "\<forall>x s. \<exists>s' d. hash_sha256 (sample_backend TEMP_KEY_ID) x s = (s', Inr d)"
    "\<forall>x s. \<exists>s' sg. sign_es256_prehash (sample_backend TEMP_KEY_ID) x s = (s', Inr sg) \<and> length sg = 64"
    by (simp_all add: sample_backend_def rust_crypto_backend_def)
  have "(\<exists>s' token'. initial_attest_get_token rfc_cbor sample_backend (replicate 32 1)
      (collected_claims sample_buffers [] [] [] 0) (replicate (unat m) 0) () = (s', token', Inl BufferTooSmall)) \<and>
    (\<forall>sg. length sg = 64 \<longrightarrow> unat m + 81 \<le> length (token_bytes (payload_bytes rfc_cbor
      (claim Nonce (VBytes (replicate 32 1)) # collected_claims sample_buffers [] [] [] 0)) sg))"
    by (rule reported_size_too_small[where backend = sample_backend and seed = "replicate 32 0" and m = m,
          OF rfc_cbor_documented _ _ b(2,3) _ b(4) cr])
      (use cs m l in \<open>simp_all add: b(1)\<close>)
  moreover have "length (replicate 64 (7 :: u8)) = 64" by simp
  ultimately show ?thesis using m by blast
qed

end
