(* ===== verification/Cmse.thy ===== *)
theory Cmse
  imports Prelude
begin

text \<open>
  Memory-attribute tests (libraries/cortex_m/src/cmse.rs).  The TT family of instructions is
  hardware: the word it returns for an address and an access type is the parameter tt of the
  definitions.  check_range tests both ends of a range, or only its start when the range lies
  in one 32-byte granule.
\<close>

datatype access_type = Current | Unprivileged | NonSecureAccess | NonSecureUnprivileged

record test_target =
  tt_bits :: u32
  tt_access :: access_type

type_synonym tt_instr = "u32 \<Rightarrow> access_type \<Rightarrow> u32"

definition tt_check :: "tt_instr \<Rightarrow> u32 \<Rightarrow> access_type \<Rightarrow> test_target" where
  "tt_check tt addr access = \<lparr>tt_bits = tt addr access, tt_access = access\<rparr>"

definition check_range :: "tt_instr \<Rightarrow> u32 \<Rightarrow> usize \<Rightarrow> access_type \<Rightarrow> test_target option" where
  "check_range tt addr sz access =
    (if sz = 0 then None
     else case checked_add addr (sz - 1) of
       None \<Rightarrow> None
     | Some last_addr \<Rightarrow>
         let test_start = tt_check tt addr access;
             single_check = (addr mod 32 + sz \<le> 32)
         in if single_check then Some test_start
            else let test_end = tt_check tt last_addr access in
              if tt_bits test_start = tt_bits test_end then Some test_start else None)"

definition tt_readable :: "test_target \<Rightarrow> bool" where
  "tt_readable t \<longleftrightarrow> drop_bit 18 (tt_bits t) AND 1 \<noteq> 0"

definition tt_read_and_writable :: "test_target \<Rightarrow> bool" where
  "tt_read_and_writable t \<longleftrightarrow> drop_bit 19 (tt_bits t) AND 1 \<noteq> 0"

definition tt_secure :: "test_target \<Rightarrow> bool" where
  "tt_secure t \<longleftrightarrow> drop_bit 22 (tt_bits t) AND 1 \<noteq> 0"

definition tt_ns_readable :: "test_target \<Rightarrow> bool" where
  "tt_ns_readable t \<longleftrightarrow> drop_bit 20 (tt_bits t) AND 1 \<noteq> 0"

definition tt_ns_read_and_writable :: "test_target \<Rightarrow> bool" where
  "tt_ns_read_and_writable t \<longleftrightarrow> drop_bit 21 (tt_bits t) AND 1 \<noteq> 0"

definition tt_mpu_region :: "test_target \<Rightarrow> u8 option" where
  "tt_mpu_region t =
    (if drop_bit 17 (tt_bits t) AND 1 \<noteq> 0 then Some (ucast (drop_bit 8 (tt_bits t) AND 0xFF))
     else None)"

definition tt_sau_region :: "test_target \<Rightarrow> u8 option" where
  "tt_sau_region t = tt_mpu_region t"

definition tt_idau_region :: "test_target \<Rightarrow> u8 option" where
  "tt_idau_region t =
    (if drop_bit 23 (tt_bits t) AND 1 \<noteq> 0 then Some (ucast (drop_bit 24 (tt_bits t) AND 0xFF))
     else None)"

lemma tt_bit_iff: "drop_bit n (w::u32) AND 1 \<noteq> 0 \<longleftrightarrow> bit w n"
  by (simp add: and_one_eq bit_iff_odd_drop_bit mod_2_eq_odd)

lemmas tt_defs = tt_readable_def tt_read_and_writable_def tt_secure_def tt_ns_readable_def
  tt_ns_read_and_writable_def

lemma check_range_Some:
  assumes "check_range tt addr sz access = Some t"
  shows "sz \<noteq> 0" "unat addr + unat (sz - 1) < 4294967296"
    "t = tt_check tt addr access"
  using assms by (auto simp: check_range_def checked_add_def Let_def split: if_splits)

text \<open>
  Attributes that do not change inside a 32-byte granule, as those of the memory protection and
  security attribution units do not: the granule of the last byte then answers for the end.
\<close>

definition granular :: "tt_instr \<Rightarrow> bool" where
  "granular tt \<longleftrightarrow> (\<forall>a b access. unat a div 32 = unat b div 32 \<longrightarrow> tt a access = tt b access)"

lemma unat_mod_32: "unat ((w::u32) mod 32) = unat w mod 32"
  by (simp add: unat_mod)

lemma check_range_ends:
  assumes g: "granular tt" and r: "check_range tt addr sz access = Some t"
    and fit: "unat addr + unat sz < 4294967296 \<or> 32 \<le> unat addr"
  shows "tt (addr + (sz - 1)) access = tt addr access"
proof -
  note some = check_range_Some[OF r]
  have last: "unat (addr + (sz - 1)) = unat addr + unat (sz - 1)"
    using some(2) by (simp add: unat_word_ariths)
  have sz: "unat (sz - 1) = unat sz - 1" "0 < unat sz"
    using unat_minus_1_eq[OF some(1)] some(1) by (auto simp: unat_gt_0)
  show ?thesis
  proof (cases "addr mod 32 + sz \<le> 32")
    case True
    have "unat addr mod 32 + unat sz < 4294967296"
    proof (cases "unat addr + unat sz < 4294967296")
      case True
      then show ?thesis by (meson add_mono_thms_linordered_semiring(3) le_less_trans mod_less_eq_dividend)
    next
      case False
      then have "32 \<le> unat addr" using fit by simp
      then show ?thesis using some(2) sz mod_less_divisor[of 32 "unat addr"] by linarith
    qed
    then have "unat addr mod 32 + unat sz \<le> 32"
      using True by (simp add: word_le_nat_alt unat_word_ariths unat_mod_32)
    then have "unat addr mod 32 + (unat sz - 1) < 32" using sz(2) by linarith
    moreover have "unat addr + (unat sz - 1) =
        32 * (unat addr div 32) + (unat addr mod 32 + (unat sz - 1))"
      by (simp add: mult_div_mod_eq flip: add.assoc)
    ultimately have "(unat addr + (unat sz - 1)) div 32 = unat addr div 32"
      by (metis add.commute div_less div_mult_self4 add_0 zero_neq_numeral)
    then show ?thesis using g unfolding granular_def by (metis last sz(1))
  next
    case False
    then show ?thesis
      using r some(2) by (auto simp: check_range_def checked_add_def Let_def tt_check_def
          split: if_splits)
  qed
qed

section \<open>Properties\<close>

text \<open>Checking a range checks both of its ends: with attributes that are constant on 32-byte granules,
  a range check_range accepts is not empty, does not wrap, and its first and last byte have the
  attributes reported (a range that starts in the first granule must not reach the end of the
  address space for this).\<close>

theorem check_range_both_ends:
  assumes "granular tt" "check_range tt addr sz access = Some t"
    and "unat addr + unat sz < 4294967296 \<or> 32 \<le> unat addr"
  shows "sz \<noteq> 0 \<and> unat addr + unat (sz - 1) < 4294967296 \<and> tt_bits t = tt addr access \<and>
    tt (addr + (sz - 1)) access = tt_bits t"
  using check_range_ends[OF assms] check_range_Some[OF assms(2)] by (simp add: tt_check_def)

theorem check_range_both_ends_witness:
  "\<exists>t. check_range (\<lambda>a _. if a < 0x100 then 0x40000 else 0) 0x10 0x40 Unprivileged = Some t \<and>
    (if (0x10 + (0x40 - 1) :: u32) < 0x100 then 0x40000 else 0) = tt_bits t"
proof -
  let ?tt = "\<lambda>(a::u32) (_::access_type). if a < 0x100 then 0x40000 else (0::u32)"
  have "x < 256 \<longleftrightarrow> x div 32 < 8" for x :: nat by (simp add: div_less_iff_less_mult)
  then have "granular ?tt" by (simp add: granular_def word_less_nat_alt)
  moreover have r: "check_range ?tt 0x10 0x40 Unprivileged = Some (tt_check ?tt 0x10 Unprivileged)"
    by (simp add: check_range_def checked_add_def tt_check_def)
  ultimately show ?thesis using check_range_both_ends[OF _ r] by auto
qed

text \<open>The one-granule shortcut of check_range adds before it compares, and the sum wraps: a range of
  almost the whole address space is taken for one granule, and its far end is never looked at.\<close>

theorem check_range_shortcut_wraps:
  "check_range tt 1 0xFFFFFFFF access = Some (tt_check tt 1 access)"
  by (simp add: check_range_def checked_add_def)

end
