(* ===== verification/Regs.thy ===== *)
theory Regs
  imports Prelude
begin

text \<open>
  Register fields, as the register_bitfields blocks of the drivers declare them: an offset and
  a number of bits.  A field value is the value masked to the field and shifted to the offset
  (with the mask of the bits it determines); field values are combined by union, written whole
  (write), or over the bits they determine (modify).  This is the documented behaviour of the
  tock-registers crate, on which the drivers rely; the layouts themselves come from the sources.
\<close>

type_synonym field = "nat \<times> nat"

record field_value =
  fv_mask :: u32
  fv_value :: u32

definition field_mask :: "field \<Rightarrow> u32" where
  "field_mask f = push_bit (fst f) (mask (snd f))"

definition field_val :: "field \<Rightarrow> u32 \<Rightarrow> field_value" where
  "field_val f v =
    \<lparr>fv_mask = field_mask f, fv_value = push_bit (fst f) (v AND mask (snd f))\<rparr>"

definition field_set :: "field \<Rightarrow> field_value" where
  "field_set f = field_val f (mask (snd f))"

definition field_clear :: "field \<Rightarrow> field_value" where
  "field_clear f = field_val f 0"

definition fv_plus :: "field_value \<Rightarrow> field_value \<Rightarrow> field_value" where
  "fv_plus a b = \<lparr>fv_mask = fv_mask a OR fv_mask b, fv_value = fv_value a OR fv_value b\<rparr>"

definition field_read :: "field \<Rightarrow> u32 \<Rightarrow> u32" where
  "field_read f w = drop_bit (fst f) w AND mask (snd f)"

definition field_is_set :: "field \<Rightarrow> u32 \<Rightarrow> bool" where
  "field_is_set f w \<longleftrightarrow> w AND field_mask f \<noteq> 0"

definition reg_modify :: "field_value \<Rightarrow> u32 \<Rightarrow> u32" where
  "reg_modify v w = (w AND NOT (fv_mask v)) OR fv_value v"

named_theorems field_bits \<open>bits of field values\<close>

lemma bit_field_val [field_bits]:
  "bit (fv_value (field_val f v)) n \<longleftrightarrow>
    fst f \<le> n \<and> n < 32 \<and> n - fst f < snd f \<and> bit v (n - fst f)"
  by (auto simp: field_val_def bit_simps)

lemma bit_fv_plus [field_bits]:
  "bit (fv_value (fv_plus a b)) n \<longleftrightarrow> bit (fv_value a) n \<or> bit (fv_value b) n"
  by (simp add: fv_plus_def bit_simps)

lemma bit_fv_mask [field_bits]:
  "bit (fv_mask (field_val f v)) n \<longleftrightarrow> fst f \<le> n \<and> n < 32 \<and> n - fst f < snd f"
  by (auto simp: field_val_def field_mask_def bit_simps)

lemma bit_fv_mask_plus [field_bits]:
  "bit (fv_mask (fv_plus a b)) n \<longleftrightarrow> bit (fv_mask a) n \<or> bit (fv_mask b) n"
  by (simp add: fv_plus_def bit_simps)

lemma bit_field_set [field_bits]:
  "bit (fv_value (field_set f)) n \<longleftrightarrow> fst f \<le> n \<and> n < 32 \<and> n - fst f < snd f"
  by (auto simp: field_set_def field_bits bit_mask_iff)

lemma bit_field_clear [field_bits]: "\<not> bit (fv_value (field_clear f)) n"
  by (simp add: field_clear_def field_bits)

lemma bit_field_read [field_bits]:
  "bit (field_read f w) n \<longleftrightarrow> n < 32 \<and> n < snd f \<and> bit w (fst f + n)"
  by (auto simp: field_read_def bit_simps)

lemma bit_field_mask [field_bits]:
  "bit (field_mask f) n \<longleftrightarrow> fst f \<le> n \<and> n < 32 \<and> n - fst f < snd f"
  by (auto simp: field_mask_def bit_simps)

lemma bit_reg_modify [field_bits]:
  "bit (reg_modify v w) n \<longleftrightarrow> bit w n \<and> \<not> bit (fv_mask v) n \<or> bit (fv_value v) n"
  by (auto simp: reg_modify_def bit_simps dest: bit_imp_le_length)

lemma field_is_set_one: "n < 32 \<Longrightarrow> field_is_set (n, 1) w \<longleftrightarrow> bit w n"
  using and_exp_eq_0_iff_not_bit[of w n]
  by (simp add: field_is_set_def field_mask_def mask_eq_exp_minus_1 push_bit_eq_mult)

section \<open>Addresses aligned to 32 bytes\<close>

lemma low5_mod: "unat ((w::u32) AND 0x1F) = unat w mod 32"
proof -
  have "w AND 0x1F = take_bit 5 w" by (simp add: take_bit_eq_mask mask_eq_exp_minus_1)
  moreover have "unat (take_bit 5 w) = take_bit 5 (unat w)" by (rule unsigned_take_bit_eq)
  ultimately show ?thesis by (simp add: take_bit_eq_mod)
qed

lemma low5_zero_iff: "(w::u32) AND 0x1F = 0 \<longleftrightarrow> unat w mod 32 = 0"
  using low5_mod[of w] by (metis unat_0 unat_eq_zero)

lemma unat_and_not_1F: "unat ((w::u32) AND NOT 0x1F) = 32 * (unat w div 32)"
  using unat_and_not_mask[of w 5] by (simp add: mask_eq_exp_minus_1)

end
