(* ===== verification/Mpu.thy ===== *)
theory Mpu
  imports Regs
begin

text \<open>
  The Armv8-M memory protection unit driver (libraries/cortex_m/src/mpu.rs): encoding of a
  region into the RBAR/RLAR pair, the overlap check and first-free-slot allocation in a region
  configuration, and the write-out of a configuration to the banked registers.  Arithmetic on
  addresses wraps, as in the release build.
\<close>

datatype permissions =
    ReadWriteExecute | ReadWriteXN | ReadXN | ReadExecute | ReadPrivXN | ReadPrivExecute

datatype mpu_error = AddressNotAligned | SizeTooSmall | NoRegionsAvailable | RegionOverlap

section \<open>Register layout\<close>

definition CTRL_PRIVDEFENA :: field where "CTRL_PRIVDEFENA = (2, 1)"
definition CTRL_HFNMIENA :: field where "CTRL_HFNMIENA = (1, 1)"
definition CTRL_ENABLE :: field where "CTRL_ENABLE = (0, 1)"
definition RNR_REGION :: field where "RNR_REGION = (0, 8)"
definition RBAR_BASE :: field where "RBAR_BASE = (5, 27)"
definition RBAR_SH :: field where "RBAR_SH = (3, 2)"
definition RBAR_AP :: field where "RBAR_AP = (1, 2)"
definition RBAR_XN :: field where "RBAR_XN = (0, 1)"
definition RLAR_LIMIT :: field where "RLAR_LIMIT = (5, 27)"
definition RLAR_PXN :: field where "RLAR_PXN = (4, 1)"
definition RLAR_ATTRINDX :: field where "RLAR_ATTRINDX = (1, 3)"
definition RLAR_ENABLE :: field where "RLAR_ENABLE = (0, 1)"
definition MAIR0_ATTR0 :: field where "MAIR0_ATTR0 = (0, 8)"

definition AP_ReadWrite :: field_value where "AP_ReadWrite = field_val RBAR_AP 1"
definition AP_ReadOnlyPrivilegedOnly :: field_value where
  "AP_ReadOnlyPrivilegedOnly = field_val RBAR_AP 2"
definition AP_ReadOnly :: field_value where "AP_ReadOnly = field_val RBAR_AP 3"
definition XN_Disable :: field_value where "XN_Disable = field_val RBAR_XN 0"
definition XN_Enable :: field_value where "XN_Enable = field_val RBAR_XN 1"
definition PXN_Disable :: field_value where "PXN_Disable = field_val RLAR_PXN 1"

section \<open>Registers and configurations\<close>

text \<open>RBAR and RLAR are banked by the region number register.\<close>

record mpu_regs =
  mpu_ctrl :: u32
  mpu_rnr :: u32
  mpu_rbar :: "u32 \<Rightarrow> u32"
  mpu_rlar :: "u32 \<Rightarrow> u32"
  mpu_mair0 :: u32

record region_config =
  rc_rbar :: u32
  rc_rlar :: u32

type_synonym mpu_config = "region_config option list"

definition mpu_config_default :: "nat \<Rightarrow> mpu_config" where
  "mpu_config_default n = replicate n None"

definition enable_mpu :: "mpu_regs \<Rightarrow> mpu_regs" where
  "enable_mpu m = m\<lparr>mpu_ctrl := fv_value
    (fv_plus (fv_plus (field_set CTRL_ENABLE) (field_clear CTRL_HFNMIENA))
      (field_set CTRL_PRIVDEFENA))\<rparr>"

definition disable_mpu :: "mpu_regs \<Rightarrow> mpu_regs" where
  "disable_mpu m = m\<lparr>mpu_ctrl := fv_value (field_clear CTRL_ENABLE)\<rparr>"

section \<open>Allocation\<close>

primrec access_fields :: "permissions \<Rightarrow> field_value \<times> field_value" where
  "access_fields ReadWriteExecute = (AP_ReadWrite, XN_Enable)"
| "access_fields ReadWriteXN = (AP_ReadWrite, XN_Disable)"
| "access_fields ReadXN = (AP_ReadOnly, XN_Enable)"
| "access_fields ReadExecute = (AP_ReadOnly, XN_Disable)"
| "access_fields ReadPrivXN = (AP_ReadOnlyPrivilegedOnly, XN_Enable)"
| "access_fields ReadPrivExecute = (AP_ReadOnlyPrivilegedOnly, XN_Disable)"

definition region_base :: "region_config \<Rightarrow> u32" where
  "region_base r = rc_rbar r AND NOT 0x1F"

definition region_end :: "region_config \<Rightarrow> u32" where
  "region_end r = (rc_rlar r AND NOT 0x1F) + 0x20"

fun overlaps_any :: "u32 \<Rightarrow> u32 \<Rightarrow> mpu_config \<Rightarrow> bool" where
  "overlaps_any base_addr end_addr [] = False"
| "overlaps_any base_addr end_addr (None # rs) = overlaps_any base_addr end_addr rs"
| "overlaps_any base_addr end_addr (Some r # rs) =
    (if base_addr < region_end r \<and> region_base r < end_addr then True
     else overlaps_any base_addr end_addr rs)"

fun fill_first :: "region_config \<Rightarrow> mpu_config \<Rightarrow> mpu_config option" where
  "fill_first r [] = None"
| "fill_first r (None # rs) = Some (Some r # rs)"
| "fill_first r (Some q # rs) = map_option ((#) (Some q)) (fill_first r rs)"

definition allocate_region ::
    "u32 \<Rightarrow> u32 \<Rightarrow> permissions \<Rightarrow> mpu_config \<Rightarrow> mpu_config \<times> (mpu_error + unit)" where
  "allocate_region base sz perm config =
    (let (access, execute) = access_fields perm; base_addr = base in
     if base_addr AND 0x1F \<noteq> 0 then (config, Inl AddressNotAligned)
     else
     let rbar_val = fv_value (fv_plus (fv_plus (fv_plus
           (field_val RBAR_BASE (drop_bit 5 base_addr)) (field_val RBAR_SH 0)) access) execute);
         end_addr = base_addr + sz
     in
     if sz < 32 then (config, Inl SizeTooSmall)
     else if end_addr AND 0x1F \<noteq> 0 then (config, Inl AddressNotAligned)
     else
     let rlar_val = fv_value (fv_plus (fv_plus (fv_plus
           (field_set RLAR_ENABLE) (field_val RLAR_LIMIT (drop_bit 5 (end_addr - 1))))
           PXN_Disable) (field_val RLAR_ATTRINDX 0))
     in
     if overlaps_any base_addr end_addr config then (config, Inl RegionOverlap)
     else case fill_first \<lparr>rc_rbar = rbar_val, rc_rlar = rlar_val\<rparr> config of
       Some config \<Rightarrow> (config, Inr ())
     | None \<Rightarrow> (config, Inl NoRegionsAvailable))"

fun configure_regions :: "nat \<Rightarrow> mpu_config \<Rightarrow> mpu_regs \<Rightarrow> mpu_regs" where
  "configure_regions i [] m = m"
| "configure_regions i (region_opt # rs) m =
    (let rn = fv_value (field_val RNR_REGION (of_nat i));
         m = m\<lparr>mpu_rnr := rn\<rparr>;
         (b, l) = (case region_opt of Some r \<Rightarrow> (rc_rbar r, rc_rlar r) | None \<Rightarrow> (0, 0));
         m = m\<lparr>mpu_rbar := (mpu_rbar m)(rn := b)\<rparr>;
         m = m\<lparr>mpu_rlar := (mpu_rlar m)(rn := l)\<rparr>
     in configure_regions (i + 1) rs m)"

definition configure_mpu :: "mpu_config \<Rightarrow> mpu_regs \<Rightarrow> mpu_regs" where
  "configure_mpu config m =
    configure_regions 0 config
      (m\<lparr>mpu_mair0 := reg_modify (field_val MAIR0_ATTR0 0x44) (mpu_mair0 m)\<rparr>)"

section \<open>What an encoded region means\<close>

text \<open>
  The architecture's reading of a region: it covers the bytes from RBAR with its low five bits
  cleared to RLAR with its low five bits set, execution is forbidden when XN is set, writing
  when the upper AP bit is set, and RLAR bit 0 enables it.
\<close>

definition region_xn :: "region_config \<Rightarrow> bool" where
  "region_xn r \<longleftrightarrow> bit (rc_rbar r) 0"

definition region_readonly :: "region_config \<Rightarrow> bool" where
  "region_readonly r \<longleftrightarrow> bit (rc_rbar r) 2"

definition region_enabled :: "region_config \<Rightarrow> bool" where
  "region_enabled r \<longleftrightarrow> bit (rc_rlar r) 0"

primrec perm_forbids_execute :: "permissions \<Rightarrow> bool" where
  "perm_forbids_execute ReadWriteExecute = False"
| "perm_forbids_execute ReadWriteXN = True"
| "perm_forbids_execute ReadXN = True"
| "perm_forbids_execute ReadExecute = False"
| "perm_forbids_execute ReadPrivXN = True"
| "perm_forbids_execute ReadPrivExecute = False"

definition encode_region :: "u32 \<Rightarrow> u32 \<Rightarrow> permissions \<Rightarrow> region_config" where
  "encode_region base sz perm =
    \<lparr>rc_rbar = fv_value (fv_plus (fv_plus (fv_plus
       (field_val RBAR_BASE (drop_bit 5 base)) (field_val RBAR_SH 0))
         (fst (access_fields perm))) (snd (access_fields perm))),
     rc_rlar = fv_value (fv_plus (fv_plus (fv_plus
       (field_set RLAR_ENABLE) (field_val RLAR_LIMIT (drop_bit 5 (base + sz - 1))))
       PXN_Disable) (field_val RLAR_ATTRINDX 0))\<rparr>"

lemmas mpu_fields = RBAR_BASE_def RBAR_SH_def RBAR_AP_def RBAR_XN_def RLAR_LIMIT_def
  RLAR_PXN_def RLAR_ATTRINDX_def RLAR_ENABLE_def AP_ReadWrite_def AP_ReadOnly_def
  AP_ReadOnlyPrivilegedOnly_def XN_Disable_def XN_Enable_def PXN_Disable_def

lemma allocate_region_eq:
  "allocate_region base sz perm config =
    (if base AND 0x1F \<noteq> 0 then (config, Inl AddressNotAligned)
     else if sz < 32 then (config, Inl SizeTooSmall)
     else if (base + sz) AND 0x1F \<noteq> 0 then (config, Inl AddressNotAligned)
     else if overlaps_any base (base + sz) config then (config, Inl RegionOverlap)
     else case fill_first (encode_region base sz perm) config of
       Some config \<Rightarrow> (config, Inr ())
     | None \<Rightarrow> (config, Inl NoRegionsAvailable))"
  by (cases "access_fields perm") (simp add: allocate_region_def Let_def encode_region_def)

lemma bit_1: "bit (1::u32) n \<longleftrightarrow> n = 0" by (simp add: bit_1_iff)

lemma bit_rbar:
  "bit (rc_rbar (encode_region base sz perm)) n \<longleftrightarrow>
    5 \<le> n \<and> bit base n \<or> bit (fv_value (fst (access_fields perm))) n \<or>
    bit (fv_value (snd (access_fields perm))) n"
  using bit_imp_le_length[of base n]
  by (auto simp: encode_region_def mpu_fields field_bits bit_drop_bit_eq)

lemma bit_access_low: "bit (fv_value (fst (access_fields perm))) n \<Longrightarrow> 1 \<le> n \<and> n < 3"
  "bit (fv_value (snd (access_fields perm))) n \<Longrightarrow> n = 0"
  by (cases perm; auto simp: mpu_fields field_bits)+

lemma region_base_encode: "region_base (encode_region base sz perm) = base AND NOT 0x1F"
proof -
  have b: "bit (0x1F::u32) n \<longleftrightarrow> n < 5" for n
    using bit_field[of "0x1F::u32" 0 5 n] by (simp add: mask_eq_exp_minus_1)
  show ?thesis
    unfolding region_base_def
    by (rule bit_word_eqI)
      (auto simp only: bit_and_iff bit_not_iff b bit_rbar possible_bit_word not_less
        dest: bit_access_low)
qed

lemma bit_rlar:
  "bit (rc_rlar (encode_region base sz perm)) n \<longleftrightarrow>
    5 \<le> n \<and> bit (base + sz - 1) n \<or> n = 0 \<or> n = 4"
  using bit_imp_le_length[of "base + sz - 1" n]
  by (auto simp: encode_region_def mpu_fields field_bits bit_drop_bit_eq bit_1)

lemma region_end_encode:
  "region_end (encode_region base sz perm) = ((base + sz - 1) AND NOT 0x1F) + 0x20"
proof -
  have b: "bit (0x1F::u32) n \<longleftrightarrow> n < 5" for n
    using bit_field[of "0x1F::u32" 0 5 n] by (simp add: mask_eq_exp_minus_1)
  have "rc_rlar (encode_region base sz perm) AND NOT 0x1F = (base + sz - 1) AND NOT 0x1F"
    by (rule bit_word_eqI)
      (auto simp only: bit_and_iff bit_not_iff b bit_rlar possible_bit_word not_less)
  then show ?thesis by (simp add: region_end_def)
qed

section \<open>Allocation keeps regions aligned, exact and disjoint\<close>

lemma encode_region_exact:
  assumes "base AND 0x1F = 0" "(base + sz) AND 0x1F = 0" "32 \<le> sz"
    "unat base + unat sz < 4294967296"
  shows "region_base (encode_region base sz p) = base"
    "region_end (encode_region base sz p) = base + sz"
proof -
  have b: "unat base mod 32 = 0" using assms(1) by (simp add: low5_zero_iff)
  then have "unat (base AND NOT 0x1F) = unat base"
    unfolding unat_and_not_1F by (metis mult_div_mod_eq add.right_neutral)
  then show "region_base (encode_region base sz p) = base"
    unfolding region_base_encode by (rule word_unat_eq_iff[THEN iffD2])
  let ?e = "unat base + unat sz"
  have e: "unat (base + sz) = ?e" using assms(4) by (rule unat_add_fits)
  have sz: "32 \<le> unat sz" using assms(3) by (simp add: word_le_nat_alt)
  have em: "?e mod 32 = 0" using assms(2) e by (simp add: low5_zero_iff)
  have "base + sz \<noteq> 0" using e sz by (intro notI) simp
  then have e1: "unat (base + sz - 1) = ?e - 1" using e by (simp add: unat_minus_1_eq)
  obtain k where "?e = 32 * k" using em by (auto simp: mod_eq_0_iff_dvd dvd_def)
  moreover from this have "k \<noteq> 0" using sz by (intro notI) simp
  ultimately obtain j where j: "?e = 32 * j + 32" by (cases k) auto
  then have "?e - 1 = 31 + 32 * j" by simp
  then have "(?e - 1) div 32 = j" by simp
  then have "unat ((base + sz - 1) AND NOT 0x1F) = ?e - 32"
    unfolding unat_and_not_1F e1 using j by simp
  then have "unat (((base + sz - 1) AND NOT 0x1F) + 0x20) = ?e"
    using sz assms(4) by (subst unat_add_fits) auto
  then show "region_end (encode_region base sz p) = base + sz"
    unfolding region_end_encode using e by (intro word_unat_eq_iff[THEN iffD2]) simp
qed

lemma overlaps_any_iff:
  "overlaps_any b e c \<longleftrightarrow> (\<exists>r. Some r \<in> set c \<and> b < region_end r \<and> region_base r < e)"
  by (induction b e c rule: overlaps_any.induct) auto

lemma fill_first_Some:
  "fill_first r c = Some c' \<Longrightarrow>
    \<exists>i<length c. c ! i = None \<and> (\<forall>j<i. c ! j \<noteq> None) \<and> c' = c[i := Some r]"
proof (induction r c arbitrary: c' rule: fill_first.induct)
  case (3 r q rs)
  then obtain d where d: "fill_first r rs = Some d" "c' = Some q # d" by auto
  then obtain i where "i < length rs" "rs ! i = None" "\<forall>j<i. rs ! j \<noteq> None" "d = rs[i := Some r]"
    using "3.IH" by blast
  then show ?case using d(2) by (intro exI[of _ "Suc i"]) (auto simp: less_Suc_eq_0_disj)
qed auto

lemma fill_first_None: "fill_first r c = None \<longleftrightarrow> (\<forall>x\<in>set c. x \<noteq> None)"
  by (induction r c rule: fill_first.induct) auto

text \<open>Every enabled pair of regions is disjoint and none is empty.\<close>

definition mpu_config_ok :: "mpu_config \<Rightarrow> bool" where
  "mpu_config_ok c \<longleftrightarrow>
    (\<forall>i j r q. i < length c \<longrightarrow> j < length c \<longrightarrow> i \<noteq> j \<longrightarrow> c ! i = Some r \<longrightarrow> c ! j = Some q \<longrightarrow>
      region_end r \<le> region_base q \<or> region_end q \<le> region_base r)"

lemma mpu_config_ok_default [simp]: "mpu_config_ok (mpu_config_default n)"
  by (simp add: mpu_config_ok_def mpu_config_default_def)

lemma allocate_region_Inr:
  assumes "allocate_region base sz perm c = (c', Inr u)"
  shows "base AND 0x1F = 0 \<and> 32 \<le> sz \<and> (base + sz) AND 0x1F = 0 \<and>
    \<not> overlaps_any base (base + sz) c \<and>
    (\<exists>i<length c. c ! i = None \<and> (\<forall>j<i. c ! j \<noteq> None) \<and>
      c' = c[i := Some (encode_region base sz perm)])"
  using assms fill_first_Some[of "encode_region base sz perm" c]
  by (auto simp: allocate_region_eq not_less split: if_splits option.splits)

lemma allocate_region_fail: "allocate_region base sz perm c = (c', Inl e) \<Longrightarrow> c' = c"
  by (auto simp: allocate_region_eq split: if_splits option.splits)

lemma mpu_config_ok_allocate:
  assumes ok: "mpu_config_ok c" and fit: "unat base + unat sz < 4294967296"
    and run: "allocate_region base sz perm c = (c', r)"
  shows "mpu_config_ok c'"
proof (cases r)
  case (Inl e)
  then show ?thesis using allocate_region_fail run ok by blast
next
  case (Inr u)
  let ?r = "encode_region base sz perm"
  obtain i where a: "base AND 0x1F = 0" "32 \<le> sz" "(base + sz) AND 0x1F = 0"
    "\<not> overlaps_any base (base + sz) c" and i: "i < length c" "c ! i = None" "c' = c[i := Some ?r]"
    using allocate_region_Inr run Inr by blast
  note ex = encode_region_exact[OF a(1,3,2) fit]
  have "region_end q \<le> region_base ?r \<or> region_end ?r \<le> region_base q"
    if "j < length c" "c ! j = Some q" for j q
  proof -
    have "Some q \<in> set c" using that by (metis nth_mem)
    then show ?thesis using a(4) ex by (auto simp: overlaps_any_iff not_less)
  qed
  then show ?thesis using ok i unfolding mpu_config_ok_def
    by (auto simp: nth_list_update)
qed

section \<open>Writing a configuration out\<close>

lemma rnr_value: "i < 256 \<Longrightarrow> fv_value (field_val RNR_REGION (of_nat i)) = of_nat i"
proof -
  assume i: "i < 256"
  have "(of_nat i :: u32) AND mask 8 = take_bit 8 (of_nat i)" by (simp add: take_bit_eq_mask)
  also have "\<dots> = of_nat (take_bit 8 i)" by (simp add: take_bit_of_nat)
  also have "take_bit 8 i = i" using i by (intro take_bit_nat_eq_self) simp
  finally show ?thesis by (simp add: field_val_def RNR_REGION_def)
qed

lemma configure_regions_regs:
  assumes "k + length c \<le> 256" "i < 256"
  shows "mpu_rbar (configure_regions k c m) (of_nat i) =
      (if k \<le> i \<and> i < k + length c
       then (case c ! (i - k) of Some r \<Rightarrow> rc_rbar r | None \<Rightarrow> 0) else mpu_rbar m (of_nat i)) \<and>
    mpu_rlar (configure_regions k c m) (of_nat i) =
      (if k \<le> i \<and> i < k + length c
       then (case c ! (i - k) of Some r \<Rightarrow> rc_rlar r | None \<Rightarrow> 0) else mpu_rlar m (of_nat i)) \<and>
    mpu_ctrl (configure_regions k c m) = mpu_ctrl m"
  using assms
proof (induction c arbitrary: k m)
  case (Cons x rs)
  let ?b = "case x of Some r \<Rightarrow> (rc_rbar r, rc_rlar r) | None \<Rightarrow> (0, 0)"
  let ?m = "m\<lparr>mpu_rnr := of_nat k, mpu_rbar := (mpu_rbar m)(of_nat k := fst ?b),
    mpu_rlar := (mpu_rlar m)(of_nat k := snd ?b)\<rparr>"
  have inj: "(of_nat i :: u32) = of_nat k \<longleftrightarrow> i = k"
    using Cons.prems by (simp add: word_of_nat_eq_iff take_bit_nat_eq_self)
  have k: "k < 256" using Cons.prems by simp
  have run: "configure_regions k (x # rs) m = configure_regions (k + 1) rs ?m"
    by (simp add: Let_def rnr_value[OF k] split_beta del: fun_upd_apply)
  have nth: "k < i \<Longrightarrow> (x # rs) ! (i - k) = rs ! (i - Suc k)"
    by (metis Suc_diff_Suc nth_Cons_Suc)
  have IH: "mpu_rbar (configure_regions (k + 1) rs ?m) (of_nat i) =
      (if k + 1 \<le> i \<and> i < k + 1 + length rs
       then (case rs ! (i - (k + 1)) of Some r \<Rightarrow> rc_rbar r | None \<Rightarrow> 0)
       else mpu_rbar ?m (of_nat i))"
    "mpu_rlar (configure_regions (k + 1) rs ?m) (of_nat i) =
      (if k + 1 \<le> i \<and> i < k + 1 + length rs
       then (case rs ! (i - (k + 1)) of Some r \<Rightarrow> rc_rlar r | None \<Rightarrow> 0)
       else mpu_rlar ?m (of_nat i))"
    "mpu_ctrl (configure_regions (k + 1) rs ?m) = mpu_ctrl ?m"
    using Cons.IH[of "k + 1" ?m] Cons.prems by auto
  show ?case
  proof (cases "i = k")
    case True
    then show ?thesis unfolding run IH by (cases x) simp_all
  next
    case False
    then show ?thesis unfolding run IH using inj nth by (cases "k < i") simp_all
  qed
qed auto

section \<open>Properties\<close>

text \<open>C28. An allocated region is exact: when allocation succeeds for a range that does not wrap, the
  region put into the first free slot starts and ends where the request does, it is enabled, the
  other slots are untouched and the configuration stays pairwise disjoint.\<close>

theorem allocate_region_exact:
  assumes "mpu_config_ok c" "unat base + unat sz < 4294967296"
    and "allocate_region base sz perm c = (c', Inr u)"
  shows "mpu_config_ok c' \<and>
    (\<exists>i r. i < length c \<and> c ! i = None \<and> (\<forall>j<i. c ! j \<noteq> None) \<and> c' = c[i := Some r] \<and>
      region_base r = base \<and> region_end r = base + sz \<and> region_enabled r)"
proof -
  obtain i where a: "base AND 0x1F = 0" "32 \<le> sz" "(base + sz) AND 0x1F = 0"
    and i: "i < length c" "c ! i = None" "\<forall>j<i. c ! j \<noteq> None"
      "c' = c[i := Some (encode_region base sz perm)]"
    using allocate_region_Inr[OF assms(3)] by blast
  have "region_enabled (encode_region base sz perm)" by (simp add: region_enabled_def bit_rlar)
  then show ?thesis
    using mpu_config_ok_allocate[OF assms] encode_region_exact[OF a(1,3,2) assms(2)] i by blast
qed

lemma sample_allocation:
  "allocate_region 0x20000000 0x1000 ReadWriteXN (mpu_config_default 2) =
    ([Some (encode_region 0x20000000 0x1000 ReadWriteXN), None], Inr ())"
proof -
  have "mpu_config_default 2 = [None, None]" by (simp add: mpu_config_default_def numeral_2_eq_2)
  then show ?thesis by (simp add: allocate_region_eq)
qed

theorem allocate_region_exact_witness:
  "mpu_config_ok [Some (encode_region 0x20000000 0x1000 ReadWriteXN), None]"
  using allocate_region_exact[OF mpu_config_ok_default _ sample_allocation] by simp

text \<open>Execution permissions as encoded: the two read-write permissions get the execute-never bit the
  wrong way round (a region asked to be read-write and not executable is executable), all four
  read-only ones get it right.\<close>

theorem xn_polarity:
  "(region_xn (encode_region base sz perm) = perm_forbids_execute perm) =
    (perm \<noteq> ReadWriteExecute \<and> perm \<noteq> ReadWriteXN)"
  by (cases perm) (simp_all add: region_xn_def bit_rbar mpu_fields field_bits)

end
