(* ===== verification/Process.thy ===== *)
theory Process
  imports ConnOps Sync Mpu
begin

text \<open>
  Service processes of the isolated (IPC) build: the vector table of a service image, staging of
  the message at the top of the service's stack, and the unprivileged call with its hand-made
  exception frame (spm_ipc/process.rs, spm_ipc/svc_call.rs).  The state is that of the IPC
  dispatcher, since a running service calls back into it.  What the service does between
  SVC_START_PROCESS and its exit is the parameter run: the state it leaves and the value of r0.
\<close>

section \<open>State\<close>

record spm_ipc_state =
  ist_connections :: connection_array
  ist_init_done :: "bool list"

record 'd spm_ipc =
  si_state :: "spm_ipc_state mutex"
  si_cell :: "unit once_lock"
  si_mpu :: mpu_regs
  si_mem :: mem
  si_psp :: u32
  si_psplim :: u32
  si_dev :: 'd

section \<open>Service images\<close>

record service_vectors =
  sv_version :: u32
  sv_init_entry :: usize
  sv_call_entry :: usize
  sv_rom_start :: usize
  sv_rom_limit :: usize
  sv_ram_start :: usize
  sv_ram_limit :: usize
  sv_stack_limit :: usize
  sv_stack_top :: usize

record memory_region =
  mr_base :: usize
  mr_size :: u32

definition rom_region :: "service_vectors \<Rightarrow> memory_region" where
  "rom_region v =
    \<lparr>mr_base = sv_rom_start v, mr_size = saturating_sub (sv_rom_limit v) (sv_rom_start v)\<rparr>"

definition ram_region :: "service_vectors \<Rightarrow> memory_region" where
  "ram_region v =
    \<lparr>mr_base = sv_ram_start v, mr_size = saturating_sub (sv_ram_limit v) (sv_ram_start v)\<rparr>"

definition align_down :: "usize \<Rightarrow> usize \<Rightarrow> usize" where
  "align_down addr align = addr AND NOT (align - 1)"

text \<open>
  The repr(C) layout of PsaMsg: handle and type (four bytes each), the two caller flags and two
  bytes of padding, then the eight sizes: 44 bytes, 4-aligned.  Writing it leaves the padding.
\<close>

definition psa_msg_size :: usize where "psa_msg_size = 44"
definition psa_msg_align :: usize where "psa_msg_align = 4"

definition bool_byte :: "bool \<Rightarrow> u8" where "bool_byte b = (if b then 1 else 0)"

definition write_psa_msg :: "usize \<Rightarrow> psa_msg \<Rightarrow> mem \<Rightarrow> mem" where
  "write_psa_msg a msg m =
    (let m = write_u32 m a (service_handle_value (msg_handle msg));
         m = write_u32 m (a + 4) (msg_type msg);
         m = write_bytes m (a + 8)
               [bool_byte (ca_ns (msg_caller msg)), bool_byte (ca_privileged (msg_caller msg))]
     in write_bytes m (a + 12)
          (concat (map (le_bytes32 \<circ> raw_usize) (msg_in_size msg @ msg_out_size msg))))"

definition EXCEPTION_FRAME_WORDS :: usize where "EXCEPTION_FRAME_WORDS = 8"

definition stage_msg_mailbox ::
    "service_vectors \<Rightarrow> psa_msg \<Rightarrow> mem \<Rightarrow> mem \<times> (usize \<times> usize) res" where
  "stage_msg_mailbox v msg m =
    (let stack_top = sv_stack_top v; stack_limit = sv_stack_limit v;
         msg_align = max psa_msg_align 8; msg_size = psa_msg_size;
         frame_size = EXCEPTION_FRAME_WORDS * 4 in
     case checked_sub stack_top msg_size of
       None \<Rightarrow> (m, Inl InsufficientMemory)
     | Some sub_top \<Rightarrow>
         let mailbox_addr = align_down sub_top msg_align in
         (case checked_sub mailbox_addr frame_size of
            None \<Rightarrow> (m, Inl InsufficientMemory)
          | Some frame_base \<Rightarrow>
              if frame_base < stack_limit then (m, Inl InsufficientMemory)
              else if mailbox_addr < sv_ram_start v \<or> mailbox_addr + msg_size > sv_ram_limit v
              then (m, Inl ProgrammerError)
              else let offset = stack_top - mailbox_addr; mailbox = stack_top - offset in
                (write_psa_msg mailbox msg m, Inr (mailbox, mailbox_addr))))"

section \<open>The unprivileged call\<close>

definition DUMMY_LR :: usize where "DUMMY_LR = 0xFFFFFFFF"
definition THUMB_BIT_XPSR :: usize where "THUMB_BIT_XPSR = 0x01000000"

definition write_words :: "usize \<Rightarrow> u32 list \<Rightarrow> mem \<Rightarrow> mem" where
  "write_words a ws m = write_bytes m a (concat (map le_bytes32 ws))"

definition svc_call_unpriv ::
    "('d spm_ipc \<Rightarrow> 'd spm_ipc \<times> usize) \<Rightarrow> usize \<Rightarrow> usize \<Rightarrow> usize \<Rightarrow> usize \<Rightarrow>
     'd spm_ipc \<Rightarrow> 'd spm_ipc \<times> usize" where
  "svc_call_unpriv run fn_ptr arg stack_limit stack_top s =
    (let frame_size = EXCEPTION_FRAME_WORDS * 4 in
     case checked_sub stack_top frame_size of
       None \<Rightarrow> (s, status_value InsufficientMemory)
     | Some frame_base \<Rightarrow>
         if frame_base < stack_limit then (s, status_value InsufficientMemory)
         else
           let s = s\<lparr>si_mem := write_words frame_base
                 [arg, 0, 0, 0, 0, DUMMY_LR, fn_ptr, THUMB_BIT_XPSR] (si_mem s)\<rparr>;
               s = s\<lparr>si_psplim := stack_limit\<rparr>;
               s = s\<lparr>si_psp := frame_base\<rparr>
           in run s)"

record 'd ipc_process =
  pr_handle :: service_handle
  pr_vectors :: "service_vectors option"
  pr_version :: u32
  pr_init :: "'d spm_ipc \<Rightarrow> 'd spm_ipc"
  pr_call :: "psa_msg \<Rightarrow> 'd spm_ipc \<Rightarrow> 'd spm_ipc \<times> unit res"

definition process_init ::
    "('d spm_ipc \<Rightarrow> 'd spm_ipc \<times> usize) \<Rightarrow> service_vectors \<Rightarrow> 'd spm_ipc \<Rightarrow> 'd spm_ipc" where
  "process_init run v s =
    fst (svc_call_unpriv run (sv_init_entry v) 0 (sv_stack_limit v) (sv_stack_top v) s)"

definition process_call ::
    "('d spm_ipc \<Rightarrow> 'd spm_ipc \<times> usize) \<Rightarrow> service_vectors \<Rightarrow> psa_msg \<Rightarrow>
     'd spm_ipc \<Rightarrow> 'd spm_ipc \<times> unit res" where
  "process_call run v msg s =
    (case stage_msg_mailbox v msg (si_mem s) of
       (m, Inl e) \<Rightarrow> (s\<lparr>si_mem := m\<rparr>, Inl e)
     | (m, Inr (staged_msg, stack_top)) \<Rightarrow>
         (case svc_call_unpriv run (sv_call_entry v) staged_msg (sv_stack_limit v) stack_top
                 (s\<lparr>si_mem := m\<rparr>) of
            (s, status) \<Rightarrow>
              (s, case status_try_from_usize status of
                    Inr Success \<Rightarrow> Inr ()
                  | Inr err \<Rightarrow> Inl err
                  | Inl _ \<Rightarrow> Inl CommunicationFailure)))"

text \<open>ServiceProcess: a process given by its handle and its vectors.\<close>

definition service_process ::
    "('d spm_ipc \<Rightarrow> 'd spm_ipc \<times> usize) \<Rightarrow> service_handle \<Rightarrow> service_vectors \<Rightarrow> 'd ipc_process" where
  "service_process run h v =
    \<lparr>pr_handle = h, pr_vectors = Some v, pr_version = sv_version v,
     pr_init = process_init run v, pr_call = process_call run v\<rparr>"

section \<open>Staging is inside the service's memory\<close>

lemma align_down_8: "unat (align_down a 8) = 8 * (unat a div 8)"
  using unat_and_not_mask[of a 3] by (simp add: align_down_def mask_eq_exp_minus_1)

lemma align_down_8_le: "unat (align_down a 8) \<le> unat a" "unat a < unat (align_down a 8) + 8"
  unfolding align_down_8 by (simp_all add: dividend_less_times_div mult.commute)

lemma msg_align_8: "max psa_msg_align 8 = 8"
  by (simp add: psa_msg_align_def max_def)

lemma concat_le_bytes32_length: "length (concat (map le_bytes32 ws)) = 4 * length ws"
  by (induction ws) simp_all

lemma concat_le_bytes32_length': "length (concat (map (le_bytes32 \<circ> f) ws)) = 4 * length ws"
  by (induction ws) simp_all

text \<open>Everything staging reports about the mailbox it chose.\<close>

lemma stage_ok:
  assumes "stage_msg_mailbox v msg m = (m', Inr (mb, tp))"
  shows "mb = tp" "8 dvd unat tp" "unat tp + 44 \<le> unat (sv_stack_top v)"
    "unat (sv_stack_top v) < unat tp + 52"
    "unat (sv_stack_limit v) + 32 \<le> unat tp" "unat (sv_ram_start v) \<le> unat tp"
    "unat tp + 44 \<le> unat (sv_ram_limit v)" "m' = write_psa_msg mb msg m"
proof -
  let ?t = "sv_stack_top v"
  obtain sub where sub: "checked_sub ?t psa_msg_size = Some sub"
    using assms by (cases "checked_sub ?t psa_msg_size") (auto simp: stage_msg_mailbox_def)
  let ?mb = "align_down sub 8"
  obtain fb where fb: "checked_sub ?mb 32 = Some fb"
    using assms sub by (cases "checked_sub ?mb 32")
      (auto simp: stage_msg_mailbox_def msg_align_8 EXCEPTION_FRAME_WORDS_def)
  have g: "\<not> fb < sv_stack_limit v" "\<not> (?mb < sv_ram_start v \<or> ?mb + psa_msg_size > sv_ram_limit v)"
    "tp = ?mb" "mb = ?t - (?t - ?mb)" "m' = write_psa_msg mb msg m"
    using assms sub fb by (auto simp: stage_msg_mailbox_def msg_align_8 EXCEPTION_FRAME_WORDS_def
        Let_def split: if_splits)
  show "mb = tp" "m' = write_psa_msg mb msg m" using g(3-5) by simp_all
  have s: "unat sub + 44 = unat ?t"
    using checked_sub_unat[OF sub] by (simp add: psa_msg_size_def)
  have f: "unat fb + 32 = unat ?mb"
    using checked_sub_unat[OF fb] by simp
  have d: "8 dvd unat ?mb" unfolding align_down_8 by (rule dvd_triv_left)
  then show "8 dvd unat tp" using g(3) by simp
  show tp: "unat tp + 44 \<le> unat ?t" "unat ?t < unat tp + 52"
    using align_down_8_le[of sub] s by (simp_all add: g(3))
  show "unat (sv_stack_limit v) + 32 \<le> unat tp"
    using g(1,3) f by (simp add: word_less_nat_alt)
  show "unat (sv_ram_start v) \<le> unat tp" using g(2,3) by (simp add: word_less_nat_alt)
  have "unat (?mb + psa_msg_size) = unat ?mb + 44"
    using tp(1) g(3) unat_lt_usize[of ?t]
    by (simp add: psa_msg_size_def unat_add_fits)
  then show "unat tp + 44 \<le> unat (sv_ram_limit v)" using g(2,3) by (simp add: word_less_nat_alt)
qed

lemma write_u32_outside: "\<not> in_slice a 4 x \<Longrightarrow> write_u32 m a w x = m x"
  by (simp add: write_u32_def write_bytes_outside)

lemma write_psa_msg_outside:
  assumes "length (msg_in_size msg) = 4" "length (msg_out_size msg) = 4"
    "unat x < unat a \<or> unat a + 44 \<le> unat x" "unat a + 44 \<le> 4294967296"
  shows "write_psa_msg a msg m x = m x"
proof -
  have u: "unat (a + 4) = unat a + 4" "unat (a + 8) = unat a + 8" "unat (a + 12) = unat a + 12"
    using assms(4) by (simp_all add: unat_add_fits)
  have "\<not> in_slice a 4 x" "\<not> in_slice (a + 4) 4 x" "\<not> in_slice (a + 8) 2 x"
    "\<not> in_slice (a + 12) 32 x"
    by (rule not_in_slice_apart; use assms(3,4) u in auto)+
  note out = this
  have 2: "write_bytes n (a + 8) [b, b'] x = n x" for n b b'
    using out(3) by (intro write_bytes_outside) (simp add: numeral_2_eq_2)
  have 3: "length bs = 32 \<Longrightarrow> write_bytes n (a + 12) bs x = n x" for n bs
    by (rule write_bytes_outside) (use out(4) in simp)
  show ?thesis
    unfolding write_psa_msg_def Let_def
    by (subst 3) (simp add: concat_le_bytes32_length' assms(1,2) del: map_append concat_append,
        simp only: 2 write_u32_outside[OF out(1)] write_u32_outside[OF out(2)])
qed


text \<open>Reading the message back, as the service does through the pointer it is given.\<close>

definition staged_as :: "mem \<Rightarrow> usize \<Rightarrow> psa_msg \<Rightarrow> bool" where
  "staged_as m a msg \<longleftrightarrow>
    read_u32 m a = service_handle_value (msg_handle msg) \<and> read_u32 m (a + 4) = msg_type msg \<and>
    m (a + 8) = bool_byte (ca_ns (msg_caller msg)) \<and>
    m (a + 9) = bool_byte (ca_privileged (msg_caller msg)) \<and>
    (\<forall>i<4. read_u32 m (a + 12 + of_nat (4 * i)) = raw_usize (msg_in_size msg ! i) \<and>
           read_u32 m (a + 28 + of_nat (4 * i)) = raw_usize (msg_out_size msg ! i))"

lemma read_u32_write_bytes_far:
  assumes "unat a + 4 \<le> unat b" "unat b + length bs \<le> 4294967296"
  shows "read_u32 (write_bytes m b bs) a = read_u32 m a"
proof -
  have "\<not> in_slice b (length bs) (a + of_nat i)" if "i < 4" for i
  proof (rule not_in_slice_apart)
    have "unat (a + of_nat i) = unat a + i"
      using that assms unat_lt_usize[of b] by (subst unat_add_fits) (auto simp: unat_of_nat)
    then show "unat (a + of_nat i) < unat b \<or> unat b + length bs \<le> unat (a + of_nat i)"
      using that assms(1) by simp
  qed (rule assms(2))
  then show ?thesis by (simp add: read_u32_def read_write_bytes_disjoint)
qed

lemma drop_concat_le_bytes32:
  "i < length ws \<Longrightarrow> take 4 (drop (4 * i) (concat (map le_bytes32 ws))) = le_bytes32 (ws ! i)"
proof (induction ws arbitrary: i)
  case (Cons w ws)
  then show ?case by (cases i) simp_all
qed simp

lemma read_u32_write_words:
  assumes "i < length ws" "4 * length ws \<le> 4294967296"
  shows "read_u32 (write_words a ws m) (a + of_nat (4 * i)) = ws ! i"
proof -
  have "read_bytes (write_words a ws m) (a + of_nat (4 * i)) 4 = le_bytes32 (ws ! i)"
    unfolding write_words_def using assms
    by (subst read_write_bytes_part) (simp_all add: concat_le_bytes32_length drop_concat_le_bytes32)
  then show ?thesis by (simp add: read_u32_def)
qed

lemma write_words_outside:
  "\<not> in_slice a (4 * length ws) x \<Longrightarrow> write_words a ws m x = m x"
  by (simp add: write_words_def write_bytes_outside concat_le_bytes32_length)

lemma read_u32_write_u32_far:
  "unat a + 4 \<le> unat b \<Longrightarrow> unat b + 4 \<le> 4294967296 \<Longrightarrow> read_u32 (write_u32 m b w) a = read_u32 m a"
  by (simp add: write_u32_def read_u32_write_bytes_far)

lemma write_psa_msg_staged:
  assumes len: "length (msg_in_size msg) = 4" "length (msg_out_size msg) = 4"
    and fit: "unat a + 44 \<le> 4294967296"
  shows "staged_as (write_psa_msg a msg m) a msg"
proof -
  have u: "unat (a + 4) = unat a + 4" "unat (a + 8) = unat a + 8" "unat (a + 9) = unat a + 9"
    "unat (a + 12) = unat a + 12"
    using fit by (simp_all add: unat_add_fits)
  let ?ws = "map raw_usize (msg_in_size msg @ msg_out_size msg)"
  let ?m1 = "write_u32 (write_u32 m a (service_handle_value (msg_handle msg))) (a + 4) (msg_type msg)"
  let ?m2 = "write_bytes ?m1 (a + 8)
    [bool_byte (ca_ns (msg_caller msg)), bool_byte (ca_privileged (msg_caller msg))]"
  have m: "write_psa_msg a msg m = write_words (a + 12) ?ws ?m2"
    by (simp add: write_psa_msg_def write_words_def Let_def del: write_bytes.simps map_append concat_append)
  have low: "write_words (a + 12) ?ws ?m2 x = ?m2 x" if "unat x < unat a + 12" for x
    using that u fit len by (intro write_words_outside not_in_slice_apart) auto
  have r: "read_u32 (write_words (a + 12) ?ws ?m2) x = read_u32 ?m2 x" if "unat x + 4 \<le> unat a + 12" for x
    unfolding write_words_def using that u fit len
    by (intro read_u32_write_bytes_far) (simp_all add: concat_le_bytes32_length' del: map_append)
  have r2: "read_u32 ?m2 x = read_u32 ?m1 x" if "unat x + 4 \<le> unat a + 8" for x
    using that u fit by (intro read_u32_write_bytes_far) simp_all
  have b: "a + 9 \<noteq> a + 8" "a + 8 + 1 = a + 9" by simp_all
  have sz: "read_u32 (write_words (a + 12) ?ws ?m2) (a + 12 + of_nat (4 * i)) = ?ws ! i"
    if "i < 8" for i
    using that len by (intro read_u32_write_words) simp_all
  have out: "a + 28 + of_nat (4 * i) = a + 12 + of_nat (4 * (i + 4))" for i by simp
  show ?thesis unfolding staged_as_def m
  proof (intro conjI allI impI)
    show "write_words (a + 12) ?ws ?m2 (a + 8) = bool_byte (ca_ns (msg_caller msg))"
      using u by (subst low) simp_all
    show "write_words (a + 12) ?ws ?m2 (a + 9) = bool_byte (ca_privileged (msg_caller msg))"
      using u b by (subst low) simp_all
    show "read_u32 (write_words (a + 12) ?ws ?m2) a = service_handle_value (msg_handle msg)"
      using u fit by (simp add: r r2 read_u32_write_u32_far del: write_bytes.simps map_append)
    show "read_u32 (write_words (a + 12) ?ws ?m2) (a + 4) = msg_type msg"
      using u by (simp add: r r2 del: write_bytes.simps map_append)
    fix i :: nat assume i: "i < 4"
    show "read_u32 (write_words (a + 12) ?ws ?m2) (a + 12 + of_nat (4 * i)) = raw_usize (msg_in_size msg ! i)"
      using i len by (subst sz) (simp_all add: nth_append)
    show "read_u32 (write_words (a + 12) ?ws ?m2) (a + 28 + of_nat (4 * i)) = raw_usize (msg_out_size msg ! i)"
      unfolding out using i len by (subst sz) (simp_all add: nth_append)
  qed
qed


lemma read_u32_cong_above:
  assumes "\<And>x. unat b \<le> unat x \<Longrightarrow> m x = m' x" "unat b \<le> unat a" "unat a + 4 \<le> 4294967296"
  shows "read_u32 m a = read_u32 m' a"
proof -
  have "unat (a + of_nat i) = unat a + i" if "i < 4" for i
    using that assms(3) by (subst unat_add_fits) (auto simp: unat_of_nat)
  then have "read_bytes m a 4 = read_bytes m' a 4"
    using assms(1,2) by (intro read_bytes_cong) simp
  then show ?thesis by (simp add: read_u32_def)
qed

lemma staged_as_cong_above:
  assumes eq: "\<And>x. unat a \<le> unat x \<Longrightarrow> m x = m' x" and fit: "unat a + 44 \<le> 4294967296"
    and st: "staged_as m a msg"
  shows "staged_as m' a msg"
proof -
  have u: "unat (a + of_nat k) = unat a + k" if "k \<le> 40" for k
    using that fit by (subst unat_add_fits) (auto simp: unat_of_nat)
  have r: "read_u32 m (a + of_nat k) = read_u32 m' (a + of_nat k)" if "k \<le> 40" for k
    by (rule read_u32_cong_above[of a, OF eq]) (use u[OF that] that fit in linarith)+
  have k: "a + 12 + of_nat (4 * i) = a + of_nat (12 + 4 * i)"
    "a + 28 + of_nat (4 * i) = a + of_nat (28 + 4 * i)" for i by simp_all
  have w: "read_u32 m (a + 12 + of_nat (4 * i)) = read_u32 m' (a + 12 + of_nat (4 * i))"
    "read_u32 m (a + 28 + of_nat (4 * i)) = read_u32 m' (a + 28 + of_nat (4 * i))"
    if "i < 4" for i
    unfolding k by (rule r; use that in simp)+
  have "m (a + 8) = m' (a + 8)" "m (a + 9) = m' (a + 9)"
    using u[of 8] u[of 9] by (auto intro!: eq)
  moreover have "read_u32 m a = read_u32 m' a" "read_u32 m (a + 4) = read_u32 m' (a + 4)"
    using r[of 0] r[of 4] by simp_all
  ultimately show ?thesis using st w by (simp add: staged_as_def del: of_nat_mult)
qed

lemma stage_errors:
  "stage_msg_mailbox v msg m = (m', Inl e) \<Longrightarrow> m' = m \<and> (e = InsufficientMemory \<or> e = ProgrammerError)"
  by (auto simp: stage_msg_mailbox_def Let_def split: option.splits if_splits)

lemma staged_call_core:
  assumes "stage_msg_mailbox v msg (si_mem s) = (m', Inr (mb, tp))"
    and "length (msg_in_size msg) = 4" "length (msg_out_size msg) = 4"
  shows "\<exists>s1. process_call run v msg s =
      (fst (run s1), case status_try_from_usize (snd (run s1)) of
         Inr Success \<Rightarrow> Inr () | Inr err \<Rightarrow> Inl err | Inl _ \<Rightarrow> Inl CommunicationFailure) \<and>
    si_psp s1 = mb - 32 \<and> si_psplim s1 = sv_stack_limit v \<and>
    unat (sv_stack_limit v) \<le> unat (si_psp s1) \<and>
    read_u32 (si_mem s1) (si_psp s1) = mb \<and>
    read_u32 (si_mem s1) (si_psp s1 + 24) = sv_call_entry v \<and>
    read_u32 (si_mem s1) (si_psp s1 + 28) = THUMB_BIT_XPSR \<and>
    staged_as (si_mem s1) mb msg \<and>
    (\<forall>x. unat x < unat (si_psp s1) \<or> unat mb + 44 \<le> unat x \<longrightarrow> si_mem s1 x = si_mem s x) \<and>
    s1 = s\<lparr>si_mem := si_mem s1, si_psp := mb - 32, si_psplim := sv_stack_limit v\<rparr>"
proof -
  note st = stage_ok[OF assms(1)]
  have fit: "unat mb + 44 \<le> 4294967296" using st(1,3) unat_lt_usize[of "sv_stack_top v"] by simp
  let ?ws = "[mb, 0, 0, 0, 0, DUMMY_LR, sv_call_entry v, THUMB_BIT_XPSR]"
  let ?fb = "mb - 32"
  let ?m = "write_words ?fb ?ws m'"
  let ?s1 = "s\<lparr>si_mem := ?m, si_psplim := sv_stack_limit v, si_psp := ?fb\<rparr>"
  have le: "32 \<le> mb" using st(1,5) by (simp add: word_le_nat_alt)
  have fb: "unat ?fb + 32 = unat mb" using le by (simp add: unat_sub_le word_le_nat_alt)
  have sub: "checked_sub mb (EXCEPTION_FRAME_WORDS * 4) = Some ?fb"
    using le by (simp add: checked_sub_def EXCEPTION_FRAME_WORDS_def)
  have lim: "\<not> ?fb < sv_stack_limit v" using st(1,5) fb by (simp add: word_less_nat_alt)
  have run: "process_call run v msg s =
      (fst (run ?s1), case status_try_from_usize (snd (run ?s1)) of
         Inr Success \<Rightarrow> Inr () | Inr err \<Rightarrow> Inl err | Inl _ \<Rightarrow> Inl CommunicationFailure)"
    using sub lim st(1)
    by (simp add: process_call_def assms(1) svc_call_unpriv_def split_beta)
  have words: "read_u32 ?m (?fb + of_nat (4 * i)) = ?ws ! i" if "i < 8" for i
    using that by (intro read_u32_write_words) simp_all
  have out: "?m x = m' x" if "unat x < unat ?fb \<or> unat mb \<le> unat x" for x
    using that fb fit by (intro write_words_outside not_in_slice_apart) auto
  have "staged_as m' mb msg"
    using write_psa_msg_staged[OF assms(2,3) fit] st(8) by simp
  then have "staged_as ?m mb msg" using staged_as_cong_above[of mb m' ?m] out fit by simp
  moreover have "?m x = si_mem s x" if "unat x < unat ?fb \<or> unat mb + 44 \<le> unat x" for x
    using that out[of x] write_psa_msg_outside[OF assms(2,3) _ fit, of x] st(8) fb by auto
  ultimately show ?thesis
    using run words[of 0] words[of 6] words[of 7] lim
    by (intro exI[of _ ?s1]) (simp add: word_less_nat_alt not_less)
qed

section \<open>Properties\<close>

text \<open>C24. Staging a message places it eight-byte aligned inside the RAM window of the service, at the
  top of its stack, leaves room for an exception frame above the stack limit, changes no byte
  outside the 44 bytes of the message, and the service reads back every field.\<close>

theorem staged_message_safe:
  assumes "stage_msg_mailbox v msg m = (m', Inr (mb, tp))"
    and "length (msg_in_size msg) = 4" "length (msg_out_size msg) = 4"
  shows "8 dvd unat mb \<and> mb = tp \<and> unat (sv_ram_start v) \<le> unat mb \<and>
    unat mb + 44 \<le> unat (sv_ram_limit v) \<and> unat mb + 44 \<le> unat (sv_stack_top v) \<and>
    unat (sv_stack_limit v) + 32 \<le> unat mb \<and> staged_as m' mb msg \<and>
    (\<forall>x. unat x < unat mb \<or> unat mb + 44 \<le> unat x \<longrightarrow> m' x = m x)"
proof -
  note st = stage_ok[OF assms(1)]
  have fit: "unat mb + 44 \<le> 4294967296" using st(1,3) unat_lt_usize[of "sv_stack_top v"] by simp
  then show ?thesis
    using st write_psa_msg_staged[OF assms(2,3) fit] write_psa_msg_outside[OF assms(2,3) _ fit]
    by simp
qed

definition sample_vectors :: service_vectors where
  "sample_vectors = \<lparr>sv_version = 1, sv_init_entry = 0x10000101, sv_call_entry = 0x10000201,
    sv_rom_start = 0x10000000, sv_rom_limit = 0x10008000, sv_ram_start = 0x20000000,
    sv_ram_limit = 0x20002000, sv_stack_limit = 0x20001000, sv_stack_top = 0x20002000\<rparr>"

lemma sample_stage:
  "stage_msg_mailbox sample_vectors msg m = (write_psa_msg 0x20001FD0 msg m, Inr (0x20001FD0, 0x20001FD0))"
  by (simp add: stage_msg_mailbox_def sample_vectors_def msg_align_8 psa_msg_size_def
      checked_sub_def align_down_def EXCEPTION_FRAME_WORDS_def)

theorem staged_message_safe_witness:
  "staged_as (write_psa_msg 0x20001FD0 (psa_msg_new Crypto 5 NS_UNPRIVILEGED) (\<lambda>_. 0)) 0x20001FD0
    (psa_msg_new Crypto 5 NS_UNPRIVILEGED)"
  using staged_message_safe[OF sample_stage, of "psa_msg_new Crypto 5 NS_UNPRIVILEGED" "\<lambda>_. 0"]
  by (simp add: psa_msg_new_def PSA_MAX_IOVEC_def)

text \<open>A call that has been staged always enters the service, and enters it as intended: the
  exception frame just below the message makes the first argument register the address of the
  message and the return address the call entry, the stack pointer and its limit are the
  service's, the message is intact, and nothing outside frame and message has changed.  The
  result is the service's exit status, a value that is no status being CommunicationFailure.\<close>

theorem staged_call_enters_service:
  assumes "stage_msg_mailbox v msg (si_mem s) = (m', Inr (mb, tp))"
    and "length (msg_in_size msg) = 4" "length (msg_out_size msg) = 4"
  shows "\<exists>s1. process_call run v msg s =
      (fst (run s1), case status_try_from_usize (snd (run s1)) of
         Inr Success \<Rightarrow> Inr () | Inr err \<Rightarrow> Inl err | Inl _ \<Rightarrow> Inl CommunicationFailure) \<and>
    si_psp s1 = mb - 32 \<and> si_psplim s1 = sv_stack_limit v \<and>
    unat (sv_stack_limit v) \<le> unat (si_psp s1) \<and>
    read_u32 (si_mem s1) (si_psp s1) = mb \<and>
    read_u32 (si_mem s1) (si_psp s1 + 24) = sv_call_entry v \<and>
    read_u32 (si_mem s1) (si_psp s1 + 28) = THUMB_BIT_XPSR \<and>
    staged_as (si_mem s1) mb msg \<and>
    (\<forall>x. unat x < unat (si_psp s1) \<or> unat mb + 44 \<le> unat x \<longrightarrow> si_mem s1 x = si_mem s x) \<and>
    si_state s1 = si_state s \<and> si_mpu s1 = si_mpu s \<and> si_dev s1 = si_dev s"
proof -
  obtain s1 where s1: "process_call run v msg s =
      (fst (run s1), case status_try_from_usize (snd (run s1)) of
         Inr Success \<Rightarrow> Inr () | Inr err \<Rightarrow> Inl err | Inl _ \<Rightarrow> Inl CommunicationFailure)"
    "si_psp s1 = mb - 32" "si_psplim s1 = sv_stack_limit v" "unat (sv_stack_limit v) \<le> unat (si_psp s1)"
    "read_u32 (si_mem s1) (si_psp s1) = mb" "read_u32 (si_mem s1) (si_psp s1 + 24) = sv_call_entry v"
    "read_u32 (si_mem s1) (si_psp s1 + 28) = THUMB_BIT_XPSR" "staged_as (si_mem s1) mb msg"
    "\<forall>x. unat x < unat (si_psp s1) \<or> unat mb + 44 \<le> unat x \<longrightarrow> si_mem s1 x = si_mem s x"
    "s1 = s\<lparr>si_mem := si_mem s1, si_psp := mb - 32, si_psplim := sv_stack_limit v\<rparr>"
    using staged_call_core[OF assms] by blast
  have "si_state s1 = si_state s" "si_mpu s1 = si_mpu s" "si_dev s1 = si_dev s"
    by (subst s1(10), simp)+
  with s1(1-9) show ?thesis by blast
qed

definition sample_ipc :: "unit spm_ipc" where
  "sample_ipc = \<lparr>si_state = mutex_new \<lparr>ist_connections = ca_new, ist_init_done = [False]\<rparr>,
    si_cell = once_new, si_mpu = \<lparr>mpu_ctrl = 0, mpu_rnr = 0, mpu_rbar = (\<lambda>_. 0),
    mpu_rlar = (\<lambda>_. 0), mpu_mair0 = 0\<rparr>, si_mem = (\<lambda>_. 0), si_psp = 0, si_psplim = 0, si_dev = ()\<rparr>"

theorem staged_call_enters_service_witness:
  "\<exists>s1. process_call (\<lambda>s. (s, 0)) sample_vectors (psa_msg_new Crypto 5 NS_UNPRIVILEGED) sample_ipc =
    (s1, Inr ()) \<and> si_psp s1 = 0x20001FB0"
proof -
  let ?msg = "psa_msg_new Crypto 5 NS_UNPRIVILEGED"
  have "status_try_from_usize 0 = Inr Success"
    by (simp add: status_try_from_usize_def status_try_from_def)
  then show ?thesis
    using staged_call_enters_service[OF sample_stage, of ?msg "\<lambda>s. (s, 0)" sample_ipc]
    by (auto simp: psa_msg_new_def PSA_MAX_IOVEC_def)
qed

end
