(* ===== verification/SpmIpc.thy ===== *)
theory SpmIpc
  imports Process SpmFn
begin

text \<open>
  The dispatcher of the isolated (IPC) build (spm_ipc/spm_ipc.rs): every service is a process
  with its own memory windows; a call pushes the connection, programs the MPU for the service,
  initialises it on its first call, runs it, pops and programs the MPU back for the process
  underneath.  The process list and the platform are parameters of the operations, as they are
  immutable fields of the source's structure; the state is the record spm_ipc of Process.
\<close>

section \<open>Platform\<close>

record custom_mpu_region =
  cm_base :: usize
  cm_size :: u32
  cm_permissions :: permissions

record 'd ipc_platform =
  ip_has_permission :: "'d spm_ipc \<Rightarrow> permission"
  ip_regions :: "service_handle \<Rightarrow> custom_mpu_region list"

section \<open>State operations\<close>

definition mark_init_done :: "nat \<Rightarrow> spm_ipc_state \<Rightarrow> spm_ipc_state \<times> (spm_error + bool)" where
  "mark_init_done index st =
    (if index \<ge> length (ist_init_done st) then (st, Inl CorruptedConnectionStack)
     else case list_get (ist_init_done st) index of
       None \<Rightarrow> (st, Inl CorruptedConnectionStack)
     | Some True \<Rightarrow> (st, Inr False)
     | Some False \<Rightarrow> (st\<lparr>ist_init_done := (ist_init_done st)[index := True]\<rparr>, Inr True))"

definition spm_ipc_state_new :: "nat \<Rightarrow> spm_ipc_state" where
  "spm_ipc_state_new n = \<lparr>ist_connections = ca_new, ist_init_done = replicate n False\<rparr>"

text \<open>Running an operation of the connection array inside the locked state.\<close>

definition on_connections ::
    "(connection_array \<Rightarrow> connection_array \<times> 'r) \<Rightarrow> spm_ipc_state \<Rightarrow> spm_ipc_state \<times> 'r" where
  "on_connections f st =
    (case f (ist_connections st) of (a, r) \<Rightarrow> (st\<lparr>ist_connections := a\<rparr>, r))"

definition ipc_try_lock ::
    "(spm_ipc_state \<Rightarrow> spm_ipc_state \<times> 'r) \<Rightarrow> 'd spm_ipc \<Rightarrow> 'd spm_ipc \<times> (try_lock_error + 'r)" where
  "ipc_try_lock f s = (case try_lock f (si_state s) of (m, r) \<Rightarrow> (s\<lparr>si_state := m\<rparr>, r))"

fun find_process_index :: "'d ipc_process list \<Rightarrow> service_handle \<Rightarrow> nat option" where
  "find_process_index [] handle = None"
| "find_process_index (process # ps) handle =
    (if service_handle_value (pr_handle process) = service_handle_value handle then Some 0
     else map_option Suc (find_process_index ps handle))"

definition ipc_take :: "'d spm_ipc \<Rightarrow> 'd spm_ipc \<times> (spm_error + nat \<times> connection)" where
  "ipc_take s =
    (case ipc_try_lock (on_connections ca_take_active) s of
       (s, Inr (Inr result)) \<Rightarrow> (s, Inr result)
     | (s, Inr (Inl err)) \<Rightarrow> (s, Inl err)
     | (s, Inl _) \<Rightarrow> (s, Inl MutexBusy))"

definition ipc_restore :: "nat \<Rightarrow> connection \<Rightarrow> 'd spm_ipc \<Rightarrow> 'd spm_ipc \<times> (spm_error + unit)" where
  "ipc_restore index c s =
    (case ipc_try_lock (on_connections (ca_restore_active index c)) s of
       (s, Inr (Inr _)) \<Rightarrow> (s, Inr ())
     | (s, Inr (Inl err)) \<Rightarrow> (s, Inl err)
     | (s, Inl _) \<Rightarrow> (s, Inl MutexBusy))"

definition ipc_with_active ::
    "(connection \<Rightarrow> 'd spm_ipc \<Rightarrow> connection \<times> 'd spm_ipc \<times> 'r) \<Rightarrow>
     'd spm_ipc \<Rightarrow> 'd spm_ipc \<times> (spm_error + 'r)" where
  "ipc_with_active = with_active ipc_take ipc_restore"

section \<open>The MPU configuration of a process\<close>

definition allocate_vec :: "u32 \<Rightarrow> u32 \<Rightarrow> permissions \<Rightarrow> mpu_config \<Rightarrow> mpu_config" where
  "allocate_vec base_addr sz perm config =
    (if sz > 0 then
       let aligned_base = base_addr AND NOT 0x1F;
           aligned_end = (base_addr + sz + 0x1F) AND NOT 0x1F;
           aligned_size = aligned_end - aligned_base
       in fst (allocate_region aligned_base aligned_size perm config)
     else config)"

definition allocate_mapped ::
    "bool list \<Rightarrow> bool list \<Rightarrow> maybe_usize list \<Rightarrow> usize list \<Rightarrow> permissions \<Rightarrow>
     mpu_config \<Rightarrow> mpu_config" where
  "allocate_mapped mapped unmapped sizes bases perm config =
    fold (\<lambda>i config.
        if list_get mapped i = Some True \<and> list_get unmapped i = Some False then
          (case map_option mu_as_option (list_get sizes i) of
             Some (Some sz) \<Rightarrow>
               (case list_get bases i of
                  Some base \<Rightarrow> allocate_vec base sz perm config
                | None \<Rightarrow> config)
           | _ \<Rightarrow> config)
        else config)
      [0..<length mapped] config"

definition allocate_active ::
    "'d ipc_process list \<Rightarrow> nat \<Rightarrow> spm_ipc_state \<Rightarrow> mpu_config \<Rightarrow> mpu_config" where
  "allocate_active procs process_index st config =
    (case ca_peek_active (ist_connections st) of
       Inr conn \<Rightarrow>
         if find_process_index procs (msg_handle (cn_msg conn)) = Some process_index then
           let config = allocate_mapped (invec_mapped conn) (invec_unmapped conn)
                 (msg_in_size (cn_msg conn)) (invec_base conn) ReadXN config
           in allocate_mapped (outvec_mapped conn) (outvec_unmapped conn)
                (msg_out_size (cn_msg conn)) (outvec_base conn) ReadWriteXN config
         else config
     | Inl _ \<Rightarrow> config)"

definition allocate_custom :: "custom_mpu_region list \<Rightarrow> mpu_config \<Rightarrow> mpu_config" where
  "allocate_custom regions config =
    fold (\<lambda>r config. fst (allocate_region (cm_base r) (cm_size r) (cm_permissions r) config))
      regions config"

definition apply_mpu_config ::
    "'d ipc_platform \<Rightarrow> 'd ipc_process list \<Rightarrow> nat \<Rightarrow> 'd spm_ipc \<Rightarrow> 'd spm_ipc" where
  "apply_mpu_config plat procs process_index s =
    (case list_get procs process_index of
       None \<Rightarrow> s
     | Some proc \<Rightarrow>
         (case pr_vectors proc of
            None \<Rightarrow> s
          | Some vectors \<Rightarrow>
              let config = mpu_config_default 8;
                  rom = rom_region vectors; ram = ram_region vectors;
                  config = fst (allocate_region (mr_base rom) (mr_size rom) ReadExecute config);
                  config = fst (allocate_region (mr_base ram) (mr_size ram) ReadWriteXN config);
                  config = allocate_custom (ip_regions plat (pr_handle proc)) config;
                  (s, r) = ipc_try_lock (\<lambda>st. (st, allocate_active procs process_index st config)) s;
                  config = (case r of Inl _ \<Rightarrow> config | Inr config \<Rightarrow> config)
              in s\<lparr>si_mpu := enable_mpu (configure_mpu config (si_mpu s))\<rparr>))"

text \<open>
  The hook behind map_vec and unmap_vec.  Its closure assigns a captured variable, so the take,
  the closure and the restore are written out here: a failing restore does not undo it.
\<close>

definition update_vec_mapping ::
    "'d ipc_platform \<Rightarrow> 'd ipc_process list \<Rightarrow> bool \<Rightarrow> u32 \<Rightarrow> bool \<Rightarrow> 'd spm_ipc \<Rightarrow> 'd spm_ipc" where
  "update_vec_mapping plat procs is_outvec vec_idx mapped s =
    (case ipc_take s of
       (s, Inl _) \<Rightarrow> s
     | (s, Inr (index, conn)) \<Rightarrow>
         let process_index_opt = find_process_index procs (msg_handle (cn_msg conn));
             conn = (if process_index_opt = None then conn
                     else set_vec_mapping is_outvec (unat vec_idx) mapped conn);
             s = fst (ipc_restore index conn s)
         in case process_index_opt of
              Some process_index \<Rightarrow> apply_mpu_config plat procs process_index s
            | None \<Rightarrow> s)"

definition ipc_map_vec ::
    "'d ipc_platform \<Rightarrow> 'd ipc_process list \<Rightarrow> bool \<Rightarrow> u32 \<Rightarrow> usize \<Rightarrow> usize \<Rightarrow>
     'd spm_ipc \<Rightarrow> 'd spm_ipc" where
  "ipc_map_vec plat procs is_outvec vec_idx base sz s =
    update_vec_mapping plat procs is_outvec vec_idx True s"

definition ipc_unmap_vec ::
    "'d ipc_platform \<Rightarrow> 'd ipc_process list \<Rightarrow> bool \<Rightarrow> u32 \<Rightarrow> 'd spm_ipc \<Rightarrow> 'd spm_ipc" where
  "ipc_unmap_vec plat procs is_outvec vec_idx s =
    update_vec_mapping plat procs is_outvec vec_idx False s"

section \<open>Dispatch\<close>

definition get_last_process_index ::
    "'d ipc_process list \<Rightarrow> 'd spm_ipc \<Rightarrow> 'd spm_ipc \<times> nat option" where
  "get_last_process_index procs s =
    (case ipc_try_lock (\<lambda>st.
        let a = ca_pop_connection (ist_connections st) in
        (st\<lparr>ist_connections := a\<rparr>,
         case ca_peek_active a of
           Inl _ \<Rightarrow> None
         | Inr conn \<Rightarrow> find_process_index procs (msg_handle (cn_msg conn)))) s of
       (s, Inr r) \<Rightarrow> (s, r)
     | (s, Inl _) \<Rightarrow> (s, None))"

definition enter_state ::
    "nat \<Rightarrow> connection \<Rightarrow> spm_ipc_state \<Rightarrow> spm_ipc_state \<times> (spm_error + bool)" where
  "enter_state process_index c st =
    (case on_connections (ca_add_connection c) st of
       (st, Inl e) \<Rightarrow> (st, Inl e)
     | (st, Inr _) \<Rightarrow> mark_init_done process_index st)"

definition ipc_call ::
    "'d ipc_platform \<Rightarrow> 'd ipc_process list \<Rightarrow> connection \<Rightarrow> 'd spm_ipc \<Rightarrow> 'd spm_ipc \<times> unit res" where
  "ipc_call plat procs c s =
    (case find_process_index procs (msg_handle (cn_msg c)) of
       None \<Rightarrow> (s, Inl NotSupported)
     | Some process_index \<Rightarrow>
         let msg = cn_msg c in
         (case ipc_try_lock (enter_state process_index c) s of
            (s, Inr (Inl _)) \<Rightarrow> (s, Inl InsufficientMemory)
          | (s, Inl _) \<Rightarrow> (s, Inl ConnectionBusy)
          | (s, Inr (Inr should_init)) \<Rightarrow>
              let s = apply_mpu_config plat procs process_index s in
              (case list_get procs process_index of
                 None \<Rightarrow> (s, Inl NotSupported)
               | Some proc \<Rightarrow>
                   let s = (if should_init then pr_init proc s else s);
                       (s, result) = pr_call proc msg s;
                       (s, prev_process_index) = get_last_process_index procs s;
                       s = (case prev_process_index of
                              Some prev \<Rightarrow> apply_mpu_config plat procs prev s
                            | None \<Rightarrow> s)
                   in (s, result))))"

definition ipc_version :: "'d ipc_process list \<Rightarrow> service_handle \<Rightarrow> u32 option" where
  "ipc_version procs handle =
    Option.bind (find_process_index procs handle) (\<lambda>i. map_option pr_version (list_get procs i))"

text \<open>SfnApi::call on this dispatcher: the same validation, then the dispatcher's call.\<close>

definition ipc_try_get_spm :: "'d spm_ipc \<Rightarrow> unit res" where
  "ipc_try_get_spm s = map_err (\<lambda>_. BadState) (once_try_get (si_cell s))"

definition ipc_api_call ::
    "'d ipc_platform \<Rightarrow> 'd ipc_process list \<Rightarrow> service_handle \<Rightarrow> ctrl_param \<Rightarrow> usize \<Rightarrow> usize \<Rightarrow>
     caller_attributes \<Rightarrow> 'd spm_ipc \<Rightarrow> 'd spm_ipc \<times> unit res" where
  "ipc_api_call plat procs handle ctrl in_vec out_vec caller s =
    (case api_connection (ipc_try_get_spm s) (si_mem s) (ip_has_permission plat s) handle ctrl
            in_vec out_vec caller of
       Inl e \<Rightarrow> (s, Inl e)
     | Inr connection \<Rightarrow> ipc_call plat procs connection s)"


section \<open>The dispatcher implements the store interface\<close>

definition ipc_ok :: "'d ipc_process list \<Rightarrow> 'd spm_ipc \<Rightarrow> bool" where
  "ipc_ok procs s \<longleftrightarrow> \<not> mx_lock (si_state s) \<and>
    ca_wf (ist_connections (mx_value (si_state s))) \<and>
    length (ist_init_done (mx_value (si_state s))) = length procs"

definition ipc_stack :: "'d spm_ipc \<Rightarrow> connection option list" where
  "ipc_stack s = ca_stack (ist_connections (mx_value (si_state s)))"

definition ipc_init_done :: "'d spm_ipc \<Rightarrow> bool list" where
  "ipc_init_done s = ist_init_done (mx_value (si_state s))"

definition ipc_other :: "'d spm_ipc \<Rightarrow> unit once_lock \<times> mpu_regs \<times> mem \<times> u32 \<times> u32 \<times> 'd" where
  "ipc_other s = (si_cell s, si_mpu s, si_mem s, si_psp s, si_psplim s, si_dev s)"

definition ipc_known :: "'d ipc_process list \<Rightarrow> connection \<Rightarrow> bool" where
  "ipc_known procs c \<longleftrightarrow> find_process_index procs (msg_handle (cn_msg c)) \<noteq> None"

lemmas ipc_views = ipc_ok_def ipc_stack_def ipc_other_def

text \<open>The two ends of ipc_call as the interface has them.\<close>

definition ipc_push :: "'d ipc_process list \<Rightarrow> connection \<Rightarrow> 'd spm_ipc \<Rightarrow>
    'd spm_ipc \<times> (spm_error + nat \<times> bool)" where
  "ipc_push procs c s =
    (case find_process_index procs (msg_handle (cn_msg c)) of
       None \<Rightarrow> (s, Inl NoActiveConnection)
     | Some i \<Rightarrow> (case ipc_try_lock (enter_state i c) s of
         (s, Inl _) \<Rightarrow> (s, Inl MutexBusy)
       | (s, Inr (Inl e)) \<Rightarrow> (s, Inl e)
       | (s, Inr (Inr b)) \<Rightarrow> (s, Inr (i, b))))"

definition ipc_pop :: "'d ipc_process list \<Rightarrow> 'd spm_ipc \<Rightarrow> 'd spm_ipc" where
  "ipc_pop procs s = fst (get_last_process_index procs s)"

lemma ipc_try_lock_free:
  "\<not> mx_lock (si_state s) \<Longrightarrow> ipc_try_lock f s =
    (s\<lparr>si_state := (si_state s)\<lparr>mx_value := fst (f (mx_value (si_state s)))\<rparr>\<rparr>,
     Inr (snd (f (mx_value (si_state s)))))"
  by (simp add: ipc_try_lock_def try_lock_free)

lemma find_process_index_Some:
  "find_process_index procs h = Some i \<Longrightarrow>
    i < length procs \<and> pr_handle (procs ! i) = h \<and> (\<forall>j<i. pr_handle (procs ! j) \<noteq> h)"
proof (induction procs arbitrary: i)
  case (Cons p ps)
  have inj: "service_handle_value (pr_handle p) = service_handle_value h \<longleftrightarrow> pr_handle p = h"
    by (metis service_handle_try_from_value sum.inject(2))
  show ?case
  proof (cases "pr_handle p = h")
    case False
    then obtain j where j: "find_process_index ps h = Some j" "i = Suc j" using Cons.prems inj by auto
    then show ?thesis using Cons.IH[OF j(1)] False by (auto simp: less_Suc_eq_0_disj)
  qed (use Cons.prems in auto)
qed simp

lemma find_process_index_None:
  "find_process_index procs h = None \<longleftrightarrow> (\<forall>p\<in>set procs. pr_handle p \<noteq> h)"
proof (induction procs)
  case (Cons p ps)
  have inj: "service_handle_value (pr_handle p) = service_handle_value h \<longleftrightarrow> pr_handle p = h"
    by (metis service_handle_try_from_value sum.inject(2))
  then show ?case using Cons by auto
qed simp

lemma ipc_take_none:
  assumes "ipc_ok procs s" "stack_active (ipc_stack s) = None"
  shows "\<exists>e. ipc_take s = (s, Inl e)"
proof -
  let ?a = "ist_connections (mx_value (si_state s))"
  have "ca_wf ?a" "\<not> mx_lock (si_state s)" using assms(1) by (auto simp: ipc_ok_def)
  from this(1) show ?thesis
    by (cases rule: ca_take_cases)
      (use \<open>\<not> mx_lock (si_state s)\<close> assms(2) in
        \<open>auto simp: ipc_take_def ipc_try_lock_free on_connections_def ipc_stack_def stack_active_None\<close>)
qed

lemma ipc_take_some:
  assumes "ipc_ok procs s" "stack_active (ipc_stack s) = Some c"
  shows "\<exists>s1. ipc_take s = (s1, Inr (length (ipc_stack s) - 1, c)) \<and> ipc_ok procs s1 \<and>
    ipc_stack s1 = butlast (ipc_stack s) @ [None] \<and> ipc_other s1 = ipc_other s \<and> connection_wf c"
proof -
  let ?a = "ist_connections (mx_value (si_state s))"
  have "ca_wf ?a" "\<not> mx_lock (si_state s)" using assms(1) by (auto simp: ipc_ok_def)
  from this(1) show ?thesis
    by (cases rule: ca_take_cases)
      (use \<open>\<not> mx_lock (si_state s)\<close> assms in
        \<open>auto simp: ipc_take_def ipc_try_lock_free on_connections_def ipc_views stack_active_length\<close>)
qed

lemma ipc_restore_ok:
  assumes "ipc_ok procs s" "connection_wf c" "i < length (ipc_stack s)" "ipc_stack s ! i = None"
  shows "\<exists>s1. ipc_restore i c s = (s1, Inr ()) \<and> ipc_ok procs s1 \<and>
    ipc_stack s1 = (ipc_stack s)[i := Some c] \<and> ipc_other s1 = ipc_other s"
proof -
  let ?a = "ist_connections (mx_value (si_state s))"
  have a: "ca_wf ?a" "\<not> mx_lock (si_state s)" using assms(1) by (auto simp: ipc_ok_def)
  obtain a' where "ca_restore_active i c ?a = (a', Inr ())" "ca_wf a'"
    "ca_stack a' = (ca_stack ?a)[i := Some c]"
    using ca_restore_ok[OF a(1) assms(2)] assms(3,4) by (metis length_ca_stack ipc_stack_def)
  then show ?thesis using a assms(1)
    by (auto simp: ipc_restore_def ipc_try_lock_free on_connections_def ipc_views)
qed

lemma ipc_push_ok:
  assumes "ipc_ok procs s" "connection_wf c" "ipc_known procs c"
    "length (ipc_stack s) < MAX_CONNECTIONS"
  shows "\<exists>s1 p. ipc_push procs c s = (s1, Inr p) \<and> ipc_ok procs s1 \<and>
    ipc_stack s1 = ipc_stack s @ [Some c] \<and> ipc_other s1 = ipc_other s"
proof -
  let ?a = "ist_connections (mx_value (si_state s))"
  have a: "ca_wf ?a" "\<not> mx_lock (si_state s)" using assms(1) by (auto simp: ipc_ok_def)
  obtain i where i: "find_process_index procs (msg_handle (cn_msg c)) = Some i"
    using assms(3) by (auto simp: ipc_known_def)
  obtain a' where "ca_add_connection c ?a = (a', Inr ())" "ca_wf a'"
    "ca_stack a' = ca_stack ?a @ [Some c]"
    using ca_add_ok[OF a(1) assms(2)] assms(4) by (metis length_ca_stack ipc_stack_def)
  then show ?thesis using a i find_process_index_Some[OF i] assms(1)
    by (cases "ist_init_done (mx_value (si_state s)) ! i")
      (auto simp: ipc_push_def ipc_try_lock_free enter_state_def on_connections_def mark_init_done_def
        list_get_def ipc_views)
qed

lemma ipc_push_full:
  assumes "ipc_ok procs s" "ipc_known procs c" "length (ipc_stack s) \<ge> MAX_CONNECTIONS"
  shows "ipc_push procs c s = (s, Inl ConnectionStackFull)"
  using assms by (auto simp: ipc_push_def ipc_try_lock_free enter_state_def on_connections_def
      ipc_known_def ipc_views ca_add_full)

lemma ipc_pop_ok:
  "ipc_ok procs s \<Longrightarrow> ipc_ok procs (ipc_pop procs s) \<and>
    ipc_stack (ipc_pop procs s) = butlast (ipc_stack s) \<and>
    ipc_other (ipc_pop procs s) = ipc_other s"
  by (simp add: ipc_pop_def get_last_process_index_def ipc_try_lock_free ipc_views ca_pop_refines Let_def)

interpretation ipc: spm_calls ipc_take ipc_restore "ipc_ok procs" ipc_stack ipc_other
    "ipc_known procs" "ipc_push procs" "ipc_pop procs" for procs
  by unfold_locales
    (rule ipc_take_none ipc_take_some ipc_restore_ok ipc_push_ok ipc_push_full ipc_pop_ok; assumption)+


section \<open>The regions a process is given\<close>

type_synonym region_spec = "u32 \<times> u32 \<times> permissions"

definition alloc_all :: "region_spec list \<Rightarrow> mpu_config \<Rightarrow> mpu_config" where
  "alloc_all specs config = fold (\<lambda>(b, sz, p) c. fst (allocate_region b sz p c)) specs config"

text \<open>The smallest 32-byte aligned range around a vector.\<close>

definition vec_spec :: "usize \<Rightarrow> usize \<Rightarrow> permissions \<Rightarrow> region_spec" where
  "vec_spec base sz p =
    (base AND NOT 0x1F, ((base + sz + 0x1F) AND NOT 0x1F) - (base AND NOT 0x1F), p)"

definition mapped_spec ::
    "bool list \<Rightarrow> bool list \<Rightarrow> maybe_usize list \<Rightarrow> usize list \<Rightarrow> permissions \<Rightarrow> nat \<Rightarrow>
     region_spec list" where
  "mapped_spec mapped unmapped sizes bases p i =
    (if list_get mapped i = Some True \<and> list_get unmapped i = Some False then
      (case map_option mu_as_option (list_get sizes i) of
         Some (Some sz) \<Rightarrow> (case list_get bases i of
           Some base \<Rightarrow> if sz > 0 then [vec_spec base sz p] else []
         | None \<Rightarrow> [])
       | _ \<Rightarrow> [])
     else [])"

definition conn_specs :: "connection \<Rightarrow> region_spec list" where
  "conn_specs c =
    concat (map (mapped_spec (invec_mapped c) (invec_unmapped c) (msg_in_size (cn_msg c))
                   (invec_base c) ReadXN) [0..<length (invec_mapped c)]) @
    concat (map (mapped_spec (outvec_mapped c) (outvec_unmapped c) (msg_out_size (cn_msg c))
                   (outvec_base c) ReadWriteXN) [0..<length (outvec_mapped c)])"

definition window_specs :: "'d ipc_platform \<Rightarrow> 'd ipc_process \<Rightarrow> service_vectors \<Rightarrow> region_spec list" where
  "window_specs plat proc v =
    (mr_base (rom_region v), mr_size (rom_region v), ReadExecute) #
    (mr_base (ram_region v), mr_size (ram_region v), ReadWriteXN) #
    map (\<lambda>r. (cm_base r, cm_size r, cm_permissions r)) (ip_regions plat (pr_handle proc))"

definition process_specs ::
    "'d ipc_platform \<Rightarrow> 'd ipc_process list \<Rightarrow> nat \<Rightarrow> service_vectors \<Rightarrow> connection option \<Rightarrow>
     region_spec list" where
  "process_specs plat procs i v active =
    window_specs plat (procs ! i) v @
    (case active of
       Some c \<Rightarrow> if find_process_index procs (msg_handle (cn_msg c)) = Some i then conn_specs c else []
     | None \<Rightarrow> [])"

definition process_config ::
    "'d ipc_platform \<Rightarrow> 'd ipc_process list \<Rightarrow> nat \<Rightarrow> service_vectors \<Rightarrow> connection option \<Rightarrow> mpu_config" where
  "process_config plat procs i v active =
    alloc_all (process_specs plat procs i v active) (mpu_config_default 8)"

lemma alloc_all_append: "alloc_all (xs @ ys) c = alloc_all ys (alloc_all xs c)"
  by (simp add: alloc_all_def)

lemma alloc_all_Cons: "alloc_all ((b, sz, p) # xs) c = alloc_all xs (fst (allocate_region b sz p c))"
  by (simp add: alloc_all_def)

lemma allocate_vec_all: "allocate_vec b sz p c = alloc_all (if sz > 0 then [vec_spec b sz p] else []) c"
  by (simp add: allocate_vec_def alloc_all_def vec_spec_def Let_def)

lemma allocate_custom_all:
  "allocate_custom rs c = alloc_all (map (\<lambda>r. (cm_base r, cm_size r, cm_permissions r)) rs) c"
  by (induction rs arbitrary: c) (simp_all add: allocate_custom_def alloc_all_def)

lemma fold_alloc_all:
  "fold (\<lambda>i. alloc_all (f i)) is c = alloc_all (concat (map f is)) c"
  by (induction "is" arbitrary: c) (simp_all add: alloc_all_append alloc_all_def)

lemma allocate_mapped_all:
  "allocate_mapped mapped unmapped sizes bases p c =
    alloc_all (concat (map (mapped_spec mapped unmapped sizes bases p) [0..<length mapped])) c"
proof -
  have e: "alloc_all [] = (\<lambda>c. c)" by (simp add: alloc_all_def fun_eq_iff)
  show ?thesis unfolding allocate_mapped_def fold_alloc_all[symmetric]
    by (rule arg_cong[where f = "\<lambda>g. fold g _ c"])
      (auto simp: fun_eq_iff mapped_spec_def allocate_vec_all e split: option.split)
qed

lemma allocate_active_all:
  assumes "ca_wf (ist_connections st)"
  shows "allocate_active procs i st c =
    alloc_all (case stack_active (ca_stack (ist_connections st)) of
       Some d \<Rightarrow> if find_process_index procs (msg_handle (cn_msg d)) = Some i then conn_specs d else []
     | None \<Rightarrow> []) c"
proof -
  note peek = ca_peek_refines[OF assms]
  have e: "alloc_all [] c = c" by (simp add: alloc_all_def)
  show ?thesis using peek
    by (cases "ca_peek_active (ist_connections st)")
      (auto simp: allocate_active_def e allocate_mapped_all alloc_all_append conn_specs_def
        split: option.splits)
qed

text \<open>What apply_mpu_config does: nothing but program the MPU with the configuration above.\<close>

lemma apply_mpu_config_eq:
  assumes "ipc_ok procs s" "i < length procs" "pr_vectors (procs ! i) = Some v"
  shows "apply_mpu_config plat procs i s =
    s\<lparr>si_mpu := enable_mpu (configure_mpu (process_config plat procs i v (stack_active (ipc_stack s)))
        (si_mpu s))\<rparr>"
proof -
  have l: "\<not> mx_lock (si_state s)" and w: "ca_wf (ist_connections (mx_value (si_state s)))"
    using assms(1) by (auto simp: ipc_ok_def)
  show ?thesis
    using assms(2,3)
    by (simp add: allocate_active_all[OF w] apply_mpu_config_def list_get_def Let_def ipc_try_lock_free[OF l]
        process_config_def process_specs_def window_specs_def alloc_all_append alloc_all_Cons
        allocate_custom_all ipc_stack_def)
qed

lemma apply_mpu_config_skip:
  "i < length procs \<Longrightarrow> pr_vectors (procs ! i) = None \<Longrightarrow> apply_mpu_config plat procs i s = s"
  "\<not> i < length procs \<Longrightarrow> apply_mpu_config plat procs i s = s"
  by (simp_all add: apply_mpu_config_def list_get_def)

lemma apply_mpu_config_keeps:
  assumes "ipc_ok procs s"
  shows "ipc_ok procs (apply_mpu_config plat procs i s)"
    "ipc_stack (apply_mpu_config plat procs i s) = ipc_stack s"
    "ipc_init_done (apply_mpu_config plat procs i s) = ipc_init_done s"
    "si_mem (apply_mpu_config plat procs i s) = si_mem s"
    "si_cell (apply_mpu_config plat procs i s) = si_cell s"
    "si_dev (apply_mpu_config plat procs i s) = si_dev s"
proof -
  have "apply_mpu_config plat procs i s = s \<or>
      (\<exists>m. apply_mpu_config plat procs i s = s\<lparr>si_mpu := m\<rparr>)"
    using apply_mpu_config_skip[of i procs plat s] apply_mpu_config_eq[OF assms, of i]
    by (cases "i < length procs"; cases "pr_vectors (procs ! i)") blast+
  then show "ipc_ok procs (apply_mpu_config plat procs i s)"
    "ipc_stack (apply_mpu_config plat procs i s) = ipc_stack s"
    "ipc_init_done (apply_mpu_config plat procs i s) = ipc_init_done s"
    "si_mem (apply_mpu_config plat procs i s) = si_mem s"
    "si_cell (apply_mpu_config plat procs i s) = si_cell s"
    "si_dev (apply_mpu_config plat procs i s) = si_dev s"
    using assms by (auto simp: ipc_ok_def ipc_stack_def ipc_init_done_def)
qed

text \<open>Every region of an allocated configuration was there before or encodes one of the requests.\<close>

lemma alloc_all_regions:
  "Some r \<in> set (alloc_all specs c) \<Longrightarrow>
    Some r \<in> set c \<or> (\<exists>(b, sz, p)\<in>set specs. r = encode_region b sz p)"
proof (induction specs arbitrary: c)
  case (Cons x specs)
  obtain b sz p where x: "x = (b, sz, p)" by (cases x)
  obtain c' q where a: "allocate_region b sz p c = (c', q)" by (cases "allocate_region b sz p c")
  have "Some r \<in> set c' \<Longrightarrow> Some r \<in> set c \<or> r = encode_region b sz p"
  proof (cases q)
    case (Inl e)
    then show "Some r \<in> set c' \<Longrightarrow> ?thesis" using allocate_region_fail a by blast
  next
    case (Inr u)
    then obtain k where "c' = c[k := Some (encode_region b sz p)]" using allocate_region_Inr a by blast
    then show "Some r \<in> set c' \<Longrightarrow> ?thesis"
      using set_update_subset_insert[of c k "Some (encode_region b sz p)"] by auto
  qed
  then show ?case using Cons.IH[of c'] Cons.prems a by (auto simp: x alloc_all_Cons)
qed (simp add: alloc_all_def)

lemma length_alloc_all [simp]: "length (alloc_all specs c) = length c"
proof (induction specs arbitrary: c)
  case (Cons x specs)
  obtain b sz p where x: "x = (b, sz, p)" by (cases x)
  obtain c' q where a: "allocate_region b sz p c = (c', q)" by (cases "allocate_region b sz p c")
  have "length c' = length c"
    using a allocate_region_fail[of b sz p c c'] allocate_region_Inr[of b sz p c c'] by (cases q) auto
  then show ?case using Cons a by (simp add: x alloc_all_Cons)
qed (simp add: alloc_all_def)

lemma alloc_all_ok:
  "mpu_config_ok c \<Longrightarrow> (\<forall>(b, sz, p)\<in>set specs. unat b + unat sz < 4294967296) \<Longrightarrow>
    mpu_config_ok (alloc_all specs c)"
proof (induction specs arbitrary: c)
  case (Cons x specs)
  obtain b sz p where x: "x = (b, sz, p)" by (cases x)
  obtain c' q where a: "allocate_region b sz p c = (c', q)" by (cases "allocate_region b sz p c")
  show ?case using Cons mpu_config_ok_allocate[OF Cons.prems(1) _ a] a by (auto simp: x alloc_all_Cons)
qed (simp add: alloc_all_def)

definition mpu_programmed :: "mpu_config \<Rightarrow> mpu_regs \<Rightarrow> bool" where
  "mpu_programmed c m \<longleftrightarrow> mpu_ctrl m = 5 \<and>
    (\<forall>k<length c. mpu_rbar m (of_nat k) = (case c ! k of Some r \<Rightarrow> rc_rbar r | None \<Rightarrow> 0) \<and>
       mpu_rlar m (of_nat k) = (case c ! k of Some r \<Rightarrow> rc_rlar r | None \<Rightarrow> 0))"

lemma mpu_programmedD:
  "mpu_programmed c m \<Longrightarrow> k < length c \<Longrightarrow>
    mpu_rbar m (of_nat k) = (case c ! k of Some r \<Rightarrow> rc_rbar r | None \<Rightarrow> 0) \<and>
    mpu_rlar m (of_nat k) = (case c ! k of Some r \<Rightarrow> rc_rlar r | None \<Rightarrow> 0)"
  by (simp add: mpu_programmed_def)

lemma mpu_programmed_configure:
  assumes "length c \<le> 256"
  shows "mpu_programmed c (enable_mpu (configure_mpu c m))"
proof -
  have "fv_value (fv_plus (fv_plus (field_set CTRL_ENABLE) (field_clear CTRL_HFNMIENA))
      (field_set CTRL_PRIVDEFENA)) = 5"
    by (simp add: field_set_def field_clear_def field_val_def fv_plus_def CTRL_ENABLE_def
        CTRL_HFNMIENA_def CTRL_PRIVDEFENA_def mask_eq_exp_minus_1)
  then show ?thesis
    using configure_regions_regs[of 0 c, where m = "m\<lparr>mpu_mair0 := reg_modify (field_val MAIR0_ATTR0 0x44) (mpu_mair0 m)\<rparr>"] assms
    by (simp add: mpu_programmed_def enable_mpu_def configure_mpu_def)
qed


text \<open>The hull of a vector as numbers, and what a shared granule does to the second vector.\<close>

lemma vec_spec_hull:
  assumes "vec_spec b n p = (b', sz, p')" "0 < n" "unat b + unat n + 31 < 4294967296"
  shows "unat b' = 32 * (unat b div 32)" "unat b' + unat sz = 32 * ((unat b + unat n + 31) div 32)"
    "b' AND 0x1F = 0" "(b' + sz) AND 0x1F = 0" "32 \<le> sz" "unat b' + unat sz < 4294967296"
proof -
  let ?e = "unat b + unat n + 31"
  have b': "b' = b AND NOT 0x1F" and sz: "sz = ((b + n + 0x1F) AND NOT 0x1F) - (b AND NOT 0x1F)"
    using assms(1) unfolding vec_spec_def by (blast dest: Pair_inject)+
  show ub: "unat b' = 32 * (unat b div 32)" unfolding b' unat_and_not_1F by simp
  have s1: "unat (b + n) = unat b + unat n" using assms(3) by (intro unat_add_fits) simp
  have "unat (b + n + 0x1F) = ?e" using assms(3) s1 by (subst unat_add_fits) simp_all
  then have ue: "unat ((b + n + 0x1F) AND NOT 0x1F) = 32 * (?e div 32)" unfolding unat_and_not_1F by simp
  have n: "0 < unat n" using assms(2) by (simp add: unat_gt_0)
  then have step: "unat b div 32 + 1 \<le> ?e div 32"
    using div_le_mono[of "unat b + 32" ?e 32] by simp
  have "unat sz = 32 * (?e div 32) - 32 * (unat b div 32)"
  proof -
    have "b AND NOT 0x1F \<le> (b + n + 0x1F) AND NOT 0x1F"
      unfolding word_le_nat_alt ue ub[unfolded b'] using step by linarith
    then show ?thesis unfolding sz by (simp only: unat_sub_le ue ub[unfolded b'])
  qed
  then show us: "unat b' + unat sz = 32 * (?e div 32)" using ub step by simp
  show "b' AND 0x1F = 0" using ub by (simp add: low5_zero_iff)
  show fit: "unat b' + unat sz < 4294967296"
    using us assms(3) times_div_less_eq_dividend[of 32 ?e] by linarith
  then have "unat (b' + sz) = 32 * (?e div 32)" using us by (simp only: unat_add_fits)
  then show "(b' + sz) AND 0x1F = 0" by (simp add: low5_zero_iff)
  have "32 \<le> unat sz" using us ub step by linarith
  then show "32 \<le> sz" by (simp add: word_le_nat_alt)
qed

lemma allocate_vec_overlap:
  assumes "0 < n1" "unat b1 + unat n1 + 31 < 4294967296" "0 < n2" "unat b2 + unat n2 + 31 < 4294967296"
    and "unat b1 div 32 < (unat b2 + unat n2 + 31) div 32" "unat b2 div 32 < (unat b1 + unat n1 + 31) div 32"
    and h: "vec_spec b1 n1 p1 = (b', sz', q)" and mem: "Some (encode_region b' sz' q) \<in> set c"
  shows "allocate_vec b2 n2 p2 c = c"
proof -
  obtain b'' sz'' q' where h2: "vec_spec b2 n2 p2 = (b'', sz'', q')" by (cases "vec_spec b2 n2 p2")
  note v1 = vec_spec_hull[OF h assms(1,2)] and v2 = vec_spec_hull[OF h2 assms(3,4)]
  note ex = encode_region_exact[OF v1(3,4,5,6), of q]
  have "b'' < b' + sz'" "b' < b'' + sz''"
    using v1(1,2,6) v2(1,2,6) assms(5,6) by (simp_all add: word_less_nat_alt unat_add_fits)
  then have "overlaps_any b'' (b'' + sz'') c"
    unfolding overlaps_any_iff using mem ex by (intro exI[of _ "encode_region b' sz' q"]) simp
  then have "fst (allocate_region b'' sz'' q' c) = c" by (simp add: allocate_region_eq)
  then show ?thesis using h2 assms(3)
    by (simp add: allocate_vec_all alloc_all_def)
qed

section \<open>A call, step by step\<close>

definition processes_keep :: "'d ipc_process list \<Rightarrow> bool" where
  "processes_keep procs \<longleftrightarrow>
    (\<forall>p\<in>set procs. keeps_frame (ipc_ok procs) ipc_stack (\<lambda>s. (pr_init p s, ())) \<and>
      (\<forall>msg. keeps_frame (ipc_ok procs) ipc_stack (pr_call p msg)))"

lemma processes_keepD:
  assumes "processes_keep procs" "i < length procs" "ipc_ok procs s"
  shows "ipc_ok procs (pr_init (procs ! i) s) \<and>
      length (ipc_stack (pr_init (procs ! i) s)) = length (ipc_stack s) \<and>
      butlast (ipc_stack (pr_init (procs ! i) s)) = butlast (ipc_stack s)"
    "pr_call (procs ! i) msg s = (s', r) \<Longrightarrow> ipc_ok procs s' \<and>
      length (ipc_stack s') = length (ipc_stack s) \<and> butlast (ipc_stack s') = butlast (ipc_stack s)"
proof -
  have k: "keeps_frame (ipc_ok procs) ipc_stack (\<lambda>s. (pr_init (procs ! i) s, ()))"
    "keeps_frame (ipc_ok procs) ipc_stack (pr_call (procs ! i) msg)"
    using assms(1,2) by (simp_all add: processes_keep_def)
  show "ipc_ok procs (pr_init (procs ! i) s) \<and>
      length (ipc_stack (pr_init (procs ! i) s)) = length (ipc_stack s) \<and>
      butlast (ipc_stack (pr_init (procs ! i) s)) = butlast (ipc_stack s)"
    using keeps_frameD[OF k(1) assms(3) refl] by (simp add: frame_le_def)
  show "ipc_ok procs s' \<and> length (ipc_stack s') = length (ipc_stack s) \<and>
      butlast (ipc_stack s') = butlast (ipc_stack s)" if "pr_call (procs ! i) msg s = (s', r)"
    using keeps_frameD[OF k(2) assms(3) that] by (simp add: frame_le_def)
qed

text \<open>What runs between the push and the pop.\<close>

definition call_body ::
    "'d ipc_platform \<Rightarrow> 'd ipc_process list \<Rightarrow> psa_msg \<Rightarrow> nat \<times> bool \<Rightarrow> 'd spm_ipc \<Rightarrow>
     'd spm_ipc \<times> unit res" where
  "call_body plat procs msg p s =
    (let s = apply_mpu_config plat procs (fst p) s;
         s = (if snd p then pr_init (procs ! fst p) s else s)
     in pr_call (procs ! fst p) msg s)"

definition active_process :: "'d ipc_process list \<Rightarrow> 'd spm_ipc \<Rightarrow> nat option" where
  "active_process procs s =
    Option.bind (stack_active (ipc_stack s)) (\<lambda>c. find_process_index procs (msg_handle (cn_msg c)))"

definition reprogram :: "'d ipc_platform \<Rightarrow> 'd ipc_process list \<Rightarrow> 'd spm_ipc \<Rightarrow> 'd spm_ipc" where
  "reprogram plat procs s =
    (case active_process procs s of Some i \<Rightarrow> apply_mpu_config plat procs i s | None \<Rightarrow> s)"

lemma get_last_eq:
  assumes "ipc_ok procs s"
  shows "get_last_process_index procs s = (ipc_pop procs s, active_process procs (ipc_pop procs s))"
proof -
  let ?st = "mx_value (si_state s)"
  let ?a = "ca_pop_connection (ist_connections ?st)"
  have l: "\<not> mx_lock (si_state s)" and w: "ca_wf (ist_connections ?st)"
    using assms by (auto simp: ipc_ok_def)
  have w': "ca_wf ?a" using ca_pop_refines[OF w] by simp
  have "(case ca_peek_active ?a of Inl _ \<Rightarrow> None
      | Inr conn \<Rightarrow> find_process_index procs (msg_handle (cn_msg conn))) =
    Option.bind (stack_active (ca_stack ?a)) (\<lambda>c. find_process_index procs (msg_handle (cn_msg c)))"
    unfolding ca_peek_refines[OF w', symmetric] by (cases "ca_peek_active ?a") simp_all
  then show ?thesis
    by (simp add: get_last_process_index_def ipc_pop_def active_process_def ipc_stack_def
        ipc_try_lock_free[OF l] Let_def)
qed

lemma reprogram_keeps:
  assumes "ipc_ok procs s"
  shows "ipc_ok procs (reprogram plat procs s)" "ipc_stack (reprogram plat procs s) = ipc_stack s"
    "ipc_init_done (reprogram plat procs s) = ipc_init_done s"
  using apply_mpu_config_keeps[OF assms] assms
  by (auto simp: reprogram_def split: option.split)

lemma ipc_push_call:
  assumes "ipc_push procs c s = (s1, Inr p)" "\<And>q. q = call_body plat procs (cn_msg c) p s1 \<Longrightarrow> ipc_ok procs (fst q)"
  shows "ipc_call plat procs c s =
      (reprogram plat procs (ipc_pop procs (fst (call_body plat procs (cn_msg c) p s1))),
       snd (call_body plat procs (cn_msg c) p s1))"
proof -
  obtain i where i: "find_process_index procs (msg_handle (cn_msg c)) = Some i"
    using assms(1) by (auto simp: ipc_push_def split: option.splits)
  have il: "i < length procs" using find_process_index_Some[OF i] by simp
  obtain b where b: "p = (i, b)" "ipc_try_lock (enter_state i c) s = (s1, Inr (Inr b))"
    using assms(1) i by (auto simp: ipc_push_def split: prod.splits sum.splits)
  obtain s2 r where r: "call_body plat procs (cn_msg c) p s1 = (s2, r)"
    by (cases "call_body plat procs (cn_msg c) p s1")
  have pc: "pr_call (procs ! i) (cn_msg c) (if b then pr_init (procs ! i) (apply_mpu_config plat procs i s1)
      else apply_mpu_config plat procs i s1) = (s2, r)"
    using r b by (cases b) (simp_all add: call_body_def Let_def)
  have "ipc_ok procs s2" using assms(2) r by simp
  then show ?thesis
    using b i il pc r
    by (simp add: ipc_call_def Let_def list_get_def get_last_eq reprogram_def split del: if_split)
qed

lemma call_body_keeps:
  assumes "processes_keep procs" "fst p < length procs" "ipc_ok procs s"
    "call_body plat procs msg p s = (s', r)"
  shows "ipc_ok procs s' \<and> length (ipc_stack s') = length (ipc_stack s) \<and>
    butlast (ipc_stack s') = butlast (ipc_stack s)"
proof -
  let ?s1 = "apply_mpu_config plat procs (fst p) s"
  let ?s2 = "if snd p then pr_init (procs ! fst p) ?s1 else ?s1"
  note k = apply_mpu_config_keeps[OF assms(3), of plat "fst p"]
  have 2: "ipc_ok procs ?s2 \<and> length (ipc_stack ?s2) = length (ipc_stack s) \<and>
      butlast (ipc_stack ?s2) = butlast (ipc_stack s)"
    using processes_keepD(1)[OF assms(1,2) k(1)] k(1,2) by simp
  then show ?thesis
    using processes_keepD(2)[OF assms(1,2), of ?s2 msg s' r] assms(4) by (simp add: call_body_def Let_def)
qed

lemma ipc_push_index:
  "ipc_push procs c s = (s1, Inr p) \<Longrightarrow>
    find_process_index procs (msg_handle (cn_msg c)) = Some (fst p) \<and> fst p < length procs"
  using find_process_index_Some
  by (auto simp: ipc_push_def split: option.splits prod.splits sum.splits) blast

lemma ipc_call_room:
  assumes "processes_keep procs" "ipc_ok procs s" "connection_wf c" "ipc_known procs c"
    "length (ipc_stack s) < MAX_CONNECTIONS"
  obtains s1 p s2 r where "ipc_push procs c s = (s1, Inr p)" "ipc_ok procs s1"
    "ipc_stack s1 = ipc_stack s @ [Some c]" "ipc_other s1 = ipc_other s"
    "call_body plat procs (cn_msg c) p s1 = (s2, r)" "ipc_ok procs (ipc_pop procs s2)"
    "ipc_stack (ipc_pop procs s2) = ipc_stack s"
    "ipc_call plat procs c s = (reprogram plat procs (ipc_pop procs s2), r)"
proof -
  obtain s1 p where s1: "ipc_push procs c s = (s1, Inr p)" "ipc_ok procs s1"
    "ipc_stack s1 = ipc_stack s @ [Some c]" "ipc_other s1 = ipc_other s"
    using ipc_push_ok[OF assms(2-5)] by blast
  obtain s2 r where s2: "call_body plat procs (cn_msg c) p s1 = (s2, r)"
    by (cases "call_body plat procs (cn_msg c) p s1")
  have k: "ipc_ok procs s2" "butlast (ipc_stack s2) = ipc_stack s"
    using call_body_keeps[OF assms(1) _ s1(2) s2] ipc_push_index[OF s1(1)] s1(3) by auto
  show ?thesis
    using that[OF s1 s2] ipc_pop_ok[OF k(1)] k ipc_push_call[OF s1(1), of plat] s2 by simp
qed

lemma ipc_call_full:
  assumes "ipc_ok procs s" "ipc_known procs c" "length (ipc_stack s) \<ge> MAX_CONNECTIONS"
  shows "ipc_call plat procs c s = (s, Inl InsufficientMemory)"
  using assms by (auto simp: ipc_call_def ipc_try_lock_free enter_state_def on_connections_def
      ipc_known_def ipc_views ca_add_full)

lemma ipc_call_unknown:
  "\<not> ipc_known procs c \<Longrightarrow> ipc_call plat procs c s = (s, Inl NotSupported)"
  by (simp add: ipc_call_def ipc_known_def)


lemma ipc_call_keeps:
  assumes "processes_keep procs" "connection_wf c"
  shows "keeps_stack (ipc_ok procs) ipc_stack (ipc_call plat procs c)"
proof (rule keeps_stackI)
  fix s s' r assume ok: "ipc_ok procs s" and run: "ipc_call plat procs c s = (s', r)"
  show "ipc_ok procs s' \<and> ipc_stack s' = ipc_stack s"
  proof (cases "ipc_known procs c \<and> length (ipc_stack s) < MAX_CONNECTIONS")
    case True
    then show ?thesis
      by (elim conjE ipc_call_room[OF assms(1) ok assms(2), of plat])
        (use run in \<open>auto simp: reprogram_keeps\<close>)
  next
    case False
    then show ?thesis
      using run ok ipc_call_unknown[of procs c plat s] ipc_call_full[OF ok, of c plat]
      by (cases "ipc_known procs c") auto
  qed
qed

lemma ipc_api_call_keeps:
  assumes "processes_keep procs"
  shows "keeps_stack (ipc_ok procs) ipc_stack (ipc_api_call plat procs h ctrl iv ov ca)"
proof (rule keeps_stackI)
  fix s s' r assume *: "ipc_ok procs s" "ipc_api_call plat procs h ctrl iv ov ca s = (s', r)"
  show "ipc_ok procs s' \<and> ipc_stack s' = ipc_stack s"
  proof (cases "api_connection (ipc_try_get_spm s) (si_mem s) (ip_has_permission plat s) h ctrl iv ov ca")
    case (Inr c)
    then show ?thesis
      using keeps_stackD[OF ipc_call_keeps[OF assms api_connection_wf[OF Inr]] *(1)] *(2)
      by (simp add: ipc_api_call_def)
  qed (use * in \<open>simp add: ipc_api_call_def\<close>)
qed

text \<open>A sample system: one service whose code returns at once.\<close>

definition sample_procs :: "unit ipc_process list" where
  "sample_procs = [service_process (\<lambda>s. (s, 0)) Crypto sample_vectors]"

definition sample_plat :: "unit ipc_platform" where
  "sample_plat = \<lparr>ip_has_permission = (\<lambda>_ _ _ _ _. True), ip_regions = (\<lambda>_. [])\<rparr>"

definition one_call_ipc :: "unit spm_ipc" where
  "one_call_ipc = sample_ipc\<lparr>si_state := mutex_new
    \<lparr>ist_connections = fst (ca_add_connection sample_connection ca_new), ist_init_done = [True]\<rparr>,
    si_cell := \<lparr>ol_state = once_u8 Initialized, ol_value = Some ()\<rparr>\<rparr>"

lemma svc_call_unpriv_keeps:
  assumes "keeps_frame (ipc_ok procs) ipc_stack run"
    and "ipc_ok procs s" "svc_call_unpriv run f a l t s = (s', r)"
  shows "ipc_ok procs s' \<and> frame_le (ipc_stack s) (ipc_stack s')"
proof -
  have *: "ipc_ok procs (s\<lparr>si_mem := m, si_psplim := x, si_psp := y\<rparr>) = ipc_ok procs s"
    "ipc_stack (s\<lparr>si_mem := m, si_psplim := x, si_psp := y\<rparr>) = ipc_stack s" for m x y
    by (simp_all add: ipc_ok_def ipc_stack_def)
  show ?thesis
    using assms(2,3) keeps_frameD[OF assms(1), of "s\<lparr>si_mem := _, si_psplim := _, si_psp := _\<rparr>"]
    by (auto simp: svc_call_unpriv_def Let_def * split: option.splits if_splits)
qed

lemma service_process_keeps:
  assumes "keeps_frame (ipc_ok procs) ipc_stack run"
  shows "keeps_frame (ipc_ok procs) ipc_stack (\<lambda>s. (pr_init (service_process run h v) s, ()))"
    "keeps_frame (ipc_ok procs) ipc_stack (pr_call (service_process run h v) msg)"
proof -
  have mem: "ipc_ok procs (s\<lparr>si_mem := m\<rparr>) = ipc_ok procs s" "ipc_stack (s\<lparr>si_mem := m\<rparr>) = ipc_stack s"
    for s m by (simp_all add: ipc_ok_def ipc_stack_def)
  note svc = svc_call_unpriv_keeps[OF assms]
  show "keeps_frame (ipc_ok procs) ipc_stack (\<lambda>s. (pr_init (service_process run h v) s, ()))"
  proof (rule keeps_frameI)
    fix s s' r
    assume *: "ipc_ok procs s" "(pr_init (service_process run h v) s, ()) = (s', r)"
    obtain s2 w where s2: "svc_call_unpriv run (sv_init_entry v) 0 (sv_stack_limit v)
        (sv_stack_top v) s = (s2, w)" by fastforce
    then show "ipc_ok procs s' \<and> frame_le (ipc_stack s) (ipc_stack s')"
      using svc[OF *(1) s2] *(2) by (simp add: service_process_def process_init_def)
  qed
  show "keeps_frame (ipc_ok procs) ipc_stack (pr_call (service_process run h v) msg)"
  proof (rule keeps_frameI)
    fix s s' r
    assume *: "ipc_ok procs s" "pr_call (service_process run h v) msg s = (s', r)"
    obtain m q where st: "stage_msg_mailbox v msg (si_mem s) = (m, q)"
      by (cases "stage_msg_mailbox v msg (si_mem s)")
    show "ipc_ok procs s' \<and> frame_le (ipc_stack s) (ipc_stack s')"
    proof (cases q)
      case (Inl e)
      then show ?thesis using * st by (auto simp: service_process_def process_call_def mem)
    next
      case (Inr x)
      obtain mb tp where x: "x = (mb, tp)" by (cases x)
      obtain s2 w where s2: "svc_call_unpriv run (sv_call_entry v) mb (sv_stack_limit v) tp
          (s\<lparr>si_mem := m\<rparr>) = (s2, w)" by fastforce
      then show ?thesis using * st Inr x svc[OF _ s2] mem
        by (auto simp: service_process_def process_call_def)
    qed
  qed
qed

lemma sample_procs_keep: "processes_keep sample_procs"
  using service_process_keeps[OF keeps_frame_return, of sample_procs "\<lambda>_. 0" Crypto sample_vectors]
  by (simp add: processes_keep_def sample_procs_def)

lemma one_call_ipc_ok:
  "ipc_ok sample_procs one_call_ipc" "ipc_stack one_call_ipc = [Some sample_connection]"
  "ipc_init_done one_call_ipc = [True]" "ipc_try_get_spm one_call_ipc = Inr ()"
proof -
  obtain a' where "ca_add_connection sample_connection ca_new = (a', Inr ())" "ca_wf a'"
    "ca_stack a' = [Some sample_connection]"
    by (rule ca_add_ok[of ca_new sample_connection])
      (simp_all add: ca_new_def[THEN arg_cong[where f = top_connection]] max_defs)
  then show "ipc_ok sample_procs one_call_ipc" "ipc_stack one_call_ipc = [Some sample_connection]"
    "ipc_init_done one_call_ipc = [True]" "ipc_try_get_spm one_call_ipc = Inr ()"
    by (simp_all add: one_call_ipc_def ipc_ok_def ipc_stack_def ipc_init_done_def mutex_new_def
        sample_procs_def ipc_try_get_spm_def once_try_get_def)
qed


section \<open>Properties of the dispatcher\<close>

definition own_connection :: "'d ipc_process list \<Rightarrow> nat \<Rightarrow> 'd spm_ipc \<Rightarrow> connection \<Rightarrow> bool" where
  "own_connection procs i s c \<longleftrightarrow>
    stack_active (ipc_stack s) = Some c \<and> find_process_index procs (msg_handle (cn_msg c)) = Some i"

definition mapped_region :: "connection \<Rightarrow> region_spec \<Rightarrow> bool" where
  "mapped_region c r \<longleftrightarrow>
    (\<exists>j<4. invec_mapped c ! j \<and> \<not> invec_unmapped c ! j \<and> mu_is_some (msg_in_size (cn_msg c) ! j) \<and>
       r = vec_spec (invec_base c ! j) (raw_usize (msg_in_size (cn_msg c) ! j)) ReadXN) \<or>
    (\<exists>j<4. outvec_mapped c ! j \<and> \<not> outvec_unmapped c ! j \<and> mu_is_some (msg_out_size (cn_msg c) ! j) \<and>
       r = vec_spec (outvec_base c ! j) (raw_usize (msg_out_size (cn_msg c) ! j)) ReadWriteXN)"

lemma mapped_spec_in:
  assumes "r \<in> set (mapped_spec mp um szs bs p j)"
  shows "j < length mp \<and> mp ! j \<and> \<not> um ! j \<and> mu_is_some (szs ! j) \<and>
    r = vec_spec (bs ! j) (raw_usize (szs ! j)) p"
proof -
  have flags: "list_get mp j = Some True \<and> list_get um j = Some False"
    by (rule ccontr) (use assms in \<open>simp only: mapped_spec_def if_False list.set empty_iff\<close>)
  then have m: "j < length mp \<and> mp ! j" "\<not> um ! j"
    by (auto simp: list_get_eq_Some)
  obtain mu sz b where g: "list_get szs j = Some mu" "mu_as_option mu = Some sz"
    "list_get bs j = Some b" "r = vec_spec b sz p"
    using assms flags by (auto simp: mapped_spec_def eq_commute[of "Some _"])
  then have "mu_is_some mu" "raw_usize mu = sz" by (auto simp: mu_as_option_def split: if_splits)
  then show ?thesis using m g by (auto simp: list_get_eq_Some)
qed

lemma conn_specs_mapped:
  assumes "connection_wf c" "r \<in> set (conn_specs c)"
  shows "mapped_region c r"
proof -
  note w = connection_wfD[OF assms(1)]
  from assms(2) consider (inv) j where "r \<in> set (mapped_spec (invec_mapped c) (invec_unmapped c)
      (msg_in_size (cn_msg c)) (invec_base c) ReadXN j)"
    | (outv) j where "r \<in> set (mapped_spec (outvec_mapped c) (outvec_unmapped c)
      (msg_out_size (cn_msg c)) (outvec_base c) ReadWriteXN j)"
    by (auto simp: conn_specs_def)
  then show ?thesis
  proof cases
    case inv
    show ?thesis using mapped_spec_in[OF inv] w by (auto simp: mapped_region_def)
  next
    case outv
    show ?thesis using mapped_spec_in[OF outv] w by (auto simp: mapped_region_def)
  qed
qed

text \<open>C14. Isolation of a service: after the MPU has been programmed for a process the MPU is enabled
  without background regions for unprivileged code, and each of its eight regions is disabled or
  encodes the service's ROM window (read, execute), its RAM window (read, write), a region the
  platform lists for it, or the 32-byte hull of a vector of the active connection that belongs
  to this service, is mapped and has not been released.\<close>

theorem mpu_grants_only_own_memory:
  assumes "ipc_ok procs s" "i < length procs" "pr_vectors (procs ! i) = Some v" "k < 8"
    and "\<forall>c. own_connection procs i s c \<longrightarrow> connection_wf c"
    and m: "m = si_mpu (apply_mpu_config plat procs i s)"
  shows "mpu_ctrl m = 5 \<and>
    (mpu_rbar m (of_nat k) = 0 \<and> mpu_rlar m (of_nat k) = 0 \<or>
     (\<exists>b sz p. mpu_rbar m (of_nat k) = rc_rbar (encode_region b sz p) \<and>
        mpu_rlar m (of_nat k) = rc_rlar (encode_region b sz p) \<and>
        ((b, sz, p) \<in> set (window_specs plat (procs ! i) v) \<or>
         (\<exists>c. own_connection procs i s c \<and> mapped_region c (b, sz, p)))))"
proof -
  let ?a = "stack_active (ipc_stack s)"
  let ?c = "process_config plat procs i v ?a"
  have len: "length ?c = 8" by (simp add: process_config_def mpu_config_default_def)
  have prog: "mpu_programmed ?c m"
    unfolding m apply_mpu_config_eq[OF assms(1-3)] using mpu_programmed_configure[of ?c] len by simp
  show ?thesis
  proof (cases "?c ! k")
    case None
    then show ?thesis using prog len assms(4) by (simp add: mpu_programmed_def)
  next
    case (Some r)
    then have "Some r \<in> set ?c" using len assms(4) by (metis nth_mem)
    then obtain b sz p where sp: "(b, sz, p) \<in> set (process_specs plat procs i v ?a)"
      "r = encode_region b sz p"
      using alloc_all_regions[of r "process_specs plat procs i v ?a" "mpu_config_default 8"]
      by (auto simp: process_config_def mpu_config_default_def)
    have "(b, sz, p) \<in> set (window_specs plat (procs ! i) v) \<or>
         (\<exists>c. own_connection procs i s c \<and> mapped_region c (b, sz, p))"
    proof (cases "?a")
      case None
      then show ?thesis using sp(1) by (simp add: process_specs_def)
    next
      case c: (Some c)
      then show ?thesis
        using sp(1) assms(5) conn_specs_mapped[of c "(b, sz, p)"]
        by (auto simp: process_specs_def own_connection_def split: if_splits)
    qed
    then show ?thesis using prog len assms(4) Some sp(2) by (auto simp: mpu_programmed_def)
  qed
qed

theorem mpu_grants_only_own_memory_witness:
  "mpu_ctrl (si_mpu (apply_mpu_config sample_plat sample_procs 0 one_call_ipc)) = 5"
proof -
  have "pr_vectors (sample_procs ! 0) = Some sample_vectors"
    by (simp add: sample_procs_def service_process_def)
  moreover have "\<forall>c. own_connection sample_procs 0 one_call_ipc c \<longrightarrow> connection_wf c"
    by (simp add: own_connection_def one_call_ipc_ok(2) stack_active_def)
  ultimately show ?thesis
    using mpu_grants_only_own_memory[OF one_call_ipc_ok(1), of 0 sample_vectors 0 _ sample_plat]
    by (simp add: sample_procs_def)
qed

lemma alloc_all_keeps_some: "c ! k = Some r \<Longrightarrow> k < length c \<Longrightarrow> alloc_all specs c ! k = Some r"
proof (induction specs arbitrary: c)
  case (Cons x specs)
  obtain b sz p where x: "x = (b, sz, p)" by (cases x)
  obtain c' q where a: "allocate_region b sz p c = (c', q)" by (cases "allocate_region b sz p c")
  have "c' ! k = Some r \<and> k < length c'"
  proof (cases q)
    case (Inl e)
    then show ?thesis using allocate_region_fail a Cons.prems by blast
  next
    case (Inr u)
    then obtain j where "c' = c[j := Some (encode_region b sz p)]" "c ! j = None"
      using allocate_region_Inr a by blast
    then show ?thesis using Cons.prems by (cases "j = k") simp_all
  qed
  then show ?case using Cons.IH a by (simp add: x alloc_all_Cons)
qed (simp add: alloc_all_def)

definition window_ok :: "usize \<Rightarrow> u32 \<Rightarrow> bool" where
  "window_ok b sz \<longleftrightarrow> b AND 0x1F = 0 \<and> (b + sz) AND 0x1F = 0 \<and> 32 \<le> sz \<and>
    unat b + unat sz < 4294967296"

lemma windows_first:
  assumes "window_ok b1 s1" "window_ok b2 s2"
    and "unat b1 + unat s1 \<le> unat b2 \<or> unat b2 + unat s2 \<le> unat b1"
  shows "alloc_all ((b1, s1, p1) # (b2, s2, p2) # specs) (mpu_config_default 8) ! 0 = Some (encode_region b1 s1 p1)"
    "alloc_all ((b1, s1, p1) # (b2, s2, p2) # specs) (mpu_config_default 8) ! 1 = Some (encode_region b2 s2 p2)"
proof -
  note ex = encode_region_exact[of b1 s1 p1]
  have w: "b1 AND 0x1F = 0" "(b1 + s1) AND 0x1F = 0" "32 \<le> s1" "unat b1 + unat s1 < 4294967296"
    "b2 AND 0x1F = 0" "(b2 + s2) AND 0x1F = 0" "32 \<le> s2" "unat b2 + unat s2 < 4294967296"
    using assms(1,2) by (simp_all add: window_ok_def)
  have d: "mpu_config_default 8 = None # None # replicate 6 None"
    by (simp add: mpu_config_default_def numeral_eq_Suc)
  have r1: "allocate_region b1 s1 p1 (mpu_config_default 8) =
      (Some (encode_region b1 s1 p1) # None # replicate 6 None, Inr ())"
    using w by (simp add: d allocate_region_eq not_less overlaps_any_iff)
  have "\<not> (b2 < b1 + s1 \<and> b1 < b2 + s2)"
    using assms(3) w(4,8) by (auto simp: word_less_nat_alt unat_add_fits)
  then have no: "\<not> overlaps_any b2 (b2 + s2) (Some (encode_region b1 s1 p1) # None # replicate 6 None)"
    using ex w by (simp add: overlaps_any_iff)
  have r2: "allocate_region b2 s2 p2 (Some (encode_region b1 s1 p1) # None # replicate 6 None) =
      (Some (encode_region b1 s1 p1) # Some (encode_region b2 s2 p2) # replicate 6 None, Inr ())"
    unfolding allocate_region_eq using w no by (simp add: not_less)
  show "alloc_all ((b1, s1, p1) # (b2, s2, p2) # specs) (mpu_config_default 8) ! 0 = Some (encode_region b1 s1 p1)"
    "alloc_all ((b1, s1, p1) # (b2, s2, p2) # specs) (mpu_config_default 8) ! 1 = Some (encode_region b2 s2 p2)"
    by (simp_all add: alloc_all_Cons r1 r2 alloc_all_keeps_some)
qed

text \<open>A service always has its windows: when its ROM and RAM windows are 32-byte aligned, not
  empty, inside the address space and apart, the first two MPU regions are exactly those windows,
  whatever the platform and the connections add.\<close>

theorem service_windows_always_granted:
  assumes "ipc_ok procs s" "i < length procs" "pr_vectors (procs ! i) = Some v"
    and "window_ok (sv_rom_start v) (mr_size (rom_region v))"
    and "window_ok (sv_ram_start v) (mr_size (ram_region v))"
    and "unat (sv_rom_limit v) \<le> unat (sv_ram_start v) \<or> unat (sv_ram_limit v) \<le> unat (sv_rom_start v)"
    and m: "m = si_mpu (apply_mpu_config plat procs i s)"
  shows "mpu_rbar m 0 = rc_rbar (encode_region (sv_rom_start v) (mr_size (rom_region v)) ReadExecute) \<and>
    mpu_rlar m 0 = rc_rlar (encode_region (sv_rom_start v) (mr_size (rom_region v)) ReadExecute) \<and>
    mpu_rbar m 1 = rc_rbar (encode_region (sv_ram_start v) (mr_size (ram_region v)) ReadWriteXN) \<and>
    mpu_rlar m 1 = rc_rlar (encode_region (sv_ram_start v) (mr_size (ram_region v)) ReadWriteXN) \<and>
    region_end (encode_region (sv_rom_start v) (mr_size (rom_region v)) ReadExecute) = sv_rom_limit v \<and>
    region_end (encode_region (sv_ram_start v) (mr_size (ram_region v)) ReadWriteXN) = sv_ram_limit v"
proof -
  let ?c = "process_config plat procs i v (stack_active (ipc_stack s))"
  have len: "length ?c = 8" by (simp add: process_config_def mpu_config_default_def)
  have prog: "mpu_programmed ?c m"
    unfolding m apply_mpu_config_eq[OF assms(1-3)] using mpu_programmed_configure[of ?c] len by simp
  have sz: "mr_size (rom_region v) = sv_rom_limit v - sv_rom_start v \<and> sv_rom_start v \<le> sv_rom_limit v"
    "mr_size (ram_region v) = sv_ram_limit v - sv_ram_start v \<and> sv_ram_start v \<le> sv_ram_limit v"
    using assms(4,5) by (auto simp: window_ok_def rom_region_def ram_region_def saturating_sub_def
        split: if_splits)
  then have lim: "unat (sv_rom_start v) + unat (mr_size (rom_region v)) = unat (sv_rom_limit v)"
    "unat (sv_ram_start v) + unat (mr_size (ram_region v)) = unat (sv_ram_limit v)"
    by (auto simp: unat_sub_le word_le_nat_alt)
  have b: "mr_base (rom_region v) = sv_rom_start v" "mr_base (ram_region v) = sv_ram_start v"
    by (simp_all add: rom_region_def ram_region_def)
  have "?c ! 0 = Some (encode_region (sv_rom_start v) (mr_size (rom_region v)) ReadExecute)"
    "?c ! 1 = Some (encode_region (sv_ram_start v) (mr_size (ram_region v)) ReadWriteXN)"
    unfolding process_config_def process_specs_def window_specs_def append_Cons b
    by (rule windows_first[OF assms(4,5)]; use assms(6) lim in simp)+
  then have regs: "mpu_rbar m 0 = rc_rbar (encode_region (sv_rom_start v) (mr_size (rom_region v)) ReadExecute)"
    "mpu_rlar m 0 = rc_rlar (encode_region (sv_rom_start v) (mr_size (rom_region v)) ReadExecute)"
    "mpu_rbar m 1 = rc_rbar (encode_region (sv_ram_start v) (mr_size (ram_region v)) ReadWriteXN)"
    "mpu_rlar m 1 = rc_rlar (encode_region (sv_ram_start v) (mr_size (ram_region v)) ReadWriteXN)"
    using mpu_programmedD[OF prog, of 0] mpu_programmedD[OF prog, of 1] len by simp_all
  have "region_end (encode_region (sv_rom_start v) (mr_size (rom_region v)) ReadExecute) = sv_rom_limit v"
    using assms(4) sz(1) unfolding window_ok_def by (subst encode_region_exact(2)) simp_all
  moreover have "region_end (encode_region (sv_ram_start v) (mr_size (ram_region v)) ReadWriteXN) = sv_ram_limit v"
    using assms(5) sz(2) unfolding window_ok_def by (subst encode_region_exact(2)) simp_all
  ultimately show ?thesis using regs by simp
qed

theorem service_windows_always_granted_witness:
  "mpu_rbar (si_mpu (apply_mpu_config sample_plat sample_procs 0 one_call_ipc)) 1 =
    rc_rbar (encode_region 0x20000000 0x2000 ReadWriteXN)"
proof -
  have v: "pr_vectors (sample_procs ! 0) = Some sample_vectors"
    by (simp add: sample_procs_def service_process_def)
  show ?thesis
    using service_windows_always_granted[OF one_call_ipc_ok(1) _ v _ _ _ refl, of sample_plat]
    by (simp add: sample_procs_def sample_vectors_def rom_region_def ram_region_def
        saturating_sub_def window_ok_def)
qed


lemma ipc_call_restores_core:
  assumes "processes_keep procs" "ipc_ok procs s"
    and "ipc_api_call plat procs h ctrl iv ov ca s = (s', r)"
  shows "ipc_ok procs s' \<and> ipc_stack s' = ipc_stack s \<and>
    (\<forall>i v. active_process procs s = Some i \<longrightarrow> pr_vectors (procs ! i) = Some v \<longrightarrow>
       s' = s \<or> mpu_programmed (process_config plat procs i v (stack_active (ipc_stack s))) (si_mpu s'))"
proof -
  have keep: "ipc_ok procs s' \<and> ipc_stack s' = ipc_stack s"
    using keeps_stackD[OF ipc_api_call_keeps[OF assms(1)] assms(2,3)] .
  have "s' = s \<or> mpu_programmed (process_config plat procs i v (stack_active (ipc_stack s))) (si_mpu s')"
    if i: "active_process procs s = Some i" and v: "pr_vectors (procs ! i) = Some v" for i v
  proof (cases "api_connection (ipc_try_get_spm s) (si_mem s) (ip_has_permission plat s) h ctrl iv ov ca")
    case (Inl e)
    then show ?thesis using assms(3) by (simp add: ipc_api_call_def)
  next
    case (Inr c)
    have run: "ipc_call plat procs c s = (s', r)" using assms(3) Inr by (simp add: ipc_api_call_def)
    show ?thesis
    proof (cases "ipc_known procs c \<and> length (ipc_stack s) < MAX_CONNECTIONS")
      case True
      then obtain s2 where t: "ipc_ok procs (ipc_pop procs s2)"
        "ipc_stack (ipc_pop procs s2) = ipc_stack s" "s' = reprogram plat procs (ipc_pop procs s2)"
        using ipc_call_room[OF assms(1,2) api_connection_wf[OF Inr], of plat] run by (metis prod.inject)
      have a: "active_process procs (ipc_pop procs s2) = Some i"
        using i t(2) by (simp add: active_process_def)
      have il: "i < length procs"
        using i find_process_index_Some by (auto simp: active_process_def bind_eq_Some_conv)
      let ?c = "process_config plat procs i v (stack_active (ipc_stack s))"
      have "s' = (ipc_pop procs s2)\<lparr>si_mpu := enable_mpu (configure_mpu ?c (si_mpu (ipc_pop procs s2)))\<rparr>"
        using t a apply_mpu_config_eq[OF t(1) il v, of plat] by (simp add: reprogram_def)
      then show ?thesis using mpu_programmed_configure[of ?c]
        by (simp add: process_config_def mpu_config_default_def)
    next
      case False
      then show ?thesis
        using run assms(2) ipc_call_unknown[of procs c plat s] ipc_call_full[OF assms(2), of c plat]
        by (cases "ipc_known procs c") auto
    qed
  qed
  then show ?thesis using keep by blast
qed

text \<open>C15. Balance of the isolated build: with processes that use the stack only as a service may, a call
  through the API leaves the connection stack as it was and the lock free, whatever it returns,
  and the MPU programmed for the process that was running before the call.\<close>

theorem ipc_call_restores:
  assumes "processes_keep procs" "ipc_ok procs s"
    and "ipc_api_call plat procs h ctrl iv ov ca s = (s', r)"
  shows "ipc_ok procs s' \<and> ipc_stack s' = ipc_stack s \<and>
    (\<forall>i v. active_process procs s = Some i \<longrightarrow> pr_vectors (procs ! i) = Some v \<longrightarrow>
       s' = s \<or> mpu_programmed (process_config plat procs i v (stack_active (ipc_stack s))) (si_mpu s'))"
  by (rule ipc_call_restores_core[OF assms])

theorem ipc_call_restores_witness:
  "\<exists>s' r. ipc_api_call sample_plat sample_procs Crypto (ctrl_new 1 0 True 0 True) 0 0
      SECURE_UNPRIVILEGED one_call_ipc = (s', r) \<and> ipc_stack s' = [Some sample_connection]"
proof -
  obtain s' r where run: "ipc_api_call sample_plat sample_procs Crypto (ctrl_new 1 0 True 0 True) 0 0
      SECURE_UNPRIVILEGED one_call_ipc = (s', r)" by fastforce
  show ?thesis
    using ipc_call_restores[OF sample_procs_keep one_call_ipc_ok(1) run] run one_call_ipc_ok(2) by auto
qed

lemma find_process_index_update:
  "i < length procs \<Longrightarrow> pr_handle p = pr_handle (procs ! i) \<Longrightarrow>
    find_process_index (procs[i := p]) h = find_process_index procs h"
proof (induction procs arbitrary: i)
  case (Cons q ps)
  then show ?case by (cases i) auto
qed simp

lemma apply_mpu_config_update:
  assumes "i < length procs" "pr_handle p = pr_handle (procs ! i)" "pr_vectors p = pr_vectors (procs ! i)"
  shows "apply_mpu_config plat (procs[i := p]) j s = apply_mpu_config plat procs j s"
proof -
  have f: "find_process_index (procs[i := p]) = find_process_index procs"
    using find_process_index_update[OF assms(1,2)] by (intro ext)
  have aa: "allocate_active (procs[i := p]) j = allocate_active procs j"
    by (intro ext) (simp add: allocate_active_def f split: sum.split)
  have lg: "list_get (procs[i := p]) j = (if j = i then Some p else list_get procs j)"
    using assms(1) by (simp add: list_get_def)
  show ?thesis
  proof (cases "j = i")
    case True
    show ?thesis unfolding apply_mpu_config_def aa lg using assms True
      by (cases "pr_vectors (procs ! i)") simp_all
  next
    case False
    then show ?thesis unfolding apply_mpu_config_def aa lg by simp
  qed
qed

text \<open>A service is initialised once: the locked step that admits a call reports that the service must
  be initialised exactly when it never was, and marks it in the same step; after that the call
  behaves the same whatever the initialisation code is.\<close>

theorem initialised_once:
  assumes "ipc_ok procs s" "connection_wf c" "length (ipc_stack s) < MAX_CONNECTIONS"
    and "find_process_index procs (msg_handle (cn_msg c)) = Some i"
  shows "\<exists>s1. ipc_try_lock (enter_state i c) s = (s1, Inr (Inr (\<not> ipc_init_done s ! i))) \<and>
      ipc_init_done s1 = (ipc_init_done s)[i := True] \<and>
    (ipc_init_done s ! i \<longrightarrow>
      ipc_call plat (procs[i := (procs ! i)\<lparr>pr_init := g\<rparr>]) c s = ipc_call plat procs c s)"
proof -
  let ?st = "mx_value (si_state s)"
  have a: "ca_wf (ist_connections ?st)" "\<not> mx_lock (si_state s)"
    "length (ist_init_done ?st) = length procs"
    using assms(1) by (auto simp: ipc_ok_def)
  have i: "i < length procs" using find_process_index_Some[OF assms(4)] by simp
  obtain a' where add: "ca_add_connection c (ist_connections ?st) = (a', Inr ())"
    using ca_add_ok[OF a(1) assms(2)] assms(3) by (metis length_ca_stack ipc_stack_def)
  have up: "(ist_init_done ?st)[i := True] = ist_init_done ?st" if "ist_init_done ?st ! i"
    using that by (metis list_update_id)
  obtain s1 where s1: "ipc_try_lock (enter_state i c) s = (s1, Inr (Inr (\<not> ipc_init_done s ! i)))"
    "ipc_init_done s1 = (ipc_init_done s)[i := True]"
    using add a i up
    by (cases "ist_init_done ?st ! i")
      (auto simp: ipc_try_lock_free enter_state_def on_connections_def mark_init_done_def
        ipc_init_done_def)
  let ?ps = "procs[i := (procs ! i)\<lparr>pr_init := g\<rparr>]"
  have f: "find_process_index ?ps = find_process_index procs"
    using find_process_index_update[OF i] by (intro ext) simp
  have ap: "apply_mpu_config plat ?ps = apply_mpu_config plat procs"
    using apply_mpu_config_update[OF i] by (intro ext) simp
  have gl: "get_last_process_index ?ps = get_last_process_index procs"
    unfolding get_last_process_index_def f by (rule refl)
  have "ipc_call plat ?ps c s = ipc_call plat procs c s" if "ipc_init_done s ! i"
    unfolding ipc_call_def f ap gl using s1(1) that assms(4) i
    by (simp add: list_get_def del: find_process_index.simps)
  then show ?thesis using s1 by blast
qed

theorem initialised_once_witness:
  "\<exists>s1. ipc_try_lock (enter_state 0 sample_connection) one_call_ipc = (s1, Inr (Inr False))"
proof -
  have "find_process_index sample_procs (msg_handle (cn_msg sample_connection)) = Some 0"
    by (simp add: sample_procs_def service_process_def sample_connection_def psa_msg_new_def)
  then show ?thesis
    using initialised_once[OF one_call_ipc_ok(1) connection_wf_sample, of 0 sample_plat id]
    by (auto simp: one_call_ipc_ok(2,3) MAX_CONNECTIONS_def)
qed


text \<open>A vector whose 32-byte hull meets the hull of a vector already mapped is silently left out of
  the MPU configuration: the service is told the access succeeded and is given the slice, but
  has no region for it.\<close>

theorem shared_granule_not_granted:
  assumes "0 < n1" "unat b1 + unat n1 + 31 < 4294967296" "0 < n2" "unat b2 + unat n2 + 31 < 4294967296"
    and "unat b1 div 32 < (unat b2 + unat n2 + 31) div 32" "unat b2 div 32 < (unat b1 + unat n1 + 31) div 32"
    and "vec_spec b1 n1 p1 = (b', sz', q)" "Some (encode_region b' sz' q) \<in> set c"
  shows "allocate_vec b2 n2 p2 c = c"
  by (rule allocate_vec_overlap[OF assms])

theorem shared_granule_not_granted_witness:
  "allocate_vec 0x20000008 8 ReadXN [Some (encode_region 0x20000000 32 ReadXN), None] =
    [Some (encode_region 0x20000000 32 ReadXN), None]"
  by (rule shared_granule_not_granted[of 8 "0x20000000" 8 "0x20000008" ReadXN "0x20000000" 32 ReadXN])
    (simp_all add: vec_spec_def)

end
