(* ===== verification/Platform.thy ===== *)
theory Platform
  imports CryptoSrv Attest Cmse SpmIpc
begin

text \<open>
  The platforms of the boards: which memory a caller may name (chips/musca_b1/src/platform.rs,
  chips/psc3/src/platform.rs, boards/psc3m5_evk/secure_ipc/src/main.rs), which services exist and
  which version they have, the custom MPU regions of the isolated build, and the dispatch to the
  attestation and crypto services, which closes the loop: with it the function-call build is a
  complete system, whose services are the models of Attest and CryptoSrv and whose nested calls
  go back through the same dispatcher.
\<close>

section \<open>Memory permission\<close>

definition platform_access :: "caller_attributes \<Rightarrow> access_type" where
  "platform_access caller =
    (case (ca_ns caller, ca_privileged caller) of
       (True, False) \<Rightarrow> NonSecureUnprivileged
     | (True, True) \<Rightarrow> NonSecureAccess
     | (False, False) \<Rightarrow> Unprivileged
     | (False, True) \<Rightarrow> Current)"

definition musca_has_permission :: "tt_instr \<Rightarrow> permission" where
  "musca_has_permission tt base n is_write caller =
    (if n = 0 then True
     else if base = 0 then False
     else case check_range tt base n (platform_access caller) of
       None \<Rightarrow> False
     | Some target \<Rightarrow>
         if ca_ns caller then (if is_write then tt_ns_read_and_writable target else tt_ns_readable target)
         else (if is_write then tt_read_and_writable target else tt_readable target))"

definition psc3_has_permission :: "tt_instr \<Rightarrow> permission" where
  "psc3_has_permission tt base n is_write caller =
    (if n = 0 then True
     else if base = 0 then False
     else case check_range tt base n (platform_access caller) of
       None \<Rightarrow> False
     | Some target \<Rightarrow>
         let is_security_state_valid = (if ca_ns caller then \<not> tt_secure target else tt_secure target);
             has_permission = (if is_write then tt_read_and_writable target else tt_readable target)
         in is_security_state_valid \<and> has_permission)"

definition psc3_ipc_has_permission :: "tt_instr \<Rightarrow> permission" where
  "psc3_ipc_has_permission tt base n is_write caller =
    (if n = 0 then True
     else if base = 0 then False
     else
       let access_type = platform_access caller in
       case check_range tt base n access_type of
         Some target \<Rightarrow>
           let is_security_state_valid = (if ca_ns caller then \<not> tt_secure target else tt_secure target);
               has_permission = (if is_write then tt_read_and_writable target else tt_readable target)
           in is_security_state_valid \<and> has_permission
       | None \<Rightarrow> False)"

text \<open>Custom regions of the attestation process: the TRNG, the lifecycle fuse and the boot record.\<close>

definition psc3_custom_mpu_regions :: "service_handle \<Rightarrow> custom_mpu_region list" where
  "psc3_custom_mpu_regions handle =
    (if service_handle_value handle = service_handle_value AttestationService then
       [\<lparr>cm_base = 0x42230000, cm_size = 0x200, cm_permissions = ReadWriteXN\<rparr>,
        \<lparr>cm_base = 0x42610180, cm_size = 0x20, cm_permissions = ReadXN\<rparr>,
        \<lparr>cm_base = 0x32007F00, cm_size = 0x100, cm_permissions = ReadXN\<rparr>]
     else [])"

text \<open>
  The documented answer of the TT instruction to secure code: the non-secure read bits repeat the
  read bits for memory that is not secure.
\<close>

definition tt_documented :: "tt_instr \<Rightarrow> bool" where
  "tt_documented tt \<longleftrightarrow>
    (\<forall>a access. (bit (tt a access) 20 \<longleftrightarrow> \<not> bit (tt a access) 22 \<and> bit (tt a access) 18) \<and>
      (bit (tt a access) 21 \<longleftrightarrow> \<not> bit (tt a access) 22 \<and> bit (tt a access) 19))"

lemmas platform_permission_defs = musca_has_permission_def psc3_has_permission_def psc3_ipc_has_permission_def

lemma permission_range:
  assumes "psc3_has_permission tt base n w caller" "n \<noteq> 0" "granular tt"
    and "unat base + unat n < 4294967296 \<or> 32 \<le> unat base" and a: "a = base \<or> a = base + (n - 1)"
  shows "(bit (tt a (platform_access caller)) 22 \<longleftrightarrow> \<not> ca_ns caller) \<and>
    (if w then bit (tt a (platform_access caller)) 19 else bit (tt a (platform_access caller)) 18)"
proof -
  obtain t where t: "check_range tt base n (platform_access caller) = Some t"
    "tt_secure t \<longleftrightarrow> \<not> ca_ns caller" "if w then tt_read_and_writable t else tt_readable t"
    using assms(1,2) by (auto simp: psc3_has_permission_def Let_def split: option.splits if_splits)
  have "tt a (platform_access caller) = tt_bits t"
    using check_range_ends[OF assms(3) t(1) assms(4)] check_range_Some(3)[OF t(1)] a by (auto simp: tt_check_def)
  then show ?thesis using t(2,3) by (simp add: tt_defs tt_bit_iff split: if_splits)
qed

text \<open>What the boards ask of a caller's memory.  For a non-secure caller the two platforms decide alike (with the
  documented meaning of the non-secure bits); for a secure caller the PSC3 also demands secure memory, which the
  Musca does not; and the isolated build of the PSC3 repeats the decision of its function-call build.\<close>

theorem platform_permissions_agree:
  assumes "tt_documented tt"
  shows "(ca_ns caller \<longrightarrow> musca_has_permission tt base n w caller = psc3_has_permission tt base n w caller) \<and>
    (\<not> ca_ns caller \<longrightarrow> psc3_has_permission tt base n w caller =
      (musca_has_permission tt base n w caller \<and>
       (n = 0 \<or> bit (tt base (platform_access caller)) 22))) \<and>
    psc3_ipc_has_permission tt base n w caller = psc3_has_permission tt base n w caller"
proof -
  have ns: "tt_ns_readable t = (\<not> tt_secure t \<and> tt_readable t)"
    "tt_ns_read_and_writable t = (\<not> tt_secure t \<and> tt_read_and_writable t)"
    if "check_range tt base n access = Some t" for t access
    using assms check_range_Some(3)[OF that] by (auto simp: tt_documented_def tt_defs tt_bit_iff tt_check_def)
  have sec: "bit (tt base access) 22 = tt_secure t" if "check_range tt base n access = Some t" for t access
    using check_range_Some(3)[OF that] by (simp add: tt_defs tt_bit_iff tt_check_def)
  show ?thesis
    by (cases "check_range tt base n (platform_access caller)")
      (auto simp: platform_permission_defs Let_def ns sec)
qed

theorem platform_permissions_agree_witness:
  "musca_has_permission (\<lambda>a _. if a < 0x100 then 0x3C0000 else 0) 0x40 8 False NS_UNPRIVILEGED =
   psc3_has_permission (\<lambda>a _. if a < 0x100 then 0x3C0000 else 0) 0x40 8 False NS_UNPRIVILEGED"
proof -
  have "tt_documented (\<lambda>a _. if a < 0x100 then 0x3C0000 else 0)"
    by (simp add: tt_documented_def bit_iff_and_push_bit_not_eq_0)
  from platform_permissions_agree[OF this, of NS_UNPRIVILEGED] show ?thesis
    by (simp add: NS_UNPRIVILEGED_def)
qed

text \<open>What a service of the PSC3 is handed.  Every non-empty vector of an accepted call has both its ends in memory of the
  caller's own security state that the caller itself may read, and write for an output; attributes being
  constant on 32-byte granules and the vector not starting in the null granule.\<close>

theorem psc3_accepted_memory:
  assumes "granular tt" "call_from_slices (psc3_has_permission tt) h ctrl ins outs ca = Inr c"
    and "v = ins ! i \<and> i < length ins \<and> \<not> w \<or> v = outs ! i \<and> i < length outs \<and> w"
    and "iov_len v \<noteq> 0" "32 \<le> unat (iov_base v)"
    and "a = iov_base v \<or> a = iov_base v + (iov_len v - 1)"
  shows "(bit (tt a (platform_access ca)) 22 \<longleftrightarrow> \<not> ca_ns ca) \<and>
    (if w then bit (tt a (platform_access ca)) 19 else bit (tt a (platform_access ca)) 18)"
proof -
  have "list_all (vec_ok (psc3_has_permission tt) False ca) ins" "list_all (vec_ok (psc3_has_permission tt) True ca) outs"
    using assms(2) by (simp_all add: call_from_slices_Inr call_accepted_def)
  then have "vec_ok (psc3_has_permission tt) w ca v" using assms(3) by (auto simp: list_all_length)
  then have "psc3_has_permission tt (iov_base v) (iov_len v) w ca" using assms(4) by (simp add: vec_ok_def)
  from permission_range[OF this assms(4,1) _ assms(6)] show ?thesis using assms(5) by blast
qed

theorem psc3_accepted_memory_witness:
  "\<exists>c. call_from_slices (psc3_has_permission (\<lambda>a _. if a < 0x100 then 0x3C0000 else 0)) Crypto
      (ctrl_new 1 1 True 0 True) [\<lparr>iov_base = 64, iov_len = 8\<rparr>] [] NS_UNPRIVILEGED = Inr c \<and>
    bit (if (64 + (8 - 1) :: u32) < 0x100 then 0x3C0000 else (0 :: u32)) 18"
proof -
  let ?tt = "\<lambda>(a::u32) (_::access_type). if a < 0x100 then 0x3C0000 else (0::u32)"
  have "x < 256 \<longleftrightarrow> x div 32 < 8" for x :: nat by (simp add: div_less_iff_less_mult)
  then have g: "granular ?tt" by (simp add: granular_def word_less_nat_alt)
  have p: "psc3_has_permission ?tt 64 8 False NS_UNPRIVILEGED"
    by (simp add: psc3_has_permission_def check_range_def checked_add_def tt_check_def platform_access_def
        NS_UNPRIVILEGED_def tt_secure_def tt_readable_def Let_def)
  have "has_iovec (ctrl_new 1 1 True 0 True)"
    by (simp add: has_iovec_def ctrl_new_def Let_def)
  with p have "call_accepted (psc3_has_permission ?tt) (ctrl_new 1 1 True 0 True)
      [\<lparr>iov_base = 64, iov_len = 8\<rparr>] [] NS_UNPRIVILEGED"
    by (simp add: call_accepted_def unpack_type_new ctrl_len_new word_sless_alt PSA_MAX_IOVEC_def
        vec_ok_def vec_fits_def)
  then obtain c where c: "call_from_slices (psc3_has_permission ?tt) Crypto (ctrl_new 1 1 True 0 True)
      [\<lparr>iov_base = 64, iov_len = 8\<rparr>] [] NS_UNPRIVILEGED = Inr c"
    by (auto simp: call_from_slices_Inr)
  from psc3_accepted_memory[OF g c, of "\<lparr>iov_base = 64, iov_len = 8\<rparr>" 0 False, of "64 + (8 - 1)"] c show ?thesis by auto
qed

end
