(* ===== verification/Sau.thy ===== *)
theory Sau
  imports Regs
begin

text \<open>
  The security attribution unit driver (libraries/cortex_m/src/sau.rs).  The base and limit
  registers are banked by the region number register, as the architecture has them; set_region
  validates, then writes the selected bank, and get_region reads it back.
\<close>

definition SAU_CTRL_ENABLE :: field where "SAU_CTRL_ENABLE = (0, 1)"
definition SAU_TYPE_SREGION :: field where "SAU_TYPE_SREGION = (0, 8)"
definition SAU_RNR_REGION :: field where "SAU_RNR_REGION = (0, 8)"
definition SAU_RBAR_BADDR :: field where "SAU_RBAR_BADDR = (5, 27)"
definition SAU_RLAR_LADDR :: field where "SAU_RLAR_LADDR = (5, 27)"
definition SAU_RLAR_NSC :: field where "SAU_RLAR_NSC = (1, 1)"
definition SAU_RLAR_ENABLE :: field where "SAU_RLAR_ENABLE = (0, 1)"

record sau_regs =
  sau_ctrl :: u32
  sau_type :: u32
  sau_rnr :: u32
  sau_rbar :: "u32 \<Rightarrow> u32"
  sau_rlar :: "u32 \<Rightarrow> u32"

datatype sau_attribute = Secure | NonSecureCallable | NonSecure

record sau_region =
  base_address :: u32
  limit_address :: u32
  sau_attr :: sau_attribute

datatype sau_error = RegionNumberTooBig | WrongBaseAddress | WrongLimitAddress

definition region_numbers :: "sau_regs \<Rightarrow> u8" where
  "region_numbers s = ucast (field_read SAU_TYPE_SREGION (sau_type s))"

definition sau_enable :: "sau_regs \<Rightarrow> sau_regs" where
  "sau_enable s = s\<lparr>sau_ctrl := reg_modify (field_set SAU_CTRL_ENABLE) (sau_ctrl s)\<rparr>"

primrec attribute_fields :: "sau_attribute \<Rightarrow> field_value" where
  "attribute_fields Secure = fv_plus (field_clear SAU_RLAR_NSC) (field_clear SAU_RLAR_ENABLE)"
| "attribute_fields NonSecureCallable =
    fv_plus (field_set SAU_RLAR_NSC) (field_set SAU_RLAR_ENABLE)"
| "attribute_fields NonSecure = fv_plus (field_clear SAU_RLAR_NSC) (field_set SAU_RLAR_ENABLE)"

definition set_region :: "u8 \<Rightarrow> sau_region \<Rightarrow> sau_regs \<Rightarrow> sau_regs \<times> (sau_error + unit)" where
  "set_region region_number region s =
    (if region_number \<ge> region_numbers s then (s, Inl RegionNumberTooBig)
     else if base_address region AND 0x1F \<noteq> 0 then (s, Inl WrongBaseAddress)
     else if limit_address region AND 0x1F \<noteq> 0x1F then (s, Inl WrongLimitAddress)
     else
       let s = s\<lparr>sau_rnr := fv_value (field_val SAU_RNR_REGION (ucast region_number))\<rparr>;
           s = s\<lparr>sau_rbar := (sau_rbar s)(sau_rnr s :=
                 fv_value (field_val SAU_RBAR_BADDR (drop_bit 5 (base_address region))))\<rparr>;
           rlar = fv_plus (field_val SAU_RLAR_LADDR (drop_bit 5 (limit_address region)))
                    (attribute_fields (sau_attr region));
           s = s\<lparr>sau_rlar := (sau_rlar s)(sau_rnr s := fv_value rlar)\<rparr>
       in (s, Inr ()))"

definition decode_attribute :: "u32 \<Rightarrow> sau_attribute" where
  "decode_attribute rlar =
    (case (field_is_set SAU_RLAR_ENABLE rlar, field_is_set SAU_RLAR_NSC rlar) of
       (False, _) \<Rightarrow> Secure
     | (True, False) \<Rightarrow> NonSecure
     | (True, True) \<Rightarrow> NonSecureCallable)"

definition get_region :: "u8 \<Rightarrow> sau_regs \<Rightarrow> sau_regs \<times> (sau_error + sau_region)" where
  "get_region region_number s =
    (if region_number \<ge> region_numbers s then (s, Inl RegionNumberTooBig)
     else
       let s = s\<lparr>sau_rnr := fv_value (field_val SAU_RNR_REGION (ucast region_number))\<rparr>;
           rbar = sau_rbar s (sau_rnr s); rlar = sau_rlar s (sau_rnr s);
           attribute = decode_attribute rlar
       in (s, Inr \<lparr>base_address = push_bit 5 (field_read SAU_RBAR_BADDR rbar),
                  limit_address = push_bit 5 (field_read SAU_RLAR_LADDR rlar) OR 0x1F,
                  sau_attr = attribute\<rparr>))"

lemmas sau_fields = SAU_RNR_REGION_def SAU_RBAR_BADDR_def SAU_RLAR_LADDR_def SAU_RLAR_NSC_def
  SAU_RLAR_ENABLE_def

definition sau_region_ok :: "sau_region \<Rightarrow> bool" where
  "sau_region_ok r \<longleftrightarrow> base_address r AND 0x1F = 0 \<and> limit_address r AND 0x1F = 0x1F"

lemma bit_1F: "bit (0x1F::u32) n \<longleftrightarrow> n < 5"
  using bit_field[of "0x1F::u32" 0 5 n] by (simp add: mask_eq_exp_minus_1)

lemma low_bits_zero: "(w::u32) AND 0x1F = 0 \<Longrightarrow> n < 5 \<Longrightarrow> \<not> bit w n"
  by (metis bit_1F bit_and_iff bit_0_eq bot_apply bot_bool_def)

lemma low_bits_one: "(w::u32) AND 0x1F = 0x1F \<Longrightarrow> n < 5 \<Longrightarrow> bit w n"
  by (metis bit_1F bit_and_iff)

lemma bit_attribute_fields:
  "bit (fv_value (attribute_fields a)) n \<longleftrightarrow>
    (n = 0 \<and> a \<noteq> Secure) \<or> (n = 1 \<and> a = NonSecureCallable)"
  by (cases a) (auto simp: sau_fields field_bits)

text \<open>The bank a region is stored in reads back as the region.\<close>

definition rbar_of :: "sau_region \<Rightarrow> u32" where
  "rbar_of r = fv_value (field_val SAU_RBAR_BADDR (drop_bit 5 (base_address r)))"

definition rlar_of :: "sau_region \<Rightarrow> u32" where
  "rlar_of r = fv_value (fv_plus (field_val SAU_RLAR_LADDR (drop_bit 5 (limit_address r)))
    (attribute_fields (sau_attr r)))"

lemma read_back_base:
  assumes "base_address r AND 0x1F = 0"
  shows "push_bit 5 (field_read SAU_RBAR_BADDR (rbar_of r)) = base_address r"
proof (rule bit_word_eqI)
  fix n assume n: "n < LENGTH(32)"
  show "bit (push_bit 5 (field_read SAU_RBAR_BADDR (rbar_of r))) n = bit (base_address r) n"
  proof (cases "n < 5")
    case True
    then show ?thesis using low_bits_zero[OF assms True] by (simp add: bit_push_bit_iff)
  next
    case False
    then have "5 + (n - 5) = n" by simp
    then show ?thesis using n False
      by (auto simp: rbar_of_def sau_fields field_bits bit_push_bit_iff bit_drop_bit_eq)
  qed
qed

lemma bit_rlar_of:
  "bit (rlar_of r) n \<longleftrightarrow> 5 \<le> n \<and> n < 32 \<and> bit (limit_address r) n \<or>
    (n = 0 \<and> sau_attr r \<noteq> Secure) \<or> (n = 1 \<and> sau_attr r = NonSecureCallable)"
  by (auto simp: rlar_of_def field_bits bit_attribute_fields bit_drop_bit_eq SAU_RLAR_LADDR_def)

lemma read_back_limit:
  assumes "limit_address r AND 0x1F = 0x1F"
  shows "push_bit 5 (field_read SAU_RLAR_LADDR (rlar_of r)) OR 0x1F = limit_address r"
proof (rule bit_word_eqI)
  fix n assume n: "n < LENGTH(32)"
  show "bit (push_bit 5 (field_read SAU_RLAR_LADDR (rlar_of r)) OR 0x1F) n = bit (limit_address r) n"
  proof (cases "n < 5")
    case True
    then show ?thesis using low_bits_one[OF assms True] by (simp add: bit_or_iff bit_1F)
  next
    case False
    then have "5 + (n - 5) = n" by simp
    then show ?thesis using n False
      by (auto simp: field_bits bit_rlar_of bit_push_bit_iff bit_or_iff bit_1F SAU_RLAR_LADDR_def)
  qed
qed

lemma read_back_attribute:
  "field_is_set SAU_RLAR_ENABLE (rlar_of r) \<longleftrightarrow> sau_attr r \<noteq> Secure"
  "field_is_set SAU_RLAR_NSC (rlar_of r) \<longleftrightarrow> sau_attr r = NonSecureCallable"
  using field_is_set_one[of 0 "rlar_of r"] field_is_set_one[of 1 "rlar_of r"]
  by (simp_all add: SAU_RLAR_ENABLE_def SAU_RLAR_NSC_def bit_rlar_of)

lemma set_region_Inr:
  "set_region n r s = (s', Inr u) \<longleftrightarrow>
    n < region_numbers s \<and> sau_region_ok r \<and>
    (let k = fv_value (field_val SAU_RNR_REGION (ucast n)) in
     s' = s\<lparr>sau_rnr := k, sau_rbar := (sau_rbar s)(k := rbar_of r),
            sau_rlar := (sau_rlar s)(k := rlar_of r)\<rparr>)"
  by (auto simp: set_region_def sau_region_ok_def rbar_of_def rlar_of_def Let_def)

lemma region_numbers_update [simp]:
  "region_numbers (s\<lparr>sau_rnr := a\<rparr>) = region_numbers s"
  "region_numbers (s\<lparr>sau_rbar := b\<rparr>) = region_numbers s"
  "region_numbers (s\<lparr>sau_rlar := c\<rparr>) = region_numbers s"
  by (simp_all add: region_numbers_def)

lemma rnr_inj: "fv_value (field_val SAU_RNR_REGION (ucast (a::u8))) =
    fv_value (field_val SAU_RNR_REGION (ucast (b::u8))) \<longleftrightarrow> a = b"
proof
  assume eq: "fv_value (field_val SAU_RNR_REGION (ucast a)) =
    fv_value (field_val SAU_RNR_REGION (ucast b))"
  show "a = b"
  proof (rule bit_word_eqI)
    fix n assume "n < LENGTH(8)"
    then show "bit a n = bit b n"
      using arg_cong[OF eq, of "\<lambda>w. bit w n"]
      by (simp add: field_bits SAU_RNR_REGION_def bit_ucast_iff)
  qed
qed simp

lemma decode_attribute_rlar: "decode_attribute (rlar_of r) = sau_attr r"
  by (cases "sau_attr r") (simp_all add: decode_attribute_def read_back_attribute)

text \<open>A region stored in one slot is what get_region returns, and other slots keep theirs.\<close>

definition sau_slot :: "sau_regs \<Rightarrow> u8 \<Rightarrow> sau_error + sau_region" where
  "sau_slot s n = snd (get_region n s)"

lemma sau_slot_set:
  assumes "set_region n r s = (s', Inr u)"
  shows "sau_slot s' m = (if m = n then Inr r else sau_slot s m)"
proof (cases "m = n")
  case True
  have ok: "sau_region_ok r" using assms by (simp add: set_region_Inr)
  show ?thesis
    using assms True ok
    by (auto simp: set_region_Inr sau_slot_def get_region_def Let_def sau_region_ok_def
        read_back_base read_back_limit decode_attribute_rlar)
next
  case False
  then show ?thesis
    using assms by (auto simp: set_region_Inr sau_slot_def get_region_def Let_def rnr_inj)
qed

section \<open>Properties\<close>

text \<open>Programming the attribution unit: a region that set_region accepts is exactly what get_region
  then reports for that number, and no other region changes.\<close>

theorem sau_set_get:
  assumes "set_region n r s = (s', Inr u)"
  shows "snd (get_region n s') = Inr r \<and> (m \<noteq> n \<longrightarrow> snd (get_region m s') = snd (get_region m s))"
  using sau_slot_set[OF assms] by (simp add: sau_slot_def)

definition sample_sau :: sau_regs where
  "sample_sau = \<lparr>sau_ctrl = 0, sau_type = 8, sau_rnr = 0, sau_rbar = (\<lambda>_. 0), sau_rlar = (\<lambda>_. 0)\<rparr>"

theorem sau_set_get_witness:
  "\<exists>s'. set_region 1 \<lparr>base_address = 0x20000000, limit_address = 0x20000FFF, sau_attr = NonSecure\<rparr>
      sample_sau = (s', Inr ()) \<and>
    snd (get_region 1 s') = Inr \<lparr>base_address = 0x20000000, limit_address = 0x20000FFF, sau_attr = NonSecure\<rparr>"
proof -
  let ?r = "\<lparr>base_address = 0x20000000, limit_address = 0x20000FFF, sau_attr = NonSecure\<rparr>"
  have n: "region_numbers sample_sau = 8"
    by (simp add: region_numbers_def sample_sau_def field_read_def SAU_TYPE_SREGION_def
        mask_eq_exp_minus_1)
  obtain s' u where s': "set_region 1 ?r sample_sau = (s', u)" by fastforce
  have "\<exists>t. set_region 1 ?r sample_sau = (t, Inr ())"
    by (simp add: set_region_Inr n sau_region_ok_def Let_def)
  then have "u = Inr ()" using s' by simp
  then show ?thesis using sau_set_get[of 1 ?r sample_sau s' "()"] s' by auto
qed

end
