(* ===== verification/Ppc.thy ===== *)
theory Ppc
  imports Sau
begin

text \<open>
  The peripheral protection controller of the PSC3 (chips/psc3/src/ppc.rs) and the security
  policy built on it and on the SAU (chips/psc3/src/security.rs).  Peripheral regions are their
  discriminants, numbers below 222.  The attribute registers hold one bit per region, the
  protection-context masks eight; a panic (an index out of range) is None.  The lemmas read the
  register files region by region, and the policy theorem says what configure_security leaves.
\<close>

section \<open>Registers\<close>

definition PPC_CTL_RESP_CFG :: field where "PPC_CTL_RESP_CFG = (0, 1)"

record ppc_regs =
  ppc_ctl :: u32
  ppc_lock_mask :: u32
  ppc_pc_masks :: "u32 list"
  ppc_ns_attrs :: "u32 list"
  ppc_s_p_attrs :: "u32 list"
  ppc_ns_p_attrs :: "u32 list"

type_synonym ppc_region = u16

definition ProtCryptoliteTrng :: ppc_region where "ProtCryptoliteTrng = 126"
definition ProtEfuseCtl3 :: ppc_region where "ProtEfuseCtl3 = 185"
definition ProtScb0 :: ppc_region where "ProtScb0 = 191"

definition put_bit :: "nat \<Rightarrow> bool \<Rightarrow> u32 \<Rightarrow> u32" where
  "put_bit b v w = (w AND NOT (push_bit b 1)) OR push_bit b (of_bool v)"

definition set_permissions :: "ppc_region \<Rightarrow> bool \<Rightarrow> bool \<Rightarrow> bool \<Rightarrow> ppc_regs \<Rightarrow> ppc_regs option" where
  "set_permissions region allow_non_secure allow_nsec_nonpriv allow_sec_nonpriv s =
    (let region_index = unat region;
         reg_index = region_index div 32;
         bit_index = region_index mod 32 in
     if \<not> reg_index < length (ppc_ns_attrs s) then None
     else if reg_index < length (ppc_ns_p_attrs s) \<and> reg_index < length (ppc_s_p_attrs s) then
       (let s = s\<lparr>ppc_ns_attrs := (ppc_ns_attrs s)[reg_index := put_bit bit_index allow_non_secure (ppc_ns_attrs s ! reg_index)]\<rparr>;
            s = s\<lparr>ppc_ns_p_attrs := (ppc_ns_p_attrs s)[reg_index := put_bit bit_index allow_nsec_nonpriv (ppc_ns_p_attrs s ! reg_index)]\<rparr>;
            s = s\<lparr>ppc_s_p_attrs := (ppc_s_p_attrs s)[reg_index := put_bit bit_index allow_sec_nonpriv (ppc_s_p_attrs s ! reg_index)]\<rparr>
        in Some s)
     else None)"

definition attr_bit :: "u32 list \<Rightarrow> nat \<Rightarrow> bool option" where
  "attr_bit regs region_index =
    map_option (\<lambda>w. drop_bit (region_index mod 32) w AND 1 \<noteq> 0) (list_get regs (region_index div 32))"

definition get_permissions :: "ppc_region \<Rightarrow> ppc_regs \<Rightarrow> (bool \<times> bool \<times> bool) option" where
  "get_permissions region s =
    Option.bind (attr_bit (ppc_ns_attrs s) (unat region)) (\<lambda>allow_non_secure.
    Option.bind (attr_bit (ppc_ns_p_attrs s) (unat region)) (\<lambda>allow_nsec_nonpriv.
    Option.bind (attr_bit (ppc_s_p_attrs s) (unat region)) (\<lambda>allow_sec_nonpriv.
      Some (allow_non_secure, allow_nsec_nonpriv, allow_sec_nonpriv))))"

definition set_protection_context :: "ppc_region \<Rightarrow> u8 \<Rightarrow> ppc_regs \<Rightarrow> ppc_regs option" where
  "set_protection_context region pc_context s =
    (let region_index = unat region;
         reg_index = region_index div 4;
         bit_index = (region_index mod 4) * 8 in
     if reg_index < length (ppc_pc_masks s)
     then Some (s\<lparr>ppc_pc_masks := (ppc_pc_masks s)[reg_index :=
         (ppc_pc_masks s ! reg_index AND NOT (push_bit bit_index 0xFF)) OR push_bit bit_index (ucast pc_context)]\<rparr>)
     else None)"

definition lock_protection_contexts :: "ppc_regs \<Rightarrow> ppc_regs" where
  "lock_protection_contexts s = s\<lparr>ppc_lock_mask := 0xFF\<rparr>"

text \<open>for (i, &val) in vals.iter().enumerate() { regs[i].set(val) }\<close>

definition bulk_set :: "u32 list \<Rightarrow> u32 list \<Rightarrow> u32 list" where
  "bulk_set vals regs = fold (\<lambda>(i, v) regs. regs[i := v]) (enumerate 0 vals) regs"

definition configure_bulk_ns_attrs :: "u32 list \<Rightarrow> u32 list \<Rightarrow> ppc_regs \<Rightarrow> ppc_regs" where
  "configure_bulk_ns_attrs ns_attrs ns_p_attrs s =
    (let s = s\<lparr>ppc_ns_attrs := bulk_set ns_attrs (ppc_ns_attrs s)\<rparr>
     in s\<lparr>ppc_ns_p_attrs := bulk_set ns_p_attrs (ppc_ns_p_attrs s)\<rparr>)"

definition configure_bulk_pc_masks :: "u32 list \<Rightarrow> ppc_regs \<Rightarrow> ppc_regs" where
  "configure_bulk_pc_masks pc_masks s = s\<lparr>ppc_pc_masks := bulk_set pc_masks (ppc_pc_masks s)\<rparr>"

text \<open>One register of protection-context masks: four slots, some of them cleared.\<close>

definition pc_mask_word :: "(nat \<Rightarrow> bool) \<Rightarrow> u32 \<Rightarrow> nat \<Rightarrow> u32" where
  "pc_mask_word excluded full_word reg_idx =
    fold (\<lambda>slot val. if excluded (reg_idx * 4 + slot) then val AND NOT (push_bit (slot * 8) 0xFF) else val)
      [0..<4] full_word"

definition set_pc_masks_range :: "nat \<Rightarrow> nat \<Rightarrow> u8 \<Rightarrow> ppc_region list \<Rightarrow> ppc_regs \<Rightarrow> ppc_regs option" where
  "set_pc_masks_range start limit pc_mask exclude s =
    (let full_word = from_le_bytes [pc_mask, pc_mask, pc_mask, pc_mask];
         start_reg = start div 4;
         end_reg = (limit + 3) div 4 in
     if start_reg < end_reg \<and> length (ppc_pc_masks s) < end_reg then None
     else Some (s\<lparr>ppc_pc_masks := fold (\<lambda>reg_idx regs. regs[reg_idx :=
         pc_mask_word (\<lambda>region. region \<ge> limit \<or> of_nat region \<in> set exclude) full_word reg_idx])
         [start_reg..<end_reg] (ppc_pc_masks s)\<rparr>))"

definition set_viloation_response :: "field_value \<Rightarrow> ppc_regs \<Rightarrow> ppc_regs" where
  "set_viloation_response cfg s = s\<lparr>ppc_ctl := fv_value cfg\<rparr>"

section \<open>The policy tables\<close>

definition PPC_REGION_COUNT :: nat where "PPC_REGION_COUNT = 222"
definition NS_ATTR_REG_COUNT :: nat where "NS_ATTR_REG_COUNT = 7"
definition PC_MASK_REG_COUNT :: nat where "PC_MASK_REG_COUNT = 56"

definition NS_SECURE_ONLY_REGIONS :: "ppc_region list" where
  "NS_SECURE_ONLY_REGIONS = [ProtScb0]"

definition NS_UNPRIVILEGED_REGIONS :: "ppc_region list" where
  "NS_UNPRIVILEGED_REGIONS = [ProtCryptoliteTrng, ProtEfuseCtl3]"

definition PC_MASK_EXCLUDED_REGIONS :: "ppc_region list" where
  "PC_MASK_EXCLUDED_REGIONS = [ProtCryptoliteTrng, ProtEfuseCtl3, ProtScb0]"

fun contains_region :: "ppc_region list \<Rightarrow> ppc_region \<Rightarrow> bool" where
  "contains_region [] needle = False"
| "contains_region (v # vs) needle = (if v = needle then True else contains_region vs needle)"

definition set_region_bit :: "ppc_region \<Rightarrow> u32 list \<Rightarrow> u32 list" where
  "set_region_bit region attrs =
    (let idx = unat region in
     if idx < PPC_REGION_COUNT
     then attrs[idx div 32 := attrs ! (idx div 32) OR push_bit (idx mod 32) 1] else attrs)"

definition clear_region_bit :: "ppc_region \<Rightarrow> u32 list \<Rightarrow> u32 list" where
  "clear_region_bit region attrs =
    (let idx = unat region in
     if idx < PPC_REGION_COUNT
     then attrs[idx div 32 := attrs ! (idx div 32) AND NOT (push_bit (idx mod 32) 1)] else attrs)"

definition build_full_ns_attr_mask :: "u32 list" where
  "build_full_ns_attr_mask =
    fold (\<lambda>region attrs. set_region_bit (of_nat region) attrs) [0..<PPC_REGION_COUNT] (replicate NS_ATTR_REG_COUNT 0)"

definition build_ns_attrs :: "u32 list" where
  "build_ns_attrs = fold clear_region_bit NS_SECURE_ONLY_REGIONS build_full_ns_attr_mask"

definition build_ns_p_attrs :: "u32 list" where
  "build_ns_p_attrs = fold set_region_bit NS_UNPRIVILEGED_REGIONS (replicate NS_ATTR_REG_COUNT 0)"

definition build_pc_masks :: "u32 list" where
  "build_pc_masks =
    (let full_word = from_le_bytes [0xFF, 0xFF, 0xFF, 0xFF] in
     map (pc_mask_word (\<lambda>region. region \<ge> PPC_REGION_COUNT \<or>
            contains_region PC_MASK_EXCLUDED_REGIONS (of_nat region)) full_word) [0..<PC_MASK_REG_COUNT])"

section \<open>configure_security\<close>

record security_state =
  sec_ppc :: ppc_regs
  sec_sau :: sau_regs

definition security_regions :: "u32 \<Rightarrow> u32 \<Rightarrow> u32 \<Rightarrow> u32 \<Rightarrow> sau_region list" where
  "security_regions flash_start flash_limit ram_start ram_limit =
    (let nsc_start = flash_start + 0x10000000 - 0x100 in
     [\<lparr>base_address = flash_start, limit_address = flash_limit, sau_attr = NonSecure\<rparr>,
      \<lparr>base_address = nsc_start, limit_address = nsc_start + 0xFF, sau_attr = NonSecureCallable\<rparr>,
      \<lparr>base_address = ram_start, limit_address = ram_limit, sau_attr = NonSecure\<rparr>,
      \<lparr>base_address = 0x2400F000, limit_address = 0x2400FFFF, sau_attr = NonSecure\<rparr>,
      \<lparr>base_address = 0x42000000, limit_address = 0x4FFFFFFF, sau_attr = NonSecure\<rparr>,
      \<lparr>base_address = 0x52020000, limit_address = 0x5202637F, sau_attr = Secure\<rparr>,
      \<lparr>base_address = 0x52820000, limit_address = 0x52820FDF, sau_attr = Secure\<rparr>])"

text \<open>The calls of set_region one after the other, each returning early on an error.\<close>

fun set_regions :: "u8 \<Rightarrow> sau_region list \<Rightarrow> sau_regs \<Rightarrow> sau_regs \<times> (sau_error + unit)" where
  "set_regions n [] s = (s, Inr ())"
| "set_regions n (r # rs) s =
    (case set_region n r s of
       (s, Inl e) \<Rightarrow> (s, Inl e)
     | (s, Inr _) \<Rightarrow> set_regions (n + 1) rs s)"

definition configure_security ::
    "u32 \<Rightarrow> u32 \<Rightarrow> u32 \<Rightarrow> u32 \<Rightarrow> security_state \<Rightarrow> security_state \<times> (sau_error + unit)" where
  "configure_security flash_start flash_limit ram_start ram_limit s =
    (let p = set_viloation_response (field_val PPC_CTL_RESP_CFG 1) (sec_ppc s);
         p = configure_bulk_ns_attrs build_ns_attrs build_ns_p_attrs p;
         p = configure_bulk_pc_masks build_pc_masks p;
         p = lock_protection_contexts p;
         s = s\<lparr>sec_ppc := p\<rparr>
     in case set_regions 0 (security_regions flash_start flash_limit ram_start ram_limit) (sec_sau s) of
          (sau, Inl e) \<Rightarrow> (s\<lparr>sec_sau := sau\<rparr>, Inl e)
        | (sau, Inr _) \<Rightarrow> (s\<lparr>sec_sau := sau_enable sau\<rparr>, Inr ()))"

section \<open>Reading the tables by region\<close>

definition region_attr :: "u32 list \<Rightarrow> nat \<Rightarrow> bool" where
  "region_attr regs r \<longleftrightarrow> bit (regs ! (r div 32)) (r mod 32)"

definition region_slot :: "u32 list \<Rightarrow> nat \<Rightarrow> u8" where
  "region_slot regs r = ucast (drop_bit (8 * (r mod 4)) (regs ! (r div 4)))"

lemma and_1_bit: "((w :: u32) AND 1 \<noteq> 0) = bit w 0"
  by (simp add: and_one_eq odd_iff_mod_2_eq_one bit_0)

lemma attr_bit_region: "attr_bit regs r = (if r div 32 < length regs then Some (region_attr regs r) else None)"
  by (simp add: attr_bit_def list_get_def region_attr_def and_1_bit bit_drop_bit_eq del: bit_0)

lemma bit_put_bit: "b < 32 \<Longrightarrow> bit (put_bit b v w) n \<longleftrightarrow> (if n = b then v else bit w n)"
  by (auto simp: put_bit_def bit_simps dest: bit_imp_le_length)

lemma region_attr_update:
  assumes "r div 32 < length regs" "q div 32 < length regs"
  shows "region_attr (regs[r div 32 := put_bit (r mod 32) v (regs ! (r div 32))]) q =
    (if q = r then v else region_attr regs q)"
proof (cases "q div 32 = r div 32")
  case True
  then have "q = r \<longleftrightarrow> q mod 32 = r mod 32" by (metis div_mult_mod_eq)
  then show ?thesis using assms True by (simp add: region_attr_def bit_put_bit)
qed (auto simp: region_attr_def)

lemma unat_push_bit_one: "bit (push_bit k (1 :: u32)) n \<longleftrightarrow> n = k \<and> n < 32"
  by (auto simp: bit_simps)

lemma region_attr_set_bit:
  assumes "length regs = 7" "q < 222"
  shows "length (set_region_bit r regs) = 7 \<and>
    (region_attr (set_region_bit r regs) q \<longleftrightarrow> q = unat r \<or> region_attr regs q)"
proof (cases "unat r < 222 \<and> q div 32 = unat r div 32")
  case True
  then have "q = unat r \<longleftrightarrow> q mod 32 = unat r mod 32" by (metis div_mult_mod_eq)
  then show ?thesis
    using True assms by (auto simp: set_region_bit_def PPC_REGION_COUNT_def Let_def region_attr_def bit_or_iff
        unat_push_bit_one simp del: push_bit_of_1)
next
  case False
  then show ?thesis
    using assms by (auto simp: set_region_bit_def PPC_REGION_COUNT_def Let_def region_attr_def)
qed

lemma region_attr_clear_bit:
  assumes "length regs = 7" "q < 222"
  shows "length (clear_region_bit r regs) = 7 \<and>
    (region_attr (clear_region_bit r regs) q \<longleftrightarrow> q \<noteq> unat r \<and> region_attr regs q)"
proof (cases "unat r < 222 \<and> q div 32 = unat r div 32")
  case True
  then have "q = unat r \<longleftrightarrow> q mod 32 = unat r mod 32" by (metis div_mult_mod_eq)
  then show ?thesis
    using True assms by (auto simp: clear_region_bit_def PPC_REGION_COUNT_def Let_def region_attr_def
        bit_and_iff bit_not_iff unat_push_bit_one simp del: push_bit_of_1)
next
  case False
  then show ?thesis
    using assms by (auto simp: clear_region_bit_def PPC_REGION_COUNT_def Let_def region_attr_def)
qed

lemma region_attr_fold_set:
  assumes "length regs = 7" "q < 222"
  shows "length (fold set_region_bit rs regs) = 7 \<and>
    (region_attr (fold set_region_bit rs regs) q \<longleftrightarrow> q \<in> unat ` set rs \<or> region_attr regs q)"
  using assms
proof (induction rs arbitrary: regs)
  case (Cons r rs)
  then show ?case using region_attr_set_bit[OF Cons.prems, of r] by auto
qed simp

lemma region_attr_zero: "q < 222 \<Longrightarrow> \<not> region_attr (replicate 7 0) q"
  by (simp add: region_attr_def)

lemma build_ns_attrs_region:
  assumes "q < 222"
  shows "length build_ns_attrs = 7 \<and> (region_attr build_ns_attrs q \<longleftrightarrow> q \<noteq> 191)"
proof -
  have f: "fold (\<lambda>r. set_region_bit (of_nat r)) xs regs = fold set_region_bit (map of_nat xs) regs" for xs regs
    by (induction xs arbitrary: regs) simp_all
  have u: "unat (of_nat k :: u16) = k" if "k < 222" for k
    using that by (simp add: unsigned_of_nat take_bit_nat_eq_self)
  have "q \<in> unat ` set (map of_nat [0..<222] :: u16 list)"
    using assms u[OF assms] by (auto simp: image_image intro!: image_eqI[of _ _ q])
  then have full: "length build_full_ns_attr_mask = 7" "region_attr build_full_ns_attr_mask q"
    using region_attr_fold_set[of "replicate 7 0" q "map of_nat [0..<222]"] assms
    unfolding build_full_ns_attr_mask_def PPC_REGION_COUNT_def NS_ATTR_REG_COUNT_def f by simp_all
  show ?thesis
    using region_attr_clear_bit[OF full(1) assms, of ProtScb0] full(2)
    by (simp add: build_ns_attrs_def NS_SECURE_ONLY_REGIONS_def ProtScb0_def)
qed

lemma build_ns_p_attrs_region:
  assumes "q < 222"
  shows "length build_ns_p_attrs = 7 \<and> (region_attr build_ns_p_attrs q \<longleftrightarrow> q = 126 \<or> q = 185)"
  using region_attr_fold_set[of "replicate 7 0" q NS_UNPRIVILEGED_REGIONS] assms region_attr_zero[OF assms]
  by (auto simp: build_ns_p_attrs_def NS_ATTR_REG_COUNT_def NS_UNPRIVILEGED_REGIONS_def
      ProtCryptoliteTrng_def ProtEfuseCtl3_def)

lemma contains_region_iff: "contains_region rs r \<longleftrightarrow> r \<in> set rs"
  by (induction rs) auto

text \<open>A mask word, slot by slot.\<close>

lemma bit_FF: "bit (0xFF :: u32) n \<longleftrightarrow> n < 8"
  using bit_field[of "0xFF::u32" 0 8 n] by (simp add: mask_eq_exp_minus_1)

lemma bit_slot: "n < 32 \<Longrightarrow> bit (push_bit (slot * 8) (0xFF :: u32)) n \<longleftrightarrow> n div 8 = slot"
proof -
  assume "n < 32"
  then have "bit (push_bit (slot * 8) (0xFF :: u32)) n \<longleftrightarrow> slot * 8 \<le> n \<and> n - slot * 8 < 8"
    unfolding bit_push_bit_iff bit_FF by auto
  also have "\<dots> \<longleftrightarrow> n div 8 = slot" by (auto simp: div_nat_eqI dividend_less_times_div)
  finally show ?thesis .
qed

lemma bit_pc_mask_word:
  assumes "n < 32"
  shows "bit (pc_mask_word ex w reg) n \<longleftrightarrow> bit w n \<and> \<not> ex (reg * 4 + n div 8)"
proof -
  have "bit (fold (\<lambda>slot v. if ex (reg * 4 + slot) then v AND NOT (push_bit (slot * 8) 0xFF) else v) slots w) n
      \<longleftrightarrow> bit w n \<and> \<not> (n div 8 \<in> set slots \<and> ex (reg * 4 + n div 8))" for slots and w :: u32
  proof (induction slots arbitrary: w)
    case (Cons slot slots)
    have "bit (if ex (reg * 4 + slot) then w AND NOT (push_bit (slot * 8) 0xFF) else w) n \<longleftrightarrow>
        bit w n \<and> \<not> (n div 8 = slot \<and> ex (reg * 4 + slot))"
      using bit_slot[OF assms, of slot] assms by (auto simp only: bit_and_iff bit_not_iff split: if_splits)
        (auto simp: possible_bit_word)
    then show ?case using Cons.IH by auto
  qed simp
  moreover have "n div 8 \<in> set [0..<4]" using assms by auto
  ultimately show ?thesis unfolding pc_mask_word_def by blast
qed

lemma full_word: "(from_le_bytes [0xFF, 0xFF, 0xFF, 0xFF] :: u32) = 0xFFFFFFFF"
  by (simp add: push_bit_eq_mult)

lemma build_pc_masks_region:
  assumes "q < 222"
  shows "region_slot build_pc_masks q = (if q = 126 \<or> q = 185 \<or> q = 191 then 0 else 0xFF)"
proof -
  let ?ex = "\<lambda>region. region \<ge> PPC_REGION_COUNT \<or> contains_region PC_MASK_EXCLUDED_REGIONS (of_nat region)"
  have q: "q div 4 < 56" "q div 4 * 4 + q mod 4 = q" using assms by auto
  have u: "unat (of_nat q :: u16) = q" using assms by (simp add: unsigned_of_nat take_bit_nat_eq_self)
  have ex: "?ex q \<longleftrightarrow> q = 126 \<or> q = 185 \<or> q = 191"
    using assms u unfolding contains_region_iff PC_MASK_EXCLUDED_REGIONS_def ProtCryptoliteTrng_def ProtEfuseCtl3_def
      ProtScb0_def PPC_REGION_COUNT_def by (simp add: word_unat_eq_iff)
  have all: "bit (0xFFFFFFFF :: u32) n \<longleftrightarrow> n < 32" for n
    using bit_field[of "0xFFFFFFFF :: u32" 0 32 n] by (simp add: mask_eq_exp_minus_1)
  have FF: "bit (0xFF :: u8) n \<longleftrightarrow> n < 8" for n
    using bit_field[of "0xFF :: u8" 0 8 n] by (simp add: mask_eq_exp_minus_1)
  have bits: "bit (region_slot build_pc_masks q) n \<longleftrightarrow> n < 8 \<and> \<not> ?ex q" for n
  proof (cases "n < 8")
    case True
    have k: "8 * (q mod 4) + n < 32" "(8 * (q mod 4) + n) div 8 = q mod 4" using True by auto
    have w: "build_pc_masks ! (q div 4) = pc_mask_word ?ex 0xFFFFFFFF (q div 4)"
      using q by (simp add: build_pc_masks_def full_word PC_MASK_REG_COUNT_def Let_def)
    show ?thesis
      using True k by (simp add: region_slot_def w bit_ucast_iff bit_drop_bit_eq bit_pc_mask_word[OF k(1)] all k(2) q(2))
  next
    case False
    then show ?thesis using bit_imp_le_length[of "region_slot build_pc_masks q" n] by auto
  qed
  show ?thesis
  proof (cases "?ex q")
    case True
    then have "region_slot build_pc_masks q = 0" by (intro bit_word_eqI) (simp add: bits)
    then show ?thesis using True ex by simp
  next
    case False
    then have "region_slot build_pc_masks q = 0xFF" by (intro bit_word_eqI) (simp add: bits FF)
    then show ?thesis using False ex by simp
  qed
qed

lemma bulk_set_eq: "length vals \<le> length regs \<Longrightarrow> bulk_set vals regs = vals @ drop (length vals) regs"
proof -
  have "fold (\<lambda>(i, v) regs. regs[i := v]) (enumerate (length pre) vals) (pre @ post) = pre @ vals @ drop (length vals) post"
    if "length vals \<le> length post" for pre post :: "u32 list"
    using that
  proof (induction vals arbitrary: pre post)
    case (Cons v vals)
    then obtain p ps where "post = p # ps" by (cases post) auto
    then show ?case using Cons.IH[of ps "pre @ [v]"] Cons.prems by simp
  qed simp
  from this[of regs "[]"] show "length vals \<le> length regs \<Longrightarrow> ?thesis" by (simp add: bulk_set_def)
qed

lemma region_attr_bulk:
  assumes "length vals = 7" "7 \<le> length regs" "q < 222"
  shows "region_attr (bulk_set vals regs) q = region_attr vals q"
proof -
  have "q div 32 < 7" using assms(3) by simp
  then show ?thesis using assms by (simp add: bulk_set_eq region_attr_def nth_append)
qed

lemma set_region_slots: "set_region n r s = (s', Inr ()) \<Longrightarrow> region_numbers s' = region_numbers s"
  by (auto simp: set_region_Inr Let_def)

lemma unat_u8_less: "unat (x :: u8) < 256"
  using unsigned_less[of x] by simp

lemma set_regions_all:
  assumes "unat n + length rs \<le> unat (region_numbers s)" "\<forall>r\<in>set rs. sau_region_ok r"
  shows "\<exists>s'. set_regions n rs s = (s', Inr ()) \<and>
    (\<forall>k<length rs. sau_slot s' (n + of_nat k) = Inr (rs ! k)) \<and>
    (\<forall>m. (\<forall>k<length rs. m \<noteq> n + of_nat k) \<longrightarrow> sau_slot s' m = sau_slot s m)"
  using assms
proof (induction rs arbitrary: n s)
  case (Cons r rs)
  have n: "n < region_numbers s" using Cons.prems by (simp add: word_less_nat_alt)
  obtain s1 where s1: "set_region n r s = (s1, Inr ())"
    using n Cons.prems(2) by (auto simp: set_region_Inr Let_def)
  have u: "unat (n + 1) = unat n + 1"
    using Cons.prems(1) unat_u8_less[of "region_numbers s"] by (simp add: unat_word_ariths)
  obtain s' where s': "set_regions (n + 1) rs s1 = (s', Inr ())"
    "\<forall>k<length rs. sau_slot s' (n + 1 + of_nat k) = Inr (rs ! k)"
    "\<forall>m. (\<forall>k<length rs. m \<noteq> n + 1 + of_nat k) \<longrightarrow> sau_slot s' m = sau_slot s1 m"
    using Cons.IH[of "n + 1" s1] Cons.prems u set_region_slots[OF s1] by auto
  have "n \<noteq> n + 1 + of_nat k" if "k < length rs" for k
  proof
    assume eq: "n = n + 1 + of_nat k"
    have lt: "unat n + 1 + k < 256"
      using that Cons.prems(1) unat_u8_less[of "region_numbers s"] by simp
    have "unat (n + 1 + of_nat k) = unat n + 1 + k"
      using lt u by (simp add: unat_word_ariths unsigned_of_nat take_bit_nat_eq_self)
    then show False using arg_cong[OF eq, of unat] by simp
  qed
  then have first: "sau_slot s' n = Inr r" using s'(3) sau_slot_set[OF s1, of n] by simp
  have "sau_slot s' (n + of_nat k) = Inr ((r # rs) ! k)" if "k < length (r # rs)" for k
    using that s'(2) first by (cases k) (auto simp: add.assoc)
  moreover have "sau_slot s' m = sau_slot s m" if "\<forall>k<length (r # rs). m \<noteq> n + of_nat k" for m
  proof -
    have "m \<noteq> n" using that[rule_format, of 0] by simp
    moreover have "\<forall>k<length rs. m \<noteq> n + 1 + of_nat k"
      using that by (auto dest: spec[of _ "Suc _"] simp: add.assoc)
    ultimately show ?thesis using s'(3) sau_slot_set[OF s1, of m] by simp
  qed
  ultimately show ?case using s1 s'(1) by auto
qed simp

lemma security_policy_core:
  assumes "7 \<le> length (ppc_ns_attrs (sec_ppc s))" "7 \<le> length (ppc_ns_p_attrs (sec_ppc s))"
    and "7 \<le> length (ppc_s_p_attrs (sec_ppc s))" "56 \<le> length (ppc_pc_masks (sec_ppc s))"
    and "7 \<le> region_numbers (sec_sau s)" "\<forall>r\<in>set (security_regions fs fl rs rl). sau_region_ok r"
  shows "\<exists>s'. configure_security fs fl rs rl s = (s', Inr ()) \<and>
    (\<forall>q<222. get_permissions (of_nat q) (sec_ppc s') =
        Some (q \<noteq> 191, q = 126 \<or> q = 185, region_attr (ppc_s_p_attrs (sec_ppc s)) q) \<and>
      region_slot (ppc_pc_masks (sec_ppc s')) q = (if q = 126 \<or> q = 185 \<or> q = 191 then 0 else 0xFF)) \<and>
    ppc_lock_mask (sec_ppc s') = 0xFF \<and> ppc_ctl (sec_ppc s') = 1 \<and>
    (\<forall>k<7. snd (get_region (of_nat k) (sec_sau s')) = Inr (security_regions fs fl rs rl ! k)) \<and>
    (\<exists>sau. set_regions 0 (security_regions fs fl rs rl) (sec_sau s) = (sau, Inr ()) \<and> sec_sau s' = sau_enable sau)"
proof -
  have seven: "length (security_regions fs fl rs rl) = 7" by (simp add: security_regions_def Let_def)
  have "unat (0 :: u8) + length (security_regions fs fl rs rl) \<le> unat (region_numbers (sec_sau s))"
    using assms(5) by (simp add: seven word_le_nat_alt)
  from set_regions_all[OF this assms(6)] obtain sau where
    sau: "set_regions 0 (security_regions fs fl rs rl) (sec_sau s) = (sau, Inr ())"
    "\<forall>k<7. sau_slot sau (of_nat k) = Inr (security_regions fs fl rs rl ! k)" by (auto simp: seven)
  have slot: "snd (get_region k (sau_enable sau)) = sau_slot sau k" for k
    by (simp add: sau_slot_def get_region_def sau_enable_def region_numbers_def Let_def)
  let ?p = "sec_ppc s\<lparr>ppc_ctl := 1, ppc_ns_attrs := bulk_set build_ns_attrs (ppc_ns_attrs (sec_ppc s)),
    ppc_ns_p_attrs := bulk_set build_ns_p_attrs (ppc_ns_p_attrs (sec_ppc s)),
    ppc_pc_masks := bulk_set build_pc_masks (ppc_pc_masks (sec_ppc s)), ppc_lock_mask := 0xFF\<rparr>"
  have run: "configure_security fs fl rs rl s = (s\<lparr>sec_ppc := ?p, sec_sau := sau_enable sau\<rparr>, Inr ())"
    by (simp add: configure_security_def Let_def sau(1) set_viloation_response_def configure_bulk_ns_attrs_def
        configure_bulk_pc_masks_def lock_protection_contexts_def field_val_def PPC_CTL_RESP_CFG_def)
  have perms: "get_permissions (of_nat q) ?p =
      Some (q \<noteq> 191, q = 126 \<or> q = 185, region_attr (ppc_s_p_attrs (sec_ppc s)) q)" if q: "q < 222" for q
  proof -
    have u: "unat (of_nat q :: u16) = q" using q by (simp add: unsigned_of_nat take_bit_nat_eq_self)
    have lens: "q div 32 < length (bulk_set build_ns_attrs (ppc_ns_attrs (sec_ppc s)))"
      "q div 32 < length (bulk_set build_ns_p_attrs (ppc_ns_p_attrs (sec_ppc s)))" "q div 32 < length (ppc_s_p_attrs (sec_ppc s))"
      using assms(1-3) q build_ns_attrs_region[OF q] build_ns_p_attrs_region[OF q] by (auto simp: bulk_set_eq)
    show ?thesis
      using lens region_attr_bulk[OF _ assms(1) q, of build_ns_attrs] region_attr_bulk[OF _ assms(2) q, of build_ns_p_attrs]
        build_ns_attrs_region[OF q] build_ns_p_attrs_region[OF q]
      by (simp add: get_permissions_def attr_bit_region u)
  qed
  have slots: "region_slot (ppc_pc_masks ?p) q = (if q = 126 \<or> q = 185 \<or> q = 191 then 0 else 0xFF)" if q: "q < 222" for q
  proof -
    have "length build_pc_masks = 56" by (simp add: build_pc_masks_def PC_MASK_REG_COUNT_def)
    moreover have "q div 4 < 56" using q by simp
    ultimately have "region_slot (bulk_set build_pc_masks (ppc_pc_masks (sec_ppc s))) q = region_slot build_pc_masks q"
      using assms(4) by (simp add: bulk_set_eq region_slot_def nth_append)
    then show ?thesis using build_pc_masks_region[OF q] by simp
  qed
  show ?thesis
    unfolding run using perms slots sau
    by (intro exI[of _ "s\<lparr>sec_ppc := ?p, sec_sau := sau_enable sau\<rparr>"]) (simp add: slot)
qed

section \<open>Properties\<close>

text \<open>C26. The security policy of the PSC3, region by region.  On a SAU with at least seven regions and
  correctly aligned addresses configure_security succeeds, and afterwards: every peripheral is
  non-secure but SCB0; only the TRNG and eFuse control 3 are open to unprivileged non-secure code;
  every protection context reaches every peripheral except these two and SCB0; secure privilege
  attributes are as they were; the masks are locked, violations raise bus errors and the seven SAU
  regions read back as given.\<close>

theorem security_policy_exact:
  assumes "7 \<le> length (ppc_ns_attrs (sec_ppc s))" "7 \<le> length (ppc_ns_p_attrs (sec_ppc s))"
    and "7 \<le> length (ppc_s_p_attrs (sec_ppc s))" "56 \<le> length (ppc_pc_masks (sec_ppc s))"
    and "7 \<le> region_numbers (sec_sau s)" "\<forall>r\<in>set (security_regions fs fl rs rl). sau_region_ok r"
  shows "\<exists>s'. configure_security fs fl rs rl s = (s', Inr ()) \<and>
    (\<forall>q<222. get_permissions (of_nat q) (sec_ppc s') =
        Some (q \<noteq> 191, q = 126 \<or> q = 185, region_attr (ppc_s_p_attrs (sec_ppc s)) q) \<and>
      region_slot (ppc_pc_masks (sec_ppc s')) q = (if q = 126 \<or> q = 185 \<or> q = 191 then 0 else 0xFF)) \<and>
    ppc_lock_mask (sec_ppc s') = 0xFF \<and> ppc_ctl (sec_ppc s') = 1 \<and>
    (\<forall>k<7. snd (get_region (of_nat k) (sec_sau s')) = Inr (security_regions fs fl rs rl ! k))"
  using security_policy_core[OF assms] by blast

definition sample_security :: security_state where
  "sample_security =
    \<lparr>sec_ppc = \<lparr>ppc_ctl = 0, ppc_lock_mask = 0, ppc_pc_masks = replicate 1024 0, ppc_ns_attrs = replicate 32 0,
       ppc_s_p_attrs = replicate 32 0, ppc_ns_p_attrs = replicate 32 0\<rparr>,
     sec_sau = sample_sau\<rparr>"

theorem security_policy_exact_witness:
  "\<exists>s'. configure_security 0x22020000 0x2203FFFF 0x24008000 0x2400EFFF sample_security = (s', Inr ()) \<and>
    get_permissions (of_nat 191) (sec_ppc s') = Some (False, False, False) \<and>
    get_permissions (of_nat 126) (sec_ppc s') = Some (True, True, False) \<and>
    snd (get_region (of_nat 4) (sec_sau s')) =
      Inr \<lparr>base_address = 0x42000000, limit_address = 0x4FFFFFFF, sau_attr = NonSecure\<rparr>"
proof -
  have n: "7 \<le> region_numbers (sec_sau sample_security)"
    by (simp add: sample_security_def region_numbers_def sample_sau_def field_read_def SAU_TYPE_SREGION_def
        mask_eq_exp_minus_1)
  have ok: "\<forall>r\<in>set (security_regions 0x22020000 0x2203FFFF 0x24008000 0x2400EFFF). sau_region_ok r"
    by (simp add: security_regions_def sau_region_ok_def Let_def)
  have z: "\<not> region_attr (replicate 32 0) 191" "\<not> region_attr (replicate 32 0) 126" by (simp_all add: region_attr_def)
  obtain s' where s': "configure_security 0x22020000 0x2203FFFF 0x24008000 0x2400EFFF sample_security = (s', Inr ())"
    "\<forall>q<222. get_permissions (of_nat q) (sec_ppc s') =
        Some (q \<noteq> 191, q = 126 \<or> q = 185, region_attr (ppc_s_p_attrs (sec_ppc sample_security)) q)"
    "\<forall>k<7. snd (get_region (of_nat k) (sec_sau s')) =
      Inr (security_regions 0x22020000 0x2203FFFF 0x24008000 0x2400EFFF ! k)"
    using security_policy_exact[OF _ _ _ _ n ok] by (auto simp: sample_security_def)
  then show ?thesis
    using s'(2)[rule_format, of 191] s'(2)[rule_format, of 126] s'(3)[rule_format, of 4] z
    by (intro exI[of _ s']) (simp add: sample_security_def security_regions_def Let_def)
qed

end
