(* ===== verification/Attribution.thy ===== *)
theory Attribution
  imports Ppc
begin

text \<open>
  What the attribution unit says of an address once its regions are programmed: the architecture's
  rule over the regions the driver reads back (libraries/cortex_m/src/sau.rs).  The boards' boot
  code programs a list of regions from slot 0 and enables the unit.
\<close>

text \<open>
  With the unit enabled, an address in exactly one enabled region has that region's attribute; in
  no region, or in more than one, it is Secure.
\<close>

definition hits :: "u32 \<Rightarrow> sau_region \<Rightarrow> bool" where
  "hits x r \<longleftrightarrow> sau_attr r \<noteq> Secure \<and> base_address r \<le> x \<and> x \<le> limit_address r"

definition attribute_of :: "sau_region list \<Rightarrow> u32 \<Rightarrow> sau_attribute" where
  "attribute_of rs x = (case filter (hits x) rs of [r] \<Rightarrow> sau_attr r | _ \<Rightarrow> Secure)"

definition slot_region :: "sau_regs \<Rightarrow> nat \<Rightarrow> sau_region" where
  "slot_region s k = (case sau_slot s (of_nat k) of Inr r \<Rightarrow> r
     | Inl _ \<Rightarrow> \<lparr>base_address = 0, limit_address = 0, sau_attr = Secure\<rparr>)"

definition attribution :: "sau_regs \<Rightarrow> u32 \<Rightarrow> sau_attribute" where
  "attribution s x =
    (if field_is_set SAU_CTRL_ENABLE (sau_ctrl s)
     then attribute_of (map (slot_region s) [0..<unat (region_numbers s)]) x else Secure)"

lemma attribute_of_secure_tail:
  "\<forall>r\<in>set qs. sau_attr r = Secure \<Longrightarrow> attribute_of (rs @ qs) x = attribute_of rs x"
proof -
  assume "\<forall>r\<in>set qs. sau_attr r = Secure"
  then have "filter (hits x) qs = []" by (auto simp: hits_def filter_empty_conv)
  then show ?thesis by (simp add: attribute_of_def)
qed

lemma set_regions_frame: "set_regions n rs s = (s', Inr u) \<Longrightarrow>
    region_numbers s' = region_numbers s \<and> sau_ctrl s' = sau_ctrl s"
proof (induction rs arbitrary: n s)
  case (Cons r rs)
  obtain s1 v where s1: "set_region n r s = (s1, v)" by fastforce
  then obtain w where "v = Inr w" "set_regions (n + 1) rs s1 = (s', Inr u)"
    using Cons.prems by (cases v) auto
  then show ?case using Cons.IH[of "n + 1" s1] s1 by (auto simp: set_region_Inr Let_def)
qed simp

lemma sau_slot_enable [simp]: "sau_slot (sau_enable s) n = sau_slot s n"
  by (simp add: sau_slot_def get_region_def sau_enable_def region_numbers_def Let_def)

lemma region_numbers_enable [simp]: "region_numbers (sau_enable s) = region_numbers s"
  by (simp add: sau_enable_def region_numbers_def)

lemma sau_enable_set: "field_is_set SAU_CTRL_ENABLE (sau_ctrl (sau_enable s))"
  using field_is_set_one[of 0] by (simp add: SAU_CTRL_ENABLE_def sau_enable_def field_bits)

text \<open>The slots behind the programmed ones are off.\<close>

definition slots_off :: "nat \<Rightarrow> sau_regs \<Rightarrow> bool" where
  "slots_off n s \<longleftrightarrow> (\<forall>k. n \<le> k \<and> k < unat (region_numbers s) \<longrightarrow> sau_attr (slot_region s k) = Secure)"

text \<open>The unit with a list of regions programmed from slot 0, everything behind them off, and enabled.\<close>

definition programmed :: "sau_region list \<Rightarrow> sau_regs \<Rightarrow> bool" where
  "programmed rs s \<longleftrightarrow> field_is_set SAU_CTRL_ENABLE (sau_ctrl s) \<and>
    length rs \<le> unat (region_numbers s) \<and> (\<forall>k<length rs. slot_region s k = rs ! k) \<and> slots_off (length rs) s"

lemma programmed_attribution:
  assumes "programmed rs s"
  shows "attribution s x = attribute_of rs x"
proof -
  let ?n = "unat (region_numbers s)"
  note p = assms[unfolded programmed_def]
  have rs: "map (slot_region s) [0..<length rs] = rs"
    using p by (intro nth_equalityI) simp_all
  have "[0..<?n] = [0..<length rs] @ [length rs..<?n]"
    using upt_add_eq_append[of 0 "length rs" "?n - length rs"] p by simp
  then have "map (slot_region s) [0..<?n] = rs @ map (slot_region s) [length rs..<?n]"
    by (simp only: map_append rs)
  moreover have "\<forall>r\<in>set (map (slot_region s) [length rs..<?n]). sau_attr r = Secure"
    using p by (simp add: slots_off_def)
  ultimately show ?thesis
    using attribute_of_secure_tail[of "map (slot_region s) [length rs..<?n]" rs x] p
    by (simp only: attribution_def if_True)
qed

lemma set_regions_programmed:
  assumes "length rs \<le> unat (region_numbers s)" "\<forall>r\<in>set rs. sau_region_ok r" "slots_off (length rs) s"
  shows "\<exists>t. set_regions 0 rs s = (t, Inr ()) \<and> programmed rs (sau_enable t)"
proof -
  obtain t where t: "set_regions 0 rs s = (t, Inr ())"
    "\<forall>k<length rs. sau_slot t (0 + of_nat k) = Inr (rs ! k)"
    "\<forall>m. (\<forall>k<length rs. m \<noteq> 0 + of_nat k) \<longrightarrow> sau_slot t m = sau_slot s m"
    using set_regions_all[of 0 rs s] assms(1,2) by auto
  note n = set_regions_frame[OF t(1)]
  have "slot_region t k = slot_region s k" if "length rs \<le> k" "k < unat (region_numbers s)" for k
  proof -
    have "(of_nat k :: u8) \<noteq> 0 + of_nat j" if "j < length rs" for j
      using that \<open>length rs \<le> k\<close> \<open>k < unat (region_numbers s)\<close> unat_u8_less[of "region_numbers s"]
      by (auto dest!: arg_cong[of _ _ unat] simp: unsigned_of_nat take_bit_nat_eq_self)
    then have "sau_slot t (of_nat k) = sau_slot s (of_nat k)" using t(3) by blast
    then show ?thesis by (simp add: slot_region_def)
  qed
  moreover have "slot_region (sau_enable t) = slot_region t" by (simp add: slot_region_def fun_eq_iff)
  ultimately have "programmed rs (sau_enable t)"
    using assms(1,3) t(2) n by (simp add: programmed_def sau_enable_set slots_off_def slot_region_def)
  then show ?thesis using t(1) by blast
qed

lemma set_regions_attribution:
  assumes "length rs \<le> unat (region_numbers s)" "\<forall>r\<in>set rs. sau_region_ok r" "slots_off (length rs) s"
  shows "\<exists>t. set_regions 0 rs s = (t, Inr ()) \<and> (\<forall>x. attribution (sau_enable t) x = attribute_of rs x)"
  using set_regions_programmed[OF assms] programmed_attribution by blast

end
