(* ===== verification/Guard.thy ===== *)
theory Guard
  imports Platform Attribution
begin

text \<open>
  Guarding the boundary between the two security states: the attribution unit as programmed, the TT
  instruction answering from it, the platforms' memory permission on top of TT
  (chips/*/src/platform.rs), and the checks of a call (spm_api/api.rs).  The locale ns_guard is what
  the argument needs of a platform; it is interpreted for the permission checks of the three images.
\<close>

section \<open>What the TT instruction says of an address\<close>

definition sau_hits :: "sau_regs \<Rightarrow> u32 \<Rightarrow> nat list" where
  "sau_hits s x = filter (\<lambda>k. hits x (slot_region s k)) [0..<unat (region_numbers s)]"

text \<open>
  The architecture's answer to secure code: bit 22 is set for memory that is not non-secure (an
  implementation-defined unit may make more of it secure), and bits 8 to 15 number the attribution
  region of a non-secure address.
\<close>

definition tt_follows :: "sau_regs \<Rightarrow> tt_instr \<Rightarrow> bool" where
  "tt_follows s tt \<longleftrightarrow> (\<forall>x access.
    (attribution s x \<noteq> NonSecure \<longrightarrow> bit (tt x access) 22) \<and>
    (\<forall>k. attribution s x = NonSecure \<and> sau_hits s x = [k] \<longrightarrow> drop_bit 8 (tt x access) AND 0xFF = of_nat k))"

lemma attribution_NonSecureD:
  assumes "attribution s x = NonSecure"
  obtains k where "sau_hits s x = [k]" "k < unat (region_numbers s)" "sau_attr (slot_region s k) = NonSecure"
    "base_address (slot_region s k) \<le> x" "x \<le> limit_address (slot_region s k)"
proof -
  have m: "filter (hits x) (map (slot_region s) [0..<unat (region_numbers s)]) = map (slot_region s) (sau_hits s x)"
    by (simp add: sau_hits_def filter_map comp_def)
  have a: "attribute_of (map (slot_region s) [0..<unat (region_numbers s)]) x = NonSecure"
    using assms by (auto simp: attribution_def split: if_splits)
  then obtain k where k: "sau_hits s x = [k]" "sau_attr (slot_region s k) = NonSecure"
    unfolding attribute_of_def m by (auto split: list.splits)
  then have "k \<in> set (sau_hits s x)" by simp
  then show ?thesis using that[OF k(1) _ k(2)] by (auto simp: sau_hits_def hits_def)
qed

text \<open>A region ends with a granule.\<close>

lemma slot_limit_granule:
  assumes "sau_attr (slot_region s k) \<noteq> Secure"
  shows "unat (limit_address (slot_region s k)) mod 32 = 31"
proof -
  obtain w :: u32 where "limit_address (slot_region s k) = w OR 0x1F"
    using assms by (auto simp: slot_region_def sau_slot_def get_region_def Let_def split: sum.splits if_splits)
  moreover have "take_bit 5 (w OR 0x1F) = mask 5"
    by (rule bit_word_eqI) (auto simp: bit_simps bit_1F)
  then have "unat (take_bit 5 (w OR 0x1F)) = 31" by (simp add: mask_eq_exp_minus_1)
  then have "unat (w OR 0x1F) mod 32 = 31"
    unfolding take_bit_eq_mod using unat_mod_32[of "w OR 0x1F"] by simp
  ultimately show ?thesis by simp
qed

section \<open>Platforms that guard the boundary\<close>

text \<open>The vectors a call names: the descriptors read from the caller's arrays.\<close>

definition client_vecs :: "mem \<Rightarrow> ctrl_param \<Rightarrow> usize \<Rightarrow> usize \<Rightarrow> ffi_vec list" where
  "client_vecs m ctrl iv ov =
    (if has_iovec ctrl then read_vecs m iv (unat (ctrl_in_len ctrl)) @ read_vecs m ov (unat (ctrl_out_len ctrl))
     else [])"

lemma api_connection_vecs:
  assumes "api_connection spm m perm h ctrl iv ov ca = Inr c" "v \<in> set (client_vecs m ctrl iv ov)"
  shows "\<exists>w. vec_ok perm w ca v"
proof -
  obtain t i n where p: "validate_call_params ctrl = Inr (t, i, n)"
    using assms(1) by (auto simp: api_connection_def res_simps)
  have i: "has_iovec ctrl \<Longrightarrow> i = ctrl_in_len ctrl \<and> n = ctrl_out_len ctrl"
    using p by (simp add: validate_call_params_Inr split: if_splits)
  have "read_vecs m a 0 = []" for a by (simp add: read_vecs_def)
  then have "call_accepted perm ctrl (read_vecs m iv (unat i)) (read_vecs m ov (unat n)) ca"
    using assms(1) p by (auto simp: api_connection_def res_simps Let_def call_from_slices_Inr split: if_splits)
  then show ?thesis
    using assms(2) i by (auto simp: call_accepted_def client_vecs_def list_all_iff split: if_splits)
qed

lemma api_connection_Inl:
  assumes "api_connection (map_err (\<lambda>_. BadState) r) m perm h ctrl iv ov ca = Inl e"
  shows "e \<in> {BadState, ProgrammerError, InvalidArgument}"
proof (cases r)
  case (Inl a)
  then show ?thesis using assms by (simp add: api_connection_def map_err_def)
next
  case (Inr u)
  have c: "call_from_slices perm h ctrl ins outs ca = Inl e \<Longrightarrow> e \<in> {BadState, ProgrammerError, InvalidArgument}" for ins outs
    by (drule call_from_slices_errors) auto
  have "validate_vec_pointer_shape b i n iv ov = Inl e \<Longrightarrow> e = ProgrammerError" for b i n
    by (auto simp: validate_vec_pointer_shape_def split: if_splits)
  then show ?thesis
    using assms validate_call_params_Inl c
    by (auto simp: Inr api_connection_def map_err_def and_then_Inl_iff Let_def)
qed

locale ns_guard =
  fixes perm :: "tt_instr \<Rightarrow> permission"
  assumes ns_guarded: "tt_documented tt \<Longrightarrow> perm tt base n w ca \<Longrightarrow> n \<noteq> 0 \<Longrightarrow> ca_ns ca \<Longrightarrow>
    \<exists>t. check_range tt base n (platform_access ca) = Some t \<and> \<not> tt_secure t"
begin

text \<open>An accepted range lies in one non-secure region of the unit.\<close>

lemma one_region:
  assumes "tt_documented tt" "tt_follows s tt" "perm tt base n w ca" "n \<noteq> 0" "ca_ns ca" "32 \<le> unat base"
  shows "\<exists>k<unat (region_numbers s). sau_attr (slot_region s k) = NonSecure \<and>
    base_address (slot_region s k) \<le> base \<and> unat base + (unat n - 1) \<le> unat (limit_address (slot_region s k))"
proof -
  let ?a = "platform_access ca" and ?last = "base + (n - 1)"
  obtain t where t: "check_range tt base n ?a = Some t" "\<not> tt_secure t"
    using ns_guarded[OF assms(1,3-5)] by blast
  note some = check_range_Some[OF t(1)]
  have sz: "unat (n - 1) = unat n - 1" "0 < unat n"
    using unat_minus_1_eq[OF some(1)] some(1) by (auto simp: unat_gt_0)
  have last: "unat ?last = unat base + (unat n - 1)"
    using some(2) sz by (simp add: unat_word_ariths)
  have start: "attribution s base = NonSecure"
    using assms(2) t(2) some(3) by (auto simp: tt_follows_def tt_check_def tt_secure_def tt_bit_iff)
  obtain k where k: "sau_hits s base = [k]" "k < unat (region_numbers s)" "sau_attr (slot_region s k) = NonSecure"
    "base_address (slot_region s k) \<le> base" "base \<le> limit_address (slot_region s k)"
    by (rule attribution_NonSecureD[OF start])
  have "unat base + (unat n - 1) \<le> unat (limit_address (slot_region s k))"
  proof (cases "base mod 32 + n \<le> 32")
    case True
    have "unat base mod 32 + unat n < 4294967296"
      using some(2) sz assms(6) mod_less_divisor[of 32 "unat base"] by linarith
    then have "unat base mod 32 + unat n \<le> 32"
      using True by (simp add: word_le_nat_alt unat_word_ariths unat_mod_32)
    moreover have "unat (limit_address (slot_region s k)) mod 32 = 31"
      using slot_limit_granule k(3) by simp
    moreover have "unat base div 32 \<le> unat (limit_address (slot_region s k)) div 32"
      using k(5) by (simp add: word_le_nat_alt div_le_mono)
    moreover have "unat base = 32 * (unat base div 32) + unat base mod 32"
      "unat (limit_address (slot_region s k)) =
        32 * (unat (limit_address (slot_region s k)) div 32) + unat (limit_address (slot_region s k)) mod 32"
      by simp_all
    ultimately show ?thesis using sz(2) by linarith
  next
    case False
    then have same: "tt ?last ?a = tt base ?a"
      using t(1) some(2) by (auto simp: check_range_def checked_add_def Let_def tt_check_def split: if_splits)
    then have "\<not> bit (tt ?last ?a) 22"
      using t(2) some(3) by (simp add: tt_check_def tt_secure_def tt_bit_iff)
    then have end_ns: "attribution s ?last = NonSecure" using assms(2) by (auto simp: tt_follows_def)
    obtain l where l: "sau_hits s ?last = [l]" "l < unat (region_numbers s)" "?last \<le> limit_address (slot_region s l)"
      by (rule attribution_NonSecureD[OF end_ns])
    have "(of_nat k :: u32) = of_nat l"
      using assms(2) start end_ns k(1) l(1) same unfolding tt_follows_def by metis
    moreover have "k < 256" "l < 256" using k(2) l(2) unat_u8_less[of "region_numbers s"] by simp_all
    then have "unat (of_nat k :: u32) = k" "unat (of_nat l :: u32) = l" by (simp_all add: unat_of_nat_small)
    ultimately have "k = l" by metis
    then show ?thesis using l(3) last by (simp add: word_le_nat_alt)
  qed
  then show ?thesis using k by blast
qed

lemma accepted_covered:
  assumes "tt_documented tt" "tt_follows s tt" "programmed rs s" "ca_ns ca"
    and "api_connection spm m (perm tt) h ctrl iv ov ca = Inr c"
    and "v \<in> set (client_vecs m ctrl iv ov)" "j < unat (iov_len v)" "x = iov_base v + of_nat j"
    and "\<forall>r\<in>set rs. sau_attr r = NonSecure \<longrightarrow> 32 \<le> unat (base_address r)"
  shows "\<exists>r\<in>set rs. sau_attr r = NonSecure \<and> base_address r \<le> x \<and> x \<le> limit_address r"
proof -
  have n: "iov_len v \<noteq> 0" using assms(7) by auto
  obtain w where "vec_ok (perm tt) w ca v" using api_connection_vecs[OF assms(5,6)] by blast
  then have p: "perm tt (iov_base v) (iov_len v) w ca" using n by (simp add: vec_ok_def)
  have in_rs: "slot_region s k \<in> set rs"
    if "k < unat (region_numbers s)" "sau_attr (slot_region s k) = NonSecure" for k
  proof (cases "k < length rs")
    case True
    then show ?thesis using assms(3) by (auto simp: programmed_def)
  next
    case False
    then show ?thesis using assms(3) that by (auto simp: programmed_def slots_off_def)
  qed
  obtain t where t: "check_range tt (iov_base v) (iov_len v) (platform_access ca) = Some t" "\<not> tt_secure t"
    using ns_guarded[OF assms(1) p n assms(4)] by blast
  have "attribution s (iov_base v) = NonSecure"
    using assms(2) t(2) check_range_Some(3)[OF t(1)]
    by (auto simp: tt_follows_def tt_check_def tt_secure_def tt_bit_iff)
  then obtain k0 where "k0 < unat (region_numbers s)" "sau_attr (slot_region s k0) = NonSecure"
    "base_address (slot_region s k0) \<le> iov_base v"
    by (rule attribution_NonSecureD)
  then have "32 \<le> unat (iov_base v)"
    using in_rs assms(9) by (meson order_trans word_le_nat_alt)
  from one_region[OF assms(1,2) p n assms(4) this]
  obtain k where k: "k < unat (region_numbers s)" "sau_attr (slot_region s k) = NonSecure"
    "base_address (slot_region s k) \<le> iov_base v"
    "unat (iov_base v) + (unat (iov_len v) - 1) \<le> unat (limit_address (slot_region s k))"
    by blast
  have "unat x = unat (iov_base v) + j"
    using k(4) assms(7) unat_lt_usize[of "limit_address (slot_region s k)"] unfolding assms(8)
    by (simp add: unat_word_ariths unsigned_of_nat take_bit_nat_eq_self)
  then have "base_address (slot_region s k) \<le> x" "x \<le> limit_address (slot_region s k)"
    using k(3,4) assms(7) by (simp_all add: word_le_nat_alt)
  then show ?thesis using in_rs[OF k(1,2)] k(2) by blast
qed

lemma refused:
  assumes "tt_documented tt" "tt_follows s tt" "programmed rs s" "ca_ns ca"
    and "v \<in> set (client_vecs m ctrl iv ov)" "j < unat (iov_len v)" "x = iov_base v + of_nat j"
    and "\<forall>r\<in>set rs. sau_attr r = NonSecure \<longrightarrow> 32 \<le> unat (base_address r)"
    and "\<forall>r\<in>set rs. sau_attr r = NonSecure \<longrightarrow> \<not> (base_address r \<le> x \<and> x \<le> limit_address r)"
  shows "\<exists>e\<in>{BadState, ProgrammerError, InvalidArgument}.
    api_connection (map_err (\<lambda>_. BadState) cell) m (perm tt) h ctrl iv ov ca = Inl e"
proof (cases "api_connection (map_err (\<lambda>_. BadState) cell) m (perm tt) h ctrl iv ov ca")
  case (Inl e)
  then show ?thesis using api_connection_Inl by blast
next
  case (Inr c)
  from accepted_covered[OF assms(1-4) Inr assms(5-8)] show ?thesis using assms(9) by blast
qed

end

interpretation musca_guard: ns_guard musca_has_permission
proof
  fix tt base and n :: usize and w ca
  assume "tt_documented tt" "musca_has_permission tt base n w ca" "n \<noteq> 0" "ca_ns ca"
  then show "\<exists>t. check_range tt base n (platform_access ca) = Some t \<and> \<not> tt_secure t"
    using check_range_Some(3)[of tt base n "platform_access ca"]
    by (auto simp: musca_has_permission_def tt_documented_def tt_defs tt_bit_iff tt_check_def split: option.splits if_splits)
qed

interpretation psc3_guard: ns_guard psc3_has_permission
  by unfold_locales (auto simp: psc3_has_permission_def Let_def split: option.splits if_splits)

interpretation psc3_ipc_guard: ns_guard psc3_ipc_has_permission
  by unfold_locales (auto simp: psc3_ipc_has_permission_def Let_def split: option.splits if_splits)

end
