(* ===== verification/Cryptolite.thy ===== *)
theory Cryptolite
  imports Cose Regs
begin

text \<open>
  The true random number generator of the PSC3's Cryptolite block (chips/psc3/src/cryptolite.rs).
  The registers the driver uses are a record, with one field more for what the device keeps to itself;
  the device works on its own, so every register access, read or write, is preceded by an arbitrary
  step tick of the device, a parameter of the operations (a modify is a read and a write, so the
  device may step between them).  Writing a one to a
  bit of the interrupt register clears it, as the driver relies on when it starts the generator.  The
  busy waits are partial functions: never ending is the result None.
\<close>

section \<open>Registers\<close>

definition TRNG_CTL0_SAMPLE_CLOCK_DIV :: field where "TRNG_CTL0_SAMPLE_CLOCK_DIV = (0, 8)"
definition TRNG_CTL0_RED_CLOCK_DIV :: field where "TRNG_CTL0_RED_CLOCK_DIV = (8, 8)"
definition TRNG_CTL0_INIT_DELAY :: field where "TRNG_CTL0_INIT_DELAY = (16, 8)"
definition TRNG_CTL0_VON_NEUMANN_CORR :: field where "TRNG_CTL0_VON_NEUMANN_CORR = (24, 1)"
definition TRNG_CTL0_STOP_ON_AP_DETECT :: field where "TRNG_CTL0_STOP_ON_AP_DETECT = (28, 1)"
definition TRNG_CTL0_STOP_ON_RC_DETECT :: field where "TRNG_CTL0_STOP_ON_RC_DETECT = (29, 1)"
definition TRNG_CTL1_RO11_EN :: field where "TRNG_CTL1_RO11_EN = (0, 1)"
definition TRNG_CTL1_RO15_EN :: field where "TRNG_CTL1_RO15_EN = (1, 1)"
definition TRNG_CTL1_GARO15_EN :: field where "TRNG_CTL1_GARO15_EN = (2, 1)"
definition TRNG_CTL1_GARO31_EN :: field where "TRNG_CTL1_GARO31_EN = (3, 1)"
definition TRNG_CTL1_FIRO15_EN :: field where "TRNG_CTL1_FIRO15_EN = (4, 1)"
definition TRNG_CTL1_FIRO31_EN :: field where "TRNG_CTL1_FIRO31_EN = (5, 1)"
definition TRNG_RESULT_DATA :: field where "TRNG_RESULT_DATA = (0, 32)"
definition TRNG_GARO_CTL_POLYNOMIAL :: field where "TRNG_GARO_CTL_POLYNOMIAL = (0, 31)"
definition TRNG_FIRO_CTL_POLYNOMIAL :: field where "TRNG_FIRO_CTL_POLYNOMIAL = (0, 31)"
definition TRNG_MON_CTL_BITSTREAM_SEL :: field where "TRNG_MON_CTL_BITSTREAM_SEL = (0, 2)"
definition TRNG_MON_CTL_AP :: field where "TRNG_MON_CTL_AP = (8, 1)"
definition TRNG_MON_CTL_RC :: field where "TRNG_MON_CTL_RC = (9, 1)"
definition TRNG_MON_RC_CTL_CUTOFF_COUNT8 :: field where "TRNG_MON_RC_CTL_CUTOFF_COUNT8 = (0, 8)"
definition TRNG_MON_AP_CTL_CUTOFF_COUNT16 :: field where "TRNG_MON_AP_CTL_CUTOFF_COUNT16 = (0, 16)"
definition TRNG_MON_AP_CTL_WINDOW_SIZE :: field where "TRNG_MON_AP_CTL_WINDOW_SIZE = (16, 16)"
definition INTR_TRNG_INITIALIZED :: field where "INTR_TRNG_INITIALIZED = (0, 1)"
definition INTR_TRNG_DATA_AVAILABLE :: field where "INTR_TRNG_DATA_AVAILABLE = (1, 1)"
definition INTR_TRNG_AP_DETECT :: field where "INTR_TRNG_AP_DETECT = (2, 1)"
definition INTR_TRNG_RC_DETECT :: field where "INTR_TRNG_RC_DETECT = (3, 1)"

lemmas trng_fields = TRNG_CTL0_SAMPLE_CLOCK_DIV_def TRNG_CTL0_RED_CLOCK_DIV_def TRNG_CTL0_INIT_DELAY_def
  TRNG_CTL0_VON_NEUMANN_CORR_def TRNG_CTL0_STOP_ON_AP_DETECT_def TRNG_CTL0_STOP_ON_RC_DETECT_def
  TRNG_CTL1_RO11_EN_def TRNG_CTL1_RO15_EN_def TRNG_CTL1_GARO15_EN_def TRNG_CTL1_GARO31_EN_def
  TRNG_CTL1_FIRO15_EN_def TRNG_CTL1_FIRO31_EN_def TRNG_RESULT_DATA_def TRNG_GARO_CTL_POLYNOMIAL_def
  TRNG_FIRO_CTL_POLYNOMIAL_def TRNG_MON_CTL_BITSTREAM_SEL_def TRNG_MON_CTL_AP_def TRNG_MON_CTL_RC_def
  TRNG_MON_RC_CTL_CUTOFF_COUNT8_def TRNG_MON_AP_CTL_CUTOFF_COUNT16_def TRNG_MON_AP_CTL_WINDOW_SIZE_def
  INTR_TRNG_INITIALIZED_def INTR_TRNG_DATA_AVAILABLE_def INTR_TRNG_AP_DETECT_def INTR_TRNG_RC_DETECT_def

record trng_regs =
  trng_ctl0 :: u32
  trng_ctl1 :: u32
  trng_result :: u32
  trng_garo_ctl :: u32
  trng_firo_ctl :: u32
  trng_mon_ctl :: u32
  trng_mon_rc_ctl :: u32
  trng_mon_ap_ctl :: u32
  intr_trng :: u32
  trng_hidden :: nat

definition POLY_MASK :: u32 where "POLY_MASK = 0x7FFFFFFF"
definition DEFAULT_GARO31_POLY :: u32 where "DEFAULT_GARO31_POLY = 0xB2D1AB70"
definition DEFAULT_FIRO31_POLY :: u32 where "DEFAULT_FIRO31_POLY = 0xE6B8C3B3"

datatype cryptolite_err =
  BadParams | HwBusy | BusError | CryptoliteNotSupported | SizeNotX16 | AlignmentError | TrngNotEnabled |
  TrngUnhealthy | BufferNotAligned | HwError

datatype trng_bitstream_select = DAS | RED | TR | UNDEFINED

primrec bitstream_value :: "trng_bitstream_select \<Rightarrow> u32" where
  "bitstream_value DAS = 0"
| "bitstream_value RED = 1"
| "bitstream_value TR = 2"
| "bitstream_value UNDEFINED = 3"

record trng_config =
  sample_clock_div :: u8
  reduced_clock_div :: u8
  init_delay :: u8
  vn_corrector_enable :: bool
  enable_ap_test :: bool
  enable_rc_test :: bool
  stop_on_ap_detect :: bool
  stop_on_rc_detect :: bool
  garo31_poly :: u32
  firo31_poly :: u32
  mon_bitstream_select :: trng_bitstream_select
  mon_cutoff_count8 :: u8
  mon_cutoff_count16 :: u16
  mon_window_size :: u16

definition trng_config_default :: trng_config where
  "trng_config_default =
    \<lparr>sample_clock_div = 1, reduced_clock_div = 3, init_delay = 255, vn_corrector_enable = True,
     enable_ap_test = True, enable_rc_test = True, stop_on_ap_detect = True, stop_on_rc_detect = True,
     garo31_poly = DEFAULT_GARO31_POLY, firo31_poly = DEFAULT_FIRO31_POLY, mon_bitstream_select = TR,
     mon_cutoff_count8 = 255, mon_cutoff_count16 = 255, mon_window_size = 255\<rparr>"

section \<open>Access\<close>

type_synonym device_tick = "trng_regs \<Rightarrow> trng_regs"

text \<open>A write to the interrupt register, and a modify of the monitor register.\<close>

definition intr_write :: "field_value \<Rightarrow> trng_regs \<Rightarrow> trng_regs" where
  "intr_write v r = r\<lparr>intr_trng := intr_trng r AND NOT (fv_value v)\<rparr>"

definition mon_modify :: "device_tick \<Rightarrow> field_value \<Rightarrow> trng_regs \<Rightarrow> trng_regs" where
  "mon_modify tick v r =
    (let r = tick r; w = reg_modify v (trng_mon_ctl r); r = tick r in r\<lparr>trng_mon_ctl := w\<rparr>)"

text \<open>A read of one bit of a register, and a short-circuit disjunction of such reads.\<close>

definition read_bit :: "device_tick \<Rightarrow> (trng_regs \<Rightarrow> u32) \<Rightarrow> field \<Rightarrow> trng_regs \<Rightarrow> trng_regs \<times> bool" where
  "read_bit tick reg f r = (let r = tick r in (r, field_is_set f (reg r)))"

fun read_any :: "device_tick \<Rightarrow> (trng_regs \<Rightarrow> u32) \<Rightarrow> field list \<Rightarrow> trng_regs \<Rightarrow> trng_regs \<times> bool" where
  "read_any tick reg [] r = (r, False)"
| "read_any tick reg (f # fs) r =
    (case read_bit tick reg f r of (r, b) \<Rightarrow> if b then (r, True) else read_any tick reg fs r)"

definition ring_oscillators :: "field list" where
  "ring_oscillators =
    [TRNG_CTL1_RO11_EN, TRNG_CTL1_RO15_EN, TRNG_CTL1_GARO15_EN, TRNG_CTL1_GARO31_EN, TRNG_CTL1_FIRO15_EN,
     TRNG_CTL1_FIRO31_EN]"

definition all_oscillators :: "(field \<Rightarrow> field_value) \<Rightarrow> field_value" where
  "all_oscillators g =
    fv_plus (fv_plus (fv_plus (fv_plus (fv_plus (g TRNG_CTL1_RO11_EN) (g TRNG_CTL1_RO15_EN)) (g TRNG_CTL1_GARO15_EN))
      (g TRNG_CTL1_GARO31_EN)) (g TRNG_CTL1_FIRO15_EN)) (g TRNG_CTL1_FIRO31_EN)"

section \<open>Operations\<close>

definition trng_mon_clear_health_status :: "device_tick \<Rightarrow> trng_regs \<Rightarrow> trng_regs" where
  "trng_mon_clear_health_status tick r =
    intr_write (fv_plus (field_set INTR_TRNG_AP_DETECT) (field_set INTR_TRNG_RC_DETECT)) (tick r)"

partial_function (option) trng_wait_for_init :: "device_tick \<Rightarrow> trng_regs \<Rightarrow> trng_regs option" where
  "trng_wait_for_init tick r =
    (case read_bit tick intr_trng INTR_TRNG_INITIALIZED r of
       (r, b) \<Rightarrow> if b then Some r else trng_wait_for_init tick r)"

partial_function (option) trng_wait_for_complete :: "device_tick \<Rightarrow> trng_regs \<Rightarrow> trng_regs option" where
  "trng_wait_for_complete tick r =
    (case read_any tick intr_trng [INTR_TRNG_DATA_AVAILABLE, INTR_TRNG_AP_DETECT, INTR_TRNG_RC_DETECT] r of
       (r, b) \<Rightarrow> if b then Some r else trng_wait_for_complete tick r)"

definition trng_mon_get_health_status :: "device_tick \<Rightarrow> trng_regs \<Rightarrow> trng_regs \<times> u8" where
  "trng_mon_get_health_status tick r =
    (case read_bit tick intr_trng INTR_TRNG_AP_DETECT r of (r, ap) \<Rightarrow>
     (case read_bit tick intr_trng INTR_TRNG_RC_DETECT r of (r, rc) \<Rightarrow>
       (r, of_bool ap OR push_bit 1 (of_bool rc))))"

definition trng_mon_set_bitstream_selector ::
    "device_tick \<Rightarrow> trng_bitstream_select \<Rightarrow> trng_regs \<Rightarrow> trng_regs \<times> (cryptolite_err + unit)" where
  "trng_mon_set_bitstream_selector tick sel r =
    (if sel = UNDEFINED then (r, Inl BadParams)
     else (mon_modify tick (field_val TRNG_MON_CTL_BITSTREAM_SEL (bitstream_value sel)) r, Inr ()))"

definition trng_mon_enable_ap_test :: "device_tick \<Rightarrow> trng_regs \<Rightarrow> trng_regs" where
  "trng_mon_enable_ap_test tick r = mon_modify tick (field_set TRNG_MON_CTL_AP) r"

definition trng_mon_enable_rc_test :: "device_tick \<Rightarrow> trng_regs \<Rightarrow> trng_regs" where
  "trng_mon_enable_rc_test tick r = mon_modify tick (field_set TRNG_MON_CTL_RC) r"

definition trng_init :: "device_tick \<Rightarrow> trng_config \<Rightarrow> trng_regs \<Rightarrow> trng_regs \<times> (cryptolite_err + unit)" where
  "trng_init tick config r =
    (if mon_bitstream_select config = UNDEFINED then (r, Inl BadParams)
     else
       let r = intr_write (fv_plus (field_set INTR_TRNG_DATA_AVAILABLE) (field_set INTR_TRNG_INITIALIZED)) (tick r);
           r = trng_mon_clear_health_status tick r;
           r = (tick r)\<lparr>trng_garo_ctl := fv_value (field_val TRNG_GARO_CTL_POLYNOMIAL (garo31_poly config AND POLY_MASK))\<rparr>;
           r = (tick r)\<lparr>trng_firo_ctl := fv_value (field_val TRNG_FIRO_CTL_POLYNOMIAL (firo31_poly config AND POLY_MASK))\<rparr>;
           r = (tick r)\<lparr>trng_ctl0 := fv_value
             (fv_plus (fv_plus (fv_plus (fv_plus (fv_plus
                (field_val TRNG_CTL0_SAMPLE_CLOCK_DIV (ucast (sample_clock_div config)))
                (field_val TRNG_CTL0_RED_CLOCK_DIV (ucast (reduced_clock_div config))))
                (field_val TRNG_CTL0_INIT_DELAY (ucast (init_delay config))))
                (field_val TRNG_CTL0_VON_NEUMANN_CORR (of_bool (vn_corrector_enable config))))
                (field_val TRNG_CTL0_STOP_ON_AP_DETECT (of_bool (stop_on_ap_detect config))))
                (field_val TRNG_CTL0_STOP_ON_RC_DETECT (of_bool (stop_on_rc_detect config))))\<rparr>
       in case trng_mon_set_bitstream_selector tick (mon_bitstream_select config) r of
            (r, Inl e) \<Rightarrow> (r, Inl e)
          | (r, Inr _) \<Rightarrow>
       (let r = (if enable_ap_test config then trng_mon_enable_ap_test tick r else r);
            r = (if enable_rc_test config then trng_mon_enable_rc_test tick r else r);
            r = (tick r)\<lparr>trng_mon_rc_ctl :=
                  fv_value (field_val TRNG_MON_RC_CTL_CUTOFF_COUNT8 (ucast (mon_cutoff_count8 config)))\<rparr>;
            r = (tick r)\<lparr>trng_mon_ap_ctl := fv_value
                  (fv_plus (field_val TRNG_MON_AP_CTL_CUTOFF_COUNT16 (ucast (mon_cutoff_count16 config)))
                     (field_val TRNG_MON_AP_CTL_WINDOW_SIZE (ucast (mon_window_size config))))\<rparr>
        in (r, Inr ())))"

definition trng_deinit :: "device_tick \<Rightarrow> trng_regs \<Rightarrow> trng_regs" where
  "trng_deinit tick r =
    (let r = (tick r)\<lparr>trng_ctl0 := fv_value (field_val TRNG_CTL0_INIT_DELAY 3)\<rparr>;
         r = (tick r)\<lparr>trng_ctl1 := fv_value (all_oscillators field_clear)\<rparr>;
         r = (tick r)\<lparr>trng_garo_ctl := fv_value (field_val TRNG_GARO_CTL_POLYNOMIAL 0)\<rparr>;
         r = (tick r)\<lparr>trng_firo_ctl := fv_value (field_val TRNG_FIRO_CTL_POLYNOMIAL 0)\<rparr>;
         r = (tick r)\<lparr>trng_mon_ctl := fv_value (field_val TRNG_MON_CTL_BITSTREAM_SEL (bitstream_value TR))\<rparr>;
         r = (tick r)\<lparr>trng_mon_rc_ctl := fv_value (field_val TRNG_MON_RC_CTL_CUTOFF_COUNT8 0)\<rparr>;
         r = (tick r)\<lparr>trng_mon_ap_ctl := fv_value
               (fv_plus (field_val TRNG_MON_AP_CTL_CUTOFF_COUNT16 0) (field_val TRNG_MON_AP_CTL_WINDOW_SIZE 0))\<rparr>;
         r = intr_write (fv_plus (field_set INTR_TRNG_DATA_AVAILABLE) (field_set INTR_TRNG_INITIALIZED)) (tick r)
     in trng_mon_clear_health_status tick r)"

definition trng_is_enabled :: "device_tick \<Rightarrow> trng_regs \<Rightarrow> trng_regs \<times> bool" where
  "trng_is_enabled tick r = read_any tick trng_ctl1 ring_oscillators r"

definition trng_enable :: "device_tick \<Rightarrow> trng_regs \<Rightarrow> (trng_regs \<times> (cryptolite_err + unit)) option" where
  "trng_enable tick r =
    (case trng_is_enabled tick r of
       (r, True) \<Rightarrow> Some (r, Inr ())
     | (r, False) \<Rightarrow>
         (let r = intr_write (fv_plus (field_set INTR_TRNG_DATA_AVAILABLE) (field_set INTR_TRNG_INITIALIZED)) (tick r);
              r = (tick r)\<lparr>trng_ctl1 := fv_value (all_oscillators field_set)\<rparr>
          in map_option (\<lambda>r. (r, Inr ())) (trng_wait_for_init tick r)))"

definition trng_disable :: "device_tick \<Rightarrow> trng_regs \<Rightarrow> trng_regs \<times> (cryptolite_err + unit)" where
  "trng_disable tick r =
    (case trng_is_enabled tick r of
       (r, True) \<Rightarrow>
         (let r = intr_write (fv_plus (field_set INTR_TRNG_DATA_AVAILABLE) (field_set INTR_TRNG_INITIALIZED)) (tick r);
              r = (tick r)\<lparr>trng_ctl1 := fv_value (all_oscillators field_clear)\<rparr>
          in (r, Inr ()))
     | (r, False) \<Rightarrow> (r, Inr ()))"

definition trng_read_data :: "device_tick \<Rightarrow> trng_regs \<Rightarrow> (trng_regs \<times> (cryptolite_err + u32)) option" where
  "trng_read_data tick r =
    (case trng_is_enabled tick r of
       (r, False) \<Rightarrow> Some (r, Inl TrngNotEnabled)
     | (r, True) \<Rightarrow>
         (case trng_wait_for_complete tick r of
            None \<Rightarrow> None
          | Some r \<Rightarrow>
              (let r = tick r;
                   random_data = field_read TRNG_RESULT_DATA (trng_result r) in
               case trng_mon_get_health_status tick r of
                 (r, status) \<Rightarrow> Some (r, if status \<noteq> 0 then Inl TrngUnhealthy else Inr random_data))))"

function fill_loop ::
    "device_tick \<Rightarrow> nat \<Rightarrow> u8 list \<Rightarrow> trng_regs \<Rightarrow> (trng_regs \<times> u8 list \<times> (cryptolite_err + unit)) option" where
  "fill_loop tick offset dest r =
    (if offset < length dest then
       (case trng_read_data tick r of
          None \<Rightarrow> None
        | Some (r, Inl e) \<Rightarrow> Some (r, dest, Inl e)
        | Some (r, Inr word) \<Rightarrow>
            (let bytes = le_bytes32 word;
                 remaining = length dest - offset;
                 n = min remaining (length bytes)
             in fill_loop tick (offset + n) (copy_at dest offset (take n bytes)) r))
     else Some (r, dest, Inr ()))"
  by pat_completeness auto
termination
  by (relation "measure (\<lambda>(_, offset, dest, _). length dest - offset)") (auto simp: length_copy_at)

declare fill_loop.simps [simp del]

definition trng_try_fill_bytes ::
    "device_tick \<Rightarrow> u8 list \<Rightarrow> trng_regs \<Rightarrow> (trng_regs \<times> u8 list \<times> (cryptolite_err + unit)) option" where
  "trng_try_fill_bytes tick dest r =
    (case trng_is_enabled tick r of
       (r, False) \<Rightarrow> Some (r, dest, Inl TrngNotEnabled)
     | (r, True) \<Rightarrow> fill_loop tick 0 dest r)"

section \<open>Reading the configuration back\<close>

definition trng_config_of :: "trng_regs \<Rightarrow> trng_config" where
  "trng_config_of r =
    \<lparr>sample_clock_div = ucast (field_read TRNG_CTL0_SAMPLE_CLOCK_DIV (trng_ctl0 r)),
     reduced_clock_div = ucast (field_read TRNG_CTL0_RED_CLOCK_DIV (trng_ctl0 r)),
     init_delay = ucast (field_read TRNG_CTL0_INIT_DELAY (trng_ctl0 r)),
     vn_corrector_enable = field_is_set TRNG_CTL0_VON_NEUMANN_CORR (trng_ctl0 r),
     enable_ap_test = field_is_set TRNG_MON_CTL_AP (trng_mon_ctl r),
     enable_rc_test = field_is_set TRNG_MON_CTL_RC (trng_mon_ctl r),
     stop_on_ap_detect = field_is_set TRNG_CTL0_STOP_ON_AP_DETECT (trng_ctl0 r),
     stop_on_rc_detect = field_is_set TRNG_CTL0_STOP_ON_RC_DETECT (trng_ctl0 r),
     garo31_poly = trng_garo_ctl r, firo31_poly = trng_firo_ctl r,
     mon_bitstream_select =
       (let v = field_read TRNG_MON_CTL_BITSTREAM_SEL (trng_mon_ctl r) in
        if v = 0 then DAS else if v = 1 then RED else if v = 2 then TR else UNDEFINED),
     mon_cutoff_count8 = ucast (field_read TRNG_MON_RC_CTL_CUTOFF_COUNT8 (trng_mon_rc_ctl r)),
     mon_cutoff_count16 = ucast (field_read TRNG_MON_AP_CTL_CUTOFF_COUNT16 (trng_mon_ap_ctl r)),
     mon_window_size = ucast (field_read TRNG_MON_AP_CTL_WINDOW_SIZE (trng_mon_ap_ctl r))\<rparr>"

lemma bit_of_bool_word: "bit (of_bool b :: u32) n \<longleftrightarrow> b \<and> n = 0"
  by (auto simp: bit_simps)

text \<open>The one-bit fields.\<close>

lemma trng_flags:
  "field_is_set TRNG_CTL0_VON_NEUMANN_CORR w = bit w 24" "field_is_set TRNG_CTL0_STOP_ON_AP_DETECT w = bit w 28"
  "field_is_set TRNG_CTL0_STOP_ON_RC_DETECT w = bit w 29" "field_is_set TRNG_MON_CTL_AP w = bit w 8"
  "field_is_set TRNG_MON_CTL_RC w = bit w 9" "field_is_set INTR_TRNG_INITIALIZED w = bit w 0"
  "field_is_set INTR_TRNG_DATA_AVAILABLE w = bit w 1" "field_is_set INTR_TRNG_AP_DETECT w = bit w 2"
  "field_is_set INTR_TRNG_RC_DETECT w = bit w 3"
  unfolding trng_fields by (rule field_is_set_one; simp)+

lemma bits_u8: "bit (w :: u8) n \<Longrightarrow> n < 8" and bits_u16: "bit (v :: u16) n \<Longrightarrow> n < 16"
  by (auto dest: bit_imp_le_length)

lemma bit_field_u8:
  "k \<le> 24 \<Longrightarrow> bit (fv_value (field_val (k, 8) (ucast (a :: u8)))) n \<longleftrightarrow> k \<le> n \<and> n < k + 8 \<and> bit a (n - k)"
  by (auto simp: bit_field_val bit_ucast_iff)

lemma bit_field_flag: "k < 32 \<Longrightarrow> bit (fv_value (field_val (k, 1) (of_bool p))) n \<longleftrightarrow> n = k \<and> p"
  by (auto simp: bit_field_val bit_of_bool_word)

lemma ctl0_reads:
  fixes w :: u32
  assumes "w = fv_value (fv_plus (fv_plus (fv_plus (fv_plus (fv_plus
      (field_val TRNG_CTL0_SAMPLE_CLOCK_DIV (ucast (a :: u8))) (field_val TRNG_CTL0_RED_CLOCK_DIV (ucast (b :: u8))))
      (field_val TRNG_CTL0_INIT_DELAY (ucast (c :: u8)))) (field_val TRNG_CTL0_VON_NEUMANN_CORR (of_bool p)))
      (field_val TRNG_CTL0_STOP_ON_AP_DETECT (of_bool q))) (field_val TRNG_CTL0_STOP_ON_RC_DETECT (of_bool t)))"
  shows "ucast (field_read TRNG_CTL0_SAMPLE_CLOCK_DIV w) = a" "ucast (field_read TRNG_CTL0_RED_CLOCK_DIV w) = b"
    "ucast (field_read TRNG_CTL0_INIT_DELAY w) = c" "field_is_set TRNG_CTL0_VON_NEUMANN_CORR w = p"
    "field_is_set TRNG_CTL0_STOP_ON_AP_DETECT w = q" "field_is_set TRNG_CTL0_STOP_ON_RC_DETECT w = t"
proof -
  have n24: "bit (fv_value (field_val (0, 8) (ucast a))) n \<longleftrightarrow> 0 \<le> n \<and> n < 0 + 8 \<and> bit a (n - 0)"
    "bit (fv_value (field_val (8, 8) (ucast b))) n \<longleftrightarrow> 8 \<le> n \<and> n < 8 + 8 \<and> bit b (n - 8)"
    "bit (fv_value (field_val (16, 8) (ucast c))) n \<longleftrightarrow> 16 \<le> n \<and> n < 16 + 8 \<and> bit c (n - 16)"
    "bit (fv_value (field_val (24, 1) (of_bool p))) n \<longleftrightarrow> n = 24 \<and> p"
    "bit (fv_value (field_val (28, 1) (of_bool q))) n \<longleftrightarrow> n = 28 \<and> q"
    "bit (fv_value (field_val (29, 1) (of_bool t))) n \<longleftrightarrow> n = 29 \<and> t" for n
    by (rule bit_field_u8 bit_field_flag; simp)+
  have bits: "bit w n \<longleftrightarrow> (((((0 \<le> n \<and> n < 0 + 8 \<and> bit a (n - 0)) \<or> (8 \<le> n \<and> n < 8 + 8 \<and> bit b (n - 8))) \<or>
      (16 \<le> n \<and> n < 16 + 8 \<and> bit c (n - 16))) \<or> (n = 24 \<and> p)) \<or> (n = 28 \<and> q)) \<or> (n = 29 \<and> t)" for n
    unfolding assms bit_fv_plus trng_fields n24 by (rule refl)
  show "ucast (field_read TRNG_CTL0_SAMPLE_CLOCK_DIV w) = a" "ucast (field_read TRNG_CTL0_RED_CLOCK_DIV w) = b"
    "ucast (field_read TRNG_CTL0_INIT_DELAY w) = c"
    by (rule bit_word_eqI; simp add: bit_ucast_iff bit_field_read trng_fields bits)+
  show "field_is_set TRNG_CTL0_VON_NEUMANN_CORR w = p"
    "field_is_set TRNG_CTL0_STOP_ON_AP_DETECT w = q" "field_is_set TRNG_CTL0_STOP_ON_RC_DETECT w = t"
    by (simp_all add: trng_flags bits)
qed

lemma mon_reads:
  "ucast (field_read TRNG_MON_RC_CTL_CUTOFF_COUNT8 (fv_value (field_val TRNG_MON_RC_CTL_CUTOFF_COUNT8 (ucast (a :: u8))))) = a"
  "ucast (field_read TRNG_MON_AP_CTL_CUTOFF_COUNT16 (fv_value (fv_plus (field_val TRNG_MON_AP_CTL_CUTOFF_COUNT16 (ucast (b :: u16)))
    (field_val TRNG_MON_AP_CTL_WINDOW_SIZE (ucast (c :: u16)))))) = b"
  "ucast (field_read TRNG_MON_AP_CTL_WINDOW_SIZE (fv_value (fv_plus (field_val TRNG_MON_AP_CTL_CUTOFF_COUNT16 (ucast b))
    (field_val TRNG_MON_AP_CTL_WINDOW_SIZE (ucast c))))) = c"
  by (rule bit_word_eqI; auto simp: bit_ucast_iff bit_field_read bit_fv_plus bit_field_val trng_fields)+

lemma bit_bitstream: "bit (bitstream_value sel) n \<longleftrightarrow> (sel = RED \<or> sel = UNDEFINED) \<and> n = 0 \<or> (sel = TR \<or> sel = UNDEFINED) \<and> n = 1"
proof -
  have "bit (1 :: u32) n \<longleftrightarrow> n = 0" by (simp add: bit_1_iff)
  moreover have "bit (2 :: u32) n \<longleftrightarrow> n = 1" using bit_field[of "2 :: u32" 1 1 n] by (auto simp: mask_eq_exp_minus_1)
  moreover have "bit (3 :: u32) n \<longleftrightarrow> n < 2" using bit_field[of "3 :: u32" 0 2 n] by (auto simp: mask_eq_exp_minus_1)
  ultimately show ?thesis by (cases sel) auto
qed

lemma poly_value: "fv_value (field_val (0, 31) (w AND POLY_MASK)) = w AND POLY_MASK"
proof -
  have "bit POLY_MASK n \<longleftrightarrow> n < 31" for n
    using bit_field[of POLY_MASK 0 31 n] by (simp add: POLY_MASK_def mask_eq_exp_minus_1)
  then show ?thesis by (intro bit_word_eqI) (auto simp: bit_field_val bit_and_iff)
qed

section \<open>What the device does by itself\<close>

text \<open>
  The register descriptions of cryptolite.rs: the hardware never writes the configuration registers or
  the selection of the bit stream, it clears the enable bit of a health test on a detection and the
  oscillators' bits when a detection stops them, and it sets neither; interrupt causes it may raise
  at any time.  Quiet when off is the further condition of a device that does nothing while no
  oscillator runs.
\<close>

definition oscillating :: "trng_regs \<Rightarrow> bool" where
  "oscillating r \<longleftrightarrow> list_ex (\<lambda>f. field_is_set f (trng_ctl1 r)) ring_oscillators"

definition device_documented :: "device_tick \<Rightarrow> bool" where
  "device_documented tick \<longleftrightarrow>
    (\<forall>r. trng_ctl0 (tick r) = trng_ctl0 r \<and> trng_garo_ctl (tick r) = trng_garo_ctl r \<and>
      trng_firo_ctl (tick r) = trng_firo_ctl r \<and> trng_mon_rc_ctl (tick r) = trng_mon_rc_ctl r \<and>
      trng_mon_ap_ctl (tick r) = trng_mon_ap_ctl r \<and>
      field_read TRNG_MON_CTL_BITSTREAM_SEL (trng_mon_ctl (tick r)) = field_read TRNG_MON_CTL_BITSTREAM_SEL (trng_mon_ctl r) \<and>
      (field_is_set TRNG_MON_CTL_AP (trng_mon_ctl (tick r)) \<longrightarrow> field_is_set TRNG_MON_CTL_AP (trng_mon_ctl r)) \<and>
      (field_is_set TRNG_MON_CTL_RC (trng_mon_ctl (tick r)) \<longrightarrow> field_is_set TRNG_MON_CTL_RC (trng_mon_ctl r)) \<and>
      (\<forall>f\<in>set ring_oscillators. field_is_set f (trng_ctl1 (tick r)) \<longrightarrow> field_is_set f (trng_ctl1 r)))"

definition quiet_when_off :: "device_tick \<Rightarrow> bool" where
  "quiet_when_off tick \<longleftrightarrow>
    (\<forall>r. \<not> oscillating r \<longrightarrow> trng_ctl1 (tick r) = trng_ctl1 r \<and> trng_mon_ctl (tick r) = trng_mon_ctl r \<and>
      intr_trng (tick r) = intr_trng r)"

lemma mon_modify_fields [simp]:
  "trng_mon_ctl (mon_modify tick v r) = reg_modify v (trng_mon_ctl (tick r))"
  "trng_ctl0 (mon_modify tick v r) = trng_ctl0 (tick (tick r))"
  "trng_ctl1 (mon_modify tick v r) = trng_ctl1 (tick (tick r))"
  "trng_garo_ctl (mon_modify tick v r) = trng_garo_ctl (tick (tick r))"
  "trng_firo_ctl (mon_modify tick v r) = trng_firo_ctl (tick (tick r))"
  "trng_mon_rc_ctl (mon_modify tick v r) = trng_mon_rc_ctl (tick (tick r))"
  "trng_mon_ap_ctl (mon_modify tick v r) = trng_mon_ap_ctl (tick (tick r))"
  "intr_trng (mon_modify tick v r) = intr_trng (tick (tick r))"
  by (simp_all add: mon_modify_def Let_def)

lemma intr_write_fields [simp]:
  "trng_mon_ctl (intr_write v r) = trng_mon_ctl r" "trng_ctl0 (intr_write v r) = trng_ctl0 r"
  "trng_ctl1 (intr_write v r) = trng_ctl1 r" "trng_garo_ctl (intr_write v r) = trng_garo_ctl r"
  "trng_firo_ctl (intr_write v r) = trng_firo_ctl r" "trng_mon_rc_ctl (intr_write v r) = trng_mon_rc_ctl r"
  "trng_mon_ap_ctl (intr_write v r) = trng_mon_ap_ctl r"
  "intr_trng (intr_write v r) = intr_trng r AND NOT (fv_value v)"
  by (simp_all add: intr_write_def)

text \<open>What the three modifications do to the fields of the monitor register.\<close>

lemma mon_fields:
  "field_read TRNG_MON_CTL_BITSTREAM_SEL (reg_modify (field_val TRNG_MON_CTL_BITSTREAM_SEL (bitstream_value sel)) w) = bitstream_value sel"
  "field_read TRNG_MON_CTL_BITSTREAM_SEL (reg_modify (field_set TRNG_MON_CTL_AP) w) = field_read TRNG_MON_CTL_BITSTREAM_SEL w"
  "field_read TRNG_MON_CTL_BITSTREAM_SEL (reg_modify (field_set TRNG_MON_CTL_RC) w) = field_read TRNG_MON_CTL_BITSTREAM_SEL w"
  "field_is_set TRNG_MON_CTL_AP (reg_modify (field_val TRNG_MON_CTL_BITSTREAM_SEL x) w) = field_is_set TRNG_MON_CTL_AP w"
  "field_is_set TRNG_MON_CTL_RC (reg_modify (field_val TRNG_MON_CTL_BITSTREAM_SEL x) w) = field_is_set TRNG_MON_CTL_RC w"
  "field_is_set TRNG_MON_CTL_AP (reg_modify (field_set TRNG_MON_CTL_AP) w)"
  "field_is_set TRNG_MON_CTL_RC (reg_modify (field_set TRNG_MON_CTL_AP) w) = field_is_set TRNG_MON_CTL_RC w"
  "field_is_set TRNG_MON_CTL_AP (reg_modify (field_set TRNG_MON_CTL_RC) w) = field_is_set TRNG_MON_CTL_AP w"
  "field_is_set TRNG_MON_CTL_RC (reg_modify (field_set TRNG_MON_CTL_RC) w)"
proof -
  note bits = bit_field_read bit_reg_modify bit_field_val bit_field_set bit_fv_mask field_set_def trng_fields bit_bitstream bit_mask_iff
  show "field_read TRNG_MON_CTL_BITSTREAM_SEL (reg_modify (field_val TRNG_MON_CTL_BITSTREAM_SEL (bitstream_value sel)) w) = bitstream_value sel"
    "field_read TRNG_MON_CTL_BITSTREAM_SEL (reg_modify (field_set TRNG_MON_CTL_AP) w) = field_read TRNG_MON_CTL_BITSTREAM_SEL w"
    "field_read TRNG_MON_CTL_BITSTREAM_SEL (reg_modify (field_set TRNG_MON_CTL_RC) w) = field_read TRNG_MON_CTL_BITSTREAM_SEL w"
    by (rule bit_word_eqI; auto simp: bits)+
  show "field_is_set TRNG_MON_CTL_AP (reg_modify (field_val TRNG_MON_CTL_BITSTREAM_SEL x) w) = field_is_set TRNG_MON_CTL_AP w"
    "field_is_set TRNG_MON_CTL_RC (reg_modify (field_val TRNG_MON_CTL_BITSTREAM_SEL x) w) = field_is_set TRNG_MON_CTL_RC w"
    "field_is_set TRNG_MON_CTL_AP (reg_modify (field_set TRNG_MON_CTL_AP) w)"
    "field_is_set TRNG_MON_CTL_RC (reg_modify (field_set TRNG_MON_CTL_AP) w) = field_is_set TRNG_MON_CTL_RC w"
    "field_is_set TRNG_MON_CTL_AP (reg_modify (field_set TRNG_MON_CTL_RC) w) = field_is_set TRNG_MON_CTL_AP w"
    "field_is_set TRNG_MON_CTL_RC (reg_modify (field_set TRNG_MON_CTL_RC) w)"
    unfolding trng_flags by (auto simp: bits)
qed

lemma intr_cleared:
  assumes "n < 4"
  shows "\<not> bit ((w AND NOT (fv_value (fv_plus (field_set INTR_TRNG_DATA_AVAILABLE) (field_set INTR_TRNG_INITIALIZED)))) AND
    NOT (fv_value (fv_plus (field_set INTR_TRNG_AP_DETECT) (field_set INTR_TRNG_RC_DETECT)))) n"
proof -
  have "n = 0 \<or> n = 1 \<or> n = 2 \<or> n = 3" using assms by auto
  then show ?thesis by (auto simp: bit_and_iff bit_not_iff bit_fv_plus bit_field_set trng_fields)
qed

lemmas trng_init_steps = trng_init_def trng_mon_set_bitstream_selector_def trng_mon_enable_ap_test_def
  trng_mon_enable_rc_test_def trng_mon_clear_health_status_def

section \<open>Properties of the configuration\<close>

text \<open>C34. Configuring the generator.  trng_init refuses the undefined bit stream and then touches nothing.
  Otherwise it returns Ok, and whatever the device does meanwhile (detections included) the registers
  read back the configuration with the two polynomials cut to 31 bits, except for the two health
  tests: each is enabled at the end only if the configuration asks for it or it was enabled before,
  because the monitor register is modified and not written; and no oscillator is started.  On a
  generator that is off and stays quiet while off, the tests enabled are exactly those, the
  oscillators' register is unchanged and the four interrupt causes are clear.\<close>

theorem trng_init_exact:
  assumes "device_documented tick"
  shows "if mon_bitstream_select config = UNDEFINED then trng_init tick config r = (r, Inl BadParams)
    else \<exists>r'. trng_init tick config r = (r', Inr ()) \<and>
      trng_config_of r' = config
        \<lparr>garo31_poly := garo31_poly config AND POLY_MASK, firo31_poly := firo31_poly config AND POLY_MASK,
         enable_ap_test := field_is_set TRNG_MON_CTL_AP (trng_mon_ctl r'),
         enable_rc_test := field_is_set TRNG_MON_CTL_RC (trng_mon_ctl r')\<rparr> \<and>
      (field_is_set TRNG_MON_CTL_AP (trng_mon_ctl r') \<longrightarrow>
        enable_ap_test config \<or> field_is_set TRNG_MON_CTL_AP (trng_mon_ctl r)) \<and>
      (field_is_set TRNG_MON_CTL_RC (trng_mon_ctl r') \<longrightarrow>
        enable_rc_test config \<or> field_is_set TRNG_MON_CTL_RC (trng_mon_ctl r)) \<and>
      (\<forall>f\<in>set ring_oscillators. field_is_set f (trng_ctl1 r') \<longrightarrow> field_is_set f (trng_ctl1 r)) \<and>
      (quiet_when_off tick \<and> \<not> oscillating r \<longrightarrow>
        (field_is_set TRNG_MON_CTL_AP (trng_mon_ctl r') \<longleftrightarrow>
          enable_ap_test config \<or> field_is_set TRNG_MON_CTL_AP (trng_mon_ctl r)) \<and>
        (field_is_set TRNG_MON_CTL_RC (trng_mon_ctl r') \<longleftrightarrow>
          enable_rc_test config \<or> field_is_set TRNG_MON_CTL_RC (trng_mon_ctl r)) \<and>
        trng_ctl1 r' = trng_ctl1 r \<and> (\<forall>n<4. \<not> bit (intr_trng r') n))"
proof (cases "mon_bitstream_select config = UNDEFINED")
  case False
  obtain r' where r': "trng_init tick config r = (r', Inr ())"
    using False by (simp add: trng_init_steps Let_def)
  note run = r'[unfolded trng_init_steps Let_def, simplified False, simplified, symmetric]
  have keep: "trng_ctl0 (tick x) = trng_ctl0 x" "trng_garo_ctl (tick x) = trng_garo_ctl x"
    "trng_firo_ctl (tick x) = trng_firo_ctl x" "trng_mon_rc_ctl (tick x) = trng_mon_rc_ctl x"
    "trng_mon_ap_ctl (tick x) = trng_mon_ap_ctl x"
    "field_read TRNG_MON_CTL_BITSTREAM_SEL (trng_mon_ctl (tick x)) = field_read TRNG_MON_CTL_BITSTREAM_SEL (trng_mon_ctl x)" for x
    using assms by (simp_all add: device_documented_def)
  have only: "field_is_set TRNG_MON_CTL_AP (trng_mon_ctl (tick x)) \<Longrightarrow> field_is_set TRNG_MON_CTL_AP (trng_mon_ctl x)"
    "field_is_set TRNG_MON_CTL_RC (trng_mon_ctl (tick x)) \<Longrightarrow> field_is_set TRNG_MON_CTL_RC (trng_mon_ctl x)"
    "f \<in> set ring_oscillators \<Longrightarrow> field_is_set f (trng_ctl1 (tick x)) \<Longrightarrow> field_is_set f (trng_ctl1 x)" for f x
    using assms by (simp_all add: device_documented_def)
  have regs: "trng_config_of r' = config
      \<lparr>garo31_poly := garo31_poly config AND POLY_MASK, firo31_poly := firo31_poly config AND POLY_MASK,
       enable_ap_test := field_is_set TRNG_MON_CTL_AP (trng_mon_ctl r'),
       enable_rc_test := field_is_set TRNG_MON_CTL_RC (trng_mon_ctl r')\<rparr>"
  proof -
    have "field_read TRNG_MON_CTL_BITSTREAM_SEL (trng_mon_ctl r') = bitstream_value (mon_bitstream_select config)"
      unfolding run by (simp add: keep mon_fields)
    then show ?thesis unfolding trng_config_of_def using False
      by (cases "mon_bitstream_select config"; cases config)
        (simp_all add: run keep ctl0_reads[OF refl] mon_reads TRNG_GARO_CTL_POLYNOMIAL_def TRNG_FIRO_CTL_POLYNOMIAL_def poly_value)
  qed
  have ap: "field_is_set TRNG_MON_CTL_AP (trng_mon_ctl r') \<longrightarrow> enable_ap_test config \<or> field_is_set TRNG_MON_CTL_AP (trng_mon_ctl r)"
    and rc: "field_is_set TRNG_MON_CTL_RC (trng_mon_ctl r') \<longrightarrow> enable_rc_test config \<or> field_is_set TRNG_MON_CTL_RC (trng_mon_ctl r)"
    unfolding run by (auto simp: mon_fields split: if_splits dest!: only(1,2))
  have osc: "\<forall>f\<in>set ring_oscillators. field_is_set f (trng_ctl1 r') \<longrightarrow> field_is_set f (trng_ctl1 r)"
  proof (intro ballI impI)
    fix f assume f: "f \<in> set ring_oscillators" "field_is_set f (trng_ctl1 r')"
    note earlier = only(3)[OF f(1)]
    show "field_is_set f (trng_ctl1 r)"
      using f(2) unfolding run by (auto split: if_splits dest!: earlier simp del: of_bool_eq)
  qed
  have quiet: "(field_is_set TRNG_MON_CTL_AP (trng_mon_ctl r') \<longleftrightarrow>
        enable_ap_test config \<or> field_is_set TRNG_MON_CTL_AP (trng_mon_ctl r)) \<and>
      (field_is_set TRNG_MON_CTL_RC (trng_mon_ctl r') \<longleftrightarrow>
        enable_rc_test config \<or> field_is_set TRNG_MON_CTL_RC (trng_mon_ctl r)) \<and>
      trng_ctl1 r' = trng_ctl1 r \<and> (\<forall>n<4. \<not> bit (intr_trng r') n)"
    if "quiet_when_off tick" "\<not> oscillating r"
  proof -
    have off: "\<not> oscillating x" if "trng_ctl1 x = trng_ctl1 r" for x
      using \<open>\<not> oscillating r\<close> that by (simp add: oscillating_def)
    have still: "trng_ctl1 x = trng_ctl1 r \<Longrightarrow> trng_ctl1 (tick x) = trng_ctl1 r"
      "trng_ctl1 x = trng_ctl1 r \<Longrightarrow> trng_mon_ctl (tick x) = trng_mon_ctl x"
      "trng_ctl1 x = trng_ctl1 r \<Longrightarrow> intr_trng (tick x) = intr_trng x" for x
      using \<open>quiet_when_off tick\<close> off[of x] by (simp_all add: quiet_when_off_def)
    show ?thesis unfolding run by (simp add: still mon_fields intr_cleared)
  qed
  show ?thesis using False r' regs ap rc osc quiet by auto
qed (simp add: trng_init_def)

text \<open>A device that alarms at once when it runs: it stops the oscillators, clears both tests and raises both
  causes; off, it is quiet.\<close>

definition alarm_tick :: device_tick where
  "alarm_tick r =
    (if oscillating r then r\<lparr>trng_mon_ctl := trng_mon_ctl r AND 3, trng_ctl1 := 0, intr_trng := 0xC\<rparr> else r)"

lemma alarm_tick_documented: "device_documented alarm_tick" "quiet_when_off alarm_tick"
proof -
  have three: "bit (3 :: u32) n \<longleftrightarrow> n < 2" for n using bit_field[of "3 :: u32" 0 2 n] by (auto simp: mask_eq_exp_minus_1)
  have "field_read TRNG_MON_CTL_BITSTREAM_SEL (w AND 3) = field_read TRNG_MON_CTL_BITSTREAM_SEL w" for w
    by (rule bit_word_eqI) (simp only: bit_field_read TRNG_MON_CTL_BITSTREAM_SEL_def bit_and_iff three, auto)
  moreover have "\<not> field_is_set TRNG_MON_CTL_AP (w AND 3)" "\<not> field_is_set TRNG_MON_CTL_RC (w AND 3)" for w
    by (simp_all only: trng_flags bit_and_iff three) simp_all
  moreover have "\<not> field_is_set f 0" for f by (simp add: field_is_set_def)
  ultimately show "device_documented alarm_tick" "quiet_when_off alarm_tick"
    by (simp_all add: device_documented_def quiet_when_off_def alarm_tick_def)
qed

definition idle_trng :: trng_regs where
  "idle_trng =
    \<lparr>trng_ctl0 = 0, trng_ctl1 = 0, trng_result = 0, trng_garo_ctl = 0, trng_firo_ctl = 0, trng_mon_ctl = 0,
     trng_mon_rc_ctl = 0, trng_mon_ap_ctl = 0, intr_trng = 0xF, trng_hidden = 0\<rparr>"

theorem trng_init_exact_witness:
  "(\<exists>r'. trng_init alarm_tick trng_config_default idle_trng = (r', Inr ()) \<and>
      field_is_set TRNG_MON_CTL_AP (trng_mon_ctl r') \<and> \<not> bit (intr_trng r') 0 \<and>
      garo31_poly (trng_config_of r') = 0x32D1AB70) \<and>
    (\<exists>r'. trng_init alarm_tick trng_config_default (idle_trng\<lparr>trng_ctl1 := 0x3F\<rparr>) = (r', Inr ()) \<and>
      garo31_poly (trng_config_of r') = 0x32D1AB70)"
proof -
  have sel: "mon_bitstream_select trng_config_default \<noteq> UNDEFINED" by (simp add: trng_config_default_def)
  have poly: "garo31_poly trng_config_default AND POLY_MASK = 0x32D1AB70"
    by (simp add: trng_config_default_def DEFAULT_GARO31_POLY_def POLY_MASK_def)
  have off: "\<not> oscillating idle_trng"
    by (simp add: oscillating_def ring_oscillators_def idle_trng_def field_is_set_def)
  have ap: "enable_ap_test trng_config_default" by (simp add: trng_config_default_def)
  note init = trng_init_exact[OF alarm_tick_documented(1), of trng_config_default, simplified sel, simplified]
  obtain r1 where r1: "trng_init alarm_tick trng_config_default idle_trng = (r1, Inr ())"
    "field_is_set TRNG_MON_CTL_AP (trng_mon_ctl r1)" "\<not> bit (intr_trng r1) 0"
    "garo31_poly (trng_config_of r1) = 0x32D1AB70"
    using init[of idle_trng] alarm_tick_documented(2) off ap by (auto simp: poly)
  obtain r2 where r2: "trng_init alarm_tick trng_config_default (idle_trng\<lparr>trng_ctl1 := 0x3F\<rparr>) = (r2, Inr ())"
    "garo31_poly (trng_config_of r2) = 0x32D1AB70"
    using init[of "idle_trng\<lparr>trng_ctl1 := 0x3F\<rparr>"] by (auto simp: poly)
  show ?thesis using r1 r2 by auto
qed

section \<open>Filling a buffer\<close>

text \<open>A word that is waiting, with the generator running and healthy; and a device that meanwhile produces no
  further word, raises no alarm and stops nothing, interrupt causes staying until software clears them.\<close>

definition word_ready :: "u32 \<Rightarrow> trng_regs \<Rightarrow> bool" where
  "word_ready w r \<longleftrightarrow> field_is_set TRNG_CTL1_RO11_EN (trng_ctl1 r) \<and>
    field_is_set INTR_TRNG_DATA_AVAILABLE (intr_trng r) \<and> \<not> field_is_set INTR_TRNG_AP_DETECT (intr_trng r) \<and>
    \<not> field_is_set INTR_TRNG_RC_DETECT (intr_trng r) \<and> trng_result r = w"

definition holds_word :: "device_tick \<Rightarrow> u32 \<Rightarrow> bool" where
  "holds_word tick w \<longleftrightarrow> (\<forall>r. word_ready w r \<longrightarrow> word_ready w (tick r))"

lemma trng_is_enabled_ready: "word_ready w (tick r) \<Longrightarrow> trng_is_enabled tick r = (tick r, True)"
  by (simp add: trng_is_enabled_def ring_oscillators_def read_bit_def Let_def word_ready_def)

lemma trng_wait_ready: "word_ready w (tick r) \<Longrightarrow> trng_wait_for_complete tick r = Some (tick r)"
  by (subst trng_wait_for_complete.simps) (simp add: read_bit_def Let_def word_ready_def)

lemma field_read_all: "field_read TRNG_RESULT_DATA w = w"
  by (rule bit_word_eqI) (simp add: bit_field_read TRNG_RESULT_DATA_def)

lemma trng_read_ready:
  assumes "holds_word tick w" "word_ready w r"
  shows "\<exists>r'. trng_read_data tick r = Some (r', Inr w) \<and> word_ready w r'"
proof -
  have t: "word_ready w (tick x)" if "word_ready w x" for x using assms(1) that by (simp add: holds_word_def)
  note r = t[OF assms(2)] t[OF t[OF assms(2)]] t[OF t[OF t[OF assms(2)]]] t[OF t[OF t[OF t[OF assms(2)]]]]
    t[OF t[OF t[OF t[OF t[OF assms(2)]]]]]
  have "trng_read_data tick r = Some (tick (tick (tick (tick (tick r)))), Inr w)"
    using r(3-5) by (simp add: trng_read_data_def trng_is_enabled_ready[where tick = tick, OF r(1)] trng_wait_ready[where tick = tick, OF r(2)] Let_def
        trng_mon_get_health_status_def read_bit_def field_read_all) (simp add: word_ready_def)
  then show ?thesis using r(5) by blast
qed

definition word_copies :: "u32 \<Rightarrow> nat \<Rightarrow> u8 list" where
  "word_copies w n = map (\<lambda>i. le_bytes32 w ! (i mod 4)) [0..<n]"

lemma length_word_copies [simp]: "length (word_copies w n) = n"
  by (simp add: word_copies_def)

lemma word_copies_step: "word_copies w n = take (min n 4) (le_bytes32 w) @ word_copies w (n - 4)"
proof (rule nth_equalityI)
  fix i assume i: "i < length (word_copies w n)"
  show "word_copies w n ! i = (take (min n 4) (le_bytes32 w) @ word_copies w (n - 4)) ! i"
    using i by (cases "i < 4") (auto simp: word_copies_def nth_append le_mod_geq)
qed (simp add: min_def)

lemma fill_loop_ready:
  assumes "holds_word tick w" "word_ready w r" "offset \<le> length dest"
  shows "\<exists>r'. fill_loop tick offset dest r =
    Some (r', take offset dest @ word_copies w (length dest - offset), Inr ()) \<and> word_ready w r'"
  using assms(2,3)
proof (induction "length dest - offset" arbitrary: offset dest r rule: less_induct)
  case less
  show ?case
  proof (cases "offset < length dest")
    case True
    obtain r1 where r1: "trng_read_data tick r = Some (r1, Inr w)" "word_ready w r1"
      using trng_read_ready[OF assms(1) less.prems(1)] by blast
    let ?n = "min (length dest - offset) 4"
    let ?d = "copy_at dest offset (take ?n (le_bytes32 w))"
    have n: "length (take ?n (le_bytes32 w)) = ?n" by simp
    have d: "length ?d = length dest" using True by (simp add: length_copy_at)
    have "take (offset + ?n) ?d = take offset dest @ take ?n (le_bytes32 w)"
      using take_copy_at[of offset dest "take ?n (le_bytes32 w)"] True by (simp add: n)
    moreover obtain r2 where "fill_loop tick (offset + ?n) ?d r1 =
        Some (r2, take (offset + ?n) ?d @ word_copies w (length ?d - (offset + ?n)), Inr ())" "word_ready w r2"
      using less.hyps[OF _ r1(2), of ?d "offset + ?n"] True unfolding d by fastforce
    moreover have "fill_loop tick offset dest r = fill_loop tick (offset + ?n) ?d r1"
      using True r1(1) by (subst fill_loop.simps) (simp add: Let_def)
    moreover have "word_copies w (length dest - offset) =
        take ?n (le_bytes32 w) @ word_copies w (length dest - (offset + ?n))"
      using word_copies_step[of w "length dest - offset"] by (simp add: min_def)
    ultimately show ?thesis using d by auto
  next
    case False
    then show ?thesis using less.prems by (subst fill_loop.simps) (auto simp: word_copies_def)
  qed
qed

lemma trng_fill_core:
  assumes "holds_word tick w" "word_ready w (tick r)"
  shows "\<exists>r'. trng_try_fill_bytes tick dest r = Some (r', word_copies w (length dest), Inr ())"
  using fill_loop_ready[where r = "tick r" and offset = 0 and dest = dest, OF assms(1,2)]
  by (auto simp: trng_try_fill_bytes_def trng_is_enabled_ready[where tick = tick, OF assms(2)])

text \<open>The driver never acknowledges a word.  DATA_AVAILABLE is cleared when the generator starts and never again, so
  once a word has arrived every later read takes the result register as it is: a fill that runs while the
  device is still at work on its next word returns Ok with that one word repeated through the whole buffer.\<close>

theorem trng_fill_repeats:
  assumes "holds_word tick w" "word_ready w (tick r)"
  shows "\<exists>r'. trng_try_fill_bytes tick dest r = Some (r', word_copies w (length dest), Inr ())"
  by (rule trng_fill_core[OF assms])

definition sample_trng :: trng_regs where
  "sample_trng =
    \<lparr>trng_ctl0 = 0, trng_ctl1 = 0x3F, trng_result = 0x11223344, trng_garo_ctl = 0, trng_firo_ctl = 0,
     trng_mon_ctl = 0, trng_mon_rc_ctl = 0, trng_mon_ap_ctl = 0, intr_trng = 3,
     trng_hidden = 0\<rparr>"

text \<open>A device on which a word is waiting at every access.\<close>

definition ready_tick :: device_tick where "ready_tick r = r\<lparr>intr_trng := 2\<rparr>"

lemma ready_tick_ready:
  "field_is_set TRNG_CTL1_RO11_EN (trng_ctl1 r) \<Longrightarrow> word_ready (trng_result r) (ready_tick r)"
proof -
  have "bit (2 :: u32) n \<longleftrightarrow> n = 1" for n using bit_field[of "2 :: u32" 1 1 n] by (auto simp: mask_eq_exp_minus_1)
  then show "field_is_set TRNG_CTL1_RO11_EN (trng_ctl1 r) \<Longrightarrow> ?thesis"
    by (simp add: word_ready_def ready_tick_def trng_flags)
qed

lemma ready_tick_holds: "holds_word ready_tick w"
proof -
  have "word_ready w (ready_tick r)" if "word_ready w r" for r
    using that ready_tick_ready[of r] by (auto simp: word_ready_def)
  then show ?thesis by (simp add: holds_word_def)
qed

lemma oscillator_on: "field_is_set TRNG_CTL1_RO11_EN 0x3F"
  by (simp add: field_is_set_def field_mask_def TRNG_CTL1_RO11_EN_def mask_eq_exp_minus_1)

theorem trng_fill_repeats_witness:
  "\<exists>r'. trng_try_fill_bytes ready_tick (replicate 6 0) sample_trng =
    Some (r', [0x44, 0x33, 0x22, 0x11, 0x44, 0x33], Inr ())"
proof -
  have "word_copies 0x11223344 6 = [0x44, 0x33, 0x22, 0x11, 0x44, 0x33]"
    by (simp add: word_copies_def le_bytes32_def upt_rec)
  moreover have "word_ready 0x11223344 (ready_tick sample_trng)"
    using ready_tick_ready[of sample_trng] oscillator_on by (simp add: sample_trng_def)
  ultimately show ?thesis
    using trng_fill_repeats[where w = "0x11223344" and tick = ready_tick and r = sample_trng and dest = "replicate 6 0", OF ready_tick_holds] by simp
qed

end
