(* ===== verification/ChipAttest.thy ===== *)
theory ChipAttest
  imports Attest Sync Cryptolite
begin

text \<open>
  The attestation platforms of the two chips (chips/*/src/services/attest.rs) and the lifecycle fuse
  of the PSC3 (chips/psc3/src/efuse.rs).  Both serve constants; the PSC3 takes the lifecycle from the
  boot row latch and the boot seed, once per boot, from the generator of Cryptolite.  The state is
  abstract: get and upd reach the memory and the PSC3's device part.  A fill of the generator that
  never ends is a call that never returns, so the seed operation has an option.
\<close>

section \<open>Constants and copies\<close>

definition ascii :: "string \<Rightarrow> u8 list" where "ascii s = map of_char s"

text \<open>Copying as much as fits, and the same with the rest of the buffer cleared.\<close>

definition copy_prefix :: "u8 list \<Rightarrow> u8 list \<Rightarrow> u8 list \<times> usize" where
  "copy_prefix s buf =
    (let n = min (length buf) (length s) in (copy_at buf 0 (take n s), of_nat n))"

definition copy_padded :: "u8 list \<Rightarrow> u8 list \<Rightarrow> u8 list \<times> usize" where
  "copy_padded s buf =
    (let n = min (length buf) (length s);
         buf = copy_at buf 0 (take n s);
         buf = (if n < length buf then take n buf @ replicate (length buf - n) 0 else buf)
     in (buf, of_nat n))"

definition VERIFICATION_SERVICE :: "u8 list" where "VERIFICATION_SERVICE = ascii ''https://psa-verifier.org''"
definition PROFILE_DEFINITION :: "u8 list" where "PROFILE_DEFINITION = ascii ''tag:psacertified.org,2023:psa#tfm''"
definition IMPLEMENTATION_ID :: "u8 list" where "IMPLEMENTATION_ID = ascii ''acme-implementation-id-000000001''"
definition CERT_REF :: "u8 list" where "CERT_REF = ascii ''0123456789012-12345''"

definition chip_verification_service :: "u8 list \<Rightarrow> 's \<Rightarrow> 's \<times> u8 list \<times> usize res" where
  "chip_verification_service buf s = (case copy_prefix VERIFICATION_SERVICE buf of (buf, n) \<Rightarrow> (s, buf, Inr n))"

definition chip_profile_definition :: "u8 list \<Rightarrow> 's \<Rightarrow> 's \<times> u8 list \<times> usize res" where
  "chip_profile_definition buf s = (case copy_prefix PROFILE_DEFINITION buf of (buf, n) \<Rightarrow> (s, buf, Inr n))"

definition chip_implementation_id :: "u8 list \<Rightarrow> 's \<Rightarrow> 's \<times> u8 list \<times> unit res" where
  "chip_implementation_id buf s = (case copy_padded IMPLEMENTATION_ID buf of (buf, n) \<Rightarrow> (s, buf, Inr ()))"

definition chip_instance_id :: "u8 list \<Rightarrow> 's \<Rightarrow> 's \<times> u8 list \<times> unit res" where
  "chip_instance_id buf s = (s, 0x01 # replicate (length buf - 1) 0x02, Inr ())"

definition chip_cert_ref :: "u8 list \<Rightarrow> 's \<Rightarrow> 's \<times> u8 list \<times> usize res" where
  "chip_cert_ref buf s = (case copy_padded CERT_REF buf of (buf, n) \<Rightarrow> (s, buf, Inr n))"

definition chip_boot_record :: "('s \<Rightarrow> mem) \<Rightarrow> usize option \<Rightarrow> 's \<Rightarrow> 's \<times> u8 list option" where
  "chip_boot_record get boot_record_addr s =
    (s, Option.bind boot_record_addr (\<lambda>addr.
      let magic = from_le_bytes [get s addr, get s (addr + 1)] :: u16 in
      if magic = 0x2016 then Some (read_bytes (get s) addr 0x100) else None))"

section \<open>Musca-B1\<close>

definition musca_attest_platform :: "('s \<Rightarrow> mem) \<Rightarrow> usize option \<Rightarrow> 's attest_platform" where
  "musca_attest_platform get boot_record_addr =
    \<lparr>ap_security_lifecycle = (\<lambda>s. (s, Inr 0x3000)),
     ap_verification_service = chip_verification_service, ap_profile_definition = chip_profile_definition,
     ap_boot_seed = (\<lambda>seed s. (s, replicate (length seed) 0xAA, Inr ())),
     ap_implementation_id = chip_implementation_id, ap_instance_id = chip_instance_id,
     ap_cert_ref = chip_cert_ref, ap_boot_record = chip_boot_record get boot_record_addr\<rparr>"

section \<open>PSC3\<close>

datatype syslib_lcs_mode =
  Virgin | Sort | Provisioned | NormalProvisioned | Normal | LcsSecure | NormalNoSecure | Rma | Corrupted

definition lcs_of_bits :: "u32 \<Rightarrow> syslib_lcs_mode option" where
  "lcs_of_bits v =
    (if v = 0x0000 then Some Virgin else if v = 0x0029 then Some Sort else if v = 0x00E9 then Some Provisioned
     else if v = 0xC0E9 then Some NormalProvisioned else if v = 0xC029 then Some Normal
     else if v = 0xC3E9 then Some LcsSecure else if v = 0xCC29 then Some NormalNoSecure
     else if v = 0xF3E9 then Some Rma else if v = 0xFFFF then Some Corrupted else None)"

definition get_device_lifecycle :: "u32 \<Rightarrow> syslib_lcs_mode" where
  "get_device_lifecycle bootrow = (case lcs_of_bits bootrow of None \<Rightarrow> Corrupted | Some m \<Rightarrow> m)"

datatype psa_lifecycle = UnknownLifecycle | AssemblyAndTest | PsaRotProvisioning | Secured | Decommissioned

primrec psa_lifecycle_value :: "psa_lifecycle \<Rightarrow> u32" where
  "psa_lifecycle_value UnknownLifecycle = 0x0000"
| "psa_lifecycle_value AssemblyAndTest = 0x1000"
| "psa_lifecycle_value PsaRotProvisioning = 0x2000"
| "psa_lifecycle_value Secured = 0x3000"
| "psa_lifecycle_value Decommissioned = 0x6000"

primrec lifecycle_of_lcs :: "syslib_lcs_mode \<Rightarrow> psa_lifecycle" where
  "lifecycle_of_lcs Virgin = AssemblyAndTest"
| "lifecycle_of_lcs Sort = AssemblyAndTest"
| "lifecycle_of_lcs Provisioned = AssemblyAndTest"
| "lifecycle_of_lcs Normal = AssemblyAndTest"
| "lifecycle_of_lcs NormalNoSecure = AssemblyAndTest"
| "lifecycle_of_lcs NormalProvisioned = PsaRotProvisioning"
| "lifecycle_of_lcs LcsSecure = Secured"
| "lifecycle_of_lcs Rma = Decommissioned"
| "lifecycle_of_lcs Corrupted = UnknownLifecycle"

definition psc3_security_lifecycle :: "u32 \<Rightarrow> u32 res" where
  "psc3_security_lifecycle bootrow = Inr (psa_lifecycle_value (lifecycle_of_lcs (get_device_lifecycle bootrow)))"

record boot_seed_state =
  bs_seed :: "u8 list"
  bs_init :: bool

record psc3_dev =
  pd_trng :: trng_regs
  pd_seed :: "boot_seed_state mutex"
  pd_bootrow :: u32

definition psc3_boot_seed :: "device_tick \<Rightarrow> u8 list \<Rightarrow> psc3_dev \<Rightarrow> (psc3_dev \<times> u8 list \<times> unit res) option" where
  "psc3_boot_seed tick seed d =
    (if mx_lock (pd_seed d) then Some (d, seed, Inl GenericError)
     else
       let state = mx_value (pd_seed d);
           leave = (\<lambda>trng state. d\<lparr>pd_trng := trng, pd_seed := (pd_seed d)\<lparr>mx_value := state\<rparr>\<rparr>)
       in if bs_init state then Some (d, copy_at seed 0 (bs_seed state), Inr ())
          else
            (case trng_init tick trng_config_default (pd_trng d) of
               (r, Inl _) \<Rightarrow> Some (leave r state, seed, Inl GenericError)
             | (r, Inr _) \<Rightarrow>
            (case trng_enable tick r of
               None \<Rightarrow> None
             | Some (r, Inl _) \<Rightarrow> Some (leave r state, seed, Inl GenericError)
             | Some (r, Inr _) \<Rightarrow>
            (case trng_try_fill_bytes tick (bs_seed state) r of
               None \<Rightarrow> None
             | Some (r, bytes, Inl _) \<Rightarrow> Some (leave r (state\<lparr>bs_seed := bytes\<rparr>), seed, Inl GenericError)
             | Some (r, bytes, Inr _) \<Rightarrow>
                 Some (leave r (state\<lparr>bs_seed := bytes, bs_init := True\<rparr>), copy_at seed 0 bytes, Inr ())))))"

definition psc3_dev_ok :: "psc3_dev \<Rightarrow> bool" where
  "psc3_dev_ok d \<longleftrightarrow> \<not> mx_lock (pd_seed d) \<and> length (bs_seed (mx_value (pd_seed d))) = 32"

section \<open>Lemmas\<close>

lemma fill_loop_length:
  "fill_loop tick offset dest r = Some (r', dest', q) \<Longrightarrow> length dest' = length dest"
proof (induction tick offset dest r arbitrary: r' dest' q rule: fill_loop.induct)
  case (1 tick offset dest r)
  show ?case
  proof (cases "offset < length dest")
    case True
    then obtain r1 x where d: "trng_read_data tick r = Some (r1, x)"
      using 1(2) by (subst (asm) fill_loop.simps) (auto split: option.splits)
    show ?thesis
    proof (cases x)
      case (Inl e)
      then show ?thesis using 1(2) d True by (subst (asm) fill_loop.simps) simp
    next
      case (Inr w)
      let ?n = "min (length dest - offset) (length (le_bytes32 w))"
      let ?d = "copy_at dest offset (take ?n (le_bytes32 w))"
      have "fill_loop tick (offset + ?n) ?d r1 = Some (r', dest', q)"
        using 1(2) d True Inr by (subst (asm) fill_loop.simps) (simp add: Let_def)
      from 1(1)[OF True d refl Inr refl refl refl this] have "length dest' = length ?d" .
      then show ?thesis using True by (simp add: length_copy_at)
    qed
  next
    case False
    then show ?thesis using 1(2) by (subst (asm) fill_loop.simps) simp
  qed
qed

lemma fill_bytes_length:
  "trng_try_fill_bytes tick dest r = Some (r', dest', q) \<Longrightarrow> length dest' = length dest"
  by (auto simp: trng_try_fill_bytes_def dest: fill_loop_length split: prod.splits bool.splits)

lemma copy_at_whole: "length xs = length buf \<Longrightarrow> copy_at buf 0 xs = xs"
  by (simp add: copy_at_def)

lemma psc3_boot_seed_cached:
  assumes "\<not> mx_lock (pd_seed d)" "bs_init (mx_value (pd_seed d))"
  shows "psc3_boot_seed tick seed d = Some (d, copy_at seed 0 (bs_seed (mx_value (pd_seed d))), Inr ())"
  using assms by (simp add: psc3_boot_seed_def Let_def)

lemma psc3_boot_seed_ok:
  assumes "psc3_dev_ok d" "psc3_boot_seed tick seed d = Some (d', seed', q)"
  shows "psc3_dev_ok d'" and "isl q \<Longrightarrow> seed' = seed \<and> bs_init (mx_value (pd_seed d')) = bs_init (mx_value (pd_seed d))"
    and "\<not> isl q \<Longrightarrow> length seed = 32 \<Longrightarrow> bs_init (mx_value (pd_seed d')) \<and> seed' = bs_seed (mx_value (pd_seed d'))"
  using assms
  by (auto simp: psc3_boot_seed_def psc3_dev_ok_def Let_def copy_at_whole fill_bytes_length
      split: if_splits option.splits sum.splits prod.splits dest!: fill_bytes_length)

text \<open>The requests of one boot, in order, each with the device's behaviour meanwhile and its buffer.\<close>

fun seed_run :: "(device_tick \<times> u8 list) list \<Rightarrow> psc3_dev \<Rightarrow> (psc3_dev \<times> (u8 list \<times> unit res) list) option" where
  "seed_run [] d = Some (d, [])"
| "seed_run ((tick, buf) # calls) d =
    (case psc3_boot_seed tick buf d of
       None \<Rightarrow> None
     | Some (d, seed, q) \<Rightarrow>
         (case seed_run calls d of None \<Rightarrow> None | Some (d, rs) \<Rightarrow> Some (d, (seed, q) # rs)))"

lemma seed_run_cached:
  assumes "psc3_dev_ok d" "bs_init (mx_value (pd_seed d))" "\<forall>c\<in>set calls. length (snd c) = 32"
  shows "seed_run calls d = Some (d, replicate (length calls) (bs_seed (mx_value (pd_seed d)), Inr ()))"
  using assms
proof (induction calls)
  case (Cons c calls)
  then show ?case
    by (cases c) (simp add: psc3_boot_seed_cached psc3_dev_ok_def copy_at_whole)
qed simp

lemma seed_run_core:
  assumes "psc3_dev_ok d" "\<not> bs_init (mx_value (pd_seed d))" "\<forall>c\<in>set calls. length (snd c) = 32"
    and "seed_run calls d = Some (d', rs)"
  shows "\<exists>k. k \<le> length calls \<and> (\<forall>j<k. isl (snd (rs ! j)) \<and> fst (rs ! j) = snd (calls ! j)) \<and>
    drop k rs = replicate (length calls - k) (bs_seed (mx_value (pd_seed d')), Inr ()) \<and> length rs = length calls"
  using assms
proof (induction calls arbitrary: d rs)
  case (Cons c calls)
  obtain tick buf where c: "c = (tick, buf)" by (cases c)
  obtain d1 seed q rs1 where s: "psc3_boot_seed tick buf d = Some (d1, seed, q)"
    "seed_run calls d1 = Some (d', rs1)" "rs = (seed, q) # rs1"
    using Cons.prems(4) c by (auto split: option.splits)
  note ok = psc3_boot_seed_ok[OF Cons.prems(1) s(1)]
  show ?case
  proof (cases "isl q")
    case True
    then have e: "seed = buf" "\<not> bs_init (mx_value (pd_seed d1))" using ok(2) Cons.prems(2) by simp_all
    obtain k where k: "k \<le> length calls" "\<forall>j<k. isl (snd (rs1 ! j)) \<and> fst (rs1 ! j) = snd (calls ! j)"
      "drop k rs1 = replicate (length calls - k) (bs_seed (mx_value (pd_seed d')), Inr ())" "length rs1 = length calls"
      using Cons.IH[OF ok(1) e(2) _ s(2)] Cons.prems(3) by auto
    show ?thesis
      using k e(1) True by (intro exI[of _ "Suc k"]) (auto simp: s(3) c less_Suc_eq_0_disj)
  next
    case False
    then have i: "bs_init (mx_value (pd_seed d1))" "seed = bs_seed (mx_value (pd_seed d1))"
      using ok(3) Cons.prems(3) c by simp_all
    have q: "q = Inr ()" using False by (cases q) auto
    have "seed_run calls d1 = Some (d1, replicate (length calls) (bs_seed (mx_value (pd_seed d1)), Inr ()))"
      using seed_run_cached[OF ok(1) i(1)] Cons.prems(3) by simp
    then show ?thesis using s i(2) q by (intro exI[of _ 0]) simp
  qed
qed simp

section \<open>Properties\<close>

text \<open>C33. One seed per boot.  Whatever the generator does and however often tokens are requested, the requests of one boot first fail,
  if they do, leaving the caller's buffer alone, and from the first that succeeds on all succeed with the
  same 32 bytes, the ones kept in the cache.\<close>

theorem boot_seed_stable:
  assumes "psc3_dev_ok d" "\<not> bs_init (mx_value (pd_seed d))" "\<forall>c\<in>set calls. length (snd c) = 32"
    and "seed_run calls d = Some (d', rs)"
  shows "\<exists>k\<le>length calls. (\<forall>j<k. isl (snd (rs ! j)) \<and> fst (rs ! j) = snd (calls ! j)) \<and>
    drop k rs = replicate (length calls - k) (bs_seed (mx_value (pd_seed d')), Inr ())"
  using seed_run_core[OF assms] by blast

lemma ascii_lengths:
  "length VERIFICATION_SERVICE = 24" "length PROFILE_DEFINITION = 33" "length IMPLEMENTATION_ID = 32" "length CERT_REF = 19"
  by (simp_all add: VERIFICATION_SERVICE_def PROFILE_DEFINITION_def IMPLEMENTATION_ID_def CERT_REF_def ascii_def)

lemma utf8_ascii: "\<forall>b\<in>set bs. b < 0x80 \<Longrightarrow> utf8_valid bs"
  by (induction bs) simp_all

lemma ascii_utf8: "utf8_valid VERIFICATION_SERVICE" "utf8_valid PROFILE_DEFINITION" "utf8_valid CERT_REF"
  by (rule utf8_ascii; simp add: VERIFICATION_SERVICE_def PROFILE_DEFINITION_def CERT_REF_def ascii_def)+

lemma copy_prefix_room:
  "length s \<le> length buf \<Longrightarrow> copy_prefix s buf = (s @ drop (length s) buf, of_nat (length s))"
  by (simp add: copy_prefix_def Let_def copy_at_def)

lemma copy_padded_exact: "length s = length buf \<Longrightarrow> copy_padded s buf = (s, of_nat (length s))"
  by (simp add: copy_padded_def Let_def copy_at_def)

lemma parse_utf8_prefix:
  "utf8_valid s \<Longrightarrow> length s < 4294967296 \<Longrightarrow> parse_utf8_claim (s @ rest) (of_nat (length s)) = Inr s"
  by (simp add: parse_utf8_claim_def unat_of_nat_small)

lemma musca_claims_core:
  "collect_claims (musca_attest_platform get addr) platform_buffers_new s =
    (s, Inr [claim InstanceId (VBytes (0x01 # replicate 32 0x02)), claim ProfileDefinition (VText PROFILE_DEFINITION),
      claim ClientId (VSigned 1), claim SecurityLifecycle (VUnsigned 0x3000), claim BootSeed (VBytes (replicate 32 0xAA)),
      claim SwComponents (VSwComponents
        (as_slice (Option.bind (snd (chip_boot_record get addr s)) parse_boot_data))),
      claim CertificationReference (VText CERT_REF), claim ImplementationId (VBytes IMPLEMENTATION_ID),
      claim VerificationService (VText VERIFICATION_SERVICE)])"
proof -
  have p: "copy_prefix PROFILE_DEFINITION (replicate 64 0) =
      (PROFILE_DEFINITION @ drop 33 (replicate 64 0), of_nat (length PROFILE_DEFINITION))"
    "copy_prefix VERIFICATION_SERVICE (replicate 64 0) =
      (VERIFICATION_SERVICE @ drop 24 (replicate 64 0), of_nat (length VERIFICATION_SERVICE))"
    using copy_prefix_room[of PROFILE_DEFINITION "replicate 64 0"] copy_prefix_room[of VERIFICATION_SERVICE "replicate 64 0"]
    by (simp_all add: ascii_lengths)
  have c: "copy_padded CERT_REF (replicate 19 0) = (CERT_REF @ [], of_nat (length CERT_REF))"
    "copy_padded IMPLEMENTATION_ID (replicate 32 0) = (IMPLEMENTATION_ID, of_nat (length IMPLEMENTATION_ID))"
    using copy_padded_exact[of CERT_REF "replicate 19 0"] copy_padded_exact[of IMPLEMENTATION_ID "replicate 32 0"]
    by (simp_all add: ascii_lengths)
  have u: "parse_utf8_claim (PROFILE_DEFINITION @ r) (of_nat (length PROFILE_DEFINITION)) = Inr PROFILE_DEFINITION"
    "parse_utf8_claim (VERIFICATION_SERVICE @ r) (of_nat (length VERIFICATION_SERVICE)) = Inr VERIFICATION_SERVICE"
    "parse_utf8_claim (CERT_REF @ r) (of_nat (length CERT_REF)) = Inr CERT_REF" for r
    by (rule parse_utf8_prefix; simp add: ascii_utf8 ascii_lengths)+
  obtain rec where b: "chip_boot_record get addr s = (s, rec)" by (simp add: chip_boot_record_def)
  show ?thesis
    unfolding collect_claims_def musca_attest_platform_def platform_buffers_new_def chip_profile_definition_def
      chip_verification_service_def chip_cert_ref_def chip_implementation_id_def chip_instance_id_def
      CERTIFICATION_REF_MAX_SIZE_def attest_platform.simps platform_buffers.simps length_replicate prod.case sum.case p c u b
      Let_def snd_conv
    by (simp add: collected_claims_def)
qed

text \<open>The claims of a Musca-B1 token.  Collection always succeeds and changes nothing; the claims are the constants of the board, the
  lifecycle Secured, a boot seed of 32 bytes 0xAA, the same in every boot, and the software component of the
  boot record when one is at the configured address.\<close>

theorem musca_claims:
  "collect_claims (musca_attest_platform get addr) platform_buffers_new s =
    (s, Inr [claim InstanceId (VBytes (0x01 # replicate 32 0x02)), claim ProfileDefinition (VText PROFILE_DEFINITION),
      claim ClientId (VSigned 1), claim SecurityLifecycle (VUnsigned 0x3000), claim BootSeed (VBytes (replicate 32 0xAA)),
      claim SwComponents (VSwComponents
        (as_slice (Option.bind (snd (chip_boot_record get addr s)) parse_boot_data))),
      claim CertificationReference (VText CERT_REF), claim ImplementationId (VBytes IMPLEMENTATION_ID),
      claim VerificationService (VText VERIFICATION_SERVICE)])"
  by (rule musca_claims_core)

text \<open>A device whose generator is running, with a word waiting at every access; and one that is off.\<close>

definition sample_dev :: psc3_dev where
  "sample_dev = \<lparr>pd_trng = sample_trng, pd_seed = mutex_new \<lparr>bs_seed = replicate 32 0, bs_init = False\<rparr>, pd_bootrow = 0xC3E9\<rparr>"

lemma sample_first_seed:
  "\<exists>d'. psc3_boot_seed ready_tick buf sample_dev = Some (d', copy_at buf 0 (word_copies 0x11223344 32), Inr ()) \<and>
    bs_seed (mx_value (pd_seed d')) = word_copies 0x11223344 32"
proof -
  obtain r where i: "trng_init ready_tick trng_config_default sample_trng = (r, Inr ())"
    and r: "trng_ctl1 r = 0x3F" "trng_result r = 0x11223344"
    by (simp add: trng_init_def Let_def trng_mon_set_bitstream_selector_def trng_mon_enable_ap_test_def
        trng_mon_enable_rc_test_def mon_modify_def intr_write_def trng_mon_clear_health_status_def trng_config_default_def
        sample_trng_def ready_tick_def)
  have w: "word_ready 0x11223344 (ready_tick r)" using ready_tick_ready[of r] oscillator_on r by simp
  then have "word_ready 0x11223344 (ready_tick (ready_tick r))" using ready_tick_holds by (auto simp: holds_word_def)
  from trng_fill_core[where tick = ready_tick and dest = "replicate 32 0", OF ready_tick_holds this]
  obtain r' where f: "trng_try_fill_bytes ready_tick (replicate 32 0) (ready_tick r) = Some (r', word_copies 0x11223344 32, Inr ())"
    by auto
  have "trng_enable ready_tick r = Some (ready_tick r, Inr ())"
    by (simp add: trng_enable_def trng_is_enabled_ready[where tick = ready_tick, OF w])
  then show ?thesis by (simp add: psc3_boot_seed_def sample_dev_def mutex_new_def Let_def i f)
qed

theorem boot_seed_stable_witness:
  "\<exists>d'. seed_run [(ready_tick, replicate 32 9), (\<lambda>r. r\<lparr>trng_result := 0\<rparr>, replicate 32 7)] sample_dev =
    Some (d', [(word_copies 0x11223344 32, Inr ()), (word_copies 0x11223344 32, Inr ())])"
proof -
  let ?calls = "[(ready_tick, replicate 32 9), (\<lambda>r. r\<lparr>trng_result := 0\<rparr>, replicate 32 7)]"
  have ok: "psc3_dev_ok sample_dev" "\<not> bs_init (mx_value (pd_seed sample_dev))"
    by (simp_all add: psc3_dev_ok_def sample_dev_def mutex_new_def)
  obtain d1 where d1: "psc3_boot_seed ready_tick (replicate 32 9) sample_dev = Some (d1, word_copies 0x11223344 32, Inr ())"
    using sample_first_seed[of "replicate 32 9"] by (auto simp: copy_at_whole)
  have "psc3_dev_ok d1" "bs_init (mx_value (pd_seed d1))" using psc3_boot_seed_ok(1,3)[OF ok(1) d1] by simp_all
  then obtain q where q: "seed_run ?calls sample_dev = Some (d1, [(word_copies 0x11223344 32, Inr ()), q])"
    by (simp add: d1 psc3_boot_seed_cached psc3_dev_ok_def)
  from boot_seed_stable[OF ok _ q] obtain k where k: "k \<le> length ?calls"
    "\<forall>j<k. isl (snd ([(word_copies 0x11223344 32, Inr ()), q] ! j))"
    "drop k [(word_copies 0x11223344 32, Inr ()), q] = replicate (length ?calls - k) (bs_seed (mx_value (pd_seed d1)), Inr ())" by auto
  have "k = 0" using k(2) by (cases k) auto
  then show ?thesis using k(3) q by auto
qed

end
