(* ===== verification/Board.thy ===== *)
theory Board
  imports Platform ChipAttest
begin

text \<open>
  The function-call system of the Musca-B1 (chips/musca_b1/src/platform.rs and
  boards/musca_b1/secure/src/main.rs): the platform's dispatch to the attestation and crypto
  services, the attestation service signing through the in-process client, its calls going back
  through the same dispatcher.  Nothing of the SPM is a parameter any more: the general theorems
  about services hold of this system without a hypothesis on them.
\<close>

section \<open>The services of the board\<close>

text \<open>InternalPsaClient::psa_call over SfnApi::call; in_at and out_at are where the two descriptor
  arrays, locals of the client functions, live.\<close>

definition internal_client :: "'d client_call \<Rightarrow> usize \<Rightarrow> usize \<Rightarrow> 'd spm_fn psa_call_fn" where
  "internal_client call =
    veneer_psa_call sf_mem sf_mem_update (\<lambda>handle ctrl in_vec out_vec s.
      case call handle ctrl in_vec out_vec SECURE_PRIVILEGED s of (s, r) \<Rightarrow> (s, into_psa_status r))"

text \<open>The addresses of the locals of the service that are handed to a nested call.\<close>

record board_locals =
  bl_in_vecs :: usize
  bl_out_vecs :: usize
  bl_header :: usize
  bl_input :: usize
  bl_output :: usize

definition board_backend :: "'d client_call \<Rightarrow> board_locals \<Rightarrow> u32 \<Rightarrow> 'd spm_fn cose_crypto" where
  "board_backend call bl =
    psa_crypto_backend sf_mem sf_mem_update (internal_client call (bl_in_vecs bl) (bl_out_vecs bl))
      (bl_header bl) (bl_input bl) (bl_output bl)"

definition sfn_attest_env ::
    "minicbor \<Rightarrow> (u32 \<Rightarrow> 'd spm_fn cose_crypto) \<Rightarrow> 'd spm_fn attest_platform \<Rightarrow> 'd spm_fn attest_env" where
  "sfn_attest_env mc backend plat =
    \<lparr>ae_mem = sf_mem, ae_upd = sf_mem_update, ae_cbor = mc, ae_backend = backend, ae_platform = plat,
     ae_api = \<lparr>at_access_invec = sfn_access_invec, at_access_outvec = sfn_access_outvec,
       at_access_invec_outvec = sfn_access_invec_outvec\<rparr>\<rparr>"

text \<open>What the board fixes and what it links: libraries, the layout of the locals.\<close>

record board =
  bd_cbor :: minicbor
  bd_feature :: crypto_feature
  bd_cast :: "usize \<Rightarrow> u8 list \<Rightarrow> tfm_crypto_pack_iovec option"
  bd_locals :: board_locals
  bd_tt :: tt_instr

definition MUSCA_BOOT_RECORD :: usize where "MUSCA_BOOT_RECORD = 0x100FFF00"

definition MUSCA_SIGNING_KEY :: "u8 list" where
  "MUSCA_SIGNING_KEY =
    [0xc3, 0xfe, 0xe8, 0x4c, 0x73, 0x49, 0xd8, 0xe8, 0x44, 0x3d, 0xe4, 0xae, 0x65,
     0xf7, 0xea, 0x3b, 0xb8, 0x09, 0x3b, 0xe9, 0xb1, 0x5b, 0xc4, 0xbd, 0x4a, 0x54,
     0x95, 0x3c, 0xd3, 0x31, 0xce, 0x1b]"

definition musca_attest_env :: "board \<Rightarrow> 'd client_call \<Rightarrow> 'd spm_fn attest_env" where
  "musca_attest_env bd call =
    sfn_attest_env (bd_cbor bd) (board_backend call (bd_locals bd))
      (musca_attest_platform sf_mem (Some MUSCA_BOOT_RECORD))"

definition musca_call :: "board \<Rightarrow> 'd services" where
  "musca_call bd call msg s =
    (case msg_handle msg of
       AttestationService \<Rightarrow>
         attest_call (musca_attest_env bd call) msg s
     | Crypto \<Rightarrow> crypto_call (sfn_crypto_env (bd_feature bd) MUSCA_SIGNING_KEY (bd_cast bd)) msg s
     | _ \<Rightarrow> (s, Inl NotSupported))"

definition SERVICE_VERSION :: u32 where "SERVICE_VERSION = 1"

definition musca_version :: "service_handle \<Rightarrow> u32 option" where
  "musca_version handle =
    (case handle of
       AttestationService \<Rightarrow> Some SERVICE_VERSION
     | Crypto \<Rightarrow> Some SERVICE_VERSION
     | _ \<Rightarrow> None)"

definition musca_system :: "board \<Rightarrow> nat \<Rightarrow> 'd sfn_platform" where
  "musca_system bd = sfn_system (musca_call bd) (\<lambda>_. musca_has_permission (bd_tt bd)) musca_version"

section \<open>Steps that agree and keep the frame\<close>

text \<open>Two runs of service code agree at a nesting depth, and keep the frame there.\<close>

definition alike ::
    "nat \<Rightarrow> ('d spm_fn \<Rightarrow> 'd spm_fn \<times> 'r) \<Rightarrow> ('d spm_fn \<Rightarrow> 'd spm_fn \<times> 'r) \<Rightarrow> bool" where
  "alike L f g \<longleftrightarrow>
    (\<forall>s. sfn_ok s \<longrightarrow> length (sfn_stack s) = L \<longrightarrow>
      f s = g s \<and> sfn_ok (fst (f s)) \<and> frame_le (sfn_stack s) (sfn_stack (fst (f s))))"

lemma alikeI:
  "(\<And>s. sfn_ok s \<Longrightarrow> length (sfn_stack s) = L \<Longrightarrow>
      f s = g s \<and> sfn_ok (fst (f s)) \<and> frame_le (sfn_stack s) (sfn_stack (fst (f s)))) \<Longrightarrow> alike L f g"
  unfolding alike_def by blast

lemma alike_eq: "alike L f g \<Longrightarrow> sfn_ok s \<Longrightarrow> length (sfn_stack s) = L \<Longrightarrow> f s = g s"
  by (simp add: alike_def)

lemma alikeE:
  assumes "alike L f g" "sfn_ok s" "length (sfn_stack s) = L"
  obtains s' r where "f s = (s', r)" "g s = (s', r)" "sfn_ok s'" "frame_le (sfn_stack s) (sfn_stack s')"
    "length (sfn_stack s') = L"
  using assms by (cases "f s") (auto simp: alike_def frame_le_def)

lemma alike_keeps: "(\<And>L. alike L f g) \<Longrightarrow> keeps_frame sfn_ok sfn_stack f"
  unfolding alike_def keeps_frame_def by (metis fst_conv)

lemma alike_same: "keeps_frame sfn_ok sfn_stack f \<Longrightarrow> alike L f f"
  by (rule alikeI) (metis keeps_frameD prod.collapse)

lemma alike_return [intro]: "alike L (\<lambda>s. (s, r s)) (\<lambda>s. (s, r s))"
  by (simp add: alike_def)

lemma sfn_mem_update_fun [simp]:
  "sfn_ok (sf_mem_update h s) = sfn_ok s" "sfn_stack (sf_mem_update h s) = sfn_stack s"
  by (simp_all add: sfn_ok_def sfn_stack_def)

lemma alike_store [intro]:
  "alike L (\<lambda>s. (sf_mem_update (h s) s, r s)) (\<lambda>s. (sf_mem_update (h s) s, r s))"
  by (simp add: alike_def)

lemma alike_bind:
  assumes "alike L f g" "\<And>r. alike L (f' r) (g' r)"
  shows "alike L (\<lambda>s. case f s of (s', r) \<Rightarrow> f' r s') (\<lambda>s. case g s of (s', r) \<Rightarrow> g' r s')"
proof (rule alikeI)
  fix s :: "'a spm_fn" assume "sfn_ok s" "length (sfn_stack s) = L"
  then obtain s1 r where 1: "f s = (s1, r)" "g s = (s1, r)" "sfn_ok s1" "frame_le (sfn_stack s) (sfn_stack s1)"
    "length (sfn_stack s1) = L" by (rule alikeE[OF assms(1)])
  obtain s2 q where "f' r s1 = (s2, q)" "g' r s1 = (s2, q)" "sfn_ok s2" "frame_le (sfn_stack s1) (sfn_stack s2)"
    by (rule alikeE[OF assms(2) 1(3,5)])
  then show "(case f s of (s', r) \<Rightarrow> f' r s') = (case g s of (s', r) \<Rightarrow> g' r s') \<and>
      sfn_ok (fst (case f s of (s', r) \<Rightarrow> f' r s')) \<and>
      frame_le (sfn_stack s) (sfn_stack (fst (case f s of (s', r) \<Rightarrow> f' r s')))"
    using 1 frame_le_trans by auto
qed

text \<open>A step that does not change the state.\<close>

lemma alike_pure: "(\<And>s. fst (f s) = s) \<Longrightarrow> alike L f f"
  by (simp add: alike_def)

text \<open>A store before a step.\<close>

lemma alike_after_store:
  assumes "alike L f g"
  shows "alike L (\<lambda>s. f (sf_mem_update (h s) s)) (\<lambda>s. g (sf_mem_update (h s) s))"
proof (rule alikeI)
  fix s :: "'a spm_fn" assume "sfn_ok s" "length (sfn_stack s) = L"
  then have t: "sfn_ok (sf_mem_update (h s) s)" "length (sfn_stack (sf_mem_update (h s) s)) = L" by simp_all
  show "f (sf_mem_update (h s) s) = g (sf_mem_update (h s) s) \<and>
      sfn_ok (fst (f (sf_mem_update (h s) s))) \<and>
      frame_le (sfn_stack s) (sfn_stack (fst (f (sf_mem_update (h s) s))))"
    using assms[unfolded alike_def, rule_format, OF t] unfolding sfn_mem_update_fun .
qed

lemma alike_sum:
  "(\<And>e. r = Inl e \<Longrightarrow> alike L (f e) (g e)) \<Longrightarrow> (\<And>x. r = Inr x \<Longrightarrow> alike L (f' x) (g' x)) \<Longrightarrow>
    alike L (\<lambda>s. case r of Inl e \<Rightarrow> f e s | Inr x \<Rightarrow> f' x s) (\<lambda>s. case r of Inl e \<Rightarrow> g e s | Inr x \<Rightarrow> g' x s)"
  by (cases r) simp_all

lemma alike_pair:
  "alike L (f (fst r) (snd r)) (g (fst r) (snd r)) \<Longrightarrow>
    alike L (\<lambda>s. case r of (a, b) \<Rightarrow> f a b s) (\<lambda>s. case r of (a, b) \<Rightarrow> g a b s)"
  by (simp add: case_prod_beta)

lemma alike_if:
  "alike L f g \<Longrightarrow> alike L f' g' \<Longrightarrow> alike L (\<lambda>s. if b then f s else f' s) (\<lambda>s. if b then g s else g' s)"
  by (cases b) simp_all

section \<open>The nested calls of the attestation service\<close>

text \<open>Two client calls that return to the depth at which they were made, and agree there.\<close>

definition calls_alike :: "nat \<Rightarrow> 'd client_call \<Rightarrow> 'd client_call \<Rightarrow> bool" where
  "calls_alike L c1 c2 \<longleftrightarrow> (\<forall>h ctrl i j ca. alike L (c1 h ctrl i j ca) (c2 h ctrl i j ca))"

lemma calls_alikeI:
  assumes "\<forall>h ctrl i j ca. keeps_stack sfn_ok sfn_stack (c1 h ctrl i j ca)"
    and "\<forall>h ctrl i j ca s'. sfn_ok s' \<longrightarrow> length (sfn_stack s') = L \<longrightarrow> c1 h ctrl i j ca s' = c2 h ctrl i j ca s'"
  shows "calls_alike L c1 c2"
  unfolding calls_alike_def
proof (intro allI alikeI)
  fix h ctrl i j ca and s :: "'a spm_fn" assume s: "sfn_ok s" "length (sfn_stack s) = L"
  obtain s' r where r: "c1 h ctrl i j ca s = (s', r)" by fastforce
  have "sfn_ok s' \<and> sfn_stack s' = sfn_stack s"
    using assms(1) s(1) r unfolding keeps_stack_def by blast
  then show "c1 h ctrl i j ca s = c2 h ctrl i j ca s \<and> sfn_ok (fst (c1 h ctrl i j ca s)) \<and>
      frame_le (sfn_stack s) (sfn_stack (fst (c1 h ctrl i j ca s)))"
    using assms(2) s r by auto
qed

lemma internal_client_alike:
  assumes "calls_alike L c1 c2"
  shows "alike L (internal_client c1 i o' h ctrl ins outs) (internal_client c2 i o' h ctrl ins outs)"
  unfolding internal_client_def veneer_psa_call_def Let_def
  by (intro alike_after_store[where h = "\<lambda>_. store_vecs i ins"] alike_after_store[where h = "\<lambda>_. store_vecs o' outs"]
      alike_bind alike_return) (use assms in \<open>simp add: calls_alike_def\<close>)

lemma psa_hash_compute_alike:
  assumes "\<And>h ctrl ins outs. alike L (call1 h ctrl ins outs) (call2 h ctrl ins outs)"
  shows "alike L (psa_hash_compute sf_mem_update call1 iov_at alg input buf)
    (psa_hash_compute sf_mem_update call2 iov_at alg input buf)"
  unfolding psa_hash_compute_def Let_def
  by (rule alike_after_store[where h = "\<lambda>_ m. write_bytes m iov_at (pack_iovec_bytes (for_hash_compute alg))"],
      rule alike_bind[OF assms], rule alike_pure) (auto split: prod.split sum.split)

lemma psa_sign_hash_alike:
  assumes "\<And>h ctrl ins outs. alike L (call1 h ctrl ins outs) (call2 h ctrl ins outs)"
  shows "alike L (psa_sign_hash sf_mem_update call1 iov_at key alg input buf)
    (psa_sign_hash sf_mem_update call2 iov_at key alg input buf)"
  unfolding psa_sign_hash_def Let_def
  by (rule alike_after_store[where h = "\<lambda>_ m. write_bytes m iov_at (pack_iovec_bytes (for_sign_hash key alg))"],
      rule alike_bind[OF assms], rule alike_pure) (auto split: prod.split sum.split)

lemma psa_result_alike:
  assumes "alike L f g"
  shows "alike L (\<lambda>s. psa_result sf_mem out_at n (f s)) (\<lambda>s. psa_result sf_mem out_at n (g s))"
  unfolding psa_result_def
  by (rule alike_bind[OF assms], rule alike_pure) (auto split: sum.split)

lemma board_backend_alike:
  assumes "calls_alike L c1 c2"
  shows "alike L (hash_sha256 (board_backend c1 bl key) input) (hash_sha256 (board_backend c2 bl key) input)"
    and "alike L (sign_es256_prehash (board_backend c1 bl key) digest) (sign_es256_prehash (board_backend c2 bl key) digest)"
proof -
  note c = internal_client_alike[OF assms]
  show "alike L (hash_sha256 (board_backend c1 bl key) input) (hash_sha256 (board_backend c2 bl key) input)"
    unfolding board_backend_def psa_crypto_backend_def Let_def cose_crypto.simps
    by (rule alike_after_store[where h = "\<lambda>_ m. write_bytes m (bl_input bl) input"],
        rule alike_after_store[where h = "\<lambda>_ m. write_bytes m (bl_output bl) (replicate 32 0)"],
        rule psa_result_alike, rule psa_hash_compute_alike, rule c)
  show "alike L (sign_es256_prehash (board_backend c1 bl key) digest) (sign_es256_prehash (board_backend c2 bl key) digest)"
    unfolding board_backend_def psa_crypto_backend_def Let_def cose_crypto.simps
    by (rule alike_after_store[where h = "\<lambda>_ m. write_bytes m (bl_input bl) digest"],
        rule alike_after_store[where h = "\<lambda>_ m. write_bytes m (bl_output bl) (replicate 64 0)"],
        rule psa_result_alike, rule psa_sign_hash_alike, rule c)
qed

section \<open>The token\<close>

definition crypto_alike :: "nat \<Rightarrow> 'd spm_fn cose_crypto \<Rightarrow> 'd spm_fn cose_crypto \<Rightarrow> bool" where
  "crypto_alike L a b \<longleftrightarrow> (\<forall>x. alike L (hash_sha256 a x) (hash_sha256 b x)) \<and>
    (\<forall>x. alike L (sign_es256_prehash a x) (sign_es256_prehash b x))"

lemma hash_sig_alike:
  assumes "crypto_alike L a b"
  shows "alike L (hash_sig_structure a prot aad payload) (hash_sig_structure b prot aad payload)"
proof -
  obtain buf r where "build_sig_structure prot aad payload (replicate SIG_STRUCTURE_MAX_SIZE 0) = (buf, r)"
    by fastforce
  then show ?thesis using assms unfolding hash_sig_structure_def
    by (cases r) (auto simp: crypto_alike_def)
qed

lemma sign1_alike:
  assumes "crypto_alike L a b"
  shows "alike L (encode_from_payload_bstr mc (cose_sign1_new a opts) payload out)
    (encode_from_payload_bstr mc (cose_sign1_new b opts) payload out)"
proof (cases "validate_payload_bstr mc payload")
  case (Inl e)
  show ?thesis unfolding encode_from_payload_bstr_def Inl sum.case by (rule alike_return)
next
  case (Inr x)
  have enc: "encode_sign1 mc (cose_sign1_new a opts) = encode_sign1 mc (cose_sign1_new b opts)"
    by (intro ext) (simp add: encode_sign1_def cose_sign1_new_def)
  have rest: "alike L
      (\<lambda>s. case r of Inl e \<Rightarrow> (s, out, Inl e) | Inr sig \<Rightarrow>
        (case encode_sign1 mc (cose_sign1_new b opts) payload sig (out, 0) of
           ((out, position), Inl e) \<Rightarrow> (s, out, Inl (cose_error_from e))
         | ((out, position), Inr _) \<Rightarrow> (s, out, Inr \<lparr>encoded_len = position, payload_is_detached = detached_payload opts\<rparr>)))
      (\<lambda>s. case r of Inl e \<Rightarrow> (s, out, Inl e) | Inr sig \<Rightarrow>
        (case encode_sign1 mc (cose_sign1_new b opts) payload sig (out, 0) of
           ((out, position), Inl e) \<Rightarrow> (s, out, Inl (cose_error_from e))
         | ((out, position), Inr _) \<Rightarrow> (s, out, Inr \<lparr>encoded_len = position, payload_is_detached = detached_payload opts\<rparr>)))" for r
    by (rule alike_pure) (auto split: sum.split prod.split)
  show ?thesis
    unfolding encode_from_payload_bstr_def Inr sum.case enc
    unfolding cose_sign1_new_def cose_sign1.simps
    by (rule alike_bind[OF hash_sig_alike[OF assms]], rule alike_sum, rule alike_return, rule alike_bind)
      (use assms rest[unfolded cose_sign1_new_def] in \<open>simp_all add: crypto_alike_def\<close>)
qed

lemma alike_read: "(\<And>x. alike L (f x) (g x)) \<Longrightarrow> alike L (\<lambda>s. f (h s) s) (\<lambda>s. g (h s) s)"
  unfolding alike_def by blast

lemma encode_token_alike:
  assumes "crypto_alike L (k1 key) (k2 key)"
  shows "alike L (encode_initial_attestation_token mc k1 claims token key)
    (encode_initial_attestation_token mc k2 claims token key)"
proof -
  obtain buf r where e: "encode_payload mc claims (replicate 512 0) = (buf, r)" by fastforce
  show ?thesis
  proof (cases r)
    case (Inl err)
    show ?thesis unfolding encode_initial_attestation_token_def e Inl prod.case sum.case by (rule alike_return)
  next
    case (Inr n)
    obtain buf' r' where p: "encode_payload_bstr_in_place (of_nat n) buf = (buf', r')" by fastforce
    show ?thesis
    proof (cases r')
      case (Inl err)
      show ?thesis unfolding encode_initial_attestation_token_def e Inr p Inl prod.case sum.case by (rule alike_return)
    next
      case (Inr m)
      show ?thesis
        unfolding encode_initial_attestation_token_def e \<open>r = Inr n\<close> p Inr prod.case sum.case Let_def
        by (rule alike_if[OF alike_return], rule alike_bind[OF sign1_alike[OF assms]], rule alike_pure)
          (auto split: prod.split sum.split)
    qed
  qed
qed

lemma get_token_alike:
  assumes "crypto_alike L (k1 TEMP_KEY_ID) (k2 TEMP_KEY_ID)"
  shows "alike L (initial_attest_get_token mc k1 challenge claims token)
    (initial_attest_get_token mc k2 challenge claims token)"
proof (cases "build_claims challenge claims (replicate MAX_TOTAL_CLAIMS EMPTY_CLAIM)")
  case (Inl e)
  show ?thesis unfolding initial_attest_get_token_def Inl sum.case by (intro alike_if alike_return)
next
  case (Inr cl)
  show ?thesis unfolding initial_attest_get_token_def Inr sum.case
    by (rule alike_if[OF alike_return], rule alike_bind[OF encode_token_alike[where ?k1.0 = k1 and ?k2.0 = k2, OF assms]], rule alike_pure)
      (auto split: prod.split sum.split)
qed

lemma token_closure_alike:
  assumes "crypto_alike L (k1 TEMP_KEY_ID) (k2 TEMP_KEY_ID)"
  shows "alike L (token_closure (sfn_attest_env mc k1 plat) claims sl sl')
    (token_closure (sfn_attest_env mc k2 plat) claims sl sl')"
proof -
  have "alike L
      (\<lambda>s. case initial_attest_get_token mc k1 ch claims buf s of
        (s, token, Inr n) \<Rightarrow> (sf_mem_update (\<lambda>m. write_bytes m (fst sl') token) s, Inr (), of_nat n)
      | (s, token, Inl e) \<Rightarrow> (sf_mem_update (zero_slice sl') s, Inl e, 0))
      (\<lambda>s. case initial_attest_get_token mc k2 ch claims buf s of
        (s, token, Inr n) \<Rightarrow> (sf_mem_update (\<lambda>m. write_bytes m (fst sl') token) s, Inr (), of_nat n)
      | (s, token, Inl e) \<Rightarrow> (sf_mem_update (zero_slice sl') s, Inl e, 0))" for ch buf
  proof (rule alike_bind[OF get_token_alike[where ?k1.0 = k1 and ?k2.0 = k2, OF assms]])
    fix r
    show "alike L (\<lambda>s. case r of (token, Inr n) \<Rightarrow> (sf_mem_update (\<lambda>m. write_bytes m (fst sl') token) s, Inr (), of_nat n)
        | (token, Inl e) \<Rightarrow> (sf_mem_update (zero_slice sl') s, Inl e, 0))
      (\<lambda>s. case r of (token, Inr n) \<Rightarrow> (sf_mem_update (\<lambda>m. write_bytes m (fst sl') token) s, Inr (), of_nat n)
        | (token, Inl e) \<Rightarrow> (sf_mem_update (zero_slice sl') s, Inl e, 0))"
      by (cases r; cases "snd r") (simp_all add: alike_def)
  qed
  from alike_read[where h = "\<lambda>s. slice_bytes (sf_mem s) sl", OF alike_read[where h = "\<lambda>s. slice_bytes (sf_mem s) sl'", OF this]]
  show ?thesis unfolding token_closure_def sfn_attest_env_def attest_env.simps .
qed

lemma access_both_alike:
  assumes "\<And>sl sl'. alike L (f sl sl') (g sl sl')" "\<And>sl sl'. keeps_frame sfn_ok sfn_stack (f sl sl')"
  shows "alike L (sfn_access_invec_outvec h i j f) (sfn_access_invec_outvec h i j g)"
proof (rule alikeI)
  fix s :: "'a spm_fn" assume s: "sfn_ok s" "length (sfn_stack s) = L"
  have "with_mapped_both i j f c t = with_mapped_both i j g c t"
    if t: "sfn_ok t" "length (sfn_stack t) = length (sfn_stack s)" for c t
  proof -
    have "f sl sl' t = g sl sl' t" for sl sl' by (rule alike_eq[OF assms(1) t(1)]) (use t(2) s(2) in simp)
    then show ?thesis unfolding with_mapped_both_def by (simp only:)
  qed
  then have "with_validated_connection sfn_with_active h (with_mapped_both i j f) s =
      with_validated_connection sfn_with_active h (with_mapped_both i j g) s"
    by (rule validated_cong[OF s(1)])
  then have "sfn_access_invec_outvec h i j f s = sfn_access_invec_outvec h i j g s"
    by (simp add: sfn_access_invec_outvec_def with_connection_for_handle_def split: sum.split)
  moreover obtain s' r where r: "sfn_access_invec_outvec h i j f s = (s', r)" by fastforce
  moreover have "sfn_ok s' \<and> frame_le (sfn_stack s) (sfn_stack s')"
    using keeps_frameD[OF sfn_access_both_keeps s(1) r] assms(2) by blast
  ultimately show "sfn_access_invec_outvec h i j f s = sfn_access_invec_outvec h i j g s \<and>
      sfn_ok (fst (sfn_access_invec_outvec h i j f s)) \<and>
      frame_le (sfn_stack s) (sfn_stack (fst (sfn_access_invec_outvec h i j f s)))" by (metis fst_conv)
qed

section \<open>The services\<close>

definition musca_claim_list :: "mem \<Rightarrow> attest_claim list" where
  "musca_claim_list m =
    [claim InstanceId (VBytes (0x01 # replicate 32 0x02)), claim ProfileDefinition (VText PROFILE_DEFINITION),
     claim ClientId (VSigned 1), claim SecurityLifecycle (VUnsigned 0x3000), claim BootSeed (VBytes (replicate 32 0xAA)),
     claim SwComponents (VSwComponents (as_slice (Option.bind
       (snd (chip_boot_record (\<lambda>m. m) (Some MUSCA_BOOT_RECORD) m)) parse_boot_data))),
     claim CertificationReference (VText CERT_REF), claim ImplementationId (VBytes IMPLEMENTATION_ID),
     claim VerificationService (VText VERIFICATION_SERVICE)]"

lemma musca_collect:
  "collect_claims (ae_platform (musca_attest_env bd call)) platform_buffers_new s = (s, Inr (musca_claim_list (sf_mem s)))"
  by (simp add: musca_attest_env_def sfn_attest_env_def musca_claims_core musca_claim_list_def chip_boot_record_def)

lemma musca_api [simp]:
  "ae_api (musca_attest_env bd call) = \<lparr>at_access_invec = sfn_access_invec, at_access_outvec = sfn_access_outvec,
     at_access_invec_outvec = sfn_access_invec_outvec\<rparr>"
  "ae_mem (musca_attest_env bd call) = sf_mem" "ae_upd (musca_attest_env bd call) = sf_mem_update"
  "ae_cbor (musca_attest_env bd call) = bd_cbor bd"
  "ae_backend (musca_attest_env bd call) = board_backend call (bd_locals bd)"
  "ae_platform (musca_attest_env bd call) = musca_attest_platform sf_mem (Some MUSCA_BOOT_RECORD)"
  by (simp_all add: musca_attest_env_def sfn_attest_env_def)

lemma musca_token_closure_alike:
  "calls_alike L c1 c2 \<Longrightarrow>
    alike L (token_closure (musca_attest_env bd c1) claims sl sl') (token_closure (musca_attest_env bd c2) claims sl sl')"
  unfolding musca_attest_env_def
  by (rule token_closure_alike[where ?k1.0 = "board_backend c1 (bd_locals bd)" and ?k2.0 = "board_backend c2 (bd_locals bd)"])
    (simp add: crypto_alike_def board_backend_alike)

lemma handle_get_token_alike:
  assumes "\<And>L. calls_alike L c1 c1" "calls_alike L c1 c2"
  shows "alike L (handle_get_token (musca_attest_env bd c1) msg) (handle_get_token (musca_attest_env bd c2) msg)"
proof -
  have "alike L
      (\<lambda>s. case sfn_access_invec_outvec (msg_handle msg) 0 0 (token_closure (musca_attest_env bd c1) cl) s of
        (s, r) \<Rightarrow> (s, flatten r))
      (\<lambda>s. case sfn_access_invec_outvec (msg_handle msg) 0 0 (token_closure (musca_attest_env bd c2) cl) s of
        (s, r) \<Rightarrow> (s, flatten r))" for cl
    by (rule alike_bind[OF access_both_alike alike_return])
      (use assms in \<open>auto intro: musca_token_closure_alike alike_keeps\<close>)
  from alike_read[where h = "\<lambda>s. musca_claim_list (sf_mem s)", OF this] show ?thesis
    unfolding handle_get_token_def musca_collect by simp
qed

lemma size_requests_alike:
  "alike L (handle_get_token_size (musca_attest_env bd c1) msg) (handle_get_token_size (musca_attest_env bd c2) msg)"
proof -
  have chal: "keeps_frame sfn_ok sfn_stack (size_challenge (musca_attest_env bd c1) sl)" for sl
    by (auto simp: keeps_frame_def size_challenge_def)
  have clos: "keeps_frame sfn_ok sfn_stack (size_closure (musca_attest_env bd c1) n sl)" for n sl
    by (auto simp: keeps_frame_def size_closure_def)
  have eqs: "size_challenge (musca_attest_env bd c2) = size_challenge (musca_attest_env bd c1)"
    "size_closure (musca_attest_env bd c2) = size_closure (musca_attest_env bd c1)"
    by (simp_all add: size_challenge_def size_closure_def fun_eq_iff)
  have tail: "alike L (\<lambda>s. case r of Inl e \<Rightarrow> (s, Inl e) | Inr token_size \<Rightarrow>
      (case sfn_access_outvec (msg_handle msg) 0 (size_closure (musca_attest_env bd c1) token_size) s of
        (s, r) \<Rightarrow> (s, flatten r)))
    (\<lambda>s. case r of Inl e \<Rightarrow> (s, Inl e) | Inr token_size \<Rightarrow>
      (case sfn_access_outvec (msg_handle msg) 0 (size_closure (musca_attest_env bd c1) token_size) s of
        (s, r) \<Rightarrow> (s, flatten r)))" for r :: "usize res"
    by (rule alike_sum[OF alike_return])
      (rule alike_bind[OF alike_same[OF sfn_access_outvec_keeps] alike_return], rule clos)
  have rec: "chip_boot_record sf_mem a s = (s, snd (chip_boot_record (\<lambda>m. m) a (sf_mem s)))" for a and s :: "'a spm_fn"
    by (simp add: chip_boot_record_def)
  have rest: "alike L (\<lambda>s. case initial_attest_get_token_size (bd_cbor bd) n (size_claims (replicate 32 0xAA)
          (Option.bind (snd (chip_boot_record (\<lambda>m. m) (Some MUSCA_BOOT_RECORD) (sf_mem s))) parse_boot_data)) of
        Inl e \<Rightarrow> (s, Inl e) | Inr token_size \<Rightarrow>
          (case sfn_access_outvec (msg_handle msg) 0 (size_closure (musca_attest_env bd c1) token_size) s of
            (s, r) \<Rightarrow> (s, flatten r)))
      (\<lambda>s. case initial_attest_get_token_size (bd_cbor bd) n (size_claims (replicate 32 0xAA)
          (Option.bind (snd (chip_boot_record (\<lambda>m. m) (Some MUSCA_BOOT_RECORD) (sf_mem s))) parse_boot_data)) of
        Inl e \<Rightarrow> (s, Inl e) | Inr token_size \<Rightarrow>
          (case sfn_access_outvec (msg_handle msg) 0 (size_closure (musca_attest_env bd c1) token_size) s of
            (s, r) \<Rightarrow> (s, flatten r)))" for n
    by (rule alike_read[OF tail])
  show ?thesis
    unfolding handle_get_token_size_def musca_api attest_api.simps eqs
    by (rule alike_bind[OF alike_same[OF sfn_access_invec_keeps[OF chal]]], rule alike_sum[OF alike_return])
      (use rest in \<open>simp add: musca_attest_platform_def rec\<close>)
qed

lemma attest_call_alike:
  assumes "\<And>L. calls_alike L c1 c1" "calls_alike L c1 c2"
  shows "alike L (attest_call (musca_attest_env bd c1) msg) (attest_call (musca_attest_env bd c2) msg)"
  unfolding attest_call_def
  by (intro alike_if alike_return handle_get_token_alike[OF assms] size_requests_alike)

lemma crypto_call_keeps:
  "keeps_frame sfn_ok sfn_stack (crypto_call (sfn_crypto_env ft key cast :: 'd spm_fn crypto_env) msg)"
proof -
  let ?env = "sfn_crypto_env ft key cast :: 'd spm_fn crypto_env"
  have api: "cr_access_invec ?env = sfn_access_invec" "cr_access_invec_outvec ?env = sfn_access_invec_outvec"
    by (simp_all add: sfn_crypto_env_def)
  have op: "alike L (\<lambda>s. case sfn_access_invec_outvec h i j (crypto_closure ?env f) s of (s, r) \<Rightarrow> (s, flatten r))
      (\<lambda>s. case sfn_access_invec_outvec h i j (crypto_closure ?env f) s of (s, r) \<Rightarrow> (s, flatten r))" for L h i j f
    by (rule alike_bind[OF alike_same[OF sfn_access_both_keeps[OF crypto_closure_keeps]] alike_return])
  have "alike L (crypto_call ?env msg) (crypto_call ?env msg)" for L unfolding crypto_call_def api
    by (rule alike_bind[OF alike_same[OF sfn_access_invec_keeps[OF read_header_keeps]]],
        rule alike_sum[OF alike_return], intro alike_if alike_return op)
  then show ?thesis by (rule alike_keeps)
qed

lemma musca_call_alike:
  assumes "\<And>L. calls_alike L c1 c1" "calls_alike L c1 c2"
  shows "alike L (musca_call bd c1 msg) (musca_call bd c2 msg)"
  unfolding musca_call_def
  by (cases "msg_handle msg")
    (simp_all add: alike_return attest_call_alike[OF assms] alike_same[OF crypto_call_keeps])

lemma client_calls_alike:
  "\<forall>h ctrl i j ca. keeps_stack sfn_ok sfn_stack (c h ctrl i j ca) \<Longrightarrow> calls_alike L c c"
  by (rule calls_alikeI) simp_all

lemma musca_services_keep: "services_keep (musca_call bd)"
  unfolding services_keep_def
proof (intro allI impI)
  fix call :: "'a client_call" and msg
  assume "\<forall>h ctrl i j ca. keeps_stack sfn_ok sfn_stack (call h ctrl i j ca)"
  from client_calls_alike[OF this] show "keeps_frame sfn_ok sfn_stack (musca_call bd call msg)"
    using alike_keeps[OF musca_call_alike] by blast
qed

lemma musca_services_local: "services_local (musca_call bd)"
  unfolding services_local_def
proof (intro allI impI)
  fix c1 c2 :: "'a client_call" and msg and s :: "'a spm_fn"
  assume "sfn_ok s" and c1: "\<forall>h ctrl i j ca. keeps_stack sfn_ok sfn_stack (c1 h ctrl i j ca)"
    and eq: "\<forall>h ctrl i j ca s'. sfn_ok s' \<longrightarrow>
      length (sfn_stack s') = length (sfn_stack s) \<longrightarrow> c1 h ctrl i j ca s' = c2 h ctrl i j ca s'"
  then show "musca_call bd c1 msg s = musca_call bd c2 msg s"
    using alike_eq[OF musca_call_alike[OF client_calls_alike[OF c1] calls_alikeI[OF c1 eq]]] by blast
qed

section \<open>The board\<close>

text \<open>C3. The Musca is balanced and its calls end, with nothing assumed of its services.  Whatever a
  non-secure client passes to the call veneer, the attestation and crypto services, the nested calls of the
  first to the second included, hand the connection stack and its mutex back as they were, and a nesting
  of five calls is enough: more fuel gives the same answer.\<close>

theorem musca_calls_end_balanced:
  assumes "sfn_ok s" "psa_call_veneer (musca_system bd n) h ctrl iv ov s = (s', status)"
  shows "sfn_ok s' \<and> sfn_stack s' = sfn_stack s \<and>
    (5 \<le> n \<longrightarrow> psa_call_veneer (musca_system bd 5) h ctrl iv ov s = (s', status))"
proof -
  have "5 \<le> n \<Longrightarrow> psa_call_veneer (musca_system bd 5) h ctrl iv ov s = (s', status)"
    using nested_calls_core[OF musca_services_keep musca_services_local assms(1), of n] assms(2)
    unfolding musca_system_def by metis
  moreover have "sfn_ok s' \<and> sfn_stack s' = sfn_stack s"
    by (rule veneer_balanced_core[OF musca_services_keep assms[unfolded musca_system_def]])
  ultimately show ?thesis by blast
qed

definition sample_board :: board where
  "sample_board =
    \<lparr>bd_cbor = rfc_cbor, bd_feature = Rustcrypto sample_rust_crypto,
     bd_cast = (\<lambda>a bs. if length bs = 56 \<and> unat a mod 8 = 0 then Some (pack_iovec_of_bytes bs) else None),
     bd_locals = \<lparr>bl_in_vecs = 0x1000, bl_out_vecs = 0x1010, bl_header = 0x1018, bl_input = 0x1100, bl_output = 0x1400\<rparr>,
     bd_tt = (\<lambda>_ _. 0x3C0000)\<rparr>"

theorem musca_calls_end_balanced_witness:
  "\<exists>s' status. psa_call_veneer (musca_system sample_board 9) Crypto (ctrl_new 1 0 False 0 False) 0 0 sample_spm = (s', status) \<and>
    sfn_stack s' = [] \<and>
    psa_call_veneer (musca_system sample_board 5) Crypto (ctrl_new 1 0 False 0 False) 0 0 sample_spm = (s', status)"
proof -
  obtain s' status where
    "psa_call_veneer (musca_system sample_board 9) Crypto (ctrl_new 1 0 False 0 False) 0 0 sample_spm = (s', status)" by fastforce
  then show ?thesis using musca_calls_end_balanced[OF sample_spm_ok(1), of sample_board 9] by fastforce
qed

end
