(* ===== verification/BoardToken.thy ===== *)
theory BoardToken
  imports Board
begin

text \<open>
  A token end to end on the Musca-B1: a non-secure client's request goes through the veneer, the
  checks, the attestation service, its two nested calls to the crypto service and back, and the
  client's buffer holds the signed message.  The nested calls pass descriptors, a packed header and
  data through memory, so the layout of the service's locals and what the libraries promise are
  the hypotheses.
\<close>

section \<open>Regions of memory\<close>

definition region_fits :: "usize \<times> nat \<Rightarrow> bool" where
  "region_fits r \<longleftrightarrow> fst r \<noteq> 0 \<and> unat (fst r) + snd r < 4294967296"

definition apart :: "usize \<times> nat \<Rightarrow> usize \<times> nat \<Rightarrow> bool" where
  "apart r q \<longleftrightarrow> unat (fst r) + snd r \<le> unat (fst q) \<or> unat (fst q) + snd q \<le> unat (fst r)"

lemma apart_sym: "apart r q \<Longrightarrow> apart q r"
  by (auto simp: apart_def)

lemma apart_outside:
  assumes "apart (a, n) (b, k)" "region_fits (a, n)" "region_fits (b, k)" "i < n" "l \<le> k"
  shows "\<not> in_slice b l (a + of_nat i)"
proof (rule not_in_slice_apart)
  have "unat (a + of_nat i) = unat a + i"
    using assms(2,4) by (simp add: region_fits_def unat_word_ariths unsigned_of_nat take_bit_nat_eq_self)
  then show "unat (a + of_nat i) < unat b \<or> unat b + l \<le> unat (a + of_nat i)"
    using assms(1,4,5) by (auto simp: apart_def)
qed (use assms(3,5) in \<open>simp add: region_fits_def\<close>)

lemma read_write_apart:
  assumes "apart (a, n) (b, k)" "region_fits (a, n)" "region_fits (b, k)" "l \<le> n" "length bs \<le> k"
  shows "read_bytes (write_bytes m b bs) a l = read_bytes m a l"
  using apart_outside[OF assms(1-3) _ assms(5)] assms(4) by (intro read_write_bytes_disjoint) auto

lemma read_vecs_cong:
  assumes "\<And>i. i < 8 * n \<Longrightarrow> m (p + of_nat i) = m' (p + of_nat i)"
  shows "read_vecs m p n = read_vecs m' p n"
proof -
  have "read_bytes m (p + of_nat k) 4 = read_bytes m' (p + of_nat k) 4" if "k + 4 \<le> 8 * n" for k
  proof (rule read_bytes_cong)
    fix i assume "i < (4 :: nat)"
    then show "m (p + of_nat k + of_nat i) = m' (p + of_nat k + of_nat i)"
      using assms[of "k + i"] that by (simp add: add.assoc)
  qed
  from this[of "8 * _"] this[of "8 * _ + 4"] show ?thesis
    by (auto simp: read_vecs_def read_u32_def simp del: of_nat_add of_nat_mult)
qed

lemma read_vecs_apart:
  assumes "apart (p, 8 * n) (b, k)" "region_fits (p, 8 * n)" "region_fits (b, k)" "length bs \<le> k"
  shows "read_vecs (write_bytes m b bs) p n = read_vecs m p n"
  using apart_outside[OF assms(1-3) _ assms(4)] by (intro read_vecs_cong write_bytes_outside) auto

section \<open>What the board relies on\<close>

definition local_regions :: "board_locals \<Rightarrow> (usize \<times> nat) list" where
  "local_regions bl =
    [(bl_in_vecs bl, 16), (bl_out_vecs bl, 8), (bl_header bl, 56), (bl_input bl, 700), (bl_output bl, 64)]"

text \<open>The locals are disjoint and their own code may read and write them.\<close>

definition locals_ok :: "board \<Rightarrow> bool" where
  "locals_ok bd \<longleftrightarrow>
    (let bl = bd_locals bd; perm = musca_has_permission (bd_tt bd) in
     list_all region_fits (local_regions bl) \<and> sorted_wrt apart (local_regions bl) \<and>
     unat (bl_header bl) mod 8 = 0 \<and>
     perm (bl_header bl) 56 False SECURE_PRIVILEGED \<and>
     (\<forall>n. 0 < n \<longrightarrow> n \<le> 700 \<longrightarrow> perm (bl_input bl) (of_nat n) False SECURE_PRIVILEGED) \<and>
     perm (bl_output bl) 32 True SECURE_PRIVILEGED \<and> perm (bl_output bl) 64 True SECURE_PRIVILEGED)"

text \<open>bytemuck::try_from_bytes: the exact size and an aligned address (the header's alignment is eight).\<close>

definition cast_documented :: "(usize \<Rightarrow> u8 list \<Rightarrow> tfm_crypto_pack_iovec option) \<Rightarrow> bool" where
  "cast_documented cast \<longleftrightarrow>
    (\<forall>a bs. cast a bs = (if length bs = 56 \<and> unat a mod 8 = 0 then Some (pack_iovec_of_bytes bs) else None))"

text \<open>sha2 and p256 with a valid device key.\<close>

definition libraries_ok :: "board \<Rightarrow> rust_crypto \<Rightarrow> bool" where
  "libraries_ok bd rc \<longleftrightarrow>
    cbor_documented (bd_cbor bd) \<and> cast_documented (bd_cast bd) \<and> bd_feature bd = Rustcrypto rc \<and>
    rc_key_valid rc MUSCA_SIGNING_KEY \<and> (\<forall>x. length (rc_sha256 rc x) = 32) \<and>
    (\<forall>d. length d = 32 \<longrightarrow> (\<exists>sg. rc_sign_prehash rc MUSCA_SIGNING_KEY d = Some sg \<and> length sg = 64))"

section \<open>A request to the crypto service\<close>

lemma crypto_request:
  fixes s :: "'d spm_fn"
  assumes s: "sfn_ok s" "try_get_spm s = Inr ()" "length (sfn_stack s) < MAX_CONNECTIONS"
    and p: "validate_call_params ctrl = Inr (t, 2, 1)" "has_iovec ctrl" "iv \<noteq> 0" "ov \<noteq> 0"
    and v: "read_vecs (sf_mem s) iv 2 = [v0, v1]" "read_vecs (sf_mem s) ov 1 = [w]"
    and ok: "vec_ok (musca_has_permission (bd_tt bd)) False ca v0" "vec_ok (musca_has_permission (bd_tt bd)) False ca v1"
      "vec_ok (musca_has_permission (bd_tt bd)) True ca w" "vec_fits v0" "vec_fits v1" "separated v0 v1"
    and hdr: "iov_len v0 \<noteq> 0"
      "bd_cast bd (iov_base v0) (read_bytes (sf_mem s) (iov_base v0) (unat (iov_len v0))) = Some iov"
    and op: "pk_function_id iov = TFM_CRYPTO_ASYMMETRIC_SIGN_HASH_SID \<and> f = sign_hash (bd_feature bd) MUSCA_SIGNING_KEY \<or>
      pk_function_id iov = TFM_CRYPTO_HASH_COMPUTE_SID \<and> f = compute_hash (bd_feature bd) (pk_alg iov)"
    and res: "f (read_bytes (sf_mem s) (iov_base v1) (unat (iov_len v1)))
      (read_bytes (sf_mem s) (iov_base w) (unat (iov_len w))) = (buf, Inr n)" "of_nat n \<le> iov_len w" "iov_len w \<noteq> 0"
  shows "\<exists>s'. sfn_api_call (musca_system bd (Suc k)) Crypto ctrl iv ov ca s = (s', Inr ()) \<and> sfn_ok s' \<and>
    sfn_stack s' = sfn_stack s \<and> sfn_other s' = sfn_other (s\<lparr>sf_mem := write_bytes (sf_mem s) (iov_base w) buf\<rparr>)"
proof -
  let ?P = "musca_system bd (Suc k) :: 'd sfn_platform" and ?perm = "musca_has_permission (bd_tt bd)"
  let ?c = "fresh_connection Crypto t ca [v0, v1] [w]"
  have t: "t = unpack_type ctrl" "\<not> t <s 0" "ctrl_in_len ctrl = 2" "ctrl_out_len ctrl = 1"
    using p(1,2) by (auto simp: validate_call_params_Inr)
  have "call_accepted ?perm ctrl [v0, v1] [w] ca"
    using ok t p(2) by (simp add: call_accepted_def PSA_MAX_IOVEC_def)
  then have "sfn_api_connection (sp_has_permission ?P s) Crypto ctrl iv ov ca s = Inr ?c"
    using s(2) p v t by (simp add: sfn_api_connection_def api_connection_def musca_system_def
        validate_vec_pointer_shape_def call_from_slices_Inr)
  then have api: "sfn_api_call ?P Crypto ctrl iv ov ca s = sfn_call ?P ?c s"
    by (simp add: sfn_api_call_def)
  have wf: "connection_wf ?c" by (rule connection_wf_fresh) simp_all
  obtain s1 s2 r where r: "sfn_ok s1" "sfn_stack s1 = sfn_stack s @ [Some ?c]" "sfn_other s1 = sfn_other s"
    "sp_call ?P (cn_msg ?c) s1 = (s2, r)" "sfn_call ?P ?c s = (sfn_pop_connection s2, r)"
    "sfn_ok (sfn_pop_connection s2)" "sfn_stack (sfn_pop_connection s2) = sfn_stack s"
    "sfn_other (sfn_pop_connection s2) = sfn_other s2"
    using sfn_call_room[OF sfn_system_keeps[OF musca_services_keep] s(1) wf s(3), of bd
        "\<lambda>_. musca_has_permission (bd_tt bd)" musca_version "Suc k"]
    unfolding musca_system_def by blast
  have m: "sf_mem s1 = sf_mem s" "try_get_spm s1 = Inr ()"
    using r(3) s(2) by (auto simp: sfn_other_def try_get_spm_def)
  have sel: "invec_base ?c ! 0 = iov_base v0" "invec_base ?c ! 1 = iov_base v1" "outvec_base ?c ! 0 = iov_base w"
    "in_len_of ?c 0 = iov_len v0" "in_len_of ?c 1 = iov_len v1" "out_len_of ?c 0 = iov_len w"
    using fresh_nth(1)[of "[v0, v1]" 0] fresh_nth(1)[of "[v0, v1]" 1] fresh_out_nth(1)[of "[w]" 0]
      fresh_lens[of "[v0, v1]" 0] fresh_lens[of "[v0, v1]" 1] fresh_out_lens[of "[w]" 0] ok(1-3) by auto
  have flags: "\<not> invec_mapped ?c ! j" "invec_accessed ?c ! j = 0" "\<not> invec_unmapped ?c ! j"
    "\<not> outvec_mapped ?c ! j" "outvec_written ?c ! j = 0" "\<not> outvec_unmapped ?c ! j" if "j < 4" for j
    using that by (simp_all add: fresh_connection_def Let_def)
  have msg: "msg_handle (cn_msg ?c) = Crypto" "\<not> msg_type (cn_msg ?c) <s 0" "stack_active (sfn_stack s1) = Some ?c"
    using t(2) by (simp_all add: fresh_connection_def Let_def r(2) stack_active_def)
  have "\<exists>s3. crypto_call (sfn_crypto_env (bd_feature bd) MUSCA_SIGNING_KEY (bd_cast bd)) (cn_msg ?c) s1 = (s3, Inr ()) \<and>
      sfn_ok s3 \<and> sfn_other s3 = sfn_other (s1\<lparr>sf_mem := write_bytes (sf_mem s1) (outvec_base ?c ! 0) buf\<rparr>)"
    by (rule crypto_call_core[where f = f and n = n and iov = iov and c = ?c and s = s1 and
          ?hs0.0 = "slice_of (invec_base ?c ! 0) (in_len_of ?c 0)", OF r(1) m(2) msg(3) refl msg(2)])
      (use flags[of 0] flags[of 1] hdr op res in
        \<open>simp_all add: sel m slice_bytes_empty del: One_nat_def, simp_all add: slice_of_def\<close>)
  then obtain s3 where s3: "musca_call bd call (cn_msg ?c) s1 = (s3, Inr ())"
    "sfn_other s3 = sfn_other (s1\<lparr>sf_mem := write_bytes (sf_mem s1) (iov_base w) buf\<rparr>)" for call
    unfolding sel by (auto simp: musca_call_def msg(1))
  have "sp_call ?P (cn_msg ?c) s1 = (s3, Inr ())" by (simp add: musca_system_def s3(1))
  then have "s2 = s3" "r = Inr ()" using r(4) by simp_all
  then show ?thesis using api r(3,5-8) s3(2) m(1) by (auto simp: sfn_other_def)
qed

section \<open>A nested call\<close>

definition outside_locals :: "board_locals \<Rightarrow> usize \<Rightarrow> bool" where
  "outside_locals bl x \<longleftrightarrow> (\<forall>r\<in>set (local_regions bl). \<not> in_slice (fst r) (snd r) x)"

text \<open>What a nested call leaves alone: everything but the service's locals.\<close>

definition only_locals :: "board_locals \<Rightarrow> 'd spm_fn \<Rightarrow> 'd spm_fn \<Rightarrow> bool" where
  "only_locals bl s s' \<longleftrightarrow> sfn_stack s' = sfn_stack s \<and> sf_cell s' = sf_cell s \<and>
    sf_in_secure s' = sf_in_secure s \<and> sf_dev s' = sf_dev s \<and>
    (\<forall>x. outside_locals bl x \<longrightarrow> sf_mem s' x = sf_mem s x)"

lemma only_locals_trans: "only_locals bl s t \<Longrightarrow> only_locals bl t u \<Longrightarrow> only_locals bl s u"
  by (simp add: only_locals_def)

lemma outside_write:
  assumes "outside_locals bl x" "(a, n) \<in> set (local_regions bl)" "length bs \<le> n"
  shows "write_bytes m a bs x = m x"
  using assms by (intro write_bytes_outside) (auto simp: outside_locals_def in_slice_def)

lemma localsD:
  assumes "locals_ok bd"
  defines "bl \<equiv> bd_locals bd"
  shows "r \<in> set (local_regions bl) \<Longrightarrow> region_fits r"
    "i < 5 \<Longrightarrow> j < 5 \<Longrightarrow> i \<noteq> j \<Longrightarrow> apart (local_regions bl ! i) (local_regions bl ! j)"
proof -
  show "r \<in> set (local_regions bl) \<Longrightarrow> region_fits r"
    using assms by (auto simp: locals_ok_def Let_def list_all_iff)
  have "sorted_wrt apart (local_regions bl)" "length (local_regions bl) = 5"
    using assms by (auto simp: locals_ok_def Let_def local_regions_def)
  then show "i < 5 \<Longrightarrow> j < 5 \<Longrightarrow> i \<noteq> j \<Longrightarrow> apart (local_regions bl ! i) (local_regions bl ! j)"
    by (metis apart_sym linorder_neqE_nat sorted_wrt_nth_less)
qed

lemma nested_request:
  fixes s :: "'d spm_fn"
  assumes L: "locals_ok bd" and cast: "cast_documented (bd_cast bd)"
    and s: "sfn_ok s" "try_get_spm s = Inr ()" "length (sfn_stack s) < MAX_CONNECTIONS"
    and p: "validate_call_params ctrl = Inr (t, 2, 1)" "has_iovec ctrl"
    and n: "0 < length input" "length input \<le> 700" "olen = 32 \<or> olen = 64" "pack_iovec_wf iov"
    and op: "pk_function_id iov = TFM_CRYPTO_ASYMMETRIC_SIGN_HASH_SID \<and> f = sign_hash (bd_feature bd) MUSCA_SIGNING_KEY \<or>
      pk_function_id iov = TFM_CRYPTO_HASH_COMPUTE_SID \<and> f = compute_hash (bd_feature bd) (pk_alg iov)"
    and res: "f input (replicate olen 0) = (buf, Inr olen)" "length buf = olen"
  defines "bl \<equiv> bd_locals bd"
  defines "m \<equiv> write_bytes (write_bytes (write_bytes (sf_mem s) (bl_input bl) input)
    (bl_output bl) (replicate olen 0)) (bl_header bl) (pack_iovec_bytes iov)"
  shows "\<exists>s'. internal_client (sfn_api_call (musca_system bd (Suc k))) (bl_in_vecs bl) (bl_out_vecs bl) Crypto ctrl
      [vec_of_slice (bl_header bl, 56), vec_of_slice (bl_input bl, len input)]
      [vec_of_slice (bl_output bl, of_nat olen)] (s\<lparr>sf_mem := m\<rparr>) =
      (s', [vec_of_slice (bl_output bl, of_nat olen)], into_psa_status (Inr ())) \<and>
    sfn_ok s' \<and> only_locals bl s s' \<and> read_bytes (sf_mem s') (bl_output bl) olen = buf"
proof -
  let ?ins = "[vec_of_slice (bl_header bl, 56), vec_of_slice (bl_input bl, len input)]"
  let ?w = "vec_of_slice (bl_output bl, of_nat olen :: usize)"
  define m4 where "m4 = store_vecs (bl_in_vecs bl) ?ins m"
  define m5 where "m5 = store_vecs (bl_out_vecs bl) [?w] m4"
  let ?s5 = "s\<lparr>sf_mem := m5\<rparr>"
  have regs: "local_regions bl = [(bl_in_vecs bl, 16), (bl_out_vecs bl, 8), (bl_header bl, 56), (bl_input bl, 700), (bl_output bl, 64)]"
    by (simp add: local_regions_def)
  have fit: "region_fits (bl_in_vecs bl, 16)" "region_fits (bl_out_vecs bl, 8)" "region_fits (bl_header bl, 56)"
    "region_fits (bl_input bl, 700)" "region_fits (bl_output bl, 64)"
    using localsD(1)[OF L] unfolding bl_def[symmetric] regs by simp_all
  have ap: "i < 5 \<Longrightarrow> j < 5 \<Longrightarrow> i \<noteq> j \<Longrightarrow> apart (local_regions bl ! i) (local_regions bl ! j)" for i j
    using localsD(2)[OF L] unfolding bl_def by blast
  note apart = ap[of 0 1] ap[of 2 0] ap[of 2 1] ap[of 3 0] ap[of 3 1] ap[of 3 2] ap[of 3 4] ap[of 4 0] ap[of 4 1]
    ap[of 4 2] ap[of 1 4] ap[of 2 4]
  have ulen: "unat (len input) = length input" "unat (of_nat olen :: usize) = olen"
    using n by (auto simp: unsigned_of_nat take_bit_nat_eq_self)
  have lens: "length (pack_iovec_bytes iov) = 56" "length (concat (map vec_bytes ?ins)) = 16"
    "length (concat (map vec_bytes [?w])) = 8"
    using length_pack_iovec_bytes[OF n(4)] by (simp_all add: pack_iovec_size_def)
  have st: "store_vecs a vs mm = write_bytes mm a (concat (map vec_bytes vs))" for a vs mm
    by (simp add: store_vecs_def)
  have over: "read_bytes m5 a l = read_bytes m a l"
    if "apart (a, h) (bl_in_vecs bl, 16)" "apart (a, h) (bl_out_vecs bl, 8)" "region_fits (a, h)" "l \<le> h" for a h l
    unfolding m5_def m4_def st
    using read_write_apart[OF that(2,3) fit(2) that(4), of "concat (map vec_bytes [?w])"]
      read_write_apart[OF that(1,3) fit(1) that(4), of "concat (map vec_bytes ?ins)"] lens by simp
  have hd5: "read_bytes m5 (bl_header bl) 56 = pack_iovec_bytes iov"
    using over[of "bl_header bl" 56 56] apart fit lens read_write_bytes[of "pack_iovec_bytes iov"]
    by (simp add: regs m_def)
  have in5: "read_bytes m5 (bl_input bl) (length input) = input"
  proof -
    have "read_bytes m5 (bl_input bl) (length input) = read_bytes m (bl_input bl) (length input)"
      using over[of "bl_input bl" 700 "length input"] apart fit n by (simp add: regs)
    also have "\<dots> = read_bytes (write_bytes (sf_mem s) (bl_input bl) input) (bl_input bl) (length input)"
      unfolding m_def
      using read_write_apart[of "bl_input bl" 700 "bl_header bl" 56 "length input" "pack_iovec_bytes iov"]
        read_write_apart[of "bl_input bl" 700 "bl_output bl" 64 "length input" "replicate olen 0"] apart fit n lens
      by (auto simp: regs)
    finally show ?thesis using n by (simp add: read_write_bytes)
  qed
  have out5: "read_bytes m5 (bl_output bl) olen = replicate olen 0"
  proof -
    have "read_bytes m5 (bl_output bl) olen = read_bytes m (bl_output bl) olen"
      using over[of "bl_output bl" 64 olen] apart fit n by (auto simp: regs)
    also have "\<dots> = read_bytes (write_bytes (write_bytes (sf_mem s) (bl_input bl) input) (bl_output bl) (replicate olen 0))
        (bl_output bl) (length (replicate olen (0 :: u8)))"
      unfolding m_def
      using read_write_apart[of "bl_output bl" 64 "bl_header bl" 56 olen "pack_iovec_bytes iov"] apart fit n lens
      by (auto simp: regs)
    finally show ?thesis using n by (subst (asm) read_write_bytes) auto
  qed
  have "read_vecs m4 (bl_in_vecs bl) 2 = ?ins"
    using read_store_vecs[of ?ins "bl_in_vecs bl" m] by (simp add: m4_def numeral_2_eq_2)
  moreover have "read_vecs m5 (bl_in_vecs bl) 2 = read_vecs m4 (bl_in_vecs bl) 2"
    unfolding m5_def st using apart fit lens by (intro read_vecs_apart[where k = 8]) (simp_all add: regs)
  ultimately have v1: "read_vecs m5 (bl_in_vecs bl) 2 = ?ins" by simp
  have v2: "read_vecs m5 (bl_out_vecs bl) 1 = [?w]"
    using read_store_vecs[of "[?w]" "bl_out_vecs bl" m4] by (simp add: m5_def)
  have perm: "musca_has_permission (bd_tt bd) (bl_header bl) 56 False SECURE_PRIVILEGED"
    "musca_has_permission (bd_tt bd) (bl_input bl) (len input) False SECURE_PRIVILEGED"
    "musca_has_permission (bd_tt bd) (bl_output bl) (of_nat olen) True SECURE_PRIVILEGED"
    using L n(1-3) unfolding locals_ok_def Let_def bl_def by auto
  let ?v0 = "vec_of_slice (bl_header bl, 56 :: usize)" and ?v1 = "vec_of_slice (bl_input bl, len input)"
  have base: "iov_base ?v0 = bl_header bl" "iov_len ?v0 = 56" "iov_base ?v1 = bl_input bl" "iov_len ?v1 = len input"
    "iov_base ?w = bl_output bl" "iov_len ?w = of_nat olen" by (simp_all add: vec_of_slice_def)
  have nz: "(of_nat olen :: usize) \<noteq> 0" using n(3) by auto
  have rf: "bl_header bl \<noteq> 0" "bl_input bl \<noteq> 0" "bl_output bl \<noteq> 0" "unat (bl_header bl) + 56 < 4294967296"
    "unat (bl_input bl) + 700 < 4294967296" "unat (bl_output bl) + 64 < 4294967296"
    "bl_in_vecs bl \<noteq> 0" "bl_out_vecs bl \<noteq> 0"
    using fit by (simp_all add: region_fits_def)
  have vfit: "vec_fits ?v0" "vec_fits ?v1" "vec_fits ?w"
    using rf(4-6) n(2,3) unfolding vec_fits_def base ulen by auto
  have vok: "vec_ok (musca_has_permission (bd_tt bd)) False SECURE_PRIVILEGED ?v0"
    "vec_ok (musca_has_permission (bd_tt bd)) False SECURE_PRIVILEGED ?v1"
    "vec_ok (musca_has_permission (bd_tt bd)) True SECURE_PRIVILEGED ?w"
    using vfit rf(1-3) perm unfolding vec_ok_def base by blast+
  have sep: "separated ?v0 ?v1"
    using apart(6) n(2) unfolding separated_def base ulen by (simp add: regs apart_def) linarith
  have hd_cast: "bd_cast bd (iov_base ?v0) (read_bytes (sf_mem ?s5) (iov_base ?v0) (unat (iov_len ?v0))) = Some iov"
    using cast L lens(1) hd5 pack_iovec_roundtrip[OF n(4)]
    unfolding base by (simp add: cast_documented_def locals_ok_def Let_def bl_def)
  have reads: "read_bytes (sf_mem ?s5) (iov_base ?v1) (unat (iov_len ?v1)) = input"
    "read_bytes (sf_mem ?s5) (iov_base ?w) (unat (iov_len ?w)) = replicate olen 0"
    unfolding base ulen using in5 out5 by simp_all
  have s5: "sfn_ok ?s5" "try_get_spm ?s5 = Inr ()" "length (sfn_stack ?s5) < MAX_CONNECTIONS"
    using s by (simp_all add: try_get_spm_def)
  have fr: "f (read_bytes (sf_mem ?s5) (iov_base ?v1) (unat (iov_len ?v1)))
      (read_bytes (sf_mem ?s5) (iov_base ?w) (unat (iov_len ?w))) = (buf, Inr olen)"
    unfolding reads by (rule res(1))
  have rv: "read_vecs (sf_mem ?s5) (bl_in_vecs bl) 2 = [?v0, ?v1]" "read_vecs (sf_mem ?s5) (bl_out_vecs bl) 1 = [?w]"
    using v1 v2 by simp_all
  have misc: "iov_len ?v0 \<noteq> 0" "of_nat olen \<le> iov_len ?w" "iov_len ?w \<noteq> 0"
    unfolding base using nz by simp_all
  from crypto_request[where k = k, OF s5 p rf(7,8) rv vok vfit(1,2) sep misc(1) hd_cast op fr misc(2,3)]
  obtain s' where s': "sfn_api_call (musca_system bd (Suc k)) Crypto ctrl (bl_in_vecs bl) (bl_out_vecs bl) SECURE_PRIVILEGED ?s5 = (s', Inr ())"
    "sfn_ok s'" "sfn_stack s' = sfn_stack ?s5" "sfn_other s' = sfn_other (?s5\<lparr>sf_mem := write_bytes (sf_mem ?s5) (iov_base ?w) buf\<rparr>)"
    by blast
  have m': "sf_mem s' = write_bytes m5 (bl_output bl) buf" using s'(4) by (simp add: sfn_other_def base)
  have w: "read_vecs (sf_mem s') (bl_out_vecs bl) 1 = [?w]"
    unfolding m' using v2 read_vecs_apart[of "bl_out_vecs bl" 1 "bl_output bl" 64 buf m5] apart fit n(3) res(2)
    by (auto simp: regs)
  have "read_bytes (sf_mem s') (bl_output bl) olen = buf"
    unfolding m' using read_write_bytes[of buf m5 "bl_output bl"] res(2) n(3) by auto
  moreover have "sf_mem s' x = sf_mem s x" if x: "outside_locals bl x" for x
  proof -
    note o = outside_write[OF x, unfolded regs]
    have "length buf \<le> 64" "length (replicate olen (0 :: u8)) \<le> 64" using res(2) n(3) by auto
    then show ?thesis unfolding m' m5_def m4_def m_def st
      using o[of "bl_output bl" 64] o[of "bl_input bl" 700 input] o[of "bl_header bl" 56 "pack_iovec_bytes iov"]
        o[of "bl_in_vecs bl" 16 "concat (map vec_bytes ?ins)"] o[of "bl_out_vecs bl" 8 "concat (map vec_bytes [?w])"]
        n(2) lens by (simp del: concat.simps list.map length_replicate)
  qed
  ultimately have "sfn_ok s' \<and> only_locals bl s s' \<and> read_bytes (sf_mem s') (bl_output bl) olen = buf"
    using s'(2-4) by (simp add: only_locals_def sfn_other_def)
  moreover have "internal_client (sfn_api_call (musca_system bd (Suc k))) (bl_in_vecs bl) (bl_out_vecs bl) Crypto ctrl
      [?v0, ?v1] [?w] (s\<lparr>sf_mem := m\<rparr>) = (s', [?w], into_psa_status (Inr ()))"
  proof -
    have "sf_mem_update (store_vecs (bl_out_vecs bl) [?w]) (sf_mem_update (store_vecs (bl_in_vecs bl) [?v0, ?v1]) (s\<lparr>sf_mem := m\<rparr>)) = ?s5"
      by (simp add: m5_def m4_def)
    then show ?thesis using s'(1) w by (simp add: internal_client_def veneer_psa_call_def Let_def)
  qed
  ultimately show ?thesis by blast
qed

section \<open>Hashing and signing through the client\<close>

lemma crypto_ctrl:
  "validate_call_params (ctrl_new 1 2 True 1 True) = Inr (1, 2, 1)" "has_iovec (ctrl_new 1 2 True 1 True)"
proof -
  show h: "has_iovec (ctrl_new 1 2 True 1 True)" by (simp add: has_iovec_def ctrl_new_def Let_def)
  show "validate_call_params (ctrl_new 1 2 True 1 True) = Inr (1, 2, 1)"
    unfolding validate_call_params_Inr using h
    by (simp add: unpack_type_new ctrl_len_new word_sless_alt PSA_MAX_IOVEC_def)
qed

lemma three_stores:
  "sf_mem_update h3 (sf_mem_update h2 (sf_mem_update h1 s)) = s\<lparr>sf_mem := h3 (h2 (h1 (sf_mem s)))\<rparr>"
  by simp

lemma board_hash:
  fixes s :: "'d spm_fn"
  assumes L: "locals_ok bd" and lib: "libraries_ok bd rc"
    and s: "sfn_ok s" "try_get_spm s = Inr ()" "length (sfn_stack s) < MAX_CONNECTIONS"
    and n: "0 < length input" "length input \<le> 700"
  shows "\<exists>s'. hash_sha256 (board_backend (sfn_api_call (musca_system bd (Suc k))) (bd_locals bd) key) input s =
      (s', Inr (rc_sha256 rc input)) \<and> sfn_ok s' \<and> only_locals (bd_locals bd) s s'"
proof -
  have f: "compute_hash (bd_feature bd) (pk_alg (for_hash_compute PSA_ALG_SHA_256)) input (replicate 32 0) = (rc_sha256 rc input, Inr 32)"
    "length (rc_sha256 rc input) = 32"
    using lib by (simp_all add: libraries_ok_def compute_hash_def compute_hash_rustcrypto_def for_hash_compute_def
        SHA256_HASH_SIZE_def copy_at_def)
  have op: "pk_function_id (for_hash_compute PSA_ALG_SHA_256) = TFM_CRYPTO_HASH_COMPUTE_SID"
    by (simp add: for_hash_compute_def)
  from nested_request[where k = k, OF L _ s crypto_ctrl n _ pack_iovec_wf_builders(2) disjI2[OF conjI[OF op refl]] f]
  show ?thesis using lib unfolding board_backend_def psa_crypto_backend_def psa_hash_compute_def Let_def cose_crypto.simps
      three_stores psa_result_def
    by (auto simp: libraries_ok_def status_from_raw_into pack_iovec_size_def vec_of_slice_def)
qed

lemma board_sign:
  fixes s :: "'d spm_fn"
  assumes L: "locals_ok bd" and lib: "libraries_ok bd rc"
    and s: "sfn_ok s" "try_get_spm s = Inr ()" "length (sfn_stack s) < MAX_CONNECTIONS"
    and d: "length d = 32" "rc_sign_prehash rc MUSCA_SIGNING_KEY d = Some sg"
  shows "\<exists>s'. sign_es256_prehash (board_backend (sfn_api_call (musca_system bd (Suc k))) (bd_locals bd) key) d s =
      (s', Inr sg) \<and> sfn_ok s' \<and> only_locals (bd_locals bd) s s' \<and> length sg = 64"
proof -
  have sg: "length sg = 64" using lib d by (force simp: libraries_ok_def)
  have f: "sign_hash (bd_feature bd) MUSCA_SIGNING_KEY d (replicate 64 0) = (sg, Inr 64)"
    using lib d sg by (simp add: libraries_ok_def sign_hash_def sign_hash_rustcrypto_def P256_SIGNATURE_SIZE_def
        SHA256_HASH_SIZE_def copy_at_def)
  have op: "pk_function_id (for_sign_hash key PSA_ALG_ECDSA_SHA256) = TFM_CRYPTO_ASYMMETRIC_SIGN_HASH_SID"
    by (simp add: for_sign_hash_def)
  from nested_request[where k = k and input = d, OF L _ s crypto_ctrl _ _ _ pack_iovec_wf_builders(1) disjI1[OF conjI[OF op refl]] f sg]
  show ?thesis using lib d(1) sg unfolding board_backend_def psa_crypto_backend_def psa_sign_hash_def Let_def cose_crypto.simps
      three_stores psa_result_def
    by (auto simp: libraries_ok_def status_from_raw_into pack_iovec_size_def vec_of_slice_def)
qed

section \<open>The token\<close>

definition musca_payload :: "board \<Rightarrow> mem \<Rightarrow> u8 list \<Rightarrow> u8 list" where
  "musca_payload bd m ch = payload_bytes (bd_cbor bd) (claim Nonce (VBytes ch) # musca_claim_list m)"

lemma musca_closure:
  fixes t :: "'d spm_fn"
  assumes L: "locals_ok bd" and lib: "libraries_ok bd rc"
    and t: "sfn_ok t" "try_get_spm t = Inr ()" "length (sfn_stack t) < MAX_CONNECTIONS"
    and ch: "slice_bytes (sf_mem t) sl = ch" "challenge_size_is_supported (len ch)" "length ch \<le> 64"
    and P: "P = musca_payload bd m ch" "length (cbor_bstr P) \<le> 512"
    and sg: "rc_sign_prehash rc MUSCA_SIGNING_KEY (rc_sha256 rc (to_be_signed P)) = Some sg"
    and room: "length (token_bytes P sg) \<le> unat (snd sl')"
  shows "\<exists>t'. token_closure (musca_attest_env bd (sfn_api_call (musca_system bd (Suc k)))) (musca_claim_list m) sl sl' t =
      (t', Inr (), of_nat (length (token_bytes P sg))) \<and> sfn_ok t' \<and>
      read_bytes (sf_mem t') (fst sl') (length (token_bytes P sg)) = token_bytes P sg \<and> sf_cell t' = sf_cell t \<and>
      sf_in_secure t' = sf_in_secure t \<and> sf_dev t' = sf_dev t"
proof -
  let ?bk = "board_backend (sfn_api_call (musca_system bd (Suc k))) (bd_locals bd)" and ?B = "token_bytes P sg"
  let ?cl = "claim Nonce (VBytes ch) # musca_claim_list m"
  have mc: "cbor_documented (bd_cbor bd)" and d: "length (rc_sha256 rc (to_be_signed P)) = 32"
    using lib by (simp_all add: libraries_ok_def)
  have P': "P = payload_bytes (bd_cbor bd) ?cl" using P(1) by (simp add: musca_payload_def)
  have tbs: "0 < length (to_be_signed P)" "length (to_be_signed P) \<le> 700"
    using P(2) by (simp_all add: to_be_signed_def length_sig_bytes PROTECTED_HEADERS_ES256_def head_len_def)
  obtain s1 where s1: "hash_sha256 (?bk TEMP_KEY_ID) (to_be_signed P) t = (s1, Inr (rc_sha256 rc (to_be_signed P)))"
    "sfn_ok s1" "only_locals (bd_locals bd) t s1" using board_hash[OF L lib t tbs] by blast
  have t1: "try_get_spm s1 = Inr ()" "length (sfn_stack s1) < MAX_CONNECTIONS"
    using s1(3) t(2,3) by (simp_all add: only_locals_def try_get_spm_def)
  obtain s2 where s2: "sign_es256_prehash (?bk TEMP_KEY_ID) (rc_sha256 rc (to_be_signed P)) s1 = (s2, Inr sg)"
    "sfn_ok s2" "only_locals (bd_locals bd) s1 s2" "length sg = 64" using board_sign[OF L lib s1(2) t1 d sg] by blast
  let ?buf = "slice_bytes (sf_mem t) sl'"
  have buf: "length ?buf = unat (snd sl')" by (simp add: slice_bytes_def)
  obtain token' where tok: "length token' = length ?buf" "token' = ?B @ drop (length ?B) ?buf"
    "encode_initial_attestation_token (bd_cbor bd) ?bk ?cl ?buf TEMP_KEY_ID t = (s2, token', Inr (length ?B))"
    using token_made[where backend = ?bk and key_id = TEMP_KEY_ID and token = ?buf, OF mc P(2)[unfolded P'] s1(1)[unfolded P'] s2(1)[unfolded P'] s2(4)]
      room buf unfolding P'[symmetric] by auto
  have cl: "length (musca_claim_list m) \<le> 15" by (simp add: musca_claim_list_def)
  let ?final = "?B @ replicate (unat (snd sl') - length ?B) 0"
  have "initial_attest_get_token (bd_cbor bd) ?bk ch (musca_claim_list m) ?buf t = (s2, ?final, Inr (length ?B))"
    using ch(2) tok room buf by (simp add: initial_attest_get_token_def build_claims_value[OF cl])
  then have run: "token_closure (musca_attest_env bd (sfn_api_call (musca_system bd (Suc k)))) (musca_claim_list m) sl sl' t =
      (sf_mem_update (\<lambda>m. write_bytes m (fst sl') ?final) s2, Inr (), of_nat (length ?B))"
    using ch(1) by (simp add: token_closure_def)
  have "length ?final = unat (snd sl')" using room by simp
  then have "read_bytes (write_bytes (sf_mem s2) (fst sl') ?final) (fst sl') (length ?B) = take (length ?B) ?final"
    using read_write_bytes_part[of 0 "length ?B" ?final "sf_mem s2" "fst sl'"] room unat_lt_usize[of "snd sl'"] by simp
  then show ?thesis using run s2(2,3) s1(3) by (auto simp: only_locals_def)
qed

lemma musca_closure_keeps:
  "keeps_frame sfn_ok sfn_stack (token_closure (musca_attest_env bd (sfn_api_call (musca_system bd n))) cl sl sl')"
proof -
  have "\<forall>h ctrl i j ca. keeps_stack sfn_ok sfn_stack (sfn_api_call (musca_system bd n) h ctrl i j ca)"
    using sfn_api_call_keeps[OF sfn_system_keeps[OF musca_services_keep]] unfolding musca_system_def by blast
  from client_calls_alike[OF this] show ?thesis using alike_keeps[OF musca_token_closure_alike] by blast
qed

lemma musca_handle_get_token:
  fixes s :: "'d spm_fn"
  assumes L: "locals_ok bd" and lib: "libraries_ok bd rc"
    and s: "sfn_ok s" "try_get_spm s = Inr ()" "length (sfn_stack s) < MAX_CONNECTIONS"
    and c: "stack_active (sfn_stack s) = Some c" "cn_msg c = msg" "\<not> msg_type msg <s 0"
    and flags: "\<not> invec_mapped c ! 0" "invec_accessed c ! 0 = 0" "\<not> invec_unmapped c ! 0"
      "\<not> outvec_mapped c ! 0" "outvec_written c ! 0 = 0" "\<not> outvec_unmapped c ! 0"
    and ch: "read_bytes (sf_mem s) (invec_base c ! 0) (unat (in_len_of c 0)) = ch"
      "challenge_size_is_supported (len ch)" "length ch \<le> 64"
    and P: "P = musca_payload bd (sf_mem s) ch" "length (cbor_bstr P) \<le> 512"
    and sg: "rc_sign_prehash rc MUSCA_SIGNING_KEY (rc_sha256 rc (to_be_signed P)) = Some sg"
    and room: "length (token_bytes P sg) \<le> unat (out_len_of c 0)"
  shows "\<exists>s'. handle_get_token (musca_attest_env bd (sfn_api_call (musca_system bd (Suc k)))) msg s = (s', Inr ()) \<and>
    read_bytes (sf_mem s') (outvec_base c ! 0) (length (token_bytes P sg)) = token_bytes P sg"
proof -
  let ?env = "musca_attest_env bd (sfn_api_call (musca_system bd (Suc k))) :: 'd spm_fn attest_env"
  let ?f = "token_closure ?env (musca_claim_list (sf_mem s))" and ?B = "token_bytes P sg"
  let ?sl = "slice_of (invec_base c ! unat (0 :: u32)) (in_len_of c (unat (0 :: u32)))"
  let ?sl' = "slice_of (outvec_base c ! unat (0 :: u32)) (out_len_of c (unat (0 :: u32)))"
  have pos: "out_len_of c 0 \<noteq> 0" using room by (auto simp: token_bytes_def)
  have sl': "?sl' = (outvec_base c ! 0, out_len_of c 0)" using pos by (simp add: slice_of_def)
  have depth: "length (butlast (sfn_stack s) @ [None]) = length (sfn_stack s)"
    using c(1) by (cases "sfn_stack s") (simp_all add: stack_active_def)
  have run: "\<exists>t'. ?f ?sl ?sl' t = (t', Inr (), of_nat (length ?B)) \<and>
      read_bytes (sf_mem t') (outvec_base c ! 0) (length ?B) = ?B"
    if "sfn_ok t" "sfn_stack t = butlast (sfn_stack s) @ [None]" "sfn_other t = sfn_other s" for t
  proof -
    have m: "sf_mem t = sf_mem s" "try_get_spm t = Inr ()" "length (sfn_stack t) < MAX_CONNECTIONS"
      using that(2,3) s(2,3) depth by (auto simp: sfn_other_def try_get_spm_def)
    have "slice_bytes (sf_mem t) ?sl = ch" using ch(1) m(1) by (simp add: slice_bytes_empty)
    from musca_closure[where sl' = ?sl' and k = k, OF L lib that(1) m(2,3) this ch(2,3) P sg] room show ?thesis
      unfolding sl' by auto
  qed
  have le: "of_nat (length ?B) \<le> out_len_of c 0"
    using room unat_lt_usize[of "out_len_of c 0"] by (simp add: word_le_nat_alt unsigned_of_nat take_bit_nat_eq_self)
  have "\<exists>s1 s2 q n s3. ?f ?sl ?sl' s1 = (s2, q, n) \<and> sfn_ok s1 \<and> sfn_stack s1 = butlast (sfn_stack s) @ [None] \<and>
      sfn_other s1 = sfn_other s \<and> sfn_access_invec_outvec (msg_handle msg) 0 0 ?f s = (s3, Inr q) \<and>
      sfn_ok s3 \<and> sfn_other s3 = sfn_other s2"
  proof (rule access_both_core[OF s(1,2) c(1)])
    fix s1 s2 q n assume "sfn_ok s1" "sfn_stack s1 = butlast (sfn_stack s) @ [None]" "sfn_other s1 = sfn_other s"
      "?f ?sl ?sl' s1 = (s2, q, n)"
    then have "n = of_nat (length ?B)" using run[of s1] by auto
    then show "n \<le> out_len_of c (unat (0 :: u32))" using le by simp
  qed (use c flags musca_closure_keeps in simp_all)
  then obtain s1 s2 q n s3 where a: "?f ?sl ?sl' s1 = (s2, q, n)" "sfn_ok s1" "sfn_stack s1 = butlast (sfn_stack s) @ [None]"
    "sfn_other s1 = sfn_other s" "sfn_access_invec_outvec (msg_handle msg) 0 0 ?f s = (s3, Inr q)" "sfn_other s3 = sfn_other s2"
    by blast
  have "q = Inr ()" "read_bytes (sf_mem s2) (outvec_base c ! 0) (length ?B) = ?B" using run[OF a(2-4)] a(1) by auto
  then show ?thesis using a(5,6)
    unfolding handle_get_token_def musca_collect by (simp add: flatten_def sfn_other_def)
qed

lemma token_ctrl:
  defines "ctrl \<equiv> ctrl_new (attestation_service_value GetToken) 1 True 1 True"
  shows "has_iovec ctrl" "unpack_type ctrl = 1001" "ctrl_in_len ctrl = 1" "ctrl_out_len ctrl = 1"
proof -
  show h: "has_iovec ctrl" by (simp add: ctrl_def has_iovec_def ctrl_new_def Let_def)
  show "unpack_type ctrl = 1001" "ctrl_in_len ctrl = 1" "ctrl_out_len ctrl = 1"
    by (simp_all add: ctrl_def unpack_type_new ctrl_len_new)
qed

lemma token_msg:
  assumes "vec_ok perm False ca v" "vec_ok perm' True ca w"
  defines "msg \<equiv> cn_msg (fresh_connection AttestationService 1001 ca [v] [w])"
  shows "attest_call env msg = handle_get_token env msg" "msg_handle msg = AttestationService" "\<not> msg_type msg <s 0"
proof -
  have "iov_len v \<noteq> NONE_SENTINEL" "iov_len w \<noteq> NONE_SENTINEL" using assms(1,2) by (simp_all add: vec_ok_not_sentinel)
  then have "has_exactly_one_iovec msg"
    by (simp add: msg_def fresh_connection_def has_exactly_one_iovec_def Let_def overwrite_def numeral_nat
        get_from_def mu_is_none_iff mu_is_some_def mu_none_def)
  then show "attest_call env msg = handle_get_token env msg"
    by (intro ext) (simp add: attest_call_def msg_def fresh_connection_def Let_def)
qed (simp_all add: msg_def fresh_connection_def Let_def word_sless_alt)

text \<open>C1. A token, end to end.  A non-secure client calls the veneer with a challenge of a supported size and a
  buffer; the descriptors are readable at the addresses it names and its vectors pass the checks.  On
  the Musca, with the libraries as documented, a usable device key, and disjoint locals, the call
  succeeds after a hash and a sign request nested in it, the stack is as before, and the client's buffer starts with
  the COSE message over exactly this challenge and the board's claims, signed with the device key; the
  payload fitting 512 bytes and the buffer holding the message.\<close>

theorem musca_token_end_to_end:
  fixes s :: "'d spm_fn"
  assumes "locals_ok bd" "libraries_ok bd rc"
    and s: "sfn_ok s" "try_get_spm s = Inr ()" "\<not> sf_in_secure s" "length (sfn_stack s) \<le> 2"
    and v: "iv \<noteq> 0" "ov \<noteq> 0" "read_vecs (sf_mem s) iv 1 = [v]" "read_vecs (sf_mem s) ov 1 = [w]"
      "vec_ok (musca_has_permission (bd_tt bd)) False NS_UNPRIVILEGED v"
      "vec_ok (musca_has_permission (bd_tt bd)) True NS_UNPRIVILEGED w"
    and ch: "iov_len v \<in> {32, 48, 64}" "ch = read_bytes (sf_mem s) (iov_base v) (unat (iov_len v))"
    and P: "P = musca_payload bd (sf_mem s) ch" "length (cbor_bstr P) \<le> 512"
    and sg: "rc_sign_prehash rc MUSCA_SIGNING_KEY (rc_sha256 rc (to_be_signed P)) = Some sg"
    and room: "length (token_bytes P sg) \<le> unat (iov_len w)"
  shows "\<exists>s'. psa_call_veneer (musca_system bd 5) AttestationService
      (ctrl_new (attestation_service_value GetToken) 1 True 1 True) iv ov s = (s', status_value Success) \<and>
    read_bytes (sf_mem s') (iov_base w) (length (token_bytes P sg)) = token_bytes P sg \<and>
    sfn_ok s' \<and> sfn_stack s' = sfn_stack s"
proof -
  let ?ctrl = "ctrl_new (attestation_service_value GetToken) 1 True 1 True"
  let ?P = "musca_system bd 5 :: 'd sfn_platform" and ?c = "fresh_connection AttestationService 1001 NS_UNPRIVILEGED [v] [w]"
  let ?s = "s\<lparr>sf_in_secure := True\<rparr>"
  have "call_accepted (musca_has_permission (bd_tt bd)) ?ctrl [v] [w] NS_UNPRIVILEGED"
    using v(5,6) by (simp add: call_accepted_def token_ctrl[simplified] PSA_MAX_IOVEC_def word_sless_alt)
  moreover have "validate_call_params ?ctrl = Inr (1001, 1, 1)"
    unfolding validate_call_params_Inr token_ctrl by (simp add: token_ctrl PSA_MAX_IOVEC_def word_sless_alt del: attestation_service_value.simps)
  moreover have "try_get_spm ?s = Inr ()" using s(2) by (simp add: try_get_spm_def)
  ultimately have conn: "sfn_api_connection (sp_has_permission ?P ?s) AttestationService ?ctrl iv ov NS_UNPRIVILEGED ?s = Inr ?c"
    using v(1-4) token_ctrl
    by (simp add: sfn_api_connection_def api_connection_def musca_system_def validate_vec_pointer_shape_def
        call_from_slices_Inr del: attestation_service_value.simps)
  have wf: "connection_wf ?c" by (rule connection_wf_fresh) simp_all
  have ok: "sfn_ok ?s" "length (sfn_stack ?s) < MAX_CONNECTIONS" using s(1,4) by (simp_all add: MAX_CONNECTIONS_def)
  obtain s1 s2 r where r: "sfn_ok s1" "sfn_stack s1 = sfn_stack ?s @ [Some ?c]" "sfn_other s1 = sfn_other ?s"
    "sp_call ?P (cn_msg ?c) s1 = (s2, r)" "sfn_call ?P ?c ?s = (sfn_pop_connection s2, r)"
    "sfn_other (sfn_pop_connection s2) = sfn_other s2"
    using sfn_call_room[OF sfn_system_keeps[OF musca_services_keep] ok(1) wf ok(2), of bd
        "\<lambda>_. musca_has_permission (bd_tt bd)" musca_version 5]
    unfolding musca_system_def by blast
  have m: "sf_mem s1 = sf_mem s" "try_get_spm s1 = Inr ()" "length (sfn_stack s1) < MAX_CONNECTIONS"
    "stack_active (sfn_stack s1) = Some ?c"
    using r(2,3) s(2,4) by (auto simp: sfn_other_def try_get_spm_def MAX_CONNECTIONS_def stack_active_def)
  have sel: "invec_base ?c ! 0 = iov_base v" "outvec_base ?c ! 0 = iov_base w" "in_len_of ?c 0 = iov_len v" "out_len_of ?c 0 = iov_len w"
    using fresh_nth(1)[of "[v]" 0] fresh_out_nth(1)[of "[w]" 0] fresh_lens[of "[v]" 0] fresh_out_lens[of "[w]" 0] v(5,6) by auto
  have flags: "\<not> invec_mapped ?c ! 0" "invec_accessed ?c ! 0 = 0" "\<not> invec_unmapped ?c ! 0"
    "\<not> outvec_mapped ?c ! 0" "outvec_written ?c ! 0 = 0" "\<not> outvec_unmapped ?c ! 0"
    by (simp_all add: fresh_connection_def Let_def)
  have len: "challenge_size_is_supported (len ch)" "length ch \<le> 64"
    using ch by (auto simp: challenge_size_is_supported_def)
  note msg = token_msg[OF v(5,6)]
  obtain s3 where s3: "handle_get_token (musca_attest_env bd (sfn_api_call (musca_system bd (Suc 3)))) (cn_msg ?c) s1 = (s3, Inr ())"
    "read_bytes (sf_mem s3) (iov_base w) (length (token_bytes P sg)) = token_bytes P sg"
    using musca_handle_get_token[where k = 3, OF assms(1,2) r(1) m(2-4) refl msg(3) flags _ len _ P(2) sg] ch(2) P(1) room
    unfolding sel m(1) by blast
  have five: "(5 :: nat) = Suc (Suc 3)" by simp
  have "sp_call ?P (cn_msg ?c) s1 = (s3, Inr ())"
    using s3(1) unfolding five musca_system_def sfn_system.simps sfn_platform.simps musca_call_def
    by (simp add: msg(1,2))
  then have "s2 = s3" "r = Inr ()" using r(4) by simp_all
  then have call: "psa_call_veneer ?P AttestationService ?ctrl iv ov s =
      (exit_secure_state (sfn_pop_connection s3), into_psa_status (Inr ()))"
    using s(3) conn r(5) by (simp add: psa_call_veneer_def enter_secure_state_def Let_def psa_call_impl_def sfn_api_call_def)
  have "sf_mem (exit_secure_state (sfn_pop_connection s3)) = sf_mem s3"
    by (simp add: exit_secure_state_def sfn_pop_connection_def)
  moreover have "sfn_ok (exit_secure_state (sfn_pop_connection s3)) \<and> sfn_stack (exit_secure_state (sfn_pop_connection s3)) = sfn_stack s"
    by (rule veneer_balanced_core[OF musca_services_keep s(1)]) (use call in \<open>simp add: musca_system_def\<close>)
  ultimately show ?thesis using call s3(2) by (simp add: into_psa_status_def)
qed

section \<open>A board as documented\<close>

definition sample_client_mem :: mem where
  "sample_client_mem =
    store_vecs 0x8100 [\<lparr>iov_base = 0xA000, iov_len = 600\<rparr>] (store_vecs 0x8000 [\<lparr>iov_base = 0x9000, iov_len = 32\<rparr>] (\<lambda>_. 0))"

lemma sample_permission:
  assumes "b \<noteq> 0" "unat b + unat n < 4294967296"
  shows "musca_has_permission (\<lambda>_ _. 0x3C0000) b n w ca"
proof (cases "n = 0")
  case False
  then have "checked_add b (n - 1) \<noteq> None" using assms(2) by (simp add: checked_add_def unat_minus_1_eq)
  then show ?thesis using False assms(1)
    by (auto simp: musca_has_permission_def check_range_def tt_check_def tt_defs Let_def split: option.split)
qed (simp add: musca_has_permission_def)

lemma sample_locals_ok: "locals_ok sample_board"
proof -
  have "musca_has_permission (\<lambda>_ _. 0x3C0000) 0x1100 (of_nat n) False SECURE_PRIVILEGED" if "n \<le> 700" for n
    using that by (intro sample_permission) (simp_all add: unsigned_of_nat take_bit_nat_eq_self)
  then show ?thesis
    by (simp add: locals_ok_def sample_board_def local_regions_def region_fits_def apart_def sample_permission)
qed

lemma sample_libraries_ok: "libraries_ok sample_board sample_rust_crypto"
  by (simp add: libraries_ok_def sample_board_def cast_documented_def rfc_cbor_documented sample_rust_crypto_def)

definition data_len :: "attest_claim_value \<Rightarrow> nat" where
  "data_len v = (case v of VBytes bs \<Rightarrow> length bs | VText bs \<Rightarrow> length bs | _ \<Rightarrow> 0)"

lemma rfc_item_length:
  "length (item_bytes rfc_cbor it) \<le> 5 + (case it of IBytes bs \<Rightarrow> length bs | IStr bs \<Rightarrow> length bs | _ \<Rightarrow> 0)"
  by (cases it) (auto simp: item_bytes_def rfc_cbor_def rfc_item_def intro: order_trans[OF head_len_bounds(2)])

lemma rfc_claim_length:
  assumes "\<forall>cs. claim_value c = VSwComponents cs \<longrightarrow> cs = []"
  shows "length (claim_bytes rfc_cbor c) \<le> 10 + data_len (claim_value c)"
proof -
  have "length (value_bytes rfc_cbor (claim_value c)) \<le> 5 + data_len (claim_value c)"
    using assms rfc_item_length[of "IBytes _"] rfc_item_length[of "IStr _"] rfc_item_length[of "IU64 _"]
      rfc_item_length[of "II64 _"] rfc_item_length[of "IArray _"]
    by (cases "claim_value c") (auto simp: value_bytes_def data_len_def)
  then show ?thesis using rfc_item_length[of "II32 (iat_claim_value (claim_key c))"] by (simp add: claim_bytes_def)
qed

lemma rfc_claims_length:
  assumes "\<forall>c\<in>set cl. \<forall>cs. claim_value c = VSwComponents cs \<longrightarrow> cs = []"
  shows "length (concat (map (claim_bytes rfc_cbor) cl)) \<le> sum_list (map (\<lambda>c. 10 + data_len (claim_value c)) cl)"
  using assms
proof (induction cl)
  case (Cons c cl)
  then show ?case using rfc_claim_length[of c] by simp
qed simp

lemma sample_payload_length:
  assumes "length ch = 32" "m 0x100FFF00 = 0" "m 0x100FFF01 = 0"
  shows "length (cbor_bstr (musca_payload sample_board m ch)) \<le> 512"
proof -
  let ?cl = "claim Nonce (VBytes ch) # musca_claim_list m"
  have rec: "snd (chip_boot_record (\<lambda>m. m) (Some MUSCA_BOOT_RECORD) m) = None"
    using assms(2,3) by (simp add: chip_boot_record_def MUSCA_BOOT_RECORD_def)
  have "length (concat (map (claim_bytes rfc_cbor) ?cl)) \<le> sum_list (map (\<lambda>c. 10 + data_len (claim_value c)) ?cl)"
    by (rule rfc_claims_length) (simp add: musca_claim_list_def claim_def rec as_slice_def)
  also have "\<dots> = 305"
    using assms(1) by (simp add: musca_claim_list_def claim_def data_len_def ascii_lengths)
  finally have "length (musca_payload sample_board m ch) \<le> 310"
    using rfc_item_length[of "IMap (of_nat (length ?cl))"]
    by (simp add: musca_payload_def payload_bytes_def sample_board_def)
  then show ?thesis using head_len_bounds(2)[of "length (musca_payload sample_board m ch)"] by (simp add: length_cbor_bstr)
qed

lemma sample_client_mem:
  "read_vecs sample_client_mem 0x8000 1 = [\<lparr>iov_base = 0x9000, iov_len = 32\<rparr>]"
  "read_vecs sample_client_mem 0x8100 1 = [\<lparr>iov_base = 0xA000, iov_len = 600\<rparr>]"
  "sample_client_mem 0x100FFF00 = 0" "sample_client_mem 0x100FFF01 = 0"
proof -
  let ?v = "\<lparr>iov_base = 0x9000, iov_len = 32\<rparr>" and ?w = "\<lparr>iov_base = 0xA000, iov_len = 600\<rparr>"
  show "read_vecs sample_client_mem 0x8100 1 = [?w]"
    using read_store_vecs[of "[?w]" "0x8100"] by (simp add: sample_client_mem_def)
  have "read_vecs sample_client_mem 0x8000 1 = read_vecs (store_vecs 0x8000 [?v] (\<lambda>_. 0)) 0x8000 1"
    unfolding sample_client_mem_def store_vecs_def[of "0x8100"]
    by (rule read_vecs_apart[where k = 8]) (simp_all add: apart_def region_fits_def)
  then show "read_vecs sample_client_mem 0x8000 1 = [?v]" using read_store_vecs[of "[?v]" "0x8000"] by simp
  have "store_vecs a vs m x = m x" if "\<not> in_slice a (8 * length vs) x" for a vs m x
    using that unfolding store_vecs_def by (intro write_bytes_outside) simp
  then show "sample_client_mem 0x100FFF00 = 0" "sample_client_mem 0x100FFF01 = 0"
    unfolding sample_client_mem_def by (simp_all add: in_slice_def)
qed

theorem musca_token_end_to_end_witness:
  "\<exists>s' n. psa_call_veneer (musca_system sample_board 5) AttestationService
      (ctrl_new (attestation_service_value GetToken) 1 True 1 True) 0x8000 0x8100 (sample_spm\<lparr>sf_mem := sample_client_mem\<rparr>) =
      (s', status_value Success) \<and>
    read_bytes (sf_mem s') 0xA000 n =
      token_bytes (musca_payload sample_board sample_client_mem (read_bytes sample_client_mem 0x9000 32)) (replicate 64 7)"
proof -
  let ?s = "sample_spm\<lparr>sf_mem := sample_client_mem\<rparr>"
  let ?P = "musca_payload sample_board sample_client_mem (read_bytes sample_client_mem 0x9000 32)"
  have len: "length (cbor_bstr ?P) \<le> 512" by (rule sample_payload_length) (simp_all add: sample_client_mem)
  have vecs: "vec_ok (musca_has_permission (bd_tt sample_board)) False NS_UNPRIVILEGED \<lparr>iov_base = 0x9000, iov_len = 32\<rparr>"
    "vec_ok (musca_has_permission (bd_tt sample_board)) True NS_UNPRIVILEGED \<lparr>iov_base = 0xA000, iov_len = 600\<rparr>"
    by (simp_all add: vec_ok_def vec_fits_def sample_board_def sample_permission)
  have room: "length (token_bytes ?P (replicate 64 7)) \<le> unat (600 :: usize)"
    using len length_token_bytes[of "replicate 64 7" ?P] by simp
  have "\<exists>s'. psa_call_veneer (musca_system sample_board 5) AttestationService
      (ctrl_new (attestation_service_value GetToken) 1 True 1 True) 0x8000 0x8100 ?s = (s', status_value Success) \<and>
    read_bytes (sf_mem s') (iov_base \<lparr>iov_base = 0xA000, iov_len = 600\<rparr>) (length (token_bytes ?P (replicate 64 7))) =
      token_bytes ?P (replicate 64 7) \<and> sfn_ok s' \<and> sfn_stack s' = sfn_stack ?s"
    by (rule musca_token_end_to_end[where v = "\<lparr>iov_base = 0x9000, iov_len = 32\<rparr>" and ch = "read_bytes sample_client_mem 0x9000 32",
          OF sample_locals_ok sample_libraries_ok _ _ _ _ _ _ _ _ vecs _ _ _ len])
      (use sample_client_mem room in \<open>simp_all add: sample_rust_crypto_def, simp_all add: sample_spm_def try_get_spm_def once_try_get_def\<close>)
  then show ?thesis by auto
qed

end
