(* ===== verification/Startup.thy ===== *)
theory Startup
  imports Prelude
begin

text \<open>
  What runs before the Rust code.  The entry routines of the secure images (boards/*/secure*/src/startup.rs),
  of the test image (boards/shared/test_nspe/src/lib.rs) and of a service (spe/spe/src/service.rs) are the
  same two assembly loops, one clearing .bss and one copying .data; a load or store multiple at an
  address that is not a multiple of four faults, and a loop may not end, so a run that does not reach
  the instruction after the loops is None.  Then configure_aircr and jump_to_nonsecure
  (spe/spe/src/startup.rs), and the fault entry (spe/spe/src/faults.rs).
\<close>

section \<open>The two loops\<close>

text \<open>stm r0!, {r}: store a word and step; ldm r2!, {r}: load a word and step.\<close>

definition word_aligned :: "usize \<Rightarrow> bool" where
  "word_aligned a \<longleftrightarrow> unat a mod 4 = 0"

definition stm_inc :: "usize \<Rightarrow> u32 \<Rightarrow> mem \<Rightarrow> (usize \<times> mem) option" where
  "stm_inc r v m = (if word_aligned r then Some (r + 4, write_u32 m r v) else None)"

definition ldm_inc :: "usize \<Rightarrow> mem \<Rightarrow> (usize \<times> u32) option" where
  "ldm_inc r m = (if word_aligned r then Some (r + 4, read_u32 m r) else None)"

partial_function (option) zero_loop :: "usize \<Rightarrow> usize \<Rightarrow> u32 \<Rightarrow> mem \<Rightarrow> mem option" where
  "zero_loop r0 r1 r2 m =
    (if r0 = r1 then Some m
     else Option.bind (stm_inc r0 r2 m) (\<lambda>(r0, m). zero_loop r0 r1 r2 m))"

partial_function (option) copy_loop :: "usize \<Rightarrow> usize \<Rightarrow> usize \<Rightarrow> mem \<Rightarrow> mem option" where
  "copy_loop r0 r1 r2 m =
    (if r0 = r1 then Some m
     else Option.bind (ldm_inc r2 m) (\<lambda>(r2, r3).
            Option.bind (stm_inc r0 r3 m) (\<lambda>(r0, m). copy_loop r0 r1 r2 m)))"

text \<open>The symbols the linker defines.\<close>

record image_layout =
  l_szero :: usize
  l_ezero :: usize
  l_sdata :: usize
  l_edata :: usize
  l_etext :: usize

definition initialize_ram :: "image_layout \<Rightarrow> mem \<Rightarrow> mem option" where
  "initialize_ram l m =
    Option.bind (zero_loop (l_szero l) (l_ezero l) 0 m)
      (\<lambda>m. copy_loop (l_sdata l) (l_edata l) (l_etext l) m)"

section \<open>What the loops do\<close>

lemma in_slice_split:
  assumes "n + k \<le> 4294967296"
  shows "in_slice a (n + k) x \<longleftrightarrow> in_slice a n x \<or> in_slice (a + of_nat n) k (x :: usize)"
proof -
  have eq: "x - (a + of_nat n) = (x - a) - of_nat n" by simp
  show ?thesis
  proof (cases "n \<le> unat (x - a)")
    case True
    have n: "unat (of_nat n :: usize) = n"
      using True unat_lt_usize[of "x - a"] by (intro unat_of_nat_small) simp
    have "unat ((x - a) - of_nat n) = unat (x - a) - n"
      using True n by (subst unat_sub_le) (simp_all add: word_le_nat_alt)
    then show ?thesis using True by (auto simp: in_slice_def eq)
  qed (simp add: in_slice_def)
qed

lemma in_slice_none [simp]: "\<not> in_slice a 0 x"
  by (simp add: in_slice_def)

lemma word_aligned_step: "word_aligned a \<Longrightarrow> word_aligned (a + 4)"
proof -
  assume "word_aligned a"
  moreover have "unat (a + 4) mod 4 = (unat a + 4) mod 4294967296 mod 4"
    by (simp add: unat_word_ariths)
  ultimately show "word_aligned (a + 4)"
    by (simp add: word_aligned_def mod_mod_cancel)
qed

lemma loop_count:
  assumes "unat (r1 - r0 :: usize) = 4 * Suc n"
  shows "r0 \<noteq> r1" "unat (r1 - (r0 + 4)) = 4 * n"
proof -
  have "unat ((r1 - r0) - (4 :: usize)) = unat (r1 - r0) - unat (4 :: usize)"
    using assms by (intro unat_sub_le) (simp add: word_le_nat_alt)
  moreover have "(r1 - r0) - 4 = r1 - (r0 + (4 :: usize))" by (simp add: algebra_simps)
  ultimately show "unat (r1 - (r0 + (4 :: usize))) = 4 * n" using assms by simp
qed (use assms in auto)

lemma write_u32_0: "write_u32 m a 0 = (\<lambda>x. if in_slice a 4 x then 0 else m x)"
proof
  fix x show "write_u32 m a 0 x = (if in_slice a 4 x then 0 else m x)"
  proof (cases "in_slice a 4 x")
    case True
    then have i: "unat (x - a) < 4" by (simp add: in_slice_def)
    have x: "x = a + of_nat (unat (x - a))" by simp
    have "write_bytes m a (le_bytes32 0) (a + of_nat (unat (x - a))) = le_bytes32 0 ! unat (x - a)"
      by (rule write_bytes_nth) (use i in simp_all)
    moreover have "le_bytes32 0 ! unat (x - a) = 0"
      using i by (auto simp: le_bytes32_def less_Suc_eq numeral_eq_Suc)
    ultimately show ?thesis using True x by (simp add: write_u32_def)
  qed (simp add: write_u32_def write_bytes_outside)
qed

lemma zero_loop_exact:
  assumes "word_aligned r0" "unat (r1 - r0) = 4 * n"
  shows "zero_loop r0 r1 0 m = Some (\<lambda>x. if in_slice r0 (4 * n) x then 0 else m x)"
  using assms
proof (induction n arbitrary: r0 m)
  case 0
  then have "r1 = r0" by (simp add: unat_eq_0)
  then show ?case by (simp add: zero_loop.simps)
next
  case (Suc n)
  note c = loop_count[OF Suc.prems(2)]
  have le: "4 + 4 * n \<le> 4294967296" using Suc.prems(2) unat_lt_usize[of "r1 - r0"] by simp
  have "zero_loop r0 r1 0 m = zero_loop (r0 + 4) r1 0 (write_u32 m r0 0)"
    using c(1) Suc.prems(1) by (subst zero_loop.simps) (simp add: stm_inc_def)
  also have "\<dots> = Some (\<lambda>x. if in_slice (r0 + 4) (4 * n) x then 0 else write_u32 m r0 0 x)"
    by (rule Suc.IH[OF word_aligned_step[OF Suc.prems(1)] c(2)])
  also have "\<dots> = Some (\<lambda>x. if in_slice r0 (4 * Suc n) x then 0 else m x)"
    using in_slice_split[OF le, of r0] by (auto simp: write_u32_0 fun_eq_iff)
  finally show ?case .
qed

lemma le_bytes32_from: "length bs = 4 \<Longrightarrow> le_bytes32 (from_le_bytes bs) = bs"
proof -
  assume len: "length bs = 4"
  have byte: "ucast (drop_bit (8 * i) (from_le_bytes bs :: u32)) = bs ! i" if "i < 4" for i
  proof (rule bit_word_eqI)
    fix n assume n: "n < LENGTH(8)"
    have "(8 * i + n) div 8 = i" "(8 * i + n) mod 8 = n" "8 * i + n < 32" using n that by simp_all
    then show "bit (ucast (drop_bit (8 * i) (from_le_bytes bs :: u32)) :: u8) n = bit (bs ! i) n"
      using n that len by (simp add: bit_ucast_iff bit_drop_bit_eq bit_from_le_bytes)
  qed
  have "le_bytes32 (from_le_bytes bs) = [bs ! 0, bs ! 1, bs ! 2, bs ! 3]"
    using byte[of 0] byte[of 1] byte[of 2] byte[of 3] by (simp add: le_bytes32_def)
  also have "\<dots> = bs" using len by (intro nth_equalityI) (auto simp: less_Suc_eq numeral_eq_Suc)
  finally show ?thesis .
qed

lemma write_read_u32: "write_u32 m a (read_u32 m b) = write_bytes m a (read_bytes m b 4)"
  by (simp add: write_u32_def read_u32_def le_bytes32_from)

lemma write_read_bytes_at:
  assumes "k \<le> 4294967296"
  shows "write_bytes m a (read_bytes m b k) x = (if in_slice a k x then m (b + (x - a)) else m x)"
proof (cases "in_slice a k x")
  case True
  then have i: "unat (x - a) < k" by (simp add: in_slice_def)
  have "write_bytes m a (read_bytes m b k) (a + of_nat (unat (x - a))) = read_bytes m b k ! unat (x - a)"
    by (rule write_bytes_nth) (use i assms in simp_all)
  then show ?thesis using i True by (simp add: read_bytes_nth)
qed (simp add: write_bytes_outside)

definition slices_apart :: "usize \<Rightarrow> usize \<Rightarrow> nat \<Rightarrow> bool" where
  "slices_apart a b n \<longleftrightarrow> (\<forall>i<n. \<not> in_slice a n (b + of_nat i))"

lemma copy_loop_exact:
  assumes "word_aligned r0" "word_aligned r2" "unat (r1 - r0) = 4 * n"
    and "\<forall>i<4 * n. \<not> in_slice r0 (4 * n) (r2 + of_nat i)"
  shows "copy_loop r0 r1 r2 m =
    Some (\<lambda>x. if in_slice r0 (4 * n) x then m (r2 + (x - r0)) else m x)"
  using assms
proof (induction n arbitrary: r0 r2 m)
  case 0
  then have "r1 = r0" by (simp add: unat_eq_0)
  then show ?case by (simp add: copy_loop.simps)
next
  case (Suc n)
  note c = loop_count[OF Suc.prems(3)]
  have le: "4 + 4 * n \<le> 4294967296" using Suc.prems(3) unat_lt_usize[of "r1 - r0"] by simp
  note split = in_slice_split[OF le, of r0, simplified]
  let ?m = "write_bytes m r0 (read_bytes m r2 4)"
  have apart: "\<not> in_slice (r0 + 4) (4 * n) (r2 + 4 + of_nat i)" if "i < 4 * n" for i
    using Suc.prems(4)[rule_format, of "i + 4"] that split[of "r2 + of_nat (i + 4)"]
    by (simp add: add.assoc add.commute add.left_commute)
  have src: "?m (r2 + 4 + (x - (r0 + 4))) = m (r2 + (x - r0))" if "in_slice (r0 + 4) (4 * n) x" for x
  proof -
    have eq: "r2 + 4 + (x - (r0 + 4)) = r2 + (x - r0)" by (simp add: algebra_simps)
    have "unat (x - r0) < 4 * Suc n" using split[of x] that by (auto simp: in_slice_def)
    then have "\<not> in_slice r0 (4 * Suc n) (r2 + of_nat (unat (x - r0)))" using Suc.prems(4) by blast
    then have "\<not> in_slice r0 4 (r2 + (x - r0))" using split[of "r2 + (x - r0)"] by simp
    then show ?thesis by (simp add: write_bytes_outside eq)
  qed
  have "copy_loop r0 r1 r2 m = copy_loop (r0 + 4) r1 (r2 + 4) ?m"
    using c(1) Suc.prems(1,2) by (subst copy_loop.simps) (simp add: stm_inc_def ldm_inc_def write_read_u32)
  also have "\<dots> = Some (\<lambda>x. if in_slice (r0 + 4) (4 * n) x then ?m (r2 + 4 + (x - (r0 + 4))) else ?m x)"
    by (rule Suc.IH[OF word_aligned_step[OF Suc.prems(1)] word_aligned_step[OF Suc.prems(2)] c(2)])
      (use apart in blast)
  also have "\<dots> = Some (\<lambda>x. if in_slice r0 (4 * Suc n) x then m (r2 + (x - r0)) else m x)"
    using src by (auto simp: fun_eq_iff split write_read_bytes_at)
  finally show ?case .
qed

lemma zero_loop_aligned:
  assumes "zero_loop r0 r1 r2 m = Some m'"
  shows "r0 = r1 \<or> (word_aligned r0 \<and> word_aligned r1)"
proof (rule zero_loop.raw_induct[of "\<lambda>r0 r1 r2 m m'. r0 = r1 \<or> (word_aligned r0 \<and> word_aligned r1)", OF _ assms], goal_cases)
  case (1 f r0 r1 r2 m m')
  have "r0 = r1 \<or> word_aligned r0 \<and> (\<exists>m. f (r0 + 4) r1 r2 m = Some m')"
    using 1(2) by (auto simp: stm_inc_def split: if_splits)
  then consider "r0 = r1" | m2 where "word_aligned r0" "f (r0 + 4) r1 r2 m2 = Some m'" by blast
  then show ?case
  proof cases
    case 2
    then show ?thesis using 1(1)[OF 2(2)] word_aligned_step[of r0] by auto
  qed simp
qed

lemma copy_loop_aligned:
  assumes "copy_loop r0 r1 r2 m = Some m'"
  shows "r0 = r1 \<or> (word_aligned r0 \<and> word_aligned r1 \<and> word_aligned r2)"
proof (rule copy_loop.raw_induct[of "\<lambda>r0 r1 r2 m m'. r0 = r1 \<or> (word_aligned r0 \<and> word_aligned r1 \<and> word_aligned r2)", OF _ assms], goal_cases)
  case (1 f r0 r1 r2 m m')
  have "r0 = r1 \<or> word_aligned r0 \<and> word_aligned r2 \<and> (\<exists>m. f (r0 + 4) r1 (r2 + 4) m = Some m')"
    using 1(2) by (auto simp: stm_inc_def ldm_inc_def split: if_splits)
  then consider "r0 = r1" | m2 where "word_aligned r0" "word_aligned r2" "f (r0 + 4) r1 (r2 + 4) m2 = Some m'" by blast
  then show ?case
  proof cases
    case 2
    then show ?thesis using 1(1)[OF 2(3)] word_aligned_step[of r0] by auto
  qed simp
qed

lemma word_aligned_diff: "word_aligned a \<Longrightarrow> word_aligned b \<Longrightarrow> \<exists>n. unat (b - a) = 4 * n"
proof -
  assume "word_aligned a" "word_aligned b"
  then obtain i j where "unat a = 4 * i" "unat b = 4 * j"
    by (metis word_aligned_def mod_0_imp_dvd dvd_def)
  moreover have "unat (b - a) = (if unat a \<le> unat b then unat b - unat a else unat b + 4294967296 - unat a)"
    by (simp add: unat_sub_if_size word_size word_le_nat_alt)
  ultimately have "unat (b - a) = 4 * (if i \<le> j then j - i else j + 1073741824 - i)" by auto
  then show ?thesis by blast
qed

text \<open>Memory after the entry routine: .data holds its image, .bss is zero, the rest is as before.\<close>

definition layout_aligned :: "image_layout \<Rightarrow> bool" where
  "layout_aligned l \<longleftrightarrow> word_aligned (l_szero l) \<and> word_aligned (l_ezero l) \<and> word_aligned (l_sdata l) \<and>
    word_aligned (l_edata l) \<and> word_aligned (l_etext l)"

definition bss_size :: "image_layout \<Rightarrow> nat" where
  "bss_size l = unat (l_ezero l - l_szero l)"

definition data_size :: "image_layout \<Rightarrow> nat" where
  "data_size l = unat (l_edata l - l_sdata l)"

definition image_apart :: "image_layout \<Rightarrow> bool" where
  "image_apart l \<longleftrightarrow> (\<forall>i<data_size l. \<not> in_slice (l_szero l) (bss_size l) (l_etext l + of_nat i) \<and>
    \<not> in_slice (l_sdata l) (data_size l) (l_etext l + of_nat i))"

definition ram_after :: "image_layout \<Rightarrow> mem \<Rightarrow> mem" where
  "ram_after l m = (\<lambda>x. if in_slice (l_sdata l) (data_size l) x then m (l_etext l + (x - l_sdata l))
     else if in_slice (l_szero l) (bss_size l) x then 0 else m x)"

lemma initialize_ram_eq:
  assumes "layout_aligned l" "image_apart l"
  shows "initialize_ram l m = Some (ram_after l m)"
proof -
  have al: "word_aligned (l_szero l)" "word_aligned (l_ezero l)" "word_aligned (l_sdata l)"
    "word_aligned (l_edata l)" "word_aligned (l_etext l)"
    using assms(1) by (simp_all add: layout_aligned_def)
  obtain b where b: "bss_size l = 4 * b" using word_aligned_diff[OF al(1,2)] by (auto simp: bss_size_def)
  obtain d where d: "data_size l = 4 * d" using word_aligned_diff[OF al(3,4)] by (auto simp: data_size_def)
  define z where "z = (\<lambda>x. if in_slice (l_szero l) (bss_size l) x then 0 else m x)"
  have zero: "zero_loop (l_szero l) (l_ezero l) 0 m = Some z"
    using zero_loop_exact[OF al(1), of "l_ezero l" b m] b by (simp add: bss_size_def z_def)
  have copy: "copy_loop (l_sdata l) (l_edata l) (l_etext l) z =
      Some (\<lambda>x. if in_slice (l_sdata l) (data_size l) x then z (l_etext l + (x - l_sdata l)) else z x)"
    using copy_loop_exact[OF al(3,5), of "l_edata l" d z] assms(2) d
    by (simp add: data_size_def image_apart_def)
  have "z (l_etext l + (x - l_sdata l)) = m (l_etext l + (x - l_sdata l))"
    if "in_slice (l_sdata l) (data_size l) x" for x
    using assms(2) that spec[of _ "unat (x - l_sdata l)"]
    unfolding image_apart_def in_slice_def[of "l_sdata l" _ x] z_def by fastforce
  then show ?thesis
    by (auto simp: initialize_ram_def zero copy ram_after_def fun_eq_iff) (simp_all add: z_def)
qed

lemma initialize_ram_Some:
  assumes "initialize_ram l m = Some m'"
  shows "(bss_size l \<noteq> 0 \<longrightarrow> word_aligned (l_szero l) \<and> word_aligned (l_ezero l)) \<and>
    (data_size l \<noteq> 0 \<longrightarrow> word_aligned (l_sdata l) \<and> word_aligned (l_edata l) \<and> word_aligned (l_etext l))"
proof -
  obtain z where "zero_loop (l_szero l) (l_ezero l) 0 m = Some z"
    "copy_loop (l_sdata l) (l_edata l) (l_etext l) z = Some m'"
    using assms by (auto simp: initialize_ram_def split: bind_splits)
  from zero_loop_aligned[OF this(1)] copy_loop_aligned[OF this(2)] show ?thesis
    by (auto simp: bss_size_def data_size_def)
qed

section \<open>System control and the jump\<close>

text \<open>
  AIRCR as the architecture has it: it reads with the key status 0xFA05 in its upper half, and a
  write takes effect only with the key 0x05FA there.
\<close>

definition aircr_read :: "u16 \<Rightarrow> u32" where
  "aircr_read r = push_bit 16 0xFA05 OR ucast r"

definition aircr_write :: "u32 \<Rightarrow> u16 \<Rightarrow> u16" where
  "aircr_write v r = (if drop_bit 16 v = 0x05FA then ucast v else r)"

definition configure_aircr :: "u16 \<Rightarrow> u16" where
  "configure_aircr aircr =
    (let val = aircr_read aircr;
         val = val AND NOT (push_bit 16 0xFFFF);
         aircr = aircr_write val aircr;
         val = val OR push_bit 16 0x5FA;
         val = val OR push_bit 3 1;
         val = val OR push_bit 13 0
     in aircr_write val aircr)"

definition jump_to_nonsecure :: "usize \<Rightarrow> mem \<Rightarrow> u32 \<times> u32" where
  "jump_to_nonsecure nonsecure_flash_start m =
    (let nonsecure_sp = read_u32 m nonsecure_flash_start;
         nonsecure_reset = read_u32 m (nonsecure_flash_start + 4)
     in (nonsecure_sp, nonsecure_reset))"

lemma configure_aircr_bits: "bit (configure_aircr r) n \<longleftrightarrow> n = 3 \<or> bit r n"
proof -
  let ?k = "aircr_read r AND NOT (push_bit 16 0xFFFF)"
  have FFFF: "bit (0xFFFF :: u32) n \<longleftrightarrow> n < 16" for n
    using bit_field[of "0xFFFF :: u32" 0 16 n] by (simp add: mask_eq_exp_minus_1)
  have k: "bit ?k n \<longleftrightarrow> n < 16 \<and> bit r n" for n
    unfolding aircr_read_def bit_and_iff bit_not_iff bit_push_bit_iff bit_or_iff FFFF bit_ucast_iff
    by (auto dest: bit_imp_le_length)
  have z: "drop_bit 16 ?k = 0"
    by (rule bit_word_eqI) (simp only: bit_drop_bit_eq comp_apply k, simp)
  have top: "drop_bit 16 (((?k OR push_bit 16 0x5FA) OR push_bit 3 1) OR push_bit 13 0) = (0x5FA :: u32)"
    by (simp only: drop_bit_or z) (simp add: drop_bit_eq_div)
  have "bit (ucast (((?k OR push_bit 16 0x5FA) OR push_bit 3 1) OR push_bit 13 0) :: u16) n \<longleftrightarrow> n = 3 \<or> bit r n"
    unfolding bit_ucast_iff bit_or_iff k bit_push_bit_iff bit_1_iff bit_0_eq bot_apply
    by (auto dest: bit_imp_le_length)
  then show ?thesis by (simp only: configure_aircr_def Let_def aircr_write_def top refl if_True)
qed

section \<open>Faults\<close>

definition FAULT_KIND_HARD :: u32 where "FAULT_KIND_HARD = 1"
definition FAULT_KIND_MEMMANAGE :: u32 where "FAULT_KIND_MEMMANAGE = 2"
definition FAULT_KIND_BUS :: u32 where "FAULT_KIND_BUS = 3"

record fault_cpu =
  f_lr :: u32
  f_msp :: u32
  f_psp :: u32
  f_cfsr :: u32
  f_ipsr :: u32

record fault_args =
  faulting_stack :: u32
  interrupt_number :: u32
  stack_overflow :: u32
  fault_kind :: u32

definition fault_handler_entry :: "u32 \<Rightarrow> u32 \<Rightarrow> fault_cpu \<Rightarrow> fault_cpu \<times> fault_args" where
  "fault_handler_entry kind estack c =
    (let r0 = (if f_lr c AND 4 = 0 then f_msp c else f_psp c);
         r2 = drop_bit 20 (f_cfsr c) AND 1;
         c = (if r2 = 1 then c\<lparr>f_msp := estack\<rparr> else c);
         r1 = f_ipsr c
     in (c, \<lparr>faulting_stack = r0, interrupt_number = r1, stack_overflow = r2, fault_kind = kind\<rparr>))"

text \<open>
  What the handler prints: kind, exception number, overflow flag and the stacked PC, LR, R0 and R1
  in a build with debug assertions, which then panics; nothing, and an endless loop, in a release.
\<close>

definition fault_handler_real :: "bool \<Rightarrow> mem \<Rightarrow> fault_args \<Rightarrow> u32 list option" where
  "fault_handler_real debug_assertions m a =
    (if debug_assertions then
       (let pc = read_u32 m (faulting_stack a + 24);
            lr = read_u32 m (faulting_stack a + 20);
            r0 = read_u32 m (faulting_stack a);
            r1 = read_u32 m (faulting_stack a + 4)
        in Some [fault_kind a, interrupt_number a AND 0x1FF, stack_overflow a, pc, lr, r0, r1])
     else None)"

definition unhandled_interrupt :: "u32 \<Rightarrow> u32" where
  "unhandled_interrupt ipsr = ipsr AND 0x1FF"

section \<open>Properties\<close>

text \<open>The entry routine of an image whose linker symbols are word aligned and whose .data image lies
  apart from .bss and .data ends with .data holding the image, .bss zero and every other byte as
  it was, also where a section is empty or wraps; and it ends at all only if the symbols of every
  non-empty section are aligned.\<close>

theorem initialize_ram_exact:
  "(layout_aligned l \<and> image_apart l \<longrightarrow> initialize_ram l m = Some (ram_after l m)) \<and>
   (initialize_ram l m \<noteq> None \<longrightarrow>
      (bss_size l \<noteq> 0 \<longrightarrow> word_aligned (l_szero l) \<and> word_aligned (l_ezero l)) \<and>
      (data_size l \<noteq> 0 \<longrightarrow> word_aligned (l_sdata l) \<and> word_aligned (l_edata l) \<and> word_aligned (l_etext l)))"
  using initialize_ram_eq[of l m] initialize_ram_Some[of l m] by auto

definition sample_layout :: image_layout where
  "sample_layout = \<lparr>l_szero = 0x20000000, l_ezero = 0x20000008, l_sdata = 0x20000008, l_edata = 0x20000010,
     l_etext = 0x10000\<rparr>"

lemma sample_layout_ok: "layout_aligned sample_layout" "image_apart sample_layout"
proof -
  show "layout_aligned sample_layout"
    by (simp add: layout_aligned_def sample_layout_def word_aligned_def)
  have "unat (0x10000 + of_nat i - 0x20000000 :: usize) = 3758161920 + i"
    "unat (0x10000 + of_nat i - 0x20000008 :: usize) = 3758161912 + i" if "i < 8" for i
    using that by (auto simp: unat_word_ariths unsigned_of_nat take_bit_nat_eq_self unat_sub_if_size word_size word_le_nat_alt)
  then show "image_apart sample_layout"
    by (simp add: image_apart_def sample_layout_def bss_size_def data_size_def in_slice_def)
qed

theorem initialize_ram_exact_witness:
  "\<exists>m'. initialize_ram sample_layout (\<lambda>x. ucast x) = Some m' \<and>
     m' 0x20000003 = 0 \<and> m' 0x20000009 = 1 \<and> m' 0x20000011 = 0x11"
  using initialize_ram_exact[of sample_layout "\<lambda>x. ucast x"] sample_layout_ok
  by (simp add: ram_after_def) (simp add: sample_layout_def in_slice_def bss_size_def data_size_def)

end
