(* ===== verification/Uart.thy ===== *)
theory Uart
  imports Regs
begin

text \<open>
  The PL011 driver of the Musca-B1 (chips/musca_b1/src/uart.rs) and the writer the secure firmware
  prints through (boards/musca_b1/secure/src/io.rs).  configure works on the four control registers;
  the flag and data registers are inputs of the device, given as the values the successive reads
  return.  The polling loops are partial functions: a device that never becomes ready is the
  result None, and so is the division by a zero baud rate, which panics.
\<close>

section \<open>Registers and parameters\<close>

definition UARTDR_DATA :: field where "UARTDR_DATA = (0, 8)"
definition UARTFR_TXFF :: field where "UARTFR_TXFF = (5, 1)"
definition UARTFR_RXFE :: field where "UARTFR_RXFE = (4, 1)"
definition UARTIBRD_BAUD_DIVINT :: field where "UARTIBRD_BAUD_DIVINT = (0, 16)"
definition UARTFBRD_BAUD_DIVFRAC :: field where "UARTFBRD_BAUD_DIVFRAC = (0, 6)"
definition UARTLCR_H_WLEN :: field where "UARTLCR_H_WLEN = (5, 2)"
definition UARTLCR_H_FEN :: field where "UARTLCR_H_FEN = (4, 1)"
definition UARTLCR_H_STP2 :: field where "UARTLCR_H_STP2 = (3, 1)"
definition UARTLCR_H_EPS :: field where "UARTLCR_H_EPS = (2, 1)"
definition UARTLCR_H_PEN :: field where "UARTLCR_H_PEN = (1, 1)"
definition UARTLCR_H_BRK :: field where "UARTLCR_H_BRK = (0, 1)"
definition UARTCR_CTSEN :: field where "UARTCR_CTSEN = (15, 1)"
definition UARTCR_RTSEN :: field where "UARTCR_RTSEN = (14, 1)"
definition UARTCR_RXE :: field where "UARTCR_RXE = (9, 1)"
definition UARTCR_TXE :: field where "UARTCR_TXE = (8, 1)"
definition UARTCR_UARTEN :: field where "UARTCR_UARTEN = (0, 1)"

record uart_regs =
  uartibrd :: u32
  uartfbrd :: u32
  uartlcr_h :: u32
  uartcr :: u32

datatype stop_bits = One | Two
datatype parity = NoParity | Odd | Even
datatype width = Six | Seven | Eight

record uart_parameters =
  baud_rate :: u32
  up_width :: width
  up_parity :: parity
  up_stop_bits :: stop_bits
  hw_flow_control :: bool

definition UART0_BASE_SEC :: u32 where "UART0_BASE_SEC = 0x50105000"
definition UART0_BASE_NSEC :: u32 where "UART0_BASE_NSEC = 0x40105000"
definition UART1_BASE_SEC :: u32 where "UART1_BASE_SEC = 0x50106000"
definition UART1_BASE_NSEC :: u32 where "UART1_BASE_NSEC = 0x40106000"

section \<open>Configuration\<close>

definition cr_modify :: "field_value \<Rightarrow> uart_regs \<Rightarrow> uart_regs" where
  "cr_modify v r = r\<lparr>uartcr := reg_modify v (uartcr r)\<rparr>"

definition lcr_modify :: "field_value \<Rightarrow> uart_regs \<Rightarrow> uart_regs" where
  "lcr_modify v r = r\<lparr>uartlcr_h := reg_modify v (uartlcr_h r)\<rparr>"

definition uart_enable :: "uart_regs \<Rightarrow> uart_regs" where
  "uart_enable r = cr_modify (field_set UARTCR_UARTEN) r"

definition uart_disable :: "uart_regs \<Rightarrow> uart_regs" where
  "uart_disable r = cr_modify (field_clear UARTCR_UARTEN) r"

definition baud_registers :: "u32 \<Rightarrow> u32 \<times> u32" where
  "baud_registers baud_rate_div =
    (let baud_int_brd = drop_bit 7 baud_rate_div;
         baud_frac_brd = ((baud_rate_div AND 0x7F) + 1) div 2
     in if baud_int_brd = 0 then (1, 0)
        else if baud_int_brd \<ge> 65535 then (65535, 0)
        else (baud_int_brd, baud_frac_brd))"

primrec set_width :: "width \<Rightarrow> uart_regs \<Rightarrow> uart_regs" where
  "set_width Six r = lcr_modify (field_val UARTLCR_H_WLEN 1) r"
| "set_width Seven r = lcr_modify (field_val UARTLCR_H_WLEN 2) r"
| "set_width Eight r = lcr_modify (field_val UARTLCR_H_WLEN 3) r"

primrec set_parity :: "parity \<Rightarrow> uart_regs \<Rightarrow> uart_regs" where
  "set_parity NoParity r =
    lcr_modify (field_clear UARTLCR_H_EPS) (lcr_modify (field_clear UARTLCR_H_PEN) r)"
| "set_parity Odd r =
    lcr_modify (field_clear UARTLCR_H_EPS) (lcr_modify (field_set UARTLCR_H_PEN) r)"
| "set_parity Even r =
    lcr_modify (field_set UARTLCR_H_EPS) (lcr_modify (field_set UARTLCR_H_PEN) r)"

primrec set_stop_bits :: "stop_bits \<Rightarrow> uart_regs \<Rightarrow> uart_regs" where
  "set_stop_bits One r = lcr_modify (field_clear UARTLCR_H_STP2) r"
| "set_stop_bits Two r = lcr_modify (field_set UARTLCR_H_STP2) r"

definition set_flow_control :: "bool \<Rightarrow> uart_regs \<Rightarrow> uart_regs" where
  "set_flow_control hw r =
    (if hw then cr_modify (field_set UARTCR_CTSEN) (cr_modify (field_set UARTCR_RTSEN) r)
     else cr_modify (field_clear UARTCR_CTSEN) (cr_modify (field_clear UARTCR_RTSEN) r))"

definition uart_configure :: "uart_parameters \<Rightarrow> u32 \<Rightarrow> uart_regs \<Rightarrow> uart_regs option" where
  "uart_configure p clock_freq r =
    (let r = uart_disable r;
         r = lcr_modify (field_clear UARTLCR_H_FEN) r
     in if baud_rate p = 0 then None
        else
          let baud_rate_div = 8 * clock_freq div baud_rate p;
              (baud_int_brd, baud_frac_brd) = baud_registers baud_rate_div;
              r = r\<lparr>uartibrd := fv_value (field_val UARTIBRD_BAUD_DIVINT baud_int_brd)\<rparr>;
              r = r\<lparr>uartfbrd := fv_value (field_val UARTFBRD_BAUD_DIVFRAC baud_frac_brd)\<rparr>;
              r = lcr_modify (field_set UARTLCR_H_BRK) r;
              r = set_width (up_width p) r;
              r = set_parity (up_parity p) r;
              r = set_stop_bits (up_stop_bits p) r;
              r = set_flow_control (hw_flow_control p) r;
              r = lcr_modify (field_clear UARTLCR_H_BRK) r;
              r = lcr_modify (field_clear UARTLCR_H_FEN) r;
              r = cr_modify (fv_plus (fv_plus (field_set UARTCR_UARTEN) (field_set UARTCR_TXE))
                    (field_set UARTCR_RXE)) r
          in Some r)"

section \<open>Sending and receiving\<close>

text \<open>
  The device as the driver sees it: the value of each successive read of the flag register and of
  the data register, how many flag reads were made, and the words written to the data register.
\<close>

record uart_line =
  flag_reads :: nat
  sent :: "u32 list"

definition uart_is_writable :: "u32 \<Rightarrow> bool" where
  "uart_is_writable fr \<longleftrightarrow> \<not> field_is_set UARTFR_TXFF fr"

definition uart_is_readable :: "u32 \<Rightarrow> bool" where
  "uart_is_readable fr \<longleftrightarrow> \<not> field_is_set UARTFR_RXFE fr"

partial_function (option) poll_until :: "(u32 \<Rightarrow> bool) \<Rightarrow> (nat \<Rightarrow> u32) \<Rightarrow> nat \<Rightarrow> nat option" where
  "poll_until ready fr t = (if ready (fr t) then Some (t + 1) else poll_until ready fr (t + 1))"

definition send_byte :: "(nat \<Rightarrow> u32) \<Rightarrow> u8 \<Rightarrow> uart_line \<Rightarrow> uart_line option" where
  "send_byte fr data l =
    (case poll_until uart_is_writable fr (flag_reads l) of
       None \<Rightarrow> None
     | Some t \<Rightarrow> Some (l\<lparr>flag_reads := t,
         sent := sent l @ [fv_value (field_val UARTDR_DATA (ucast data))]\<rparr>))"

definition receive_byte :: "(nat \<Rightarrow> u32) \<Rightarrow> (nat \<Rightarrow> u32) \<Rightarrow> uart_line \<Rightarrow> (uart_line \<times> u8) option" where
  "receive_byte fr dr l =
    (case poll_until uart_is_readable fr (flag_reads l) of
       None \<Rightarrow> None
     | Some t \<Rightarrow> Some (l\<lparr>flag_reads := t\<rparr>, ucast (field_read UARTDR_DATA (dr t))))"

fun send_bytes :: "(nat \<Rightarrow> u32) \<Rightarrow> u8 list \<Rightarrow> uart_line \<Rightarrow> uart_line option" where
  "send_bytes fr [] l = Some l"
| "send_bytes fr (b # bs) l =
    (case send_byte fr b l of None \<Rightarrow> None | Some l' \<Rightarrow> send_bytes fr bs l')"

text \<open>The writer of the firmware: without a serial port set it drops the text.\<close>

definition write_str :: "(nat \<Rightarrow> u32) option \<Rightarrow> u8 list \<Rightarrow> uart_line \<Rightarrow> uart_line option" where
  "write_str serial s l = (case serial of None \<Rightarrow> Some l | Some fr \<Rightarrow> send_bytes fr s l)"

section \<open>The divisor\<close>

lemma unat_and_7F: "unat ((d :: u32) AND 0x7F) = unat d mod 128"
proof -
  have "(0x7F :: u32) = mask 7" by (simp add: mask_eq_exp_minus_1)
  then have "unat (d AND 0x7F) = take_bit 7 (unat d)"
    by (simp only: take_bit_eq_mask[symmetric] unsigned_take_bit_eq)
  then show ?thesis by (simp add: take_bit_eq_mod)
qed

lemma unat_drop_7: "unat (drop_bit 7 (d :: u32)) = unat d div 128"
  by (simp add: drop_bit_eq_div unat_div)

lemma unat_frac: "unat (((d :: u32) AND 0x7F) + 1) = unat d mod 128 + 1"
  by (subst unat_add_fits) (simp_all add: unat_and_7F order.strict_trans[OF mod_less_divisor])

lemma unat_field_0: "unat (fv_value (field_val (0, n) v)) = unat v mod 2 ^ n"
proof -
  have eq: "fv_value (field_val (0, n) v) = take_bit n v"
    by (simp add: field_val_def take_bit_eq_mask)
  have "unat (fv_value (field_val (0, n) v)) = take_bit n (unat v)"
    unfolding eq by (rule unsigned_take_bit_eq)
  then show ?thesis by (simp add: take_bit_eq_mod)
qed

lemma lcr_modify_fields [simp]:
  "uartibrd (lcr_modify v r) = uartibrd r" "uartfbrd (lcr_modify v r) = uartfbrd r"
  "uartcr (lcr_modify v r) = uartcr r"
  "uartlcr_h (lcr_modify v r) = reg_modify v (uartlcr_h r)"
  by (simp_all add: lcr_modify_def)

lemma cr_modify_fields [simp]:
  "uartibrd (cr_modify v r) = uartibrd r" "uartfbrd (cr_modify v r) = uartfbrd r"
  "uartlcr_h (cr_modify v r) = uartlcr_h r"
  "uartcr (cr_modify v r) = reg_modify v (uartcr r)"
  by (simp_all add: cr_modify_def)

lemma set_width_other [simp]:
  "uartibrd (set_width w r) = uartibrd r" "uartfbrd (set_width w r) = uartfbrd r"
  "uartcr (set_width w r) = uartcr r"
  by (cases w; simp)+

lemma set_parity_other [simp]:
  "uartibrd (set_parity w r) = uartibrd r" "uartfbrd (set_parity w r) = uartfbrd r"
  "uartcr (set_parity w r) = uartcr r"
  by (cases w; simp)+

lemma set_stop_bits_other [simp]:
  "uartibrd (set_stop_bits w r) = uartibrd r" "uartfbrd (set_stop_bits w r) = uartfbrd r"
  "uartcr (set_stop_bits w r) = uartcr r"
  by (cases w; simp)+

lemma set_flow_control_other [simp]:
  "uartibrd (set_flow_control w r) = uartibrd r" "uartfbrd (set_flow_control w r) = uartfbrd r"
  "uartlcr_h (set_flow_control w r) = uartlcr_h r"
  by (simp_all add: set_flow_control_def)

lemmas uart_fields = UARTLCR_H_WLEN_def UARTLCR_H_FEN_def UARTLCR_H_STP2_def UARTLCR_H_EPS_def
  UARTLCR_H_PEN_def UARTLCR_H_BRK_def UARTCR_CTSEN_def UARTCR_RTSEN_def UARTCR_RXE_def
  UARTCR_TXE_def UARTCR_UARTEN_def

lemma two_bits: "bit (1 :: u32) n \<longleftrightarrow> n = 0" "bit (2 :: u32) n \<longleftrightarrow> n = 1"
    "bit (3 :: u32) n \<longleftrightarrow> n < 2"
  using bit_field[of "2 :: u32" 1 1 n] bit_field[of "3 :: u32" 0 2 n]
  by (auto simp: bit_1_iff mask_eq_exp_minus_1)

lemma bit_mask_one [field_bits]:
  "bit (fv_mask (field_set (k, Suc 0))) n \<longleftrightarrow> n = k \<and> n < 32"
  "bit (fv_mask (field_clear (k, Suc 0))) n \<longleftrightarrow> n = k \<and> n < 32"
  by (auto simp: field_set_def field_clear_def field_bits)

lemma bit_set_width: "bit (uartlcr_h (set_width w r)) n \<longleftrightarrow>
    (if n = 5 then w \<noteq> Seven else if n = 6 then w \<noteq> Six else bit (uartlcr_h r) n)"
  by (cases w) (auto simp: field_bits uart_fields two_bits)

lemma bit_set_parity: "bit (uartlcr_h (set_parity q r)) n \<longleftrightarrow>
    (if n = 1 then q \<noteq> NoParity else if n = 2 then q = Even else bit (uartlcr_h r) n)"
  by (cases q) (auto simp: field_bits uart_fields)

lemma bit_set_stop_bits: "bit (uartlcr_h (set_stop_bits b r)) n \<longleftrightarrow>
    (if n = 3 then b = Two else bit (uartlcr_h r) n)"
  by (cases b) (auto simp: field_bits uart_fields)

lemma bit_set_flow_control: "bit (uartcr (set_flow_control hw r)) n \<longleftrightarrow>
    (if n = 14 \<or> n = 15 then hw else bit (uartcr r) n)"
  by (auto simp: set_flow_control_def field_bits uart_fields)

lemma bit_lcr_clear: "bit (reg_modify (field_clear (k, 1)) w) n \<longleftrightarrow> n \<noteq> k \<and> bit w n"
  by (auto simp: field_bits dest: bit_imp_le_length)

declare set_width.simps [simp del] set_parity.simps [simp del] set_stop_bits.simps [simp del]

definition line_control_bit :: "uart_parameters \<Rightarrow> u32 \<Rightarrow> nat \<Rightarrow> bool" where
  "line_control_bit p old n =
    (if n = 0 then False else if n = 1 then up_parity p \<noteq> NoParity
     else if n = 2 then up_parity p = Even else if n = 3 then up_stop_bits p = Two
     else if n = 4 then False else if n = 5 then up_width p \<noteq> Seven
     else if n = 6 then up_width p \<noteq> Six else bit old n)"

definition control_bit :: "uart_parameters \<Rightarrow> u32 \<Rightarrow> nat \<Rightarrow> bool" where
  "control_bit p old n =
    (if n = 0 \<or> n = 8 \<or> n = 9 then True
     else if n = 14 \<or> n = 15 then hw_flow_control p else bit old n)"

lemma uart_configure_some:
  assumes "baud_rate p \<noteq> 0"
  shows "\<exists>r'. uart_configure p clk r = Some r' \<and>
    uartibrd r' = fv_value (field_val UARTIBRD_BAUD_DIVINT (fst (baud_registers (8 * clk div baud_rate p)))) \<and>
    uartfbrd r' = fv_value (field_val UARTFBRD_BAUD_DIVFRAC (snd (baud_registers (8 * clk div baud_rate p)))) \<and>
    (\<forall>n. bit (uartlcr_h r') n \<longleftrightarrow> line_control_bit p (uartlcr_h r) n) \<and>
    (\<forall>n. bit (uartcr r') n \<longleftrightarrow> control_bit p (uartcr r) n)"
proof -
  obtain r' where r': "uart_configure p clk r = Some r'"
    using assms by (simp add: uart_configure_def Let_def case_prod_beta)
  have "bit (uartlcr_h r') n \<longleftrightarrow> line_control_bit p (uartlcr_h r) n" for n
    using r' assms
    by (auto simp: uart_configure_def Let_def bit_set_width bit_set_parity bit_set_stop_bits
        UARTLCR_H_FEN_def UARTLCR_H_BRK_def bit_lcr_clear field_bits line_control_bit_def uart_disable_def
        split: prod.splits)
  moreover have "bit (uartcr r') n \<longleftrightarrow> control_bit p (uartcr r) n" for n
    using r' assms
    by (auto simp: uart_configure_def Let_def bit_set_flow_control control_bit_def uart_fields
        uart_disable_def field_bits bit_lcr_clear split: prod.splits)
  ultimately show ?thesis using r' assms
    by (auto simp: uart_configure_def Let_def split: prod.splits)
qed

lemma baud_registers_value:
  assumes "128 \<le> unat d" "unat d < 128 * 65535"
  shows "64 * unat (fv_value (field_val UARTIBRD_BAUD_DIVINT (fst (baud_registers d)))) +
    unat (fv_value (field_val UARTFBRD_BAUD_DIVFRAC (snd (baud_registers d)))) +
    (if unat d mod 128 = 127 then 64 else 0) = (unat d + 1) div 2"
proof -
  define q where "q = unat d div 128"
  define f where "f = unat d mod 128"
  have d: "unat d = 128 * q + f" "f < 128" by (simp_all add: q_def f_def)
  have q: "1 \<le> q" "q < 65535" using assms by (simp_all add: q_def less_mult_imp_div_less)
  have "drop_bit 7 d \<noteq> 0" using q(1) unat_drop_7[of d] by (auto simp: q_def)
  moreover have "\<not> 65535 \<le> drop_bit 7 d" using q(2) unat_drop_7[of d] by (simp add: word_le_nat_alt q_def)
  ultimately have b: "baud_registers d = (drop_bit 7 d, ((d AND 0x7F) + 1) div 2)"
    by (simp add: baud_registers_def Let_def)
  have i: "unat (fv_value (field_val UARTIBRD_BAUD_DIVINT (fst (baud_registers d)))) = q"
    using q by (simp add: b UARTIBRD_BAUD_DIVINT_def unat_field_0 unat_drop_7 q_def)
  have "unat (fv_value (field_val UARTFBRD_BAUD_DIVFRAC (snd (baud_registers d)))) = (f + 1) div 2 mod 64"
    unfolding b UARTFBRD_BAUD_DIVFRAC_def snd_conv unat_field_0 unat_div unat_frac f_def by simp
  then show ?thesis unfolding i using d
    by (cases "f = 127") auto
qed

section \<open>The polling loops\<close>

lemma poll_until_finds:
  assumes "ready (fr k)" "t \<le> k"
  shows "\<exists>k'. poll_until ready fr t = Some (k' + 1) \<and> t \<le> k' \<and> ready (fr k')"
  using assms
proof (induction "k - t" arbitrary: t)
  case 0
  then show ?case by (auto simp: poll_until.simps)
next
  case (Suc n)
  show ?case
  proof (cases "ready (fr t)")
    case False
    have "n = k - (t + 1)" "t + 1 \<le> k" using Suc.hyps(2) by simp_all
    from Suc.hyps(1)[OF this(1) Suc.prems(1) this(2)]
    obtain k' where "poll_until ready fr (t + 1) = Some (k' + 1)" "t + 1 \<le> k'" "ready (fr k')"
      by blast
    then show ?thesis using False by (auto simp: poll_until.simps[of ready fr t])
  qed (auto simp: poll_until.simps)
qed

lemma poll_until_Some: "poll_until ready fr t = Some t' \<Longrightarrow> \<exists>k\<ge>t. t' = k + 1 \<and> ready (fr k)"
  by (rule poll_until.raw_induct[of "\<lambda>ready fr t t'. \<exists>k\<ge>t. t' = k + 1 \<and> ready (fr k)"])
    (fastforce split: if_splits dest: Suc_leD)+

lemma poll_until_never: "\<forall>k\<ge>t. \<not> ready (fr k) \<Longrightarrow> poll_until ready fr t = None"
  using poll_until_Some[of ready fr t] by (cases "poll_until ready fr t") auto

lemma ucast_u8_field: "fv_value (field_val UARTDR_DATA (ucast (b :: u8))) = ucast b"
  by (rule bit_word_eqI) (auto simp: field_bits UARTDR_DATA_def bit_ucast_iff dest: bit_imp_le_length)

lemma send_bytes_all:
  assumes "\<forall>t. \<exists>k\<ge>t. uart_is_writable (fr k)"
  shows "\<exists>l'. send_bytes fr bs l = Some l' \<and> sent l' = sent l @ map ucast bs"
proof (induction bs arbitrary: l)
  case (Cons b bs)
  obtain k where "flag_reads l \<le> k" "uart_is_writable (fr k)" using assms by blast
  then obtain t where t: "poll_until uart_is_writable fr (flag_reads l) = Some t"
    using poll_until_finds by blast
  obtain l' where "send_bytes fr bs (l\<lparr>flag_reads := t, sent := sent l @ [ucast b]\<rparr>) = Some l'"
    "sent l' = sent l @ [ucast b] @ map ucast bs"
    using Cons[of "l\<lparr>flag_reads := t, sent := sent l @ [ucast b]\<rparr>"] by auto
  then show ?case by (simp add: send_byte_def t ucast_u8_field)
qed simp

lemma send_bytes_stuck:
  assumes "\<forall>k\<ge>flag_reads l. \<not> uart_is_writable (fr k)" "bs \<noteq> []"
  shows "send_bytes fr bs l = None"
  using assms by (cases bs) (auto simp: send_byte_def poll_until_never)

section \<open>Properties\<close>

text \<open>Printing returns, with the whole text sent in order, whenever the transmitter keeps becoming
  ready, and sends nothing when no port is set; a transmitter that stays full from some point
  on hangs any non-empty print.\<close>

theorem write_str_progress:
  "(\<forall>fr. (\<forall>t. \<exists>k\<ge>t. uart_is_writable (fr k)) \<longrightarrow>
      (\<exists>l'. write_str (Some fr) s l = Some l' \<and> sent l' = sent l @ map ucast s)) \<and>
   write_str None s l = Some l \<and>
   (\<forall>fr. (\<forall>k\<ge>flag_reads l. \<not> uart_is_writable (fr k)) \<longrightarrow> s \<noteq> [] \<longrightarrow> write_str (Some fr) s l = None)"
  using send_bytes_all[of _ s l] send_bytes_stuck[of l _ s] by (simp add: write_str_def)

theorem write_str_progress_witness:
  "(\<exists>l'. write_str (Some (\<lambda>_. 0)) [79, 75] \<lparr>flag_reads = 0, sent = []\<rparr> = Some l' \<and> sent l' = [79, 75]) \<and>
   write_str (Some (\<lambda>_. 0x20)) [79, 75] \<lparr>flag_reads = 0, sent = []\<rparr> = None"
proof -
  have w: "uart_is_writable 0" "\<not> uart_is_writable 0x20"
    by (simp_all add: uart_is_writable_def field_is_set_def field_mask_def UARTFR_TXFF_def)
  show ?thesis
    using write_str_progress[of "[79, 75]" "\<lparr>flag_reads = 0, sent = []\<rparr>"] w by auto
qed

text \<open>Configuring the port: for a non-zero baud rate and a clock below 2^29 Hz whose divisor is in
  range, the integer and fractional registers hold the divisor in 64ths, rounded half up, except
  that a fraction that rounds up to 64 is written as zero; the line control and control registers
  hold the requested format and flow control, with every other bit kept.\<close>

theorem uart_configured:
  assumes "baud_rate p \<noteq> 0" "unat clk < 536870912"
    and "d = 8 * unat clk div unat (baud_rate p)" "128 \<le> d" "d < 128 * 65535"
  shows "\<exists>r'. uart_configure p clk r = Some r' \<and>
    64 * unat (uartibrd r') + unat (uartfbrd r') + (if d mod 128 = 127 then 64 else 0) = (d + 1) div 2 \<and>
    (\<forall>n. bit (uartlcr_h r') n \<longleftrightarrow> line_control_bit p (uartlcr_h r) n) \<and>
    (\<forall>n. bit (uartcr r') n \<longleftrightarrow> control_bit p (uartcr r) n)"
proof -
  have "unat (8 * clk) = 8 * unat clk"
    using assms(2) by (simp add: unat_word_ariths)
  then have d: "unat (8 * clk div baud_rate p) = d" by (simp add: assms(3) unat_div)
  show ?thesis
    using uart_configure_some[OF assms(1), of clk r]
      baud_registers_value[of "8 * clk div baud_rate p"] assms(4,5)
    unfolding d by auto
qed

definition board_parameters :: uart_parameters where
  "board_parameters = \<lparr>baud_rate = 115200, up_width = Eight, up_parity = NoParity,
     up_stop_bits = One, hw_flow_control = False\<rparr>"

lemma fifty_mhz: "unat (50000000 :: u32) < 536870912" "unat (255 :: u32) < 536870912"
    "128 \<le> (3472 :: nat)" "3472 < (128 * 65535 :: nat)" "128 \<le> (255 :: nat)" "255 < (128 * 65535 :: nat)"
  by simp_all

theorem uart_configured_witness:
  "(\<exists>r'. uart_configure board_parameters 50000000 \<lparr>uartibrd = 0, uartfbrd = 0, uartlcr_h = 0, uartcr = 0\<rparr> = Some r' \<and>
     64 * unat (uartibrd r') + unat (uartfbrd r') = 1736) \<and>
   (\<exists>r'. uart_configure (board_parameters\<lparr>baud_rate := 8\<rparr>) 255 \<lparr>uartibrd = 0, uartfbrd = 0, uartlcr_h = 0, uartcr = 0\<rparr> = Some r' \<and>
     64 * unat (uartibrd r') + unat (uartfbrd r') = 64)"
proof -
  let ?r = "\<lparr>uartibrd = 0, uartfbrd = 0, uartlcr_h = 0, uartcr = 0\<rparr>"
  have d: "3472 = 8 * unat (50000000 :: u32) div unat (baud_rate board_parameters)"
    "255 = 8 * unat (255 :: u32) div unat (baud_rate (board_parameters\<lparr>baud_rate := 8\<rparr>))"
    by (simp_all add: board_parameters_def)
  have b: "baud_rate board_parameters \<noteq> 0" "baud_rate (board_parameters\<lparr>baud_rate := 8\<rparr>) \<noteq> 0"
    by (simp_all add: board_parameters_def)
  obtain r1 where "uart_configure board_parameters 50000000 ?r = Some r1"
    "64 * unat (uartibrd r1) + unat (uartfbrd r1) + (if (3472 :: nat) mod 128 = 127 then 64 else 0) = (3472 + 1) div 2"
    using uart_configured[OF b(1) fifty_mhz(1) d(1) fifty_mhz(3,4), of ?r] by blast
  moreover obtain r2 where "uart_configure (board_parameters\<lparr>baud_rate := 8\<rparr>) 255 ?r = Some r2"
    "64 * unat (uartibrd r2) + unat (uartfbrd r2) + (if (255 :: nat) mod 128 = 127 then 64 else 0) = (255 + 1) div 2"
    using uart_configured[OF b(2) fifty_mhz(2) d(2) fifty_mhz(5,6), of ?r] by blast
  ultimately show ?thesis by auto
qed

end
