(* ===== verification/Mpc.thy ===== *)
theory Mpc
  imports Regs
begin

text \<open>
  The memory protection controller of the Musca-B1 (chips/musca_b1/src/mpc.rs).  Its look-up table
  has one bit per block of memory, 1 for non-secure, 32 blocks to a word; the word is chosen by the
  index register (blk_lut is banked by blk_idx, which holds while the auto-increment, cleared by
  mpc_new, is off).  set_non_secure keeps a copy of the current word and writes it back when the
  index moves on; a failed check is a panic, the result None.
\<close>

section \<open>Registers and the driver\<close>

definition MPC_CTRL_sec_resp :: field where "MPC_CTRL_sec_resp = (4, 1)"
definition MPC_CTRL_autoincrement :: field where "MPC_CTRL_autoincrement = (8, 1)"
definition MPC_CTRL_security_lockdown :: field where "MPC_CTRL_security_lockdown = (31, 1)"
definition MPC_BLK_CFG_block_size :: field where "MPC_BLK_CFG_block_size = (0, 4)"
definition MPC_BLK_CFG_init_in_progress :: field where "MPC_BLK_CFG_init_in_progress = (31, 1)"

record mpc_regs =
  mpc_ctrl :: u32
  mpc_blk_max :: u32
  mpc_blk_cfg :: u32
  mpc_blk_idx :: u32
  mpc_blk_lut :: "u32 \<Rightarrow> u32"

record mpc =
  memory_base_address :: u32
  memory_limit_address :: u32
  mpc_block_size :: u32

definition mpc_new :: "u32 \<Rightarrow> mpc_regs \<Rightarrow> mpc_regs \<times> mpc" where
  "mpc_new base r =
    (let block_index_max = mpc_blk_max r;
         block_size = push_bit (unat (field_read MPC_BLK_CFG_block_size (mpc_blk_cfg r) + 5)) 1;
         r = r\<lparr>mpc_ctrl := reg_modify
               (fv_plus (field_clear MPC_CTRL_autoincrement) (field_set MPC_CTRL_sec_resp)) (mpc_ctrl r)\<rparr>;
         limit = base + block_size * (block_index_max + 1) * 32 - 1
     in (r, \<lparr>memory_base_address = base, memory_limit_address = limit, mpc_block_size = block_size\<rparr>))"

definition lut_get :: "mpc_regs \<Rightarrow> u32" where
  "lut_get r = mpc_blk_lut r (mpc_blk_idx r)"

definition lut_set :: "u32 \<Rightarrow> mpc_regs \<Rightarrow> mpc_regs" where
  "lut_set v r = r\<lparr>mpc_blk_lut := (mpc_blk_lut r)(mpc_blk_idx r := v)\<rparr>"

definition idx_set :: "u32 \<Rightarrow> mpc_regs \<Rightarrow> mpc_regs" where
  "idx_set v r = r\<lparr>mpc_blk_idx := v\<rparr>"

definition mpc_block :: "u32 \<Rightarrow> mpc_regs \<times> u32 \<times> u32 \<Rightarrow> mpc_regs \<times> u32 \<times> u32" where
  "mpc_block block = (\<lambda>(r, current_idx, current_lut).
    let idx = block div 32;
        (r, current_idx, current_lut) =
          (if idx \<noteq> current_idx then
             (let r = lut_set current_lut (idx_set current_idx r);
                  current_idx = idx;
                  r = idx_set current_idx r
              in (r, current_idx, lut_get r))
           else (r, current_idx, current_lut))
    in (r, current_idx, current_lut OR push_bit (unat (block mod 32)) 1))"

definition block_range :: "u32 \<Rightarrow> u32 \<Rightarrow> u32 list" where
  "block_range a b = map of_nat [unat a..<unat b]"

definition set_non_secure :: "mpc \<Rightarrow> u32 \<Rightarrow> u32 \<Rightarrow> mpc_regs \<Rightarrow> mpc_regs option" where
  "set_non_secure m base limit r =
    (if base < memory_base_address m \<or> base > memory_limit_address m \<or> limit > memory_limit_address m \<or>
        base \<ge> limit then None
     else if base mod mpc_block_size m \<noteq> 0 then None
     else if (limit + 1) mod mpc_block_size m \<noteq> 0 then None
     else
       let start_block = (base - memory_base_address m) div mpc_block_size m;
           end_block = (limit + 1 - memory_base_address m) div mpc_block_size m;
           current_idx = start_block div 32;
           r = idx_set current_idx r;
           current_lut = lut_get r;
           (r, current_idx, current_lut) = fold mpc_block (block_range start_block end_block) (r, current_idx, current_lut)
       in Some (lut_set current_lut (idx_set current_idx r)))"

section \<open>The table as the loop sees it\<close>

text \<open>The word under the index is the copy, the others are in the controller.\<close>

definition lut_view :: "mpc_regs \<times> u32 \<times> u32 \<Rightarrow> u32 \<Rightarrow> u32" where
  "lut_view = (\<lambda>(r, idx, lut) i. if i = idx then lut else mpc_blk_lut r i)"

lemma lut_view_block:
  "lut_view (mpc_block b s) i =
    (if i = b div 32 then lut_view s i OR push_bit (unat (b mod 32)) 1 else lut_view s i)"
  by (cases s) (auto simp: mpc_block_def lut_view_def lut_set_def lut_get_def idx_set_def Let_def)

lemma bit_one_at: "bit (push_bit k (1 :: u32)) n \<longleftrightarrow> n = k \<and> n < 32"
  by (auto simp: bit_simps simp del: push_bit_of_1)

lemma lut_view_fold:
  assumes "n < 32"
  shows "bit (lut_view (fold mpc_block bs s) i) n \<longleftrightarrow>
    bit (lut_view s i) n \<or> (\<exists>b\<in>set bs. b div 32 = i \<and> unat (b mod 32) = n)"
  using assms
  by (induction bs arbitrary: s) (auto simp: lut_view_block bit_or_iff bit_one_at simp del: push_bit_of_1)

lemma mpc_block_frame:
  "mpc_blk_max (fst (fold mpc_block bs s)) = mpc_blk_max (fst s) \<and>
   mpc_blk_cfg (fst (fold mpc_block bs s)) = mpc_blk_cfg (fst s) \<and>
   mpc_ctrl (fst (fold mpc_block bs s)) = mpc_ctrl (fst s)"
proof (induction bs arbitrary: s)
  case (Cons b bs)
  then show ?case
    by (cases s) (simp add: mpc_block_def lut_set_def lut_get_def idx_set_def Let_def)
qed simp

text \<open>Block b of the memory, and an address of it.\<close>

definition block_ns :: "mpc_regs \<Rightarrow> nat \<Rightarrow> bool" where
  "block_ns r b \<longleftrightarrow> bit (mpc_blk_lut r (of_nat (b div 32))) (b mod 32)"

definition addr_ns :: "mpc \<Rightarrow> mpc_regs \<Rightarrow> u32 \<Rightarrow> bool" where
  "addr_ns m r a \<longleftrightarrow> block_ns r ((unat a - unat (memory_base_address m)) div unat (mpc_block_size m))"

lemma unat_div_mod32: "unat (b div (32 :: u32)) = unat b div 32" "unat (b mod (32 :: u32)) = unat b mod 32"
  by (simp_all add: unat_div_distrib unat_mod_distrib)

lemma set_non_secure_blocks:
  assumes "set_non_secure m base limit r = Some r'" "b < 4294967296"
  shows "block_ns r' b \<longleftrightarrow> block_ns r b \<or>
    (unat ((base - memory_base_address m) div mpc_block_size m) \<le> b \<and>
     b < unat ((limit + 1 - memory_base_address m) div mpc_block_size m))"
proof -
  let ?s = "(base - memory_base_address m) div mpc_block_size m"
  let ?e = "(limit + 1 - memory_base_address m) div mpc_block_size m"
  let ?r0 = "idx_set (?s div 32) r"
  let ?init = "(?r0, ?s div 32, lut_get ?r0)"
  obtain r1 idx lut where f: "fold mpc_block (block_range ?s ?e) ?init = (r1, idx, lut)"
    by (cases "fold mpc_block (block_range ?s ?e) ?init") auto
  have r': "r' = lut_set lut (idx_set idx r1)"
    using assms(1) f by (simp add: set_non_secure_def Let_def split: if_splits)
  have final: "mpc_blk_lut r' i = lut_view (fold mpc_block (block_range ?s ?e) ?init) i" for i
    unfolding r' f by (simp add: lut_view_def lut_set_def idx_set_def)
  have init: "lut_view ?init i = mpc_blk_lut r i" for i
    by (simp add: lut_view_def lut_get_def idx_set_def)
  have u: "unat (of_nat b :: u32) = b" "unat (of_nat (b div 32) :: u32) = b div 32"
    using assms(2) by (simp_all add: unat_of_nat_small)
  have mem: "(\<exists>x\<in>set (block_range ?s ?e). x div 32 = of_nat (b div 32) \<and> unat (x mod 32) = b mod 32) \<longleftrightarrow>
      unat ?s \<le> b \<and> b < unat ?e"
  proof
    assume "\<exists>x\<in>set (block_range ?s ?e). x div 32 = of_nat (b div 32) \<and> unat (x mod 32) = b mod 32"
    then obtain k where k: "unat ?s \<le> k" "k < unat ?e"
      "(of_nat k :: u32) div 32 = of_nat (b div 32)" "unat ((of_nat k :: u32) mod 32) = b mod 32"
      by (auto simp: block_range_def)
    have uk: "unat (of_nat k :: u32) = k" using k(2) unat_lt_usize[of ?e] by (simp add: unat_of_nat_small)
    have "k div 32 = b div 32" "k mod 32 = b mod 32"
      using arg_cong[OF k(3), of unat] k(4) unfolding unat_div_mod32 uk u by simp_all
    then have "k = b" by (metis div_mult_mod_eq)
    then show "unat ?s \<le> b \<and> b < unat ?e" using k by simp
  next
    assume range: "unat ?s \<le> b \<and> b < unat ?e"
    have "(of_nat b :: u32) div 32 = of_nat (b div 32)"
      by (simp only: word_unat_eq_iff unat_div_mod32 u)
    moreover have "unat ((of_nat b :: u32) mod 32) = b mod 32" by (simp only: unat_div_mod32 u)
    moreover have "(of_nat b :: u32) \<in> set (block_range ?s ?e)" using range by (auto simp: block_range_def)
    ultimately show "\<exists>x\<in>set (block_range ?s ?e). x div 32 = of_nat (b div 32) \<and> unat (x mod 32) = b mod 32" by blast
  qed
  show ?thesis
    unfolding block_ns_def final lut_view_fold[OF mod_less_divisor[OF zero_less_numeral]] init mem ..
qed

text \<open>A controller as the hardware has it: blocks of a size that divides the base address, and a window that
  ends below the end of the address space.\<close>

definition mpc_ok :: "mpc \<Rightarrow> bool" where
  "mpc_ok m \<longleftrightarrow> 0 < unat (mpc_block_size m) \<and> unat (memory_base_address m) mod unat (mpc_block_size m) = 0 \<and>
    unat (memory_limit_address m) < 4294967295"

lemma unat_mod_zero: "a mod b = 0 \<Longrightarrow> unat a mod unat b = 0" for a b :: u32
  by (metis unat_mod_distrib unat_0)

lemma set_non_secure_core:
  assumes "mpc_ok m" "set_non_secure m base limit r = Some r'" "memory_base_address m \<le> a"
  shows "addr_ns m r' a \<longleftrightarrow> addr_ns m r a \<or> (base \<le> a \<and> a \<le> limit)"
proof -
  let ?mb = "unat (memory_base_address m)" and ?bs = "unat (mpc_block_size m)"
  have g: "memory_base_address m \<le> base" "limit \<le> memory_limit_address m" "base < limit"
    "base mod mpc_block_size m = 0" "(limit + 1) mod mpc_block_size m = 0"
    using assms(2) by (auto simp: set_non_secure_def split: if_splits)
  note c = g(1-3) unat_mod_zero[OF g(4)] unat_mod_zero[OF g(5)]
  have bs: "0 < ?bs" "?mb mod ?bs = 0" using assms(1) by (simp_all add: mpc_ok_def)
  have "unat limit < 4294967295" using assms(1) c(2) by (auto simp: mpc_ok_def word_le_nat_alt)
  then have l1: "unat (limit + 1) = unat limit + 1" by (simp add: unat_word_ariths)
  have le: "?mb \<le> unat base" "unat base < unat limit" using c(1,3) by (simp_all add: word_le_nat_alt word_less_nat_alt)
  have s: "unat ((base - memory_base_address m) div mpc_block_size m) = (unat base - ?mb) div ?bs"
    using c(1) by (simp add: unat_div_distrib unat_sub_le)
  have "memory_base_address m \<le> limit + 1" using le by (simp add: word_le_nat_alt l1)
  then have e: "unat ((limit + 1 - memory_base_address m) div mpc_block_size m) = (unat limit + 1 - ?mb) div ?bs"
    by (simp add: unat_div_distrib unat_sub_le l1)
  have ds: "(unat base - ?mb) div ?bs * ?bs = unat base - ?mb"
    using c(4) bs le by (simp add: dvd_eq_mod_eq_0[symmetric] dvd_div_mult_self dvd_diff_nat)
  have de: "(unat limit + 1 - ?mb) div ?bs * ?bs = unat limit + 1 - ?mb"
    using c(5) bs le unfolding l1 by (simp add: dvd_eq_mod_eq_0[symmetric] dvd_div_mult_self dvd_diff_nat)
  have a: "?mb \<le> unat a" using assms(3) by (simp add: word_le_nat_alt)
  let ?b = "(unat a - ?mb) div ?bs"
  have "?b < 4294967296" using unat_lt_usize[of a] by (meson div_le_dividend diff_le_self le_less_trans)
  then have "addr_ns m r' a \<longleftrightarrow> addr_ns m r a \<or> ((unat base - ?mb) div ?bs \<le> ?b \<and> ?b < (unat limit + 1 - ?mb) div ?bs)"
    using set_non_secure_blocks[OF assms(2), of ?b] by (simp add: addr_ns_def s e)
  also have "(unat base - ?mb) div ?bs \<le> ?b \<longleftrightarrow> unat base - ?mb \<le> unat a - ?mb"
    using less_eq_div_iff_mult_less_eq[OF bs(1)] ds by simp
  also have "?b < (unat limit + 1 - ?mb) div ?bs \<longleftrightarrow> unat a - ?mb < unat limit + 1 - ?mb"
    using div_less_iff_less_mult[OF bs(1)] de by simp
  finally show ?thesis using a le by (auto simp: word_le_nat_alt)
qed

lemma set_non_secure_None: "set_non_secure m base limit r = None \<longleftrightarrow>
    \<not> (memory_base_address m \<le> base \<and> base < limit \<and> limit \<le> memory_limit_address m \<and>
       base mod mpc_block_size m = 0 \<and> (limit + 1) mod mpc_block_size m = 0)"
  by (auto simp: set_non_secure_def Let_def not_less not_le split: prod.split)

section \<open>Property\<close>

text \<open>Opening a range of memory to the non-secure side opens exactly that range.  On a controller with
  aligned blocks set_non_secure panics unless the range lies in the window and starts and ends at block
  boundaries; otherwise an address of the window is non-secure afterwards if and only if it was before or it
  lies in the range.  In particular the loop writes back every word it has changed, the last one included.\<close>

theorem set_non_secure_exact:
  assumes "mpc_ok m"
  shows "(set_non_secure m base limit r = None \<longleftrightarrow>
      \<not> (memory_base_address m \<le> base \<and> base < limit \<and> limit \<le> memory_limit_address m \<and>
         base mod mpc_block_size m = 0 \<and> (limit + 1) mod mpc_block_size m = 0)) \<and>
    (\<forall>r' a. set_non_secure m base limit r = Some r' \<and> memory_base_address m \<le> a \<longrightarrow>
      (addr_ns m r' a \<longleftrightarrow> addr_ns m r a \<or> (base \<le> a \<and> a \<le> limit)))"
  using set_non_secure_None[of m base limit r] set_non_secure_core[OF assms] by blast

text \<open>The controllers of the board as their reset values describe them.\<close>

definition mpc_reset :: "u32 \<Rightarrow> u32 \<Rightarrow> mpc_regs" where
  "mpc_reset bmax cfg =
    \<lparr>mpc_ctrl = 0x100, mpc_blk_max = bmax, mpc_blk_cfg = cfg, mpc_blk_idx = 0, mpc_blk_lut = (\<lambda>_. 0)\<rparr>"

lemma mpc_new_reset:
  "mpc_new base (mpc_reset bmax 3) =
    (mpc_reset bmax 3\<lparr>mpc_ctrl := 0x10\<rparr>,
     \<lparr>memory_base_address = base, memory_limit_address = base + 256 * (bmax + 1) * 32 - 1, mpc_block_size = 256\<rparr>)"
  by (simp add: mpc_new_def mpc_reset_def Let_def field_read_def MPC_BLK_CFG_block_size_def mask_eq_exp_minus_1
      reg_modify_def fv_plus_def field_clear_def field_set_def field_val_def field_mask_def
      MPC_CTRL_autoincrement_def MPC_CTRL_sec_resp_def push_bit_eq_mult)

theorem set_non_secure_exact_witness:
  "\<exists>r'. set_non_secure (snd (mpc_new 0x20020000 (mpc_reset 15 3))) 0x20030000 0x2003FFFF
      (fst (mpc_new 0x20020000 (mpc_reset 15 3))) = Some r' \<and>
    addr_ns (snd (mpc_new 0x20020000 (mpc_reset 15 3))) r' 0x2003FFFF \<and>
    \<not> addr_ns (snd (mpc_new 0x20020000 (mpc_reset 15 3))) r' 0x2002FFFF"
proof -
  let ?m = "\<lparr>memory_base_address = 0x20020000, memory_limit_address = 0x2003FFFF, mpc_block_size = 256\<rparr> :: mpc"
  let ?r = "mpc_reset 15 3\<lparr>mpc_ctrl := 0x10\<rparr>"
  have ok: "mpc_ok ?m" by (simp add: mpc_ok_def)
  have none: "\<not> addr_ns ?m ?r a" for a by (simp add: addr_ns_def block_ns_def mpc_reset_def)
  have "set_non_secure ?m 0x20030000 0x2003FFFF ?r \<noteq> None"
    using set_non_secure_exact[where base = "0x20030000" and limit = "0x2003FFFF" and r = ?r, OF ok] by simp
  then obtain r' where r': "set_non_secure ?m 0x20030000 0x2003FFFF ?r = Some r'" by blast
  then have "\<forall>a. 0x20020000 \<le> a \<longrightarrow> (addr_ns ?m r' a \<longleftrightarrow> 0x20030000 \<le> a \<and> a \<le> 0x2003FFFF)"
    using set_non_secure_exact[where base = "0x20030000" and limit = "0x2003FFFF" and r = ?r, OF ok] none by simp
  then show ?thesis using r' by (simp add: mpc_new_reset)
qed

end
