(* ===== verification/Nvic.thy ===== *)
theory Nvic
  imports Regs
begin

text \<open>
  The interrupt controller driver (libraries/cortex_m/src/nvic.rs).  The set/clear register
  pairs are write-one registers over one enabled word and one pending word per bank of 32
  interrupts, as the architecture has them; ITNS is plain storage.  Indexing past the end of a
  register array panics: None.
\<close>

record nvic_regs =
  nv_ictr :: u32
  nv_enabled :: "nat \<Rightarrow> u32"
  nv_pending :: "nat \<Rightarrow> u32"
  nv_itns :: "nat \<Rightarrow> u32"

definition INTLINESNUM :: field where "INTLINESNUM = (0, 4)"

definition number_of_nvic_registers :: "nvic_regs \<Rightarrow> nat" where
  "number_of_nvic_registers s = unat (field_read INTLINESNUM (nv_ictr s) + 1)"

section \<open>Masks over 256 interrupts\<close>

text \<open>The interrupt_mask macro: one bit per listed interrupt, in two 128-bit halves.\<close>

fun interrupt_mask :: "nat list \<Rightarrow> 128 word \<times> 128 word" where
  "interrupt_mask [] = (0, 0)"
| "interrupt_mask (i # is) =
    (case interrupt_mask is of (high, low) \<Rightarrow>
       if i < 128 then (high, low OR push_bit i 1) else (high OR push_bit (i - 128) 1, low))"

section \<open>Bulk operations\<close>

definition write_banks :: "(u32 \<Rightarrow> u32) \<Rightarrow> nat \<Rightarrow> (nat \<Rightarrow> u32) \<Rightarrow> (nat \<Rightarrow> u32)" where
  "write_banks f n r = fold (\<lambda>i r. r(i := f (r i))) [0..<min 32 n] r"

definition clear_all_pending :: "nvic_regs \<Rightarrow> nvic_regs" where
  "clear_all_pending s =
    s\<lparr>nv_pending := write_banks (\<lambda>w. w AND NOT (NOT 0)) (number_of_nvic_registers s) (nv_pending s)\<rparr>"

definition enable_all :: "nvic_regs \<Rightarrow> nvic_regs" where
  "enable_all s =
    s\<lparr>nv_enabled := write_banks (\<lambda>w. w OR NOT 0) (number_of_nvic_registers s) (nv_enabled s)\<rparr>"

definition disable_all :: "nvic_regs \<Rightarrow> nvic_regs" where
  "disable_all s =
    s\<lparr>nv_enabled := write_banks (\<lambda>w. w AND NOT (NOT 0)) (number_of_nvic_registers s) (nv_enabled s)\<rparr>"

section \<open>Targeting interrupts at the Non-secure state\<close>

definition non_secure_mask :: "nat \<Rightarrow> nat \<Rightarrow> nat \<Rightarrow> u32 \<Rightarrow> u32" where
  "non_secure_mask start_id end_id block mask0 =
    fold (\<lambda>interrupt m.
        if interrupt \<ge> start_id \<and> interrupt \<le> end_id
        then m OR push_bit (interrupt mod 32) 1 else m)
      [block * 32..<(block + 1) * 32] mask0"

fun non_secure_blocks :: "nat \<Rightarrow> nat \<Rightarrow> nat list \<Rightarrow> nvic_regs \<Rightarrow> nvic_regs option" where
  "non_secure_blocks start_id end_id [] s = Some s"
| "non_secure_blocks start_id end_id (block # bs) s =
    (if block < 16
     then non_secure_blocks start_id end_id bs
       (s\<lparr>nv_itns := (nv_itns s)(block := non_secure_mask start_id end_id block (nv_itns s block))\<rparr>)
     else None)"

definition set_interrupt_non_secure :: "u32 \<Rightarrow> u32 \<Rightarrow> nvic_regs \<Rightarrow> nvic_regs option" where
  "set_interrupt_non_secure start_id end_id s =
    non_secure_blocks (unat start_id) (unat end_id)
      [unat (start_id div 32)..<unat (end_id div 32) + 1] s"

section \<open>Finding pending interrupts\<close>

definition trailing_zeros :: "u32 \<Rightarrow> nat" where
  "trailing_zeros w = length (takeWhile (\<lambda>i. \<not> bit w i) [0..<32])"

fun first_pending :: "(nat \<Rightarrow> u32) \<Rightarrow> nat list \<Rightarrow> u32 option" where
  "first_pending p [] = None"
| "first_pending p (block # bs) =
    (if p block \<noteq> 0 then Some (of_nat block * 32 + of_nat (trailing_zeros (p block)))
     else first_pending p bs)"

definition banks :: "nvic_regs \<Rightarrow> nat list" where
  "banks s = [0..<min 32 (number_of_nvic_registers s)]"

definition next_pending :: "nvic_regs \<Rightarrow> u32 option" where
  "next_pending s = first_pending (nv_pending s) (banks s)"

definition unmasked_pending :: "128 word \<times> 128 word \<Rightarrow> nvic_regs \<Rightarrow> nat \<Rightarrow> u32" where
  "unmasked_pending m s block =
    (let interrupt_mask = (if block < 4 then snd m else fst m)
     in nv_pending s block AND NOT (ucast (drop_bit (32 * (block mod 4)) interrupt_mask)))"

definition next_pending_with_mask :: "128 word \<times> 128 word \<Rightarrow> nvic_regs \<Rightarrow> u32 option" where
  "next_pending_with_mask m s = first_pending (unmasked_pending m s) (banks s)"

definition has_pending :: "nvic_regs \<Rightarrow> bool" where
  "has_pending s \<longleftrightarrow> fold (\<lambda>b acc. nv_pending s b OR acc) (banks s) 0 \<noteq> 0"

definition has_pending_with_mask :: "128 word \<times> 128 word \<Rightarrow> nvic_regs \<Rightarrow> bool" where
  "has_pending_with_mask m s \<longleftrightarrow>
    fold (\<lambda>b acc. unmasked_pending m s b OR acc) (banks s) 0 \<noteq> 0"

section \<open>One interrupt\<close>

definition nvic_enable :: "u32 \<Rightarrow> nvic_regs \<Rightarrow> nvic_regs option" where
  "nvic_enable n s = (let i = unat n div 32 in
    if i < 32 then Some (s\<lparr>nv_enabled := (nv_enabled s)(i :=
        nv_enabled s i OR push_bit (unat (n AND 31)) 1)\<rparr>)
    else None)"

definition nvic_disable :: "u32 \<Rightarrow> nvic_regs \<Rightarrow> nvic_regs option" where
  "nvic_disable n s = (let i = unat n div 32 in
    if i < 32 then Some (s\<lparr>nv_enabled := (nv_enabled s)(i :=
        nv_enabled s i AND NOT (push_bit (unat (n AND 31)) 1))\<rparr>)
    else None)"

definition nvic_clear_pending :: "u32 \<Rightarrow> nvic_regs \<Rightarrow> nvic_regs option" where
  "nvic_clear_pending n s = (let i = unat n div 32 in
    if i < 32 then Some (s\<lparr>nv_pending := (nv_pending s)(i :=
        nv_pending s i AND NOT (push_bit (unat (n AND 31)) 1))\<rparr>)
    else None)"

section \<open>Interrupt-indexed views\<close>

text \<open>Interrupt i is bit i mod 32 of bank i div 32.\<close>

definition irq_bit :: "(nat \<Rightarrow> u32) \<Rightarrow> nat \<Rightarrow> bool" where
  "irq_bit r i \<longleftrightarrow> bit (r (i div 32)) (i mod 32)"

lemma bit_fold_or_range:
  "bit (fold (\<lambda>i m. if P i then m OR push_bit (i mod 32) 1 else m) xs (w::u32)) k \<longleftrightarrow>
    bit w k \<or> (k < 32 \<and> (\<exists>i\<in>set xs. P i \<and> i mod 32 = k))"
proof (induction xs arbitrary: w)
  case (Cons x xs)
  have "bit (push_bit (x mod 32) (1::u32)) k \<longleftrightarrow> k < 32 \<and> x mod 32 = k"
    by (simp only: bit_push_bit_iff bit_1_iff possible_bit_word) auto
  then show ?case by (simp add: Cons.IH bit_or_iff) blast
qed simp

lemma bit_non_secure_mask:
  "bit (non_secure_mask a b block w) k \<longleftrightarrow>
    bit w k \<or> (k < 32 \<and> a \<le> block * 32 + k \<and> block * 32 + k \<le> b)"
proof -
  have "(\<exists>i\<in>{block * 32..<(block + 1) * 32}. (a \<le> i \<and> i \<le> b) \<and> i mod 32 = k) \<longleftrightarrow>
      k < 32 \<and> a \<le> block * 32 + k \<and> block * 32 + k \<le> b"
  proof
    assume "\<exists>i\<in>{block * 32..<(block + 1) * 32}. (a \<le> i \<and> i \<le> b) \<and> i mod 32 = k"
    then obtain i where i: "block * 32 \<le> i" "i < (block + 1) * 32" "a \<le> i" "i \<le> b" "i mod 32 = k"
      by auto
    then have "i div 32 = block" by (simp add: div_nat_eqI)
    then have "i = block * 32 + k" using i(5) by (metis div_mult_mod_eq)
    moreover have "k < 32" using i(5) by auto
    ultimately show "k < 32 \<and> a \<le> block * 32 + k \<and> block * 32 + k \<le> b" using i by simp
  next
    assume "k < 32 \<and> a \<le> block * 32 + k \<and> block * 32 + k \<le> b"
    then show "\<exists>i\<in>{block * 32..<(block + 1) * 32}. (a \<le> i \<and> i \<le> b) \<and> i mod 32 = k"
      by (intro bexI[of _ "block * 32 + k"]) auto
  qed
  note range = this
  have f: "bit (non_secure_mask a b block w) k \<longleftrightarrow>
      bit w k \<or> (k < 32 \<and> (\<exists>i\<in>set [block * 32..<(block + 1) * 32]. (a \<le> i \<and> i \<le> b) \<and> i mod 32 = k))"
    unfolding non_secure_mask_def
    by (rule bit_fold_or_range[where P = "\<lambda>i. a \<le> i \<and> i \<le> b"])
  show ?thesis unfolding f set_upt range by auto
qed

lemma non_secure_blocks_bits:
  assumes "distinct bs" "\<forall>b\<in>set bs. b < 16"
  shows "\<exists>s'. non_secure_blocks a b bs s = Some s' \<and>
    s' = s\<lparr>nv_itns := nv_itns s'\<rparr> \<and>
    (\<forall>i. irq_bit (nv_itns s') i \<longleftrightarrow>
      irq_bit (nv_itns s) i \<or> (i div 32 \<in> set bs \<and> a \<le> i \<and> i \<le> b))"
  using assms
proof (induction bs arbitrary: s)
  case (Cons x bs)
  let ?s = "s\<lparr>nv_itns := (nv_itns s)(x := non_secure_mask a b x (nv_itns s x))\<rparr>"
  obtain s' where s': "non_secure_blocks a b bs ?s = Some s'" "s' = ?s\<lparr>nv_itns := nv_itns s'\<rparr>"
    "\<forall>i. irq_bit (nv_itns s') i \<longleftrightarrow>
      irq_bit (nv_itns ?s) i \<or> (i div 32 \<in> set bs \<and> a \<le> i \<and> i \<le> b)"
    using Cons by (metis distinct.simps(2) list.set_intros(2))
  have "irq_bit (nv_itns ?s) i \<longleftrightarrow> irq_bit (nv_itns s) i \<or> (i div 32 = x \<and> a \<le> i \<and> i \<le> b)" for i
    by (auto simp: irq_bit_def bit_non_secure_mask)
  then show ?case using s' Cons.prems by auto
qed (simp add: irq_bit_def)

lemma trailing_zeros_least:
  assumes "w \<noteq> 0"
  shows "trailing_zeros w < 32" "bit w (trailing_zeros w)"
    "k < trailing_zeros w \<Longrightarrow> \<not> bit w k"
proof -
  let ?n = "trailing_zeros w"
  obtain i where i: "bit w i" using assms by (metis bit_eqI bit_0_eq bot_apply bot_bool_def)
  then have "i < 32" by (auto dest: bit_imp_le_length)
  then have "\<exists>x\<in>set [0..<32]. bit w x" using i by auto
  then have "takeWhile (\<lambda>i. \<not> bit w i) [0..<32] \<noteq> [0..<32]"
    by (metis (mono_tags, lifting) takeWhile_eq_all_conv)
  then have "?n \<noteq> length [0..<32]"
    unfolding trailing_zeros_def by (metis takeWhile_eq_take take_all order_refl)
  then have lt: "?n < length [0..<32]"
    using length_takeWhile_le[of "\<lambda>i. \<not> bit w i" "[0..<32]"] by (simp add: trailing_zeros_def)
  then show "?n < 32" by simp
  show "bit w ?n"
    using nth_length_takeWhile[of "\<lambda>i. \<not> bit w i" "[0..<32]"] lt by (simp add: trailing_zeros_def)
  show "k < ?n \<Longrightarrow> \<not> bit w k"
    using takeWhile_nth[of k "\<lambda>i. \<not> bit w i" "[0..<32]"] lt
      nth_mem[of k "takeWhile (\<lambda>i. \<not> bit w i) [0..<32]"]
    by (auto simp: trailing_zeros_def dest: set_takeWhileD)
qed

text \<open>The scan returns the lowest pending interrupt of the banks it reads.\<close>

lemma first_pending_spec:
  assumes "m \<le> n" "n \<le> 32"
  shows "case first_pending p [m..<n] of
      None \<Rightarrow> \<forall>i. m * 32 \<le> i \<and> i < n * 32 \<longrightarrow> \<not> irq_bit p i
    | Some k \<Rightarrow> m * 32 \<le> unat k \<and> unat k < n * 32 \<and> irq_bit p (unat k) \<and>
        (\<forall>i. m * 32 \<le> i \<and> i < unat k \<longrightarrow> \<not> irq_bit p i)"
  using assms
proof (induction "n - m" arbitrary: m)
  case 0
  then show ?case by auto
next
  case (Suc d)
  then have m: "m < n" "[m..<n] = m # [Suc m..<n]" by (auto simp: upt_rec)
  show ?case
  proof (cases "p m = 0")
    case True
    have low: "\<not> irq_bit p i" if "m * 32 \<le> i" "i < Suc m * 32" for i
    proof -
      have "i div 32 = m" using that by (simp add: div_nat_eqI)
      then show ?thesis using True by (simp add: irq_bit_def)
    qed
    have d: "d = n - Suc m" "Suc m \<le> n" using Suc.hyps(2) m by simp_all
    have scan: "first_pending p [m..<n] = first_pending p [Suc m..<n]"
      using m True by simp
    have below: "\<not> irq_bit p i" if "m * 32 \<le> i" "\<not> Suc m * 32 \<le> i" for i
      using low that by simp
    show ?thesis
    proof (cases "first_pending p [Suc m..<n]")
      case None
      then have "\<forall>i. Suc m * 32 \<le> i \<and> i < n * 32 \<longrightarrow> \<not> irq_bit p i"
        using Suc.hyps(1)[OF d Suc.prems(2)] by simp
      then show ?thesis unfolding scan using None below by auto
    next
      case (Some k)
      then have "Suc m * 32 \<le> unat k \<and> unat k < n * 32 \<and> irq_bit p (unat k) \<and>
          (\<forall>i. Suc m * 32 \<le> i \<and> i < unat k \<longrightarrow> \<not> irq_bit p i)"
        using Suc.hyps(1)[OF d Suc.prems(2)] by simp
      then show ?thesis unfolding scan using Some below by auto
    qed
  next
    case False
    let ?t = "trailing_zeros (p m)"
    note t = trailing_zeros_least[OF False]
    have u: "unat (of_nat m * 32 + of_nat ?t :: u32) = m * 32 + ?t"
    proof -
      have "(of_nat m * 32 + of_nat ?t :: u32) = of_nat (m * 32 + ?t)" by simp
      moreover have "m * 32 + ?t < 2 ^ LENGTH(32)" using m Suc.prems t(1) by simp
      ultimately show ?thesis by (simp only: unat_of_nat) (simp add: take_bit_nat_eq_self)
    qed
    have "\<not> irq_bit p i" if "m * 32 \<le> i" "i < m * 32 + ?t" for i
    proof -
      have "i div 32 = m" using that t(1) by (simp add: div_nat_eqI)
      moreover have "i mod 32 < ?t" using that calculation by (metis add.commute
            less_diff_conv2 minus_div_mult_eq_mod mult.commute div_mult_mod_eq less_imp_diff_less
            nat_add_left_cancel_less)
      ultimately show ?thesis using t(3) by (simp add: irq_bit_def)
    qed
    moreover have "irq_bit p (m * 32 + ?t)" using t(1,2) by (simp add: irq_bit_def)
    ultimately show ?thesis using m False u t(1) by simp
  qed
qed

section \<open>Properties\<close>

text \<open>Retargeting interrupts: for a range that stays within the sixteen target registers,
  set_interrupt_non_secure makes exactly the interrupts of the range non-secure and leaves the
  others, and the other registers, as they were.\<close>

theorem set_interrupt_non_secure_exact:
  assumes "unat end_id < 512"
  shows "\<exists>s'. set_interrupt_non_secure start_id end_id s = Some s' \<and>
    s' = s\<lparr>nv_itns := nv_itns s'\<rparr> \<and>
    (\<forall>i. irq_bit (nv_itns s') i \<longleftrightarrow>
      irq_bit (nv_itns s) i \<or> (unat start_id \<le> i \<and> i \<le> unat end_id))"
proof -
  let ?a = "unat start_id" and ?b = "unat end_id"
  have d: "unat (start_id div 32) = ?a div 32" "unat (end_id div 32) = ?b div 32"
    by (simp_all add: unat_div)
  have r: "\<forall>k\<in>set [?a div 32..<?b div 32 + 1]. k < 16" using assms by auto
  obtain s' where s': "non_secure_blocks ?a ?b [?a div 32..<?b div 32 + 1] s = Some s'"
    "s' = s\<lparr>nv_itns := nv_itns s'\<rparr>"
    "\<forall>i. irq_bit (nv_itns s') i \<longleftrightarrow> irq_bit (nv_itns s) i \<or>
      (i div 32 \<in> set [?a div 32..<?b div 32 + 1] \<and> ?a \<le> i \<and> i \<le> ?b)"
    using non_secure_blocks_bits[OF distinct_upt r, of ?a ?b s]
    by (elim exE conjE) (rule that; assumption)
  have "i div 32 \<in> set [?a div 32..<?b div 32 + 1]" if "?a \<le> i" "i \<le> ?b" for i
    using div_le_mono[OF that(1), of 32] div_le_mono[OF that(2), of 32]
    by (simp add: less_Suc_eq_le del: upt_Suc)
  then have "\<forall>i. irq_bit (nv_itns s') i \<longleftrightarrow> irq_bit (nv_itns s) i \<or> (?a \<le> i \<and> i \<le> ?b)"
    using s'(3) by blast
  then show ?thesis unfolding set_interrupt_non_secure_def d
    by (intro exI[of _ s'] conjI s'(1,2))
qed

lemma irq_33_34: "(i div 32 = 1 \<and> (i mod 32 = 1 \<or> i mod 32 = 2)) = (i = 33 \<or> i = (34::nat))"
proof
  assume "i div 32 = 1 \<and> (i mod 32 = 1 \<or> i mod 32 = 2)"
  then show "i = 33 \<or> i = 34" using mult_div_mod_eq[of 32 i] by auto
qed auto

definition sample_nvic :: nvic_regs where
  "sample_nvic = \<lparr>nv_ictr = 7, nv_enabled = (\<lambda>_. 0), nv_pending = (\<lambda>_. 0)(1 := 6), nv_itns = (\<lambda>_. 0)\<rparr>"

theorem set_interrupt_non_secure_exact_witness:
  "\<exists>s'. set_interrupt_non_secure 30 40 sample_nvic = Some s' \<and> irq_bit (nv_itns s') 33"
proof -
  obtain s' where s': "set_interrupt_non_secure 30 40 sample_nvic = Some s'"
    "\<forall>i. irq_bit (nv_itns s') i \<longleftrightarrow>
      irq_bit (nv_itns sample_nvic) i \<or> (unat (30::u32) \<le> i \<and> i \<le> unat (40::u32))"
    by (rule set_interrupt_non_secure_exact[of 40 30 sample_nvic, THEN exE]) (simp, blast)
  have "irq_bit (nv_itns s') 33" by (subst s'(2)[rule_format]) simp
  then show ?thesis using s'(1) by blast
qed

text \<open>Scanning for work: next_pending returns the lowest pending interrupt of the implemented banks,
  and None only when none is pending.\<close>

theorem next_pending_lowest:
  "case next_pending s of
      None \<Rightarrow> \<forall>i. i < 32 * min 32 (number_of_nvic_registers s) \<longrightarrow> \<not> irq_bit (nv_pending s) i
    | Some k \<Rightarrow> unat k < 32 * min 32 (number_of_nvic_registers s) \<and> irq_bit (nv_pending s) (unat k) \<and>
        (\<forall>i<unat k. \<not> irq_bit (nv_pending s) i)"
  using first_pending_spec[of 0 "min 32 (number_of_nvic_registers s)" "nv_pending s"]
  by (auto simp: next_pending_def banks_def mult.commute split: option.splits)

theorem next_pending_lowest_witness: "next_pending sample_nvic = Some 33 \<and> irq_bit (nv_pending sample_nvic) 33"
proof -
  have n: "number_of_nvic_registers sample_nvic = 8"
    by (simp add: number_of_nvic_registers_def sample_nvic_def field_read_def INTLINESNUM_def
        mask_eq_exp_minus_1)
  have b: "irq_bit (nv_pending sample_nvic) i \<longleftrightarrow> i = 33 \<or> i = 34" for i
  proof -
    have "bit (6::u32) k \<longleftrightarrow> k = 1 \<or> k = 2" for k
      using bit_field[of "6::u32" 1 2 k] by (auto simp: mask_eq_exp_minus_1)
    moreover have "irq_bit (nv_pending sample_nvic) i \<longleftrightarrow> i div 32 = 1 \<and> bit (6::u32) (i mod 32)"
      by (cases "i div 32 = 1") (simp_all only: irq_bit_def sample_nvic_def nvic_regs.simps
        fun_upd_apply if_True if_False bit_0_eq bot_apply bot_bool_def simp_thms)
    ultimately have "irq_bit (nv_pending sample_nvic) i \<longleftrightarrow>
        i div 32 = 1 \<and> (i mod 32 = 1 \<or> i mod 32 = 2)" by (simp only:)
    then show ?thesis by (simp only: irq_33_34)
  qed
  show ?thesis
  proof (cases "next_pending sample_nvic")
    case None
    then have "\<not> irq_bit (nv_pending sample_nvic) 33"
      using next_pending_lowest[of sample_nvic] n by auto
    then show ?thesis using b by simp
  next
    case (Some k)
    then have k: "irq_bit (nv_pending sample_nvic) (unat k)" "\<forall>i<unat k. \<not> irq_bit (nv_pending sample_nvic) i"
      using next_pending_lowest[of sample_nvic] by auto
    have "unat k \<noteq> 34"
    proof
      assume "unat k = 34"
      then have "\<not> irq_bit (nv_pending sample_nvic) 33" using k(2) by simp
      then show False using b by simp
    qed
    then have "unat k = unat (33::u32)" using k(1) b by simp
    then have "k = 33" by (rule word_unat_eq_iff[THEN iffD2])
    then show ?thesis using Some b by simp
  qed
qed

end
