(* ===== verification/MuscaBoot.thy ===== *)
theory MuscaBoot
  imports Startup Uart Mpc Attribution Nvic Sync ChipAttest
begin

text \<open>
  The boot of the Musca-B1 secure image (boards/musca_b1/secure/src/main.rs, with chips/musca_b1/src/spcb.rs):
  serial port, interrupt targets, stack limit, AIRCR, attribution unit, publication of the dispatcher,
  security control block, memory protection controllers, and the entry of the non-secure image.
  A failed unwrap or check panics: None.  What the attribution unit then says of an address is the
  architecture's rule, stated over the regions the driver reads back.
\<close>

section \<open>The security control block\<close>

definition NscCfg_allow_sau_code_nsc :: field where "NscCfg_allow_sau_code_nsc = (0, 1)"
definition ApbNsPpcExp1_uart1_ns :: field where "ApbNsPpcExp1_uart1_ns = (5, 1)"

record spcb_regs =
  nsc_cfg :: u32
  apb_ns_ppc_exp1 :: u32

definition enable_idau_nsc_code :: "spcb_regs \<Rightarrow> spcb_regs" where
  "enable_idau_nsc_code r = r\<lparr>nsc_cfg := reg_modify (field_set NscCfg_allow_sau_code_nsc) (nsc_cfg r)\<rparr>"

definition enable_uart1_ns :: "spcb_regs \<Rightarrow> spcb_regs" where
  "enable_uart1_ns r =
    r\<lparr>apb_ns_ppc_exp1 := reg_modify (field_set ApbNsPpcExp1_uart1_ns) (apb_ns_ppc_exp1 r)\<rparr>"

section \<open>start\<close>

record musca_state =
  mb_uart :: uart_regs
  mb_line :: uart_line
  mb_serial :: bool
  mb_nvic :: nvic_regs
  mb_msplim :: u32
  mb_aircr :: u16
  mb_sau :: sau_regs
  mb_spm :: "unit once_lock"
  mb_spcb :: spcb_regs
  mb_mpc :: "u32 \<Rightarrow> mpc_regs"
  mb_mem :: mem

definition musca_parameters :: uart_parameters where
  "musca_parameters = \<lparr>baud_rate = 115200, up_width = Eight, up_parity = NoParity,
     up_stop_bits = One, hw_flow_control = False\<rparr>"

definition boot_serial :: "musca_state \<Rightarrow> musca_state option" where
  "boot_serial s = map_option (\<lambda>u. s\<lparr>mb_uart := u, mb_serial := True\<rparr>)
     (uart_configure musca_parameters 50000000 (mb_uart s))"

definition boot_interrupts :: "musca_state \<Rightarrow> musca_state option" where
  "boot_interrupts s = map_option (\<lambda>n. s\<lparr>mb_nvic := enable_all n\<rparr>)
     (set_interrupt_non_secure 0 127 (mb_nvic s))"

definition musca_regions :: "sau_region list" where
  "musca_regions =
    [\<lparr>base_address = 0x00102000, limit_address = 0x0027FFFF, sau_attr = NonSecure\<rparr>,
     \<lparr>base_address = 0x10100000, limit_address = 0x10101FFF, sau_attr = NonSecureCallable\<rparr>,
     \<lparr>base_address = 0x20030000, limit_address = 0x2007FFFF, sau_attr = NonSecure\<rparr>,
     \<lparr>base_address = 0x40000000, limit_address = 0x4FFFFFFF, sau_attr = NonSecure\<rparr>,
     \<lparr>base_address = 0x40105000, limit_address = 0x40105FFF, sau_attr = NonSecure\<rparr>]"

definition boot_attribution :: "musca_state \<Rightarrow> musca_state option" where
  "boot_attribution s =
    (case set_regions 0 musca_regions (mb_sau s) of
       (_, Inl _) \<Rightarrow> None
     | (sau, Inr _) \<Rightarrow> Some (s\<lparr>mb_sau := sau_enable sau\<rparr>))"

text \<open>A controller, the base of its memory, and the range to open.\<close>

record mpc_window =
  w_controller :: u32
  w_memory :: u32
  w_from :: u32
  w_to :: u32

definition musca_windows :: "mpc_window list" where
  "musca_windows =
    [\<lparr>w_controller = 0x52000000, w_memory = 0x00000000, w_from = 0x00102000, w_to = 0x003F7FFF\<rparr>,
     \<lparr>w_controller = 0x52100000, w_memory = 0x20000000, w_from = 0x20030000, w_to = 0x2007FFFF\<rparr>,
     \<lparr>w_controller = 0x50084000, w_memory = 0x20020000, w_from = 0x20030000, w_to = 0x2003FFFF\<rparr>,
     \<lparr>w_controller = 0x50085000, w_memory = 0x20040000, w_from = 0x20040000, w_to = 0x2005FFFF\<rparr>,
     \<lparr>w_controller = 0x50086000, w_memory = 0x20060000, w_from = 0x20060000, w_to = 0x2007FFFF\<rparr>]"

fun open_windows :: "mpc_window list \<Rightarrow> (u32 \<Rightarrow> mpc_regs) \<Rightarrow> (u32 \<Rightarrow> mpc_regs) option" where
  "open_windows [] f = Some f"
| "open_windows (w # ws) f =
    (case mpc_new (w_memory w) (f (w_controller w)) of
       (r, m) \<Rightarrow> (case set_non_secure m (w_from w) (w_to w) r of
          None \<Rightarrow> None
        | Some r' \<Rightarrow> open_windows ws (f(w_controller w := r'))))"

definition boot_memory :: "musca_state \<Rightarrow> musca_state option" where
  "boot_memory s = map_option (\<lambda>f. s\<lparr>mb_mpc := f\<rparr>) (open_windows musca_windows (mb_mpc s))"

definition boot_message :: "u8 list" where
  "boot_message = ascii ''Init SPE done, jumping to non-secure''"

definition debugln :: "(nat \<Rightarrow> u32) \<Rightarrow> u8 list \<Rightarrow> musca_state \<Rightarrow> musca_state option" where
  "debugln fr msg s = map_option (\<lambda>l. s\<lparr>mb_line := l\<rparr>)
     (write_str (if mb_serial s then Some fr else None) msg (mb_line s))"

definition NONSECURE_FLASH_START :: u32 where "NONSECURE_FLASH_START = 0x00102000"

definition boot_control :: "u32 \<Rightarrow> musca_state \<Rightarrow> musca_state" where
  "boot_control stack_base s =
    (let s = s\<lparr>mb_msplim := stack_base\<rparr>
     in s\<lparr>mb_aircr := configure_aircr (mb_aircr s)\<rparr>)"

definition boot_publish :: "musca_state \<Rightarrow> musca_state" where
  "boot_publish s =
    (let s = s\<lparr>mb_spm := fst (once_try_set () (mb_spm s))\<rparr>;
         s = s\<lparr>mb_spcb := enable_idau_nsc_code (mb_spcb s)\<rparr>
     in s\<lparr>mb_spcb := enable_uart1_ns (mb_spcb s)\<rparr>)"

definition musca_start :: "(nat \<Rightarrow> u32) \<Rightarrow> u32 \<Rightarrow> musca_state \<Rightarrow> (musca_state \<times> u32 \<times> u32) option" where
  "musca_start fr stack_base s =
    Option.bind (boot_serial s) (\<lambda>s.
    Option.bind (boot_interrupts s) (\<lambda>s.
    let s = boot_control stack_base s in
    Option.bind (boot_attribution s) (\<lambda>s.
    let s = boot_publish s in
    Option.bind (boot_memory s) (\<lambda>s.
    Option.bind (debugln fr boot_message s) (\<lambda>s.
    Some (s, jump_to_nonsecure NONSECURE_FLASH_START (mb_mem s)))))))"

section \<open>What the attribution unit decides\<close>

definition musca_attribute :: "u32 \<Rightarrow> sau_attribute" where
  "musca_attribute x =
    (if 0x00102000 \<le> x \<and> x \<le> 0x0027FFFF \<or> 0x20030000 \<le> x \<and> x \<le> 0x2007FFFF \<or>
        0x40000000 \<le> x \<and> x \<le> 0x4FFFFFFF \<and> \<not> (0x40105000 \<le> x \<and> x \<le> 0x40105FFF) then NonSecure
     else if 0x10100000 \<le> x \<and> x \<le> 0x10101FFF then NonSecureCallable
     else Secure)"

lemma attribute_of_musca: "attribute_of musca_regions x = musca_attribute x"
  by (simp add: attribute_of_def musca_regions_def hits_def musca_attribute_def word_le_nat_alt)

section \<open>The steps of the boot\<close>

definition window_mpc :: "(u32 \<Rightarrow> mpc_regs) \<Rightarrow> mpc_window \<Rightarrow> mpc" where
  "window_mpc f w = snd (mpc_new (w_memory w) (f (w_controller w)))"

text \<open>The geometry a window needs: aligned blocks, and the window inside the controller's memory.\<close>

definition mpc_window_ok :: "(u32 \<Rightarrow> mpc_regs) \<Rightarrow> mpc_window \<Rightarrow> bool" where
  "mpc_window_ok f w \<longleftrightarrow>
    (let m = window_mpc f w in
     mpc_ok m \<and> w_memory w \<le> w_from w \<and> w_from w < w_to w \<and> w_to w \<le> memory_limit_address m \<and>
     w_from w mod mpc_block_size m = 0 \<and> (w_to w + 1) mod mpc_block_size m = 0)"

definition window_opened :: "(u32 \<Rightarrow> mpc_regs) \<Rightarrow> (u32 \<Rightarrow> mpc_regs) \<Rightarrow> mpc_window \<Rightarrow> bool" where
  "window_opened f f' w \<longleftrightarrow>
    (\<forall>a. w_memory w \<le> a \<longrightarrow> (addr_ns (window_mpc f w) (f' (w_controller w)) a \<longleftrightarrow>
       addr_ns (window_mpc f w) (f (w_controller w)) a \<or> w_from w \<le> a \<and> a \<le> w_to w))"

lemma mpc_new_simps [simp]:
  "memory_base_address (snd (mpc_new b r)) = b" "mpc_blk_lut (fst (mpc_new b r)) = mpc_blk_lut r"
  by (simp_all add: mpc_new_def Let_def)

lemma open_windows_ok:
  assumes "distinct (map w_controller ws)" "\<forall>w\<in>set ws. mpc_window_ok f w"
  shows "\<exists>f'. open_windows ws f = Some f' \<and> (\<forall>w\<in>set ws. window_opened f f' w) \<and>
    (\<forall>c. c \<notin> w_controller ` set ws \<longrightarrow> f' c = f c)"
  using assms
proof (induction ws arbitrary: f)
  case (Cons w ws)
  let ?m = "window_mpc f w" and ?r = "fst (mpc_new (w_memory w) (f (w_controller w)))"
  have w: "mpc_window_ok f w" using Cons.prems by simp
  then obtain r where r: "set_non_secure ?m (w_from w) (w_to w) ?r = Some r"
    using set_non_secure_None[of ?m "w_from w" "w_to w" ?r]
    by (cases "set_non_secure ?m (w_from w) (w_to w) ?r") (auto simp: mpc_window_ok_def Let_def window_mpc_def)
  let ?f = "f(w_controller w := r)"
  have other: "?f (w_controller v) = f (w_controller v)" if "v \<in> set ws" for v
    using Cons.prems(1) image_eqI[OF refl that, of w_controller] by auto
  then have oks: "\<forall>v\<in>set ws. mpc_window_ok ?f v"
    using Cons.prems(2) by (auto simp: mpc_window_ok_def window_mpc_def)
  have "distinct (map w_controller ws)" using Cons.prems(1) by simp
  from Cons.IH[OF this oks] obtain f' where f': "open_windows ws ?f = Some f'" "\<forall>v\<in>set ws. window_opened ?f f' v"
    "\<forall>c. c \<notin> w_controller ` set ws \<longrightarrow> f' c = ?f c"
    by blast
  have "f' (w_controller w) = r" using f'(3) Cons.prems(1) by simp
  moreover have "addr_ns ?m ?r a = addr_ns ?m (f (w_controller w)) a" for a
    by (simp add: addr_ns_def block_ns_def)
  ultimately have "window_opened f f' w"
    using set_non_secure_core[OF _ r] w by (simp add: window_opened_def mpc_window_ok_def Let_def window_mpc_def)
  moreover have "window_opened f f' v" if "v \<in> set ws" for v
    using f'(2)[rule_format, OF that] unfolding window_opened_def window_mpc_def other[OF that] .
  ultimately show ?case
    using f'(1,3) r by (auto simp: window_mpc_def split: prod.split)
qed simp

text \<open>The hardware the boot runs on: eight attribution regions, the last three off at reset, and
  controllers whose geometry fits the windows of the board.\<close>

definition musca_hardware :: "musca_state \<Rightarrow> bool" where
  "musca_hardware s \<longleftrightarrow> region_numbers (mb_sau s) = 8 \<and>
    slots_off 5 (mb_sau s) \<and>
    (\<forall>w\<in>set musca_windows. mpc_window_ok (mb_mpc s) w)"

lemma musca_regions_ok: "\<forall>r\<in>set musca_regions. sau_region_ok r"
  by (simp add: musca_regions_def sau_region_ok_def)

lemma boot_attribution_ok:
  assumes "region_numbers (mb_sau s) = 8" "slots_off 5 (mb_sau s)"
  shows "\<exists>sau. boot_attribution s = Some (s\<lparr>mb_sau := sau\<rparr>) \<and> (\<forall>x. attribution sau x = musca_attribute x)"
proof -
  have len: "length musca_regions = 5" by (simp add: musca_regions_def)
  obtain t where "set_regions 0 musca_regions (mb_sau s) = (t, Inr ())"
    "\<forall>x. attribution (sau_enable t) x = attribute_of musca_regions x"
    using set_regions_attribution[of musca_regions "mb_sau s"] musca_regions_ok assms by (auto simp: len)
  then show ?thesis by (auto simp: boot_attribution_def attribute_of_musca)
qed

lemma boot_interrupts_ok:
  "\<exists>n. boot_interrupts s = Some (s\<lparr>mb_nvic := n\<rparr>) \<and>
    (\<forall>i. irq_bit (nv_itns n) i \<longleftrightarrow> irq_bit (nv_itns (mb_nvic s)) i \<or> i \<le> 127)"
proof -
  have "unat (127 :: u32) < 512" by simp
  from set_interrupt_non_secure_exact[OF this, of 0 "mb_nvic s"]
  obtain n where "set_interrupt_non_secure 0 127 (mb_nvic s) = Some n"
    "\<forall>i. irq_bit (nv_itns n) i \<longleftrightarrow> irq_bit (nv_itns (mb_nvic s)) i \<or> i \<le> 127"
    by auto
  then show ?thesis by (auto simp: boot_interrupts_def enable_all_def)
qed

lemma boot_serial_ok: "\<exists>u. boot_serial s = Some (s\<lparr>mb_uart := u, mb_serial := True\<rparr>)"
  using uart_configure_some[of musca_parameters 50000000 "mb_uart s"]
  by (auto simp: boot_serial_def musca_parameters_def)

lemma boot_memory_ok:
  assumes "\<forall>w\<in>set musca_windows. mpc_window_ok (mb_mpc s) w"
  shows "\<exists>f. boot_memory s = Some (s\<lparr>mb_mpc := f\<rparr>) \<and> (\<forall>w\<in>set musca_windows. window_opened (mb_mpc s) f w)"
proof -
  have "distinct (map w_controller musca_windows)" by (simp add: musca_windows_def)
  from open_windows_ok[OF this assms] show ?thesis by (auto simp: boot_memory_def)
qed

lemma debugln_ok:
  assumes "\<forall>t. \<exists>k\<ge>t. uart_is_writable (fr k)" "mb_serial s"
  shows "\<exists>l. debugln fr msg s = Some (s\<lparr>mb_line := l\<rparr>) \<and> sent l = sent (mb_line s) @ map ucast msg"
  using send_bytes_all[OF assms(1), of msg "mb_line s"] assms(2) by (auto simp: debugln_def write_str_def)

text \<open>The boot, step by step.\<close>

lemma musca_boot_core:
  assumes "musca_hardware s" "\<forall>t. \<exists>k\<ge>t. uart_is_writable (fr k)" "mb_spm s = once_new"
  shows "\<exists>s'. musca_start fr stack_base s =
      Some (s', read_u32 (mb_mem s) 0x00102000, read_u32 (mb_mem s) 0x00102004) \<and>
    (\<forall>x. attribution (mb_sau s') x = musca_attribute x) \<and>
    (\<forall>w\<in>set musca_windows. window_opened (mb_mpc s) (mb_mpc s') w) \<and>
    (\<forall>i. irq_bit (nv_itns (mb_nvic s')) i \<longleftrightarrow> irq_bit (nv_itns (mb_nvic s)) i \<or> i \<le> 127) \<and>
    (\<forall>n. bit (mb_aircr s') n \<longleftrightarrow> n = 3 \<or> bit (mb_aircr s) n) \<and> mb_msplim s' = stack_base \<and>
    once_try_get (mb_spm s') = Inr () \<and>
    sent (mb_line s') = sent (mb_line s) @ map ucast boot_message \<and> mb_mem s' = mb_mem s"
proof -
  note hw = assms(1)[unfolded musca_hardware_def]
  obtain u where u: "boot_serial s = Some (s\<lparr>mb_uart := u, mb_serial := True\<rparr>)"
    using boot_serial_ok by blast
  let ?s1 = "s\<lparr>mb_uart := u, mb_serial := True\<rparr>"
  obtain n where n: "boot_interrupts ?s1 = Some (?s1\<lparr>mb_nvic := n\<rparr>)"
    "\<forall>i. irq_bit (nv_itns n) i \<longleftrightarrow> irq_bit (nv_itns (mb_nvic s)) i \<or> i \<le> 127"
    using boot_interrupts_ok[of ?s1] by auto
  define s2 where "s2 = boot_control stack_base (?s1\<lparr>mb_nvic := n\<rparr>)"
  have s2: "mb_sau s2 = mb_sau s" "mb_mpc s2 = mb_mpc s"
    by (simp_all add: s2_def boot_control_def Let_def)
  obtain t where t: "boot_attribution s2 = Some (s2\<lparr>mb_sau := t\<rparr>)" "\<forall>x. attribution t x = musca_attribute x"
    using boot_attribution_ok[of s2] hw s2 by auto
  define s3 where "s3 = boot_publish (s2\<lparr>mb_sau := t\<rparr>)"
  have s3: "mb_mpc s3 = mb_mpc s" "mb_serial s3" "mb_line s3 = mb_line s"
    by (simp_all add: s3_def boot_publish_def Let_def s2_def boot_control_def)
  obtain f where f: "boot_memory s3 = Some (s3\<lparr>mb_mpc := f\<rparr>)"
    "\<forall>w\<in>set musca_windows. window_opened (mb_mpc s) f w"
    using boot_memory_ok[of s3] hw s3 by auto
  obtain l where l: "debugln fr boot_message (s3\<lparr>mb_mpc := f\<rparr>) = Some (s3\<lparr>mb_mpc := f, mb_line := l\<rparr>)"
    "sent l = sent (mb_line s) @ map ucast boot_message"
    using debugln_ok[OF assms(2), of "s3\<lparr>mb_mpc := f\<rparr>" boot_message] s3 by auto
  let ?e = "s3\<lparr>mb_mpc := f, mb_line := l\<rparr>"
  have st: "musca_start fr stack_base s = Some (?e, jump_to_nonsecure NONSECURE_FLASH_START (mb_mem ?e))"
    unfolding musca_start_def by (simp only: u n(1) t(1) f(1) l(1) bind.simps Let_def s2_def[symmetric] s3_def[symmetric])
  have e: "mb_sau ?e = t" "mb_mpc ?e = f" "mb_nvic ?e = n" "mb_aircr ?e = configure_aircr (mb_aircr s)"
    "mb_msplim ?e = stack_base" "mb_spm ?e = fst (once_try_set () (mb_spm s))" "mb_line ?e = l" "mb_mem ?e = mb_mem s"
    by (simp_all add: s3_def boot_publish_def Let_def s2_def boot_control_def)
  have "once_try_get (mb_spm ?e) = Inr ()"
    by (simp add: e assms(3) once_try_set_def once_try_get_def once_new_def Let_def)
  moreover have "jump_to_nonsecure NONSECURE_FLASH_START (mb_mem ?e) =
      (read_u32 (mb_mem s) 0x00102000, read_u32 (mb_mem s) 0x00102004)"
    by (simp add: e jump_to_nonsecure_def NONSECURE_FLASH_START_def)
  ultimately show ?thesis
    using st n(2) t(2) f(2) l(2) e configure_aircr_bits[of "mb_aircr s"]
    by (intro exI[of _ ?e]) (simp only:, blast)
qed

section \<open>Properties\<close>

text \<open>C7. The boot ends and partitions the machine: on a processor with eight attribution regions and
  controllers whose geometry fits the windows, with a transmitter that keeps becoming ready, start
  returns the two words at the head of the non-secure image, and then every address has exactly the
  attribute of the table (the page of UART0, which two regions cover, being Secure), each memory
  controller is open exactly where it was or where its window lies, interrupts 0 to 127 target the
  non-secure state, only the secure side may request a reset, the stack limit is set and the
  dispatcher is published.\<close>

theorem musca_boot_partition:
  assumes "musca_hardware s" "\<forall>t. \<exists>k\<ge>t. uart_is_writable (fr k)" "mb_spm s = once_new"
  shows "\<exists>s'. musca_start fr stack_base s =
      Some (s', read_u32 (mb_mem s) 0x00102000, read_u32 (mb_mem s) 0x00102004) \<and>
    (\<forall>x. attribution (mb_sau s') x = musca_attribute x) \<and>
    (\<forall>w\<in>set musca_windows. window_opened (mb_mpc s) (mb_mpc s') w) \<and>
    (\<forall>i. irq_bit (nv_itns (mb_nvic s')) i \<longleftrightarrow> irq_bit (nv_itns (mb_nvic s)) i \<or> i \<le> 127) \<and>
    (\<forall>n. bit (mb_aircr s') n \<longleftrightarrow> n = 3 \<or> bit (mb_aircr s) n) \<and> mb_msplim s' = stack_base \<and>
    once_try_get (mb_spm s') = Inr () \<and>
    sent (mb_line s') = sent (mb_line s) @ map ucast boot_message \<and> mb_mem s' = mb_mem s"
  using assms by (rule musca_boot_core)

definition sample_boot :: musca_state where
  "sample_boot = \<lparr>mb_uart = \<lparr>uartibrd = 0, uartfbrd = 0, uartlcr_h = 0, uartcr = 0\<rparr>,
     mb_line = \<lparr>flag_reads = 0, sent = []\<rparr>, mb_serial = False,
     mb_nvic = \<lparr>nv_ictr = 3, nv_enabled = (\<lambda>_. 0), nv_pending = (\<lambda>_. 0), nv_itns = (\<lambda>_. 0)\<rparr>,
     mb_msplim = 0, mb_aircr = 0, mb_sau = sample_sau, mb_spm = once_new,
     mb_spcb = \<lparr>nsc_cfg = 0, apb_ns_ppc_exp1 = 0\<rparr>,
     mb_mpc = (\<lambda>c. if c = 0x52000000 then mpc_reset 511 3 else if c = 0x52100000 then mpc_reset 63 3
       else mpc_reset 15 3), mb_mem = (\<lambda>_. 0)\<rparr>"

lemma sample_boot_hardware: "musca_hardware sample_boot"
proof -
  have n: "region_numbers sample_sau = 8"
    by (simp add: region_numbers_def sample_sau_def field_read_def SAU_TYPE_SREGION_def mask_eq_exp_minus_1)
  have off: "sau_attr (slot_region sample_sau k) = Secure" for k
    by (simp add: slot_region_def sau_slot_def get_region_def Let_def sample_sau_def decode_attribute_def
        field_is_set_def)
  have "mpc_window_ok (mb_mpc sample_boot) w" if "w \<in> set musca_windows" for w
    using that
    by (auto simp: musca_windows_def mpc_window_ok_def window_mpc_def Let_def sample_boot_def mpc_new_reset mpc_ok_def
        word_le_nat_alt word_less_nat_alt)
  then show ?thesis using n off by (simp add: musca_hardware_def sample_boot_def slots_off_def)
qed

theorem musca_boot_partition_witness:
  "\<exists>s'. musca_start (\<lambda>_. 0) 0x30000000 sample_boot = Some (s', 0, 0) \<and>
     attribution (mb_sau s') 0x40105000 = Secure \<and> attribution (mb_sau s') 0x40106000 = NonSecure \<and>
     attribution (mb_sau s') 0x10100000 = NonSecureCallable \<and> attribution (mb_sau s') 0x30000000 = Secure"
proof -
  have w: "\<forall>t. \<exists>k\<ge>t. uart_is_writable ((\<lambda>_. 0) (k :: nat))"
    by (auto simp: uart_is_writable_def field_is_set_def)
  have once: "mb_spm sample_boot = once_new" by (simp add: sample_boot_def)
  have word: "read_u32 (mb_mem sample_boot) a = 0" for a
    by (simp add: sample_boot_def read_u32_def numeral_eq_Suc)
  obtain s' where "musca_start (\<lambda>_. 0) 0x30000000 sample_boot = Some (s', 0, 0)"
    "\<forall>x. attribution (mb_sau s') x = musca_attribute x"
    using musca_boot_partition[OF sample_boot_hardware w once, of "0x30000000"] unfolding word by blast
  then show ?thesis by (auto simp: musca_attribute_def)
qed

end
