(* ===== verification/Svc.thy ===== *)
theory Svc
  imports SpmIpc
begin

text \<open>
  The supervisor-call interface of the isolated build (spm_api/svc.rs, and the two entry points
  of define_spm_api that call it): the register frame, the handler that serves a service's
  requests on the dispatcher, and the service-side API that issues them.  The handler is generic
  in the dispatcher, as in the source; its operations are the record spm_ops.  A supervisor call
  is the exchange of four registers for four registers.
\<close>

section \<open>Numbers and frame\<close>

definition SVC_PROCESS_EXIT :: u8 where "SVC_PROCESS_EXIT = 0"
definition SVC_PSA_ACCESS_VEC :: u8 where "SVC_PSA_ACCESS_VEC = 1"
definition SVC_PSA_RELEASE_VEC :: u8 where "SVC_PSA_RELEASE_VEC = 2"
definition SVC_START_PROCESS :: u8 where "SVC_START_PROCESS = 3"
definition SVC_PSA_CALL :: u8 where "SVC_PSA_CALL = 4"
definition SVC_PSA_VERSION :: u8 where "SVC_PSA_VERSION = 5"
definition SVC_PSA_CALL_RETURN :: u8 where "SVC_PSA_CALL_RETURN = 7"

lemmas svc_numbers = SVC_PROCESS_EXIT_def SVC_PSA_ACCESS_VEC_def SVC_PSA_RELEASE_VEC_def
  SVC_START_PROCESS_def SVC_PSA_CALL_def SVC_PSA_VERSION_def SVC_PSA_CALL_RETURN_def

record svc_stack_frame =
  fr_r0 :: usize
  fr_r1 :: usize
  fr_r2 :: usize
  fr_r3 :: usize
  fr_r12 :: usize
  fr_lr :: usize
  fr_pc :: usize
  fr_xpsr :: usize

definition service_handle_from_raw :: "usize \<Rightarrow> service_handle res" where
  "service_handle_from_raw raw =
    (if raw = service_handle_value InternalTrustedStorageService then Inr InternalTrustedStorageService
     else if raw = service_handle_value Crypto then Inr Crypto
     else if raw = service_handle_value AttestationService then Inr AttestationService
     else Inl InvalidHandle)"

definition set_status :: "status_code \<Rightarrow> svc_stack_frame \<Rightarrow> svc_stack_frame" where
  "set_status status frame = frame\<lparr>fr_r0 := status_value status\<rparr>"

definition set_success :: "svc_stack_frame \<Rightarrow> svc_stack_frame" where
  "set_success frame = set_status Success frame"

definition set_error :: "status_code \<Rightarrow> svc_stack_frame \<Rightarrow> svc_stack_frame" where
  "set_error status frame = set_status status (frame\<lparr>fr_r1 := 0, fr_r2 := 0, fr_r3 := 0\<rparr>)"

definition set_raw_vec :: "raw_vec \<Rightarrow> svc_stack_frame \<Rightarrow> svc_stack_frame" where
  "set_raw_vec raw frame =
    set_success (frame\<lparr>fr_r1 := rv_base raw, fr_r2 := rv_len raw, fr_r3 := 0\<rparr>)"

definition ctrl_param_from_raw :: "usize \<Rightarrow> ctrl_param" where
  "ctrl_param_from_raw raw = CtrlParam raw"

section \<open>The handler\<close>

record 's spm_ops =
  so_take :: "'s \<Rightarrow> 's \<times> (spm_error + nat \<times> connection)"
  so_restore :: "nat \<Rightarrow> connection \<Rightarrow> 's \<Rightarrow> 's \<times> (spm_error + unit)"
  so_map_vec :: "bool \<Rightarrow> u32 \<Rightarrow> usize \<Rightarrow> usize \<Rightarrow> 's \<Rightarrow> 's"
  so_unmap_vec :: "bool \<Rightarrow> u32 \<Rightarrow> 's \<Rightarrow> 's"
  so_version :: "service_handle \<Rightarrow> u32 option"
  so_call :: "service_handle \<Rightarrow> ctrl_param \<Rightarrow> usize \<Rightarrow> usize \<Rightarrow> caller_attributes \<Rightarrow> 's \<Rightarrow> 's \<times> unit res"

definition svc_access ::
    "'s spm_ops \<Rightarrow> service_handle \<Rightarrow> svc_stack_frame \<Rightarrow> 's \<Rightarrow> 's \<times> svc_stack_frame" where
  "svc_access ops handle frame s =
    (let wa = with_active (so_take ops) (so_restore ops);
         is_outvec = (fr_r2 frame \<noteq> 0) in
     case (if is_outvec then prepare_outvec_raw wa handle (fr_r1 frame) s
           else prepare_invec_raw wa handle (fr_r1 frame) s) of
       (s, Inr raw) \<Rightarrow>
         (so_map_vec ops is_outvec (fr_r1 frame) (rv_base raw) (rv_len raw) s, set_raw_vec raw frame)
     | (s, Inl status) \<Rightarrow> (s, set_error status frame))"

definition svc_release ::
    "'s spm_ops \<Rightarrow> service_handle \<Rightarrow> svc_stack_frame \<Rightarrow> 's \<Rightarrow> 's \<times> svc_stack_frame" where
  "svc_release ops handle frame s =
    (let wa = with_active (so_take ops) (so_restore ops);
         is_outvec = (fr_r2 frame \<noteq> 0) in
     case (if is_outvec then finish_outvec_raw wa handle (fr_r1 frame) (fr_r3 frame) s
           else finish_invec_raw wa handle (fr_r1 frame) s) of
       (s, Inr _) \<Rightarrow> (so_unmap_vec ops is_outvec (fr_r1 frame) s, set_success frame)
     | (s, Inl status) \<Rightarrow> (s, set_error status frame))"

definition svc_psa_call ::
    "'s spm_ops \<Rightarrow> service_handle \<Rightarrow> svc_stack_frame \<Rightarrow> 's \<Rightarrow> 's \<times> svc_stack_frame" where
  "svc_psa_call ops handle frame s =
    (case so_call ops handle (ctrl_param_from_raw (fr_r1 frame)) (fr_r2 frame) (fr_r3 frame)
            SECURE_UNPRIVILEGED s of
       (s, Inr _) \<Rightarrow> (s, set_success frame)
     | (s, Inl status) \<Rightarrow> (s, set_error status frame))"

definition handle_svc_with_spm ::
    "u8 \<Rightarrow> 's spm_ops \<Rightarrow> svc_stack_frame \<Rightarrow> 's \<Rightarrow> 's \<times> svc_stack_frame \<times> bool" where
  "handle_svc_with_spm svc_num ops frame s =
    (case service_handle_from_raw (fr_r0 frame) of
       Inl status \<Rightarrow> (s, set_error status frame, True)
     | Inr handle \<Rightarrow>
         if svc_num = SVC_PSA_ACCESS_VEC then
           (case svc_access ops handle frame s of (s, frame) \<Rightarrow> (s, frame, True))
         else if svc_num = SVC_PSA_RELEASE_VEC then
           (case svc_release ops handle frame s of (s, frame) \<Rightarrow> (s, frame, True))
         else if svc_num = SVC_PSA_CALL then
           (case svc_psa_call ops handle frame s of (s, frame) \<Rightarrow> (s, frame, True))
         else if svc_num = SVC_PSA_VERSION then
           (s, frame\<lparr>fr_r0 := (case so_version ops handle of Some v \<Rightarrow> v | None \<Rightarrow> 0)\<rparr>, True)
         else (s, frame, False))"

text \<open>The two entry points; spm is the outcome of try_get_spm.\<close>

definition handle_svc ::
    "('s \<Rightarrow> unit res) \<Rightarrow> u8 \<Rightarrow> 's spm_ops \<Rightarrow> svc_stack_frame \<Rightarrow> 's \<Rightarrow> 's \<times> svc_stack_frame \<times> bool" where
  "handle_svc spm svc_num ops frame s =
    (case spm s of
       Inl _ \<Rightarrow> (s, frame\<lparr>fr_r0 := status_value BadState\<rparr>, True)
     | Inr _ \<Rightarrow> handle_svc_with_spm svc_num ops frame s)"

definition svc_handler_dispatch ::
    "('s \<Rightarrow> unit res) \<Rightarrow> 's spm_ops \<Rightarrow> svc_stack_frame \<Rightarrow> u32 \<Rightarrow> 's \<Rightarrow> 's \<times> svc_stack_frame" where
  "svc_handler_dispatch spm ops frame svc_num s =
    (case spm s of
       Inl _ \<Rightarrow> (s, frame\<lparr>fr_r0 := status_value BadState\<rparr>)
     | Inr _ \<Rightarrow>
         (case handle_svc_with_spm (ucast svc_num) ops frame s of
            (s, frame, handled) \<Rightarrow>
              (s, if handled then frame else frame\<lparr>fr_r0 := status_value NotSupported\<rparr>)))"

section \<open>The service-side API\<close>

text \<open>A supervisor call as the service sees it: four registers in, four out.\<close>

type_synonym 's svc_fn =
  "u8 \<Rightarrow> usize \<Rightarrow> usize \<Rightarrow> usize \<Rightarrow> usize \<Rightarrow> 's \<Rightarrow> 's \<times> usize \<times> usize \<times> usize \<times> usize"

definition check_svc_result :: "usize \<Rightarrow> unit res" where
  "check_svc_result raw =
    (case status_try_from raw of
       Inr Success \<Rightarrow> Inr ()
     | Inr status \<Rightarrow> Inl status
     | Inl _ \<Rightarrow> Inl CommunicationFailure)"

definition svc_access_vec :: "usize \<Rightarrow> 's svc_fn \<Rightarrow> usize \<Rightarrow> usize \<Rightarrow> 's \<Rightarrow> 's \<times> slice res" where
  "svc_access_vec is_outvec svc handle idx s =
    (case svc SVC_PSA_ACCESS_VEC handle idx is_outvec 0 s of
       (s, status, base, len, _) \<Rightarrow>
         (s, and_then (check_svc_result status) (\<lambda>_.
               Inr (if len = 0 then empty_slice else (base, len)))))"

definition svc_access_invec :: "'s svc_fn \<Rightarrow> usize \<Rightarrow> usize \<Rightarrow> 's \<Rightarrow> 's \<times> slice res" where
  "svc_access_invec = svc_access_vec 0"

definition svc_access_outvec :: "'s svc_fn \<Rightarrow> usize \<Rightarrow> usize \<Rightarrow> 's \<Rightarrow> 's \<times> slice res" where
  "svc_access_outvec = svc_access_vec 1"

definition svc_release_invec :: "'s svc_fn \<Rightarrow> usize \<Rightarrow> usize \<Rightarrow> 's \<Rightarrow> 's \<times> unit res" where
  "svc_release_invec svc handle idx s =
    (case svc SVC_PSA_RELEASE_VEC handle idx 0 0 s of
       (s, status, _) \<Rightarrow> (s, check_svc_result status))"

definition svc_release_outvec :: "'s svc_fn \<Rightarrow> usize \<Rightarrow> usize \<Rightarrow> usize \<Rightarrow> 's \<Rightarrow> 's \<times> unit res" where
  "svc_release_outvec svc handle idx written_len s =
    (case svc SVC_PSA_RELEASE_VEC handle idx 1 written_len s of
       (s, status, _) \<Rightarrow> (s, check_svc_result status))"

definition svc_api_access_invec ::
    "'s svc_fn \<Rightarrow> service_handle \<Rightarrow> u32 \<Rightarrow> (slice \<Rightarrow> 's \<Rightarrow> 's \<times> 'r) \<Rightarrow> 's \<Rightarrow> 's \<times> 'r res" where
  "svc_api_access_invec svc mh invec_idx f s =
    (let handle = service_handle_value mh; idx = invec_idx in
     case svc_access_invec svc handle idx s of
       (s, Inl e) \<Rightarrow> (s, Inl e)
     | (s, Inr invec) \<Rightarrow>
         (case f invec s of
            (s, result) \<Rightarrow>
              (case svc_release_invec svc handle idx s of
                 (s, Inl e) \<Rightarrow> (s, Inl e)
               | (s, Inr _) \<Rightarrow> (s, Inr result))))"

definition svc_api_access_outvec ::
    "'s svc_fn \<Rightarrow> service_handle \<Rightarrow> u32 \<Rightarrow> (slice \<Rightarrow> 's \<Rightarrow> 's \<times> 'r \<times> usize) \<Rightarrow> 's \<Rightarrow> 's \<times> 'r res" where
  "svc_api_access_outvec svc mh outvec_idx f s =
    (let handle = service_handle_value mh; idx = outvec_idx in
     case svc_access_outvec svc handle idx s of
       (s, Inl e) \<Rightarrow> (s, Inl e)
     | (s, Inr outvec) \<Rightarrow>
         (case f outvec s of
            (s, result, written_len) \<Rightarrow>
              (case svc_release_outvec svc handle idx written_len s of
                 (s, Inl e) \<Rightarrow> (s, Inl e)
               | (s, Inr _) \<Rightarrow> (s, Inr result))))"

definition svc_api_access_invec_outvec ::
    "'s svc_fn \<Rightarrow> service_handle \<Rightarrow> u32 \<Rightarrow> u32 \<Rightarrow> (slice \<Rightarrow> slice \<Rightarrow> 's \<Rightarrow> 's \<times> 'r \<times> usize) \<Rightarrow>
     's \<Rightarrow> 's \<times> 'r res" where
  "svc_api_access_invec_outvec svc mh invec_idx outvec_idx f s =
    (let handle = service_handle_value mh; in_idx = invec_idx; out_idx = outvec_idx in
     case svc_access_invec svc handle in_idx s of
       (s, Inl e) \<Rightarrow> (s, Inl e)
     | (s, Inr invec) \<Rightarrow>
         (case svc_access_outvec svc handle out_idx s of
            (s, Inl e) \<Rightarrow> (s, Inl e)
          | (s, Inr outvec) \<Rightarrow>
              (case f invec outvec s of
                 (s, result, written_len) \<Rightarrow>
                   (case svc_release_outvec svc handle out_idx written_len s of
                      (s, Inl e) \<Rightarrow> (s, Inl e)
                    | (s, Inr _) \<Rightarrow>
                        (case svc_release_invec svc handle in_idx s of
                           (s, Inl e) \<Rightarrow> (s, Inl e)
                         | (s, Inr _) \<Rightarrow> (s, Inr result))))))"

definition svc_api_call ::
    "'s svc_fn \<Rightarrow> service_handle \<Rightarrow> ctrl_param \<Rightarrow> usize \<Rightarrow> usize \<Rightarrow> caller_attributes \<Rightarrow>
     's \<Rightarrow> 's \<times> unit res" where
  "svc_api_call svc handle ctrl in_vec out_vec caller s =
    (case svc SVC_PSA_CALL (service_handle_value handle) (ctrl_bits ctrl) in_vec out_vec s of
       (s, status, _) \<Rightarrow> (s, check_svc_result status))"

definition ipc_client_psa_version :: "'s svc_fn \<Rightarrow> u32 \<Rightarrow> 's \<Rightarrow> 's \<times> u32" where
  "ipc_client_psa_version svc service_id s =
    (case service_handle_try_from service_id of
       Inl _ \<Rightarrow> (s, 0)
     | Inr handle \<Rightarrow>
         (case svc SVC_PSA_VERSION (service_handle_value handle) 0 0 0 s of
            (s, version, _) \<Rightarrow> (s, version)))"

definition ipc_client_psa_call ::
    "'s svc_fn \<Rightarrow> service_handle \<Rightarrow> ctrl_param \<Rightarrow> usize \<times> nat \<Rightarrow> usize \<times> nat \<Rightarrow> 's \<Rightarrow> 's \<times> isize" where
  "ipc_client_psa_call svc handle ctrl in_vec out_vec s =
    (case svc_api_call svc handle ctrl (slice_ptr in_vec) (slice_ptr out_vec) SECURE_UNPRIVILEGED s of
       (s, r) \<Rightarrow> (s, into_psa_status r))"

section \<open>The handler on the isolated dispatcher\<close>

definition ipc_ops :: "'d ipc_platform \<Rightarrow> 'd ipc_process list \<Rightarrow> 'd spm_ipc spm_ops" where
  "ipc_ops plat procs =
    \<lparr>so_take = ipc_take, so_restore = ipc_restore, so_map_vec = ipc_map_vec plat procs,
     so_unmap_vec = ipc_unmap_vec plat procs, so_version = ipc_version procs,
     so_call = ipc_api_call plat procs\<rparr>"

text \<open>
  The requests of the API.  psa_call enters through psa_call_thunk and handle_svc, the others
  through svc_handler_dispatch; either way r0 to r3 of the frame come back to the service.
\<close>

datatype svc_request = Access | Release | Call | Version

primrec request_number :: "svc_request \<Rightarrow> u8" where
  "request_number Access = SVC_PSA_ACCESS_VEC"
| "request_number Release = SVC_PSA_RELEASE_VEC"
| "request_number Call = SVC_PSA_CALL"
| "request_number Version = SVC_PSA_VERSION"

definition svc_frame :: "usize \<Rightarrow> usize \<Rightarrow> usize \<Rightarrow> usize \<Rightarrow> svc_stack_frame" where
  "svc_frame a0 a1 a2 a3 = \<lparr>fr_r0 = a0, fr_r1 = a1, fr_r2 = a2, fr_r3 = a3, fr_r12 = 0, fr_lr = 0,
     fr_pc = 0, fr_xpsr = 0\<rparr>"

definition frame_regs :: "svc_stack_frame \<Rightarrow> usize \<times> usize \<times> usize \<times> usize" where
  "frame_regs frame = (fr_r0 frame, fr_r1 frame, fr_r2 frame, fr_r3 frame)"

definition ipc_svc :: "'d ipc_platform \<Rightarrow> 'd ipc_process list \<Rightarrow> 'd spm_ipc svc_fn" where
  "ipc_svc plat procs n a0 a1 a2 a3 s =
    (if n = SVC_PSA_CALL then
       (case handle_svc ipc_try_get_spm n (ipc_ops plat procs) (svc_frame a0 a1 a2 a3) s of
          (s, frame, _) \<Rightarrow> (s, frame_regs frame))
     else
       (case svc_handler_dispatch ipc_try_get_spm (ipc_ops plat procs) (svc_frame a0 a1 a2 a3) (ucast n) s of
          (s, frame) \<Rightarrow> (s, frame_regs frame)))"

lemmas frame_setters = set_status_def set_success_def set_error_def set_raw_vec_def svc_frame_def
  frame_regs_def

lemma service_handle_from_raw_value [simp]: "service_handle_from_raw (service_handle_value h) = Inr h"
  by (cases h) (simp_all add: service_handle_from_raw_def)

lemma service_handle_from_raw_InrD: "service_handle_from_raw w = Inr h \<Longrightarrow> w = service_handle_value h"
  by (auto simp: service_handle_from_raw_def split: if_splits)

lemma check_svc_result_value [simp]:
  "check_svc_result (status_value e) = (if e = Success then Inr () else Inl e)"
  unfolding check_svc_result_def status_try_from_value by (cases e) simp_all

lemma update_vec_mapping_eq:
  assumes "ipc_ok procs s" "stack_active (ipc_stack s) = Some c"
    and "find_process_index procs (msg_handle (cn_msg c)) = Some p"
  obtains s' where "update_vec_mapping plat procs o' idx m s = apply_mpu_config plat procs p s'"
    "ipc_ok procs s'" "ipc_stack s' = butlast (ipc_stack s) @ [Some (set_vec_mapping o' (unat idx) m c)]"
    "ipc_other s' = ipc_other s"
proof -
  obtain s1 where s1: "ipc_take s = (s1, Inr (length (ipc_stack s) - 1, c))" "ipc_ok procs s1"
    "ipc_stack s1 = butlast (ipc_stack s) @ [None]" "ipc_other s1 = ipc_other s" "connection_wf c"
    using ipc_take_some[OF assms(1,2)] by blast
  let ?c = "set_vec_mapping o' (unat idx) m c"
  have wf: "connection_wf ?c"
    using s1(5) by (auto simp: set_vec_mapping_def connection_wf_def)
  have ne: "ipc_stack s \<noteq> []" using assms(2) by (auto simp: stack_active_def)
  have top: "length (ipc_stack s) - 1 < length (ipc_stack s1)"
    "ipc_stack s1 ! (length (ipc_stack s) - 1) = None"
    using s1(3) ne by (simp_all add: nth_append)
  obtain s2 where s2: "ipc_restore (length (ipc_stack s) - 1) ?c s1 = (s2, Inr ())" "ipc_ok procs s2"
    "ipc_stack s2 = (ipc_stack s1)[length (ipc_stack s) - 1 := Some ?c]" "ipc_other s2 = ipc_other s1"
    using ipc_restore_ok[OF s1(2) wf top] by blast
  have "ipc_stack s2 = butlast (ipc_stack s) @ [Some ?c]"
    using s2(3) s1(3) by (simp add: list_update_append)
  then show ?thesis
    using that[of s2] s1(1,4) s2 assms(3) by (simp add: update_vec_mapping_def)
qed

lemma update_vec_mapping_keeps:
  "keeps_frame (ipc_ok procs) ipc_stack (\<lambda>s. (update_vec_mapping plat procs o' idx m s, ()))"
proof (rule keeps_frameI)
  fix s s' r
  assume ok: "ipc_ok procs s" and run: "(update_vec_mapping plat procs o' idx m s, ()) = (s', r)"
  show "ipc_ok procs s' \<and> frame_le (ipc_stack s) (ipc_stack s')"
  proof (cases "stack_active (ipc_stack s)")
    case None
    then obtain e where "ipc_take s = (s, Inl e)" using ipc_take_none[OF ok] by blast
    then show ?thesis using run ok by (simp add: update_vec_mapping_def)
  next
    case c: (Some c)
    have top: "ipc_stack s \<noteq> []" "last (ipc_stack s) = Some c"
      using c by (auto simp: stack_active_def split: if_splits)
    show ?thesis
    proof (cases "find_process_index procs (msg_handle (cn_msg c))")
      case (Some p)
      obtain s1 where u: "update_vec_mapping plat procs o' idx m s = apply_mpu_config plat procs p s1"
        "ipc_ok procs s1"
        "ipc_stack s1 = butlast (ipc_stack s) @ [Some (set_vec_mapping o' (unat idx) m c)]"
        "ipc_other s1 = ipc_other s"
        by (rule update_vec_mapping_eq[OF ok c Some])
      show ?thesis
        using run u(1,3) apply_mpu_config_keeps(1,2)[OF u(2), of plat p] frame_le_top[OF top]
        by simp
    next
      case None
      obtain s1 where s1: "ipc_take s = (s1, Inr (length (ipc_stack s) - 1, c))" "ipc_ok procs s1"
        "ipc_stack s1 = butlast (ipc_stack s) @ [None]" "connection_wf c"
        using ipc_take_some[OF ok c] by blast
      have t: "length (ipc_stack s) - 1 < length (ipc_stack s1)"
        "ipc_stack s1 ! (length (ipc_stack s) - 1) = None"
        using s1(3) top(1) by (simp_all add: nth_append)
      obtain s2 where s2: "ipc_restore (length (ipc_stack s) - 1) c s1 = (s2, Inr ())" "ipc_ok procs s2"
        "ipc_stack s2 = (ipc_stack s1)[length (ipc_stack s) - 1 := Some c]"
        using ipc_restore_ok[OF s1(2,4) t] by blast
      have "ipc_stack s2 = butlast (ipc_stack s) @ [Some c]"
        using s2(3) s1(3) by (simp add: list_update_append)
      then show ?thesis using s1(1) s2 None run frame_le_top[OF top]
        by (simp add: update_vec_mapping_def)
    qed
  qed
qed

lemma raw_ops_keep:
  fixes wa
  assumes "wa = with_active ipc_take ipc_restore"
  shows "keeps_frame (ipc_ok procs) ipc_stack (prepare_invec_raw wa h i)"
    "keeps_frame (ipc_ok procs) ipc_stack (prepare_outvec_raw wa h i)"
  unfolding assms prepare_invec_raw_def prepare_outvec_raw_def
proof -
  show "keeps_frame (ipc_ok procs) ipc_stack (with_validated_connection (with_active ipc_take ipc_restore) h
      (\<lambda>c s. case prepare_invec c i of (c, Inl e) \<Rightarrow> (c, s, Inl e)
        | (c, Inr (_, in_len, base)) \<Rightarrow> (c, s, Inr \<lparr>rv_base = base, rv_len = in_len\<rparr>)))"
    by (rule ipc.validated_keeps_frame)
      (use connection_wf_map_op[of _ "PrepareIn i"] in \<open>auto split: prod.splits sum.splits; force\<close>)
  show "keeps_frame (ipc_ok procs) ipc_stack (with_validated_connection (with_active ipc_take ipc_restore) h
      (\<lambda>c s. case prepare_outvec c i of (c, Inl e) \<Rightarrow> (c, s, Inl e)
        | (c, Inr (_, out_len, base)) \<Rightarrow> (c, s, Inr \<lparr>rv_base = base, rv_len = out_len\<rparr>)))"
    by (rule ipc.validated_keeps_frame)
      (use connection_wf_map_op[of _ "PrepareOut i"] in \<open>auto split: prod.splits sum.splits; force\<close>)
qed

lemma raw_finish_keep:
  fixes wa
  assumes "wa = with_active ipc_take ipc_restore"
  shows "keeps_frame (ipc_ok procs) ipc_stack (finish_invec_raw wa h i)"
    "keeps_frame (ipc_ok procs) ipc_stack (finish_outvec_raw wa h i w)"
  unfolding assms finish_invec_raw_def finish_outvec_raw_def
proof -
  have wf: "mark_invec_unmapped c k = (c', r) \<Longrightarrow> connection_wf c \<Longrightarrow> connection_wf c'"
    "commit_outvec_write c k n l = (c', r) \<Longrightarrow> connection_wf c \<Longrightarrow> connection_wf c'" for c c' k n l r
    by (auto simp: mark_invec_unmapped_eq commit_outvec_write_eq connection_wf_def split: if_splits)
  show "keeps_frame (ipc_ok procs) ipc_stack (with_validated_connection (with_active ipc_take ipc_restore) h
      (\<lambda>c s. case mark_invec_unmapped c (unat i) of (c, r) \<Rightarrow> (c, s, r)))"
    by (rule ipc.validated_keeps_frame) (auto split: prod.splits intro: wf)
  show "keeps_frame (ipc_ok procs) ipc_stack (with_validated_connection (with_active ipc_take ipc_restore) h
      (\<lambda>c s. let index = unat i; out_len = out_len_of c index in
        case commit_outvec_write c index out_len w of (c, r) \<Rightarrow> (c, s, r)))"
    by (rule ipc.validated_keeps_frame) (auto simp: Let_def split: prod.splits intro: wf)
qed

lemma svc_handlers_keep:
  "keeps_frame (ipc_ok procs) ipc_stack (svc_access (ipc_ops plat procs) h fr)"
  "keeps_frame (ipc_ok procs) ipc_stack (svc_release (ipc_ops plat procs) h fr)"
  "processes_keep procs \<Longrightarrow> keeps_frame (ipc_ok procs) ipc_stack (svc_psa_call (ipc_ops plat procs) h fr)"
proof -
  let ?wa = "with_active ipc_take ipc_restore"
  have prep: "keeps_frame (ipc_ok procs) ipc_stack (\<lambda>s. if fr_r2 fr \<noteq> 0 then prepare_outvec_raw ?wa h (fr_r1 fr) s
      else prepare_invec_raw ?wa h (fr_r1 fr) s)"
    using raw_ops_keep[OF refl, of procs h "fr_r1 fr"] by (cases "fr_r2 fr = 0") simp_all
  have fin: "keeps_frame (ipc_ok procs) ipc_stack (\<lambda>s. if fr_r2 fr \<noteq> 0
      then finish_outvec_raw ?wa h (fr_r1 fr) (fr_r3 fr) s else finish_invec_raw ?wa h (fr_r1 fr) s)"
    using raw_finish_keep[OF refl, of procs h "fr_r1 fr"] by (cases "fr_r2 fr = 0") simp_all
  have upd: "keeps_frame (ipc_ok procs) ipc_stack (\<lambda>s. (update_vec_mapping plat procs o' idx m s, r))"
    for o' idx m and r :: svc_stack_frame
    using update_vec_mapping_keeps[of procs plat o' idx m] by (simp add: keeps_frame_def)
  have ret: "keeps_frame (ipc_ok procs) ipc_stack (\<lambda>s. (s, r))" for r :: svc_stack_frame
    by (rule keeps_frame_return)
  have "keeps_frame (ipc_ok procs) ipc_stack
      (\<lambda>s. case (if fr_r2 fr \<noteq> 0 then prepare_outvec_raw ?wa h (fr_r1 fr) s
          else prepare_invec_raw ?wa h (fr_r1 fr) s) of
        (s, q) \<Rightarrow> (case q of Inr raw \<Rightarrow> (update_vec_mapping plat procs (fr_r2 fr \<noteq> 0) (fr_r1 fr) True s, set_raw_vec raw fr)
          | Inl e \<Rightarrow> (s, set_error e fr)))"
    by (rule keeps_frame_bind[OF prep], rename_tac q, case_tac q)
      (simp_all only: sum.case upd ret)
  moreover have "svc_access (ipc_ops plat procs) h fr =
      (\<lambda>s. case (if fr_r2 fr \<noteq> 0 then prepare_outvec_raw ?wa h (fr_r1 fr) s
          else prepare_invec_raw ?wa h (fr_r1 fr) s) of
        (s, q) \<Rightarrow> (case q of Inr raw \<Rightarrow> (update_vec_mapping plat procs (fr_r2 fr \<noteq> 0) (fr_r1 fr) True s, set_raw_vec raw fr)
          | Inl e \<Rightarrow> (s, set_error e fr)))"
    by (auto simp: fun_eq_iff svc_access_def ipc_ops_def ipc_map_vec_def Let_def split: prod.split sum.split)
  ultimately show "keeps_frame (ipc_ok procs) ipc_stack (svc_access (ipc_ops plat procs) h fr)" by simp
  have "keeps_frame (ipc_ok procs) ipc_stack
      (\<lambda>s. case (if fr_r2 fr \<noteq> 0 then finish_outvec_raw ?wa h (fr_r1 fr) (fr_r3 fr) s
          else finish_invec_raw ?wa h (fr_r1 fr) s) of
        (s, q) \<Rightarrow> (case q of Inr u \<Rightarrow> (update_vec_mapping plat procs (fr_r2 fr \<noteq> 0) (fr_r1 fr) False s, set_success fr)
          | Inl e \<Rightarrow> (s, set_error e fr)))"
    by (rule keeps_frame_bind[OF fin], rename_tac q, case_tac q)
      (simp_all only: sum.case upd ret)
  moreover have "svc_release (ipc_ops plat procs) h fr =
      (\<lambda>s. case (if fr_r2 fr \<noteq> 0 then finish_outvec_raw ?wa h (fr_r1 fr) (fr_r3 fr) s
          else finish_invec_raw ?wa h (fr_r1 fr) s) of
        (s, q) \<Rightarrow> (case q of Inr u \<Rightarrow> (update_vec_mapping plat procs (fr_r2 fr \<noteq> 0) (fr_r1 fr) False s, set_success fr)
          | Inl e \<Rightarrow> (s, set_error e fr)))"
    by (auto simp: fun_eq_iff svc_release_def ipc_ops_def ipc_unmap_vec_def Let_def split: prod.split sum.split)
  ultimately show "keeps_frame (ipc_ok procs) ipc_stack (svc_release (ipc_ops plat procs) h fr)" by simp
  show "keeps_frame (ipc_ok procs) ipc_stack (svc_psa_call (ipc_ops plat procs) h fr)" if "processes_keep procs"
  proof -
    have "keeps_frame (ipc_ok procs) ipc_stack (\<lambda>s. case ipc_api_call plat procs h
        (ctrl_param_from_raw (fr_r1 fr)) (fr_r2 fr) (fr_r3 fr) SECURE_UNPRIVILEGED s of
        (s, q) \<Rightarrow> (s, case q of Inr u \<Rightarrow> set_success fr | Inl e \<Rightarrow> set_error e fr))"
      by (rule keeps_frame_bind[OF keeps_stack_frame[OF ipc_api_call_keeps[OF that]]])
        (rule keeps_frame_return)
    moreover have "svc_psa_call (ipc_ops plat procs) h fr = (\<lambda>s. case ipc_api_call plat procs h
        (ctrl_param_from_raw (fr_r1 fr)) (fr_r2 fr) (fr_r3 fr) SECURE_UNPRIVILEGED s of
        (s, q) \<Rightarrow> (s, case q of Inr u \<Rightarrow> set_success fr | Inl e \<Rightarrow> set_error e fr))"
      by (auto simp: fun_eq_iff svc_psa_call_def ipc_ops_def split: prod.split sum.split)
    ultimately show ?thesis by simp
  qed
qed

lemma handle_svc_with_spm_keeps:
  assumes "processes_keep procs"
  shows "keeps_frame (ipc_ok procs) ipc_stack (handle_svc_with_spm n (ipc_ops plat procs) fr)"
proof (rule keeps_frameI)
  fix s s' r
  assume ok: "ipc_ok procs s" and run: "handle_svc_with_spm n (ipc_ops plat procs) fr s = (s', r)"
  note k = keeps_frameD[OF svc_handlers_keep(1) ok] keeps_frameD[OF svc_handlers_keep(2) ok]
    keeps_frameD[OF svc_handlers_keep(3)[OF assms] ok]
  show "ipc_ok procs s' \<and> frame_le (ipc_stack s) (ipc_stack s')"
    using run ok unfolding handle_svc_with_spm_def
    by (auto dest: k simp del: split_paired_All split_paired_Ex split: sum.splits if_splits prod.splits)
qed

lemma ipc_svc_keeps:
  assumes "processes_keep procs"
  shows "keeps_frame (ipc_ok procs) ipc_stack (ipc_svc plat procs n a0 a1 a2 a3)"
proof (rule keeps_frameI)
  fix s s' r
  assume ok: "ipc_ok procs s" and run: "ipc_svc plat procs n a0 a1 a2 a3 s = (s', r)"
  note k = keeps_frameD[OF handle_svc_with_spm_keeps[OF assms] ok]
  show "ipc_ok procs s' \<and> frame_le (ipc_stack s) (ipc_stack s')"
    using run ok unfolding ipc_svc_def handle_svc_def svc_handler_dispatch_def
    by (auto dest: k simp del: split_paired_All split_paired_Ex split: sum.splits if_splits prod.splits)
qed

section \<open>Service programs and the whole isolated system\<close>

text \<open>
  What a service built on the service API (SvcApi and process_exit) can do between its entry and
  its exit: issue the API's requests (access and release of a vector, a call, a version query), and
  read and write memory.  The two other numbers the assembly handler branches on,
  SVC_START_PROCESS and SVC_PSA_CALL_RETURN, are no requests of the API; the handler accepts them
  from unprivileged code all the same (psa_call_return_unchecked), and a service that issues them
  by hand is not a program of this type.  A program is given its entry address and its argument, both from the exception frame
  the process was started with; its exit value is r0 of SVC_PROCESS_EXIT.
\<close>

datatype service_program =
    Exit usize
  | Request svc_request usize usize usize usize "usize \<times> usize \<times> usize \<times> usize \<Rightarrow> service_program"
  | Touch "mem \<Rightarrow> mem" "mem \<Rightarrow> service_program"

primrec run_program :: "'d spm_ipc svc_fn \<Rightarrow> service_program \<Rightarrow> 'd spm_ipc \<Rightarrow> 'd spm_ipc \<times> usize" where
  "run_program svc (Exit status) = (\<lambda>s. (s, status))"
| "run_program svc (Request q a0 a1 a2 a3 k) =
    (\<lambda>s. case svc (request_number q) a0 a1 a2 a3 s of (s, r) \<Rightarrow> run_program svc (k r) s)"
| "run_program svc (Touch f k) =
    (\<lambda>s. run_program svc (k (si_mem s)) (s\<lparr>si_mem := f (si_mem s)\<rparr>))"

type_synonym service_image = "service_handle \<times> service_vectors \<times> (usize \<Rightarrow> usize \<Rightarrow> service_program)"

definition run_image :: "'d spm_ipc svc_fn \<Rightarrow> service_image \<Rightarrow> 'd spm_ipc \<Rightarrow> 'd spm_ipc \<times> usize" where
  "run_image svc img s =
    run_program svc (snd (snd img) (read_u32 (si_mem s) (si_psp s + 24)) (read_u32 (si_mem s) (si_psp s))) s"

fun ipc_system :: "'d ipc_platform \<Rightarrow> service_image list \<Rightarrow> nat \<Rightarrow> 'd ipc_process list" where
  "ipc_system plat imgs 0 =
    map (\<lambda>img. service_process (\<lambda>s. (s, status_value ServiceFailure)) (fst img) (fst (snd img))) imgs"
| "ipc_system plat imgs (Suc n) =
    map (\<lambda>img. service_process (run_image (ipc_svc plat (ipc_system plat imgs n)) img)
           (fst img) (fst (snd img))) imgs"

lemma length_ipc_system [simp]: "length (ipc_system plat imgs n) = length imgs"
  by (cases n) simp_all

lemma ipc_ok_length: "length procs = length qs \<Longrightarrow> ipc_ok procs s = ipc_ok qs s"
  by (simp add: ipc_ok_def)

definition requests_keep :: "'d ipc_process list \<Rightarrow> 'd spm_ipc svc_fn \<Rightarrow> bool" where
  "requests_keep procs svc \<longleftrightarrow>
    (\<forall>n a0 a1 a2 a3. keeps_frame (ipc_ok procs) ipc_stack (svc n a0 a1 a2 a3))"

lemma keeps_frame_mem:
  assumes "\<And>m. keeps_frame (ipc_ok procs) ipc_stack (g m)"
  shows "keeps_frame (ipc_ok procs) ipc_stack (\<lambda>s. g (si_mem s) (s\<lparr>si_mem := f (si_mem s)\<rparr>))"
proof (rule keeps_frameI)
  fix s s' r assume "ipc_ok procs s" "g (si_mem s) (s\<lparr>si_mem := f (si_mem s)\<rparr>) = (s', r)"
  then show "ipc_ok procs s' \<and> frame_le (ipc_stack s) (ipc_stack s')"
    using keeps_frameD[OF assms, of "s\<lparr>si_mem := f (si_mem s)\<rparr>" "si_mem s" s' r]
    by (simp add: ipc_ok_def ipc_stack_def)
qed

lemma run_program_keeps:
  assumes "requests_keep procs svc"
  shows "keeps_frame (ipc_ok procs) ipc_stack (run_program svc p)"
proof (induction p)
  case (Exit w)
  then show ?case by (simp add: keeps_frame_return)
next
  case (Request q a0 a1 a2 a3 k)
  have req: "keeps_frame (ipc_ok procs) ipc_stack (svc (request_number q) a0 a1 a2 a3)"
    using assms by (simp add: requests_keep_def)
  have "keeps_frame (ipc_ok procs) ipc_stack (\<lambda>s. case svc (request_number q) a0 a1 a2 a3 s of
      (s, r) \<Rightarrow> run_program svc (k r) s)"
    by (rule keeps_frame_bind[OF req]) (rule Request, rule rangeI)
  then show ?case by simp
next
  case (Touch f k)
  show ?case unfolding run_program.simps
    by (rule keeps_frame_mem) (rule Touch, rule rangeI)
qed

lemma run_image_keeps:
  assumes "requests_keep procs svc"
  shows "keeps_frame (ipc_ok procs) ipc_stack (run_image svc img)"
proof (rule keeps_frameI)
  fix s s' r assume "ipc_ok procs s" "run_image svc img s = (s', r)"
  then show "ipc_ok procs s' \<and> frame_le (ipc_stack s) (ipc_stack s')"
    unfolding run_image_def using keeps_frameD[OF run_program_keeps[OF assms]] by blast
qed

lemma service_processes_keep:
  assumes "\<And>p. p \<in> set procs \<Longrightarrow>
    \<exists>run h v. p = service_process run h v \<and> keeps_frame (ipc_ok procs) ipc_stack run"
  shows "processes_keep procs"
  unfolding processes_keep_def
proof
  fix p assume "p \<in> set procs"
  then obtain run h v where p: "p = service_process run h v" "keeps_frame (ipc_ok procs) ipc_stack run"
    using assms by blast
  show "keeps_frame (ipc_ok procs) ipc_stack (\<lambda>s. (pr_init p s, ())) \<and>
      (\<forall>msg. keeps_frame (ipc_ok procs) ipc_stack (pr_call p msg))"
    unfolding p(1) using service_process_keeps[OF p(2)] by blast
qed

lemma ipc_system_keeps: "processes_keep (ipc_system plat imgs n)"
proof (induction n)
  case 0
  have "keeps_frame (ipc_ok (ipc_system plat imgs 0)) ipc_stack (\<lambda>s. (s, status_value ServiceFailure))"
    by (rule keeps_frame_return)
  then show ?case by (intro service_processes_keep) (simp, blast)
next
  case (Suc n)
  have "ipc_ok (ipc_system plat imgs (Suc n)) = ipc_ok (ipc_system plat imgs n)"
    by (rule ext, rule ipc_ok_length) simp
  then have "keeps_frame (ipc_ok (ipc_system plat imgs (Suc n))) ipc_stack
      (run_image (ipc_svc plat (ipc_system plat imgs n)) img)" for img
    using run_image_keeps[of "ipc_system plat imgs n"] ipc_svc_keeps[OF Suc]
    by (simp add: requests_keep_def)
  then show ?case by (intro service_processes_keep) (simp, blast)
qed

section \<open>One access, seen from the service\<close>

text \<open>The MPU holds exactly the configuration for process p and active connection c.\<close>

definition granted_for ::
    "'d ipc_platform \<Rightarrow> 'd ipc_process list \<Rightarrow> nat \<Rightarrow> connection \<Rightarrow> 'd spm_ipc \<Rightarrow> bool" where
  "granted_for plat procs p c s \<longleftrightarrow>
    (\<forall>v. pr_vectors (procs ! p) = Some v \<longrightarrow>
      mpu_programmed (process_config plat procs p v (Some c)) (si_mpu s))"

lemma update_vec_mapping_spec:
  assumes "ipc_ok procs s" "stack_active (ipc_stack s) = Some c"
    and p: "find_process_index procs (msg_handle (cn_msg c)) = Some p"
  shows "\<exists>s'. update_vec_mapping plat procs o' idx m s = s' \<and> ipc_ok procs s' \<and>
    ipc_stack s' = butlast (ipc_stack s) @ [Some (set_vec_mapping o' (unat idx) m c)] \<and>
    si_cell s' = si_cell s \<and> si_mem s' = si_mem s \<and> si_dev s' = si_dev s \<and>
    granted_for plat procs p (set_vec_mapping o' (unat idx) m c) s'"
proof -
  let ?c = "set_vec_mapping o' (unat idx) m c"
  obtain s1 where u: "update_vec_mapping plat procs o' idx m s = apply_mpu_config plat procs p s1"
    "ipc_ok procs s1" "ipc_stack s1 = butlast (ipc_stack s) @ [Some ?c]" "ipc_other s1 = ipc_other s"
    by (rule update_vec_mapping_eq[OF assms])
  have a: "stack_active (ipc_stack s1) = Some ?c" by (simp add: u(3) stack_active_def)
  have pl: "p < length procs" using find_process_index_Some[OF p] by simp
  have "granted_for plat procs p ?c (apply_mpu_config plat procs p s1)"
    unfolding granted_for_def
  proof (intro allI impI)
    fix v assume v: "pr_vectors (procs ! p) = Some v"
    show "mpu_programmed (process_config plat procs p v (Some ?c))
        (si_mpu (apply_mpu_config plat procs p s1))"
      unfolding apply_mpu_config_eq[OF u(2) pl v] a
      using mpu_programmed_configure[of "process_config plat procs p v (Some ?c)" "si_mpu s1"]
      by (simp add: process_config_def mpu_config_default_def)
  qed
  then show ?thesis
    using u apply_mpu_config_keeps[OF u(2), of plat p] by (simp add: ipc_other_def)
qed

lemma msg_check_ok: "\<not> msg_type (cn_msg c) <s 0 \<Longrightarrow> msg_check (msg_handle (cn_msg c)) c = Inr ()"
  by (simp add: msg_check_def)

lemma svc_access_in_spec:
  assumes ok: "ipc_ok procs s" and spm: "ipc_try_get_spm s = Inr ()"
    and c: "stack_active (ipc_stack s) = Some c"
    and p: "find_process_index procs (msg_handle (cn_msg c)) = Some p"
    and t: "\<not> msg_type (cn_msg c) <s 0"
    and pre: "prepare_invec c i = (c1, Inr (k, n, b))"
  shows "\<exists>s1. ipc_svc plat procs SVC_PSA_ACCESS_VEC (service_handle_value (msg_handle (cn_msg c))) i 0 0 s =
      (s1, 0, b, n, 0) \<and> ipc_ok procs s1 \<and>
    ipc_stack s1 = butlast (ipc_stack s) @ [Some (set_vec_mapping False (unat i) True c1)] \<and>
    si_cell s1 = si_cell s \<and> granted_for plat procs p (set_vec_mapping False (unat i) True c1) s1"
proof -
  let ?h = "msg_handle (cn_msg c)"
  obtain s3 where s3: "prepare_invec_raw (with_active ipc_take ipc_restore) ?h i s =
      (s3, Inr \<lparr>rv_base = b, rv_len = n\<rparr>)" "ipc_ok procs s3"
    "ipc_stack s3 = butlast (ipc_stack s) @ [Some c1]" "ipc_other s3 = ipc_other s"
    using ipc.prepare_invec_raw_spec[OF ok c msg_check_ok[OF t], of i] pre by auto
  have c1: "cn_msg c1 = cn_msg c"
    using pre by (auto simp: prepare_invec_def Let_def split: if_splits option.splits)
  have a: "stack_active (ipc_stack s3) = Some c1" by (simp add: s3(3) stack_active_def)
  obtain s1 where s1: "update_vec_mapping plat procs False i True s3 = s1" "ipc_ok procs s1"
    "ipc_stack s1 = butlast (ipc_stack s3) @ [Some (set_vec_mapping False (unat i) True c1)]"
    "si_cell s1 = si_cell s3" "granted_for plat procs p (set_vec_mapping False (unat i) True c1) s1"
    using update_vec_mapping_spec[OF s3(2) a, of p plat False i True] p c1 by auto
  show ?thesis
    using s1 s3 spm
    by (intro exI[of _ s1])
      (simp add: ipc_svc_def svc_handler_dispatch_def handle_svc_with_spm_def svc_access_def ipc_ops_def
        ipc_map_vec_def frame_setters svc_numbers ipc_other_def Let_def)
qed

lemma svc_release_in_spec:
  assumes ok: "ipc_ok procs s" and spm: "ipc_try_get_spm s = Inr ()"
    and c: "stack_active (ipc_stack s) = Some c"
    and p: "find_process_index procs (msg_handle (cn_msg c)) = Some p"
    and t: "\<not> msg_type (cn_msg c) <s 0"
    and mk: "mark_invec_unmapped c (unat i) = (c1, Inr ())"
  shows "\<exists>s1 x y z. ipc_svc plat procs SVC_PSA_RELEASE_VEC (service_handle_value (msg_handle (cn_msg c))) i 0 0 s =
      (s1, 0, x, y, z) \<and> ipc_ok procs s1 \<and>
    ipc_stack s1 = butlast (ipc_stack s) @ [Some (set_vec_mapping False (unat i) False c1)] \<and>
    si_cell s1 = si_cell s \<and> granted_for plat procs p (set_vec_mapping False (unat i) False c1) s1"
proof -
  let ?h = "msg_handle (cn_msg c)"
  obtain s3 where s3: "finish_invec_raw (with_active ipc_take ipc_restore) ?h i s = (s3, Inr ())"
    "ipc_ok procs s3" "ipc_stack s3 = butlast (ipc_stack s) @ [Some c1]" "ipc_other s3 = ipc_other s"
    using ipc.finish_invec_raw_spec[OF ok c msg_check_ok[OF t], of i] mk by auto
  have c1: "cn_msg c1 = cn_msg c"
    using mk by (auto simp: mark_invec_unmapped_def split: if_splits option.splits)
  have a: "stack_active (ipc_stack s3) = Some c1" by (simp add: s3(3) stack_active_def)
  obtain s1 where s1: "update_vec_mapping plat procs False i False s3 = s1" "ipc_ok procs s1"
    "ipc_stack s1 = butlast (ipc_stack s3) @ [Some (set_vec_mapping False (unat i) False c1)]"
    "si_cell s1 = si_cell s3" "granted_for plat procs p (set_vec_mapping False (unat i) False c1) s1"
    using update_vec_mapping_spec[OF s3(2) a, of p plat False i False] p c1 by auto
  show ?thesis
    using s1 s3 spm
    by (intro exI[of _ s1])
      (simp add: ipc_svc_def svc_handler_dispatch_def handle_svc_with_spm_def svc_release_def ipc_ops_def
        ipc_unmap_vec_def frame_setters svc_numbers ipc_other_def Let_def)
qed

text \<open>Between two supervisor calls the service may do anything that leaves the dispatcher alone.\<close>

definition leaves_spm :: "'d ipc_process list \<Rightarrow> ('d spm_ipc \<Rightarrow> 'd spm_ipc \<times> 'r) \<Rightarrow> bool" where
  "leaves_spm procs f \<longleftrightarrow>
    (\<forall>s s' r. ipc_ok procs s \<longrightarrow> f s = (s', r) \<longrightarrow>
      ipc_ok procs s' \<and> ipc_stack s' = ipc_stack s \<and> si_cell s' = si_cell s)"

definition mark_in :: "nat \<Rightarrow> bool \<Rightarrow> connection \<Rightarrow> connection" where
  "mark_in k m c = c\<lparr>invec_mapped := (invec_mapped c)[k := m], invec_unmapped := (invec_unmapped c)[k := \<not> m]\<rparr>"

lemma access_invec_isolated_core:
  assumes ok: "ipc_ok procs s" and spm: "ipc_try_get_spm s = Inr ()"
    and c: "stack_active (ipc_stack s) = Some c" and h: "msg_handle (cn_msg c) = h"
    and p: "find_process_index procs h = Some p" and t: "\<not> msg_type (cn_msg c) <s 0"
    and i: "unat i < 4" "\<not> invec_mapped c ! unat i" "invec_accessed c ! unat i = 0"
    and f: "\<forall>sl. leaves_spm procs (f sl)"
  shows "\<exists>s1 s2 q s3. svc_api_access_invec (ipc_svc plat procs) h i f s = (s3, Inr q) \<and>
    f (slice_of (invec_base c ! unat i) (in_len_of c (unat i))) s1 = (s2, q) \<and>
    ipc_ok procs s1 \<and> ipc_stack s1 = butlast (ipc_stack s) @ [Some (mark_in (unat i) True c)] \<and>
    granted_for plat procs p (mark_in (unat i) True c) s1 \<and>
    ipc_ok procs s3 \<and> ipc_stack s3 = butlast (ipc_stack s) @ [Some (mark_in (unat i) False c)] \<and>
    granted_for plat procs p (mark_in (unat i) False c) s3 \<and> si_cell s3 = si_cell s"
proof -
  let ?k = "unat i" and ?svc = "ipc_svc plat procs"
  have wf: "connection_wf c" using ipc_take_some[OF ok c] by blast
  note w = connection_wfD[OF wf]
  have p': "find_process_index procs (msg_handle (cn_msg c)) = Some p" using p h by simp
  obtain s1 where s1: "?svc SVC_PSA_ACCESS_VEC (service_handle_value h) i 0 0 s =
      (s1, 0, invec_base c ! ?k, in_len_of c ?k, 0)" "ipc_ok procs s1"
    "ipc_stack s1 = butlast (ipc_stack s) @ [Some (mark_in ?k True c)]" "si_cell s1 = si_cell s"
    "granted_for plat procs p (mark_in ?k True c) s1"
    using svc_access_in_spec[OF ok spm c p' t, of i, where plat = plat] prepare_invec_eq[OF wf, of i] i h
    by (auto simp: Let_def set_vec_mapping_def mark_in_def)
  obtain s2 q where fr: "f (slice_of (invec_base c ! ?k) (in_len_of c ?k)) s1 = (s2, q)" by fastforce
  have s2: "ipc_ok procs s2" "ipc_stack s2 = ipc_stack s1" "si_cell s2 = si_cell s1"
    using f[rule_format, unfolded leaves_spm_def] s1(2) fr by blast+
  let ?c = "mark_in ?k True c"
  have a: "stack_active (ipc_stack s2) = Some ?c" by (simp add: s2(2) s1(3) stack_active_def)
  have wf2: "connection_wf ?c" using wf by (simp add: mark_in_def connection_wf_def)
  have spm2: "ipc_try_get_spm s2 = Inr ()" using spm s2(3) s1(4) by (simp add: ipc_try_get_spm_def)
  have m: "msg_handle (cn_msg ?c) = h" "cn_msg ?c = cn_msg c" using h by (simp_all add: mark_in_def)
  have "mark_invec_unmapped ?c ?k = (?c\<lparr>invec_unmapped := (invec_unmapped ?c)[?k := True]\<rparr>, Inr ())"
    using w i(1) by (simp add: mark_invec_unmapped_eq[OF wf2]) (simp add: mark_in_def)
  then obtain s3 x y z where s3: "?svc SVC_PSA_RELEASE_VEC (service_handle_value h) i 0 0 s2 = (s3, 0, x, y, z)"
    "ipc_ok procs s3" "ipc_stack s3 = butlast (ipc_stack s2) @ [Some (mark_in ?k False c)]"
    "si_cell s3 = si_cell s2" "granted_for plat procs p (mark_in ?k False c) s3"
    using svc_release_in_spec[OF s2(1) spm2 a, of p i, where plat = plat] p t m
    by (auto simp: set_vec_mapping_def mark_in_def)
  have r0: "check_svc_result 0 = Inr ()" using check_svc_result_value[of Success] by simp
  have "svc_api_access_invec ?svc h i f s = (s3, Inr q)"
    using s1(1) s3(1) fr r0
    by (simp add: svc_api_access_invec_def svc_access_invec_def svc_access_vec_def svc_release_invec_def
        slice_of_def split: if_splits)
  then show ?thesis
    using s1 s2 s3 fr by (intro exI[of _ s1] exI[of _ s2] exI[of _ q] exI[of _ s3]) simp
qed

section \<open>Properties\<close>

text \<open>C6. The closed isolated system: whatever the service images do (any sequence of requests, calls of
  one another to any depth, and memory accesses), a call through the API leaves the connection
  stack as it was and the lock free, and the MPU programmed for the process that was running
  before it.\<close>

theorem isolated_system_balanced:
  assumes "ipc_ok (ipc_system plat imgs n) s"
    and "ipc_api_call plat (ipc_system plat imgs n) h ctrl iv ov ca s = (s', r)"
  shows "ipc_ok (ipc_system plat imgs n) s' \<and> ipc_stack s' = ipc_stack s \<and>
    (\<forall>i v. active_process (ipc_system plat imgs n) s = Some i \<longrightarrow>
       pr_vectors (ipc_system plat imgs n ! i) = Some v \<longrightarrow>
       s' = s \<or> mpu_programmed
         (process_config plat (ipc_system plat imgs n) i v (stack_active (ipc_stack s))) (si_mpu s'))"
  using ipc_call_restores_core[OF ipc_system_keeps assms] .

definition sample_image :: service_image where
  "sample_image = (Crypto, sample_vectors, \<lambda>entry arg. Request Access arg 0 0 0 (\<lambda>_. Exit 0))"

lemma one_call_ipc_system_ok: "ipc_ok (ipc_system plat [sample_image] n) one_call_ipc"
  using one_call_ipc_ok(1) ipc_ok_length[of sample_procs "ipc_system plat [sample_image] n" one_call_ipc]
  by (simp add: sample_procs_def)

theorem isolated_system_balanced_witness:
  "\<exists>s' r. ipc_api_call sample_plat (ipc_system sample_plat [sample_image] 3) Crypto
      (ctrl_new 1 0 True 0 True) 0 0 SECURE_UNPRIVILEGED one_call_ipc = (s', r) \<and>
    ipc_stack s' = [Some sample_connection]"
proof -
  obtain s' r where run: "ipc_api_call sample_plat (ipc_system sample_plat [sample_image] 3) Crypto
      (ctrl_new 1 0 True 0 True) 0 0 SECURE_UNPRIVILEGED one_call_ipc = (s', r)" by fastforce
  show ?thesis
    using isolated_system_balanced[OF one_call_ipc_system_ok run] run one_call_ipc_ok(2) by auto
qed

text \<open>C16. Reading an input vector across the isolation boundary: for the service that owns the active
  connection, a vector not mapped yet is handed to the closure as exactly its recorded base and
  length; while the closure runs the MPU holds the service's configuration with the vector
  mapped, and when access_invec returns it holds the one without it.\<close>

theorem access_invec_isolated:
  assumes "ipc_ok procs s" "ipc_try_get_spm s = Inr ()" "stack_active (ipc_stack s) = Some c"
    and "msg_handle (cn_msg c) = h" "find_process_index procs h = Some p" "\<not> msg_type (cn_msg c) <s 0"
    and "unat i < 4" "\<not> invec_mapped c ! unat i" "invec_accessed c ! unat i = 0"
    and "\<forall>sl. leaves_spm procs (f sl)"
  shows "\<exists>s1 s2 q s3. svc_api_access_invec (ipc_svc plat procs) h i f s = (s3, Inr q) \<and>
    f (slice_of (invec_base c ! unat i) (in_len_of c (unat i))) s1 = (s2, q) \<and>
    granted_for plat procs p (mark_in (unat i) True c) s1 \<and>
    ipc_stack s3 = butlast (ipc_stack s) @ [Some (mark_in (unat i) False c)] \<and>
    granted_for plat procs p (mark_in (unat i) False c) s3"
  using access_invec_isolated_core[OF assms, of plat] by blast

lemma sample_conn_facts:
  "msg_handle (cn_msg sample_connection) = Crypto" "\<not> msg_type (cn_msg sample_connection) <s 0"
  "\<not> invec_mapped sample_connection ! 1" "invec_accessed sample_connection ! 1 = 0"
  "find_process_index sample_procs Crypto = Some 0"
  by (simp_all add: sample_connection_def psa_msg_new_def word_sless_alt sample_procs_def
      service_process_def numeral_eq_Suc)

lemma stack_active_one_call: "stack_active (ipc_stack one_call_ipc) = Some sample_connection"
  by (simp add: one_call_ipc_ok(2) stack_active_def)

lemma leaves_spm_return: "leaves_spm procs (\<lambda>s. (s, r))"
  by (simp add: leaves_spm_def)

theorem access_invec_isolated_witness:
  "\<exists>s3. svc_api_access_invec (ipc_svc sample_plat sample_procs) Crypto 1 (\<lambda>sl s. (s, snd sl)) one_call_ipc =
      (s3, Inr 0) \<and> ipc_stack s3 = [Some (mark_in 1 False sample_connection)]"
proof -
  have "in_len_of sample_connection 1 = 0"
    by (simp add: in_len_of_def sample_connection_def psa_msg_new_def numeral_eq_Suc mu_unwrap_or_def
        mu_none_def mu_is_some_def list_get_def PSA_MAX_IOVEC_def)
  then show ?thesis
    using access_invec_isolated[OF one_call_ipc_ok(1,4) stack_active_one_call sample_conn_facts(1,5,2),
        of 1 "\<lambda>sl s. (s, snd sl)" sample_plat] sample_conn_facts(3,4)
    by (auto simp: leaves_spm_return one_call_ipc_ok(2) slice_of_def empty_slice_def)
qed

text \<open>C39. The isolated build lets a service map an input vector again: after an access has completed, a
  second access of the same vector in the same call succeeds too, where the function-call build
  refuses it.\<close>

theorem isolated_reaccess:
  assumes "ipc_ok procs s" "ipc_try_get_spm s = Inr ()" "stack_active (ipc_stack s) = Some c"
    and "msg_handle (cn_msg c) = h" "find_process_index procs h = Some p" "\<not> msg_type (cn_msg c) <s 0"
    and "unat i < 4" "\<not> invec_mapped c ! unat i" "invec_accessed c ! unat i = 0"
    and "\<forall>sl. leaves_spm procs (f sl)"
  shows "\<exists>s3 q s4 q'. svc_api_access_invec (ipc_svc plat procs) h i f s = (s3, Inr q) \<and>
    svc_api_access_invec (ipc_svc plat procs) h i f s3 = (s4, Inr q')"
proof -
  have wf: "connection_wf c" using ipc_take_some[OF assms(1,3)] by blast
  let ?c = "mark_in (unat i) False c"
  obtain q s3 where s3: "svc_api_access_invec (ipc_svc plat procs) h i f s = (s3, Inr q)"
    "ipc_ok procs s3" "ipc_stack s3 = butlast (ipc_stack s) @ [Some ?c]" "si_cell s3 = si_cell s"
    using access_invec_isolated_core[OF assms, of plat] by blast
  have "stack_active (ipc_stack s3) = Some ?c" by (simp add: s3(3) stack_active_def)
  moreover have "ipc_try_get_spm s3 = Inr ()" using assms(2) s3(4) by (simp add: ipc_try_get_spm_def)
  moreover have "msg_handle (cn_msg ?c) = h" "\<not> msg_type (cn_msg ?c) <s 0"
    "\<not> invec_mapped ?c ! unat i" "invec_accessed ?c ! unat i = 0"
    using assms(4,6,7,9) connection_wfD[OF wf] by (simp_all add: mark_in_def)
  ultimately obtain s4 q' where "svc_api_access_invec (ipc_svc plat procs) h i f s3 = (s4, Inr q')"
    using access_invec_isolated_core[OF s3(2) _ _ _ assms(5) _ assms(7) _ _ assms(10), of _ plat] by blast
  then show ?thesis using s3(1) by blast
qed

theorem isolated_reaccess_witness:
  "\<exists>s3 q s4 q'.
    svc_api_access_invec (ipc_svc sample_plat sample_procs) Crypto 1 (\<lambda>sl s. (s, ())) one_call_ipc = (s3, Inr q) \<and>
    svc_api_access_invec (ipc_svc sample_plat sample_procs) Crypto 1 (\<lambda>sl s. (s, ())) s3 = (s4, Inr q')"
  using isolated_reaccess[OF one_call_ipc_ok(1,4) stack_active_one_call sample_conn_facts(1,5,2),
      of 1 "\<lambda>sl s. (s, ())" sample_plat] sample_conn_facts(3,4)
  by (auto simp: leaves_spm_return)

end
