(* ===== verification/Psc3Boot.thy ===== *)
theory Psc3Boot
  imports Startup Attribution Nvic Svc
begin

text \<open>
  The boot of the PSC3 secure images (boards/psc3m5_evk/secure/src/main.rs and secure_ipc/src/main.rs):
  chip set-up, interrupt targets, stack limit, AIRCR, configure_security, publication of the dispatcher
  and the entry of the non-secure image.  The chip crate (tock_psc3) is a record of functions over
  the hardware it owns; the printing of a build with debug assertions is left out.
\<close>

section \<open>The chip and the state\<close>

record 'h psc3_chip =
  sys_init_enable_cache :: "'h \<Rightarrow> 'h"
  preinit_peripherals :: "'h \<Rightarrow> 'h"
  init_system :: "'h \<Rightarrow> 'h \<times> (unit + unit)"
  enable_scb0 :: "'h \<Rightarrow> 'h"
  configure_gpio_secure_states :: "'h \<Rightarrow> 'h \<times> (unit + unit)"
  init_scb0_uart_pins :: "'h \<Rightarrow> 'h \<times> (unit + unit)"
  set_standard_uart_mode :: "'h \<Rightarrow> 'h"
  enable_scb :: "'h \<Rightarrow> 'h"

record 'h psc3_state =
  pb_chip :: 'h
  pb_nvic :: nvic_regs
  pb_msplim :: u32
  pb_aircr :: u16
  pb_sec :: security_state
  pb_spm :: "unit once_lock"
  pb_mem :: mem

definition on_chip :: "('h \<Rightarrow> 'h) \<Rightarrow> 'h psc3_state \<Rightarrow> 'h psc3_state" where
  "on_chip f s = s\<lparr>pb_chip := f (pb_chip s)\<rparr>"

definition try_chip :: "('h \<Rightarrow> 'h \<times> (unit + unit)) \<Rightarrow> 'h psc3_state \<Rightarrow> 'h psc3_state \<times> (unit + unit)" where
  "try_chip f s = (case f (pb_chip s) of (h, r) \<Rightarrow> (s\<lparr>pb_chip := h\<rparr>, r))"

section \<open>start\<close>

definition init_chip :: "'h psc3_chip \<Rightarrow> 'h psc3_state \<Rightarrow> 'h psc3_state \<times> (unit + unit)" where
  "init_chip c s =
    (let s = on_chip (sys_init_enable_cache c) s;
         s = on_chip (preinit_peripherals c) s
     in case try_chip (init_system c) s of
          (s, Inl _) \<Rightarrow> (s, Inl ())
        | (s, Inr _) \<Rightarrow>
            (let s = on_chip (enable_scb0 c) s in
             case try_chip (configure_gpio_secure_states c) s of
               (s, Inl _) \<Rightarrow> (s, Inl ())
             | (s, Inr _) \<Rightarrow>
                 (case try_chip (init_scb0_uart_pins c) s of
                    (s, Inl _) \<Rightarrow> (s, Inl ())
                  | (s, Inr _) \<Rightarrow>
                      (let s = on_chip (set_standard_uart_mode c) s;
                           s = on_chip (enable_scb c) s
                       in (s, Inr ())))))"

text \<open>The four addresses of an image's non-secure side.\<close>

record ns_memory =
  ns_flash_start :: u32
  ns_flash_limit :: u32
  ns_ram_start :: u32
  ns_ram_limit :: u32

definition secure_ns_memory :: ns_memory where
  "secure_ns_memory = \<lparr>ns_flash_start = 0x22020000, ns_flash_limit = 0x2203FFFF,
     ns_ram_start = 0x24004000, ns_ram_limit = 0x2400EFFF\<rparr>"

definition ipc_ns_memory :: ns_memory where
  "ipc_ns_memory = \<lparr>ns_flash_start = 0x22020000, ns_flash_limit = 0x2203FFFF,
     ns_ram_start = 0x24005100, ns_ram_limit = 0x2400EFFF\<rparr>"

definition configure_core :: "ns_memory \<Rightarrow> u32 \<Rightarrow> 'h psc3_state \<Rightarrow> ('h psc3_state \<times> (unit + unit)) option" where
  "configure_core ns stack_base s =
    (case set_interrupt_non_secure 0 140 (pb_nvic s) of
       None \<Rightarrow> None
     | Some n \<Rightarrow>
         let s = s\<lparr>pb_nvic := enable_all n\<rparr>;
             s = s\<lparr>pb_msplim := stack_base\<rparr>;
             s = s\<lparr>pb_aircr := configure_aircr (pb_aircr s)\<rparr>
         in (case configure_security (ns_flash_start ns) (ns_flash_limit ns)
                    (ns_ram_start ns) (ns_ram_limit ns) (pb_sec s) of
               (sec, Inl _) \<Rightarrow> Some (s\<lparr>pb_sec := sec\<rparr>, Inl ())
             | (sec, Inr _) \<Rightarrow> Some (s\<lparr>pb_sec := sec\<rparr>, Inr ())))"

definition psc3_start ::
    "ns_memory \<Rightarrow> 'h psc3_chip \<Rightarrow> u32 \<Rightarrow> 'h psc3_state \<Rightarrow> ('h psc3_state \<times> (unit + u32 \<times> u32)) option" where
  "psc3_start ns c stack_base s =
    (case init_chip c s of
       (s, Inl _) \<Rightarrow> Some (s, Inl ())
     | (s, Inr _) \<Rightarrow>
         (case configure_core ns stack_base s of
            None \<Rightarrow> None
          | Some (s, Inl _) \<Rightarrow> Some (s, Inl ())
          | Some (s, Inr _) \<Rightarrow>
              let s = s\<lparr>pb_spm := fst (once_try_set () (pb_spm s))\<rparr>
              in Some (s, Inr (jump_to_nonsecure (ns_flash_start ns) (pb_mem s)))))"

section \<open>The process table of the isolated image\<close>

text \<open>The vector table at the head of a service binary, nine words of flash.\<close>

definition read_service_vectors :: "mem \<Rightarrow> usize \<Rightarrow> service_vectors" where
  "read_service_vectors m a =
    \<lparr>sv_version = read_u32 m a, sv_init_entry = read_u32 m (a + 4), sv_call_entry = read_u32 m (a + 8),
     sv_rom_start = read_u32 m (a + 12), sv_rom_limit = read_u32 m (a + 16),
     sv_ram_start = read_u32 m (a + 20), sv_ram_limit = read_u32 m (a + 24),
     sv_stack_limit = read_u32 m (a + 28), sv_stack_top = read_u32 m (a + 32)\<rparr>"

text \<open>The generated configuration: a handle and an address per service; prog is the code at the
  address.\<close>

definition flash_images ::
    "(usize \<Rightarrow> usize \<Rightarrow> usize \<Rightarrow> service_program) \<Rightarrow> mem \<Rightarrow> (service_handle \<times> usize) list \<Rightarrow> service_image list" where
  "flash_images prog m config = map (\<lambda>(h, a). (h, read_service_vectors m a, prog a)) config"

text \<open>The dispatcher as main publishes it: an empty stack, no service initialised.\<close>

definition ipc_booted :: "nat \<Rightarrow> unit once_lock \<Rightarrow> mpu_regs \<Rightarrow> mem \<Rightarrow> 'd \<Rightarrow> 'd spm_ipc" where
  "ipc_booted n cell mpu m d =
    \<lparr>si_state = mutex_new (spm_ipc_state_new n), si_cell = cell, si_mpu = mpu, si_mem = m,
     si_psp = 0, si_psplim = 0, si_dev = d\<rparr>"

definition psc3_ipc_start ::
    "'h psc3_chip \<Rightarrow> u32 \<Rightarrow> (service_handle \<times> usize) list \<Rightarrow> mpu_regs \<Rightarrow> 'd \<Rightarrow> 'h psc3_state \<Rightarrow>
     ('h psc3_state \<times> (unit + 'd spm_ipc \<times> u32 \<times> u32)) option" where
  "psc3_ipc_start c stack_base config mpu d s =
    (case psc3_start ipc_ns_memory c stack_base s of
       None \<Rightarrow> None
     | Some (s, Inl _) \<Rightarrow> Some (s, Inl ())
     | Some (s, Inr entry) \<Rightarrow>
         Some (s, Inr (ipc_booted (length config) (pb_spm s) mpu (pb_mem s) d, entry)))"

text \<open>Calls of the clients of the booted system, one after the other.\<close>

fun client_calls ::
    "'d ipc_platform \<Rightarrow> 'd ipc_process list \<Rightarrow>
     (service_handle \<times> ctrl_param \<times> usize \<times> usize \<times> caller_attributes) list \<Rightarrow> 'd spm_ipc \<Rightarrow> 'd spm_ipc" where
  "client_calls plat procs [] s = s"
| "client_calls plat procs ((h, ctrl, iv, ov, ca) # cs) s =
    client_calls plat procs cs (fst (ipc_api_call plat procs h ctrl iv ov ca s))"

section \<open>The partition\<close>

definition psc3_attribute :: "u32 \<Rightarrow> u32 \<Rightarrow> sau_attribute" where
  "psc3_attribute ram_start x =
    (if 0x22020000 \<le> x \<and> x \<le> 0x2203FFFF \<or> ram_start \<le> x \<and> x \<le> 0x2400FFFF \<or>
        0x42000000 \<le> x \<and> x \<le> 0x4FFFFFFF then NonSecure
     else if 0x3201FF00 \<le> x \<and> x \<le> 0x3201FFFF then NonSecureCallable
     else Secure)"

definition ns_regions :: "ns_memory \<Rightarrow> sau_region list" where
  "ns_regions ns = security_regions (ns_flash_start ns) (ns_flash_limit ns) (ns_ram_start ns) (ns_ram_limit ns)"

lemma attribute_of_psc3:
  assumes "ns \<in> {secure_ns_memory, ipc_ns_memory}"
  shows "attribute_of (ns_regions ns) x = psc3_attribute (ns_ram_start ns) x"
proof -
  have "attribute_of (ns_regions secure_ns_memory) x = psc3_attribute (ns_ram_start secure_ns_memory) x"
    by (simp add: attribute_of_def ns_regions_def security_regions_def Let_def hits_def psc3_attribute_def
        secure_ns_memory_def word_le_nat_alt)
  moreover have "attribute_of (ns_regions ipc_ns_memory) x = psc3_attribute (ns_ram_start ipc_ns_memory) x"
    by (simp add: attribute_of_def ns_regions_def security_regions_def Let_def hits_def psc3_attribute_def
        ipc_ns_memory_def word_le_nat_alt)
  ultimately show ?thesis using assms by auto
qed

lemma ns_regions_ok:
  assumes "ns \<in> {secure_ns_memory, ipc_ns_memory}"
  shows "\<forall>r\<in>set (ns_regions ns). sau_region_ok r" "length (ns_regions ns) = 7"
  using assms
  by (auto simp: ns_regions_def security_regions_def Let_def secure_ns_memory_def ipc_ns_memory_def sau_region_ok_def)

lemma init_chip_frame:
  "init_chip c s = (s', r) \<Longrightarrow> s' = s\<lparr>pb_chip := pb_chip s'\<rparr>"
  by (auto simp: init_chip_def on_chip_def try_chip_def Let_def split: prod.splits sum.splits)

text \<open>The PSC3's register files and attribution unit at reset.\<close>

definition psc3_hardware :: "security_state \<Rightarrow> bool" where
  "psc3_hardware s \<longleftrightarrow> 7 \<le> length (ppc_ns_attrs (sec_ppc s)) \<and> 7 \<le> length (ppc_ns_p_attrs (sec_ppc s)) \<and>
    7 \<le> length (ppc_s_p_attrs (sec_ppc s)) \<and> 56 \<le> length (ppc_pc_masks (sec_ppc s)) \<and>
    7 \<le> region_numbers (sec_sau s) \<and> slots_off 7 (sec_sau s)"

lemma configure_core_ok:
  assumes "psc3_hardware (pb_sec s)" "ns \<in> {secure_ns_memory, ipc_ns_memory}"
  shows "\<exists>n sec. configure_core ns stack_base s =
      Some (s\<lparr>pb_nvic := n, pb_msplim := stack_base, pb_aircr := configure_aircr (pb_aircr s), pb_sec := sec\<rparr>, Inr ()) \<and>
    (\<forall>i. irq_bit (nv_itns n) i \<longleftrightarrow> irq_bit (nv_itns (pb_nvic s)) i \<or> i \<le> 140) \<and>
    (\<forall>x. attribution (sec_sau sec) x = psc3_attribute (ns_ram_start ns) x) \<and>
    (\<forall>q<222. get_permissions (of_nat q) (sec_ppc sec) =
        Some (q \<noteq> 191, q = 126 \<or> q = 185, region_attr (ppc_s_p_attrs (sec_ppc (pb_sec s))) q))"
proof -
  note hw = assms(1)[unfolded psc3_hardware_def]
  note ok = ns_regions_ok[OF assms(2)]
  have "unat (140 :: u32) < 512" by simp
  from set_interrupt_non_secure_exact[OF this, of 0 "pb_nvic s"]
  obtain n where n: "set_interrupt_non_secure 0 140 (pb_nvic s) = Some n"
    "\<forall>i. irq_bit (nv_itns n) i \<longleftrightarrow> irq_bit (nv_itns (pb_nvic s)) i \<or> i \<le> 140"
    by auto
  obtain sec sau where sec: "configure_security (ns_flash_start ns) (ns_flash_limit ns) (ns_ram_start ns)
      (ns_ram_limit ns) (pb_sec s) = (sec, Inr ())"
    "\<forall>q<222. get_permissions (of_nat q) (sec_ppc sec) =
        Some (q \<noteq> 191, q = 126 \<or> q = 185, region_attr (ppc_s_p_attrs (sec_ppc (pb_sec s))) q)"
    "set_regions 0 (ns_regions ns) (sec_sau (pb_sec s)) = (sau, Inr ())" "sec_sau sec = sau_enable sau"
    using security_policy_core[of "pb_sec s"] hw ok(1) unfolding ns_regions_def by blast
  have "length (ns_regions ns) \<le> unat (region_numbers (sec_sau (pb_sec s)))"
    "slots_off (length (ns_regions ns)) (sec_sau (pb_sec s))"
    using hw ok(2) by (simp_all add: word_le_nat_alt)
  from set_regions_attribution[OF this(1) ok(1) this(2)] sec(3)
  have "\<forall>x. attribution (sec_sau sec) x = psc3_attribute (ns_ram_start ns) x"
    by (auto simp: sec(4) attribute_of_psc3[OF assms(2)])
  moreover have "\<forall>i. irq_bit (nv_itns (enable_all n)) i \<longleftrightarrow> irq_bit (nv_itns (pb_nvic s)) i \<or> i \<le> 140"
    using n(2) by (simp add: enable_all_def)
  ultimately show ?thesis
    using sec(2) by (intro exI[of _ "enable_all n"] exI[of _ sec]) (simp add: configure_core_def n(1) sec(1) Let_def)
qed

text \<open>The boot, as a whole.\<close>

lemma psc3_boot_core:
  assumes "psc3_hardware (pb_sec s)" "ns \<in> {secure_ns_memory, ipc_ns_memory}" "pb_spm s = once_new"
  shows "(snd (init_chip c s) = Inr () \<longrightarrow>
      (\<exists>s'. psc3_start ns c stack_base s =
          Some (s', Inr (read_u32 (pb_mem s) 0x22020000, read_u32 (pb_mem s) 0x22020004)) \<and>
        (\<forall>x. attribution (sec_sau (pb_sec s')) x = psc3_attribute (ns_ram_start ns) x) \<and>
        (\<forall>q<222. get_permissions (of_nat q) (sec_ppc (pb_sec s')) =
            Some (q \<noteq> 191, q = 126 \<or> q = 185, region_attr (ppc_s_p_attrs (sec_ppc (pb_sec s))) q)) \<and>
        (\<forall>i. irq_bit (nv_itns (pb_nvic s')) i \<longleftrightarrow> irq_bit (nv_itns (pb_nvic s)) i \<or> i \<le> 140) \<and>
        (\<forall>n. bit (pb_aircr s') n \<longleftrightarrow> n = 3 \<or> bit (pb_aircr s) n) \<and> pb_msplim s' = stack_base \<and>
        once_try_get (pb_spm s') = Inr ())) \<and>
    (snd (init_chip c s) = Inl () \<longrightarrow>
      (\<exists>h. psc3_start ns c stack_base s = Some (s\<lparr>pb_chip := h\<rparr>, Inl ())))"
proof (intro conjI impI)
  obtain s1 r where i: "init_chip c s = (s1, r)" by fastforce
  have s1: "s1 = s\<lparr>pb_chip := pb_chip s1\<rparr>" by (rule init_chip_frame[OF i])
  have v: "pb_sec s1 = pb_sec s" "pb_nvic s1 = pb_nvic s" "pb_aircr s1 = pb_aircr s" "pb_spm s1 = once_new"
    "pb_mem s1 = pb_mem s"
    using assms(3) by (subst s1, simp)+
  show "\<exists>h. psc3_start ns c stack_base s = Some (s\<lparr>pb_chip := h\<rparr>, Inl ())" if "snd (init_chip c s) = Inl ()"
    using that i s1 by (auto simp: psc3_start_def)
  have fs: "ns_flash_start ns = 0x22020000"
    using assms(2) by (auto simp: secure_ns_memory_def ipc_ns_memory_def)
  assume ok: "snd (init_chip c s) = Inr ()"
  have hw: "psc3_hardware (pb_sec s1)" using assms(1) v(1) by simp
  from configure_core_ok[OF hw assms(2), of stack_base]
  obtain n sec where c: "configure_core ns stack_base s1 =
      Some (s1\<lparr>pb_nvic := n, pb_msplim := stack_base, pb_aircr := configure_aircr (pb_aircr s1), pb_sec := sec\<rparr>, Inr ())"
    "\<forall>i. irq_bit (nv_itns n) i \<longleftrightarrow> irq_bit (nv_itns (pb_nvic s)) i \<or> i \<le> 140"
    "\<forall>x. attribution (sec_sau sec) x = psc3_attribute (ns_ram_start ns) x"
    "\<forall>q<222. get_permissions (of_nat q) (sec_ppc sec) =
        Some (q \<noteq> 191, q = 126 \<or> q = 185, region_attr (ppc_s_p_attrs (sec_ppc (pb_sec s))) q)"
    unfolding v by blast
  let ?e = "s1\<lparr>pb_nvic := n, pb_msplim := stack_base, pb_aircr := configure_aircr (pb_aircr s1), pb_sec := sec,
    pb_spm := fst (once_try_set () (pb_spm s1))\<rparr>"
  have run: "psc3_start ns c stack_base s =
      Some (?e, Inr (read_u32 (pb_mem s) 0x22020000, read_u32 (pb_mem s) 0x22020004))"
    using ok i c(1) by (simp add: psc3_start_def Let_def jump_to_nonsecure_def fs v)
  have "once_try_get (pb_spm ?e) = Inr ()"
    by (simp add: v once_try_set_def once_try_get_def once_new_def Let_def)
  then show "\<exists>s'. psc3_start ns c stack_base s =
          Some (s', Inr (read_u32 (pb_mem s) 0x22020000, read_u32 (pb_mem s) 0x22020004)) \<and>
        (\<forall>x. attribution (sec_sau (pb_sec s')) x = psc3_attribute (ns_ram_start ns) x) \<and>
        (\<forall>q<222. get_permissions (of_nat q) (sec_ppc (pb_sec s')) =
            Some (q \<noteq> 191, q = 126 \<or> q = 185, region_attr (ppc_s_p_attrs (sec_ppc (pb_sec s))) q)) \<and>
        (\<forall>i. irq_bit (nv_itns (pb_nvic s')) i \<longleftrightarrow> irq_bit (nv_itns (pb_nvic s)) i \<or> i \<le> 140) \<and>
        (\<forall>n. bit (pb_aircr s') n \<longleftrightarrow> n = 3 \<or> bit (pb_aircr s) n) \<and> pb_msplim s' = stack_base \<and>
        once_try_get (pb_spm s') = Inr ()"
    using run c(2-4) configure_aircr_bits[of "pb_aircr s"] v(3)
    by (intro exI[of _ ?e]) simp
qed

section \<open>Properties\<close>

text \<open>C8. The boot of either PSC3 image.  When the chip set-up succeeds, start returns the two words at
  the head of the non-secure image, and then exactly the image's flash, RAM and peripheral windows
  are non-secure and exactly the 256 bytes of veneers are callable, every peripheral is open as the
  policy says, interrupts 0 to 140 target the non-secure state and the dispatcher is published; when it
  fails, nothing is opened, nothing is published and the non-secure image is not entered.\<close>

theorem psc3_boot_partition:
  assumes "psc3_hardware (pb_sec s)" "ns \<in> {secure_ns_memory, ipc_ns_memory}" "pb_spm s = once_new"
  shows "(snd (init_chip c s) = Inr () \<longrightarrow>
      (\<exists>s'. psc3_start ns c stack_base s =
          Some (s', Inr (read_u32 (pb_mem s) 0x22020000, read_u32 (pb_mem s) 0x22020004)) \<and>
        (\<forall>x. attribution (sec_sau (pb_sec s')) x = psc3_attribute (ns_ram_start ns) x) \<and>
        (\<forall>q<222. get_permissions (of_nat q) (sec_ppc (pb_sec s')) =
            Some (q \<noteq> 191, q = 126 \<or> q = 185, region_attr (ppc_s_p_attrs (sec_ppc (pb_sec s))) q)) \<and>
        (\<forall>i. irq_bit (nv_itns (pb_nvic s')) i \<longleftrightarrow> irq_bit (nv_itns (pb_nvic s)) i \<or> i \<le> 140) \<and>
        (\<forall>n. bit (pb_aircr s') n \<longleftrightarrow> n = 3 \<or> bit (pb_aircr s) n) \<and> pb_msplim s' = stack_base \<and>
        once_try_get (pb_spm s') = Inr ())) \<and>
    (snd (init_chip c s) = Inl () \<longrightarrow>
      (\<exists>h. psc3_start ns c stack_base s = Some (s\<lparr>pb_chip := h\<rparr>, Inl ())))"
  using assms by (rule psc3_boot_core)

definition quiet_chip :: "bool \<Rightarrow> unit psc3_chip" where
  "quiet_chip ok = \<lparr>sys_init_enable_cache = id, preinit_peripherals = id, init_system = (\<lambda>h. (h, Inr ())),
     enable_scb0 = id, configure_gpio_secure_states = (\<lambda>h. (h, if ok then Inr () else Inl ())),
     init_scb0_uart_pins = (\<lambda>h. (h, Inr ())), set_standard_uart_mode = id, enable_scb = id\<rparr>"

definition sample_psc3 :: "unit psc3_state" where
  "sample_psc3 = \<lparr>pb_chip = (), pb_nvic = \<lparr>nv_ictr = 4, nv_enabled = (\<lambda>_. 0), nv_pending = (\<lambda>_. 0), nv_itns = (\<lambda>_. 0)\<rparr>,
     pb_msplim = 0, pb_aircr = 0, pb_sec = sample_security, pb_spm = once_new, pb_mem = (\<lambda>_. 0)\<rparr>"

lemma sample_psc3_hardware: "psc3_hardware (pb_sec sample_psc3)"
proof -
  have n: "region_numbers sample_sau = 8"
    by (simp add: region_numbers_def sample_sau_def field_read_def SAU_TYPE_SREGION_def mask_eq_exp_minus_1)
  have off: "sau_attr (slot_region sample_sau k) = Secure" for k
    by (simp add: slot_region_def sau_slot_def get_region_def Let_def sample_sau_def decode_attribute_def
        field_is_set_def)
  show ?thesis using n off by (simp add: psc3_hardware_def sample_psc3_def sample_security_def slots_off_def)
qed

theorem psc3_boot_partition_witness:
  "(\<exists>s'. psc3_start secure_ns_memory (quiet_chip True) 0x34000000 sample_psc3 = Some (s', Inr (0, 0)) \<and>
     attribution (sec_sau (pb_sec s')) 0x24004000 = NonSecure \<and>
     attribution (sec_sau (pb_sec s')) 0x24003FFF = Secure \<and>
     attribution (sec_sau (pb_sec s')) 0x3201FF00 = NonSecureCallable) \<and>
   (\<exists>s'. psc3_start ipc_ns_memory (quiet_chip False) 0x34000000 sample_psc3 = Some (s', Inl ()))"
proof -
  have sp: "pb_spm sample_psc3 = once_new" by (simp add: sample_psc3_def)
  have c: "snd (init_chip (quiet_chip True) sample_psc3) = Inr ()" "snd (init_chip (quiet_chip False) sample_psc3) = Inl ()"
    by (simp_all add: init_chip_def quiet_chip_def on_chip_def try_chip_def Let_def)
  have word: "read_u32 (pb_mem sample_psc3) a = 0" for a
    by (simp add: sample_psc3_def read_u32_def numeral_eq_Suc)
  obtain s' where "psc3_start secure_ns_memory (quiet_chip True) 0x34000000 sample_psc3 = Some (s', Inr (0, 0))"
    "\<forall>x. attribution (sec_sau (pb_sec s')) x = psc3_attribute (ns_ram_start secure_ns_memory) x"
    using psc3_boot_partition[OF sample_psc3_hardware _ sp, of secure_ns_memory "quiet_chip True" "0x34000000"] c(1)
    unfolding word by blast
  moreover have "\<exists>s'. psc3_start ipc_ns_memory (quiet_chip False) 0x34000000 sample_psc3 = Some (s', Inl ())"
    using psc3_boot_partition[OF sample_psc3_hardware _ sp, of ipc_ns_memory "quiet_chip False" "0x34000000"] c(2)
    by blast
  ultimately show ?thesis by (auto simp: psc3_attribute_def secure_ns_memory_def)
qed

lemma psc3_start_frame:
  "psc3_start ns c stack_base s = Some (s', Inr e) \<Longrightarrow>
    pb_mem s' = pb_mem s \<and> pb_spm s' = fst (once_try_set () (pb_spm s))"
proof -
  assume st: "psc3_start ns c stack_base s = Some (s', Inr e)"
  obtain s1 r where i: "init_chip c s = (s1, r)" by fastforce
  have s1: "pb_mem s1 = pb_mem s" "pb_spm s1 = pb_spm s"
    by (subst init_chip_frame[OF i], simp)+
  show ?thesis using st s1
    by (auto simp: psc3_start_def i configure_core_def Let_def split: sum.splits option.splits prod.splits)
qed

lemma ipc_booted_ok:
  assumes "length procs = n"
  shows "ipc_ok procs (ipc_booted n cell mpu m d)" "ipc_stack (ipc_booted n cell mpu m d) = []"
  using assms by (simp_all add: ipc_ok_def ipc_stack_def ipc_booted_def spm_ipc_state_new_def mutex_new_def)

lemma client_calls_balanced:
  assumes "processes_keep procs" "ipc_ok procs s" "ipc_stack s = []"
  shows "ipc_ok procs (client_calls plat procs cs s) \<and> ipc_stack (client_calls plat procs cs s) = []"
  using assms(2,3)
proof (induction cs arbitrary: s)
  case (Cons q cs)
  obtain h ctrl iv ov ca where q: "q = (h, ctrl, iv, ov, ca)" by (cases q)
  obtain s' r where r: "ipc_api_call plat procs h ctrl iv ov ca s = (s', r)" by fastforce
  have "ipc_ok procs s'" "ipc_stack s' = []"
    using ipc_call_restores_core[OF assms(1) Cons.prems(1) r] Cons.prems(2) by auto
  then show ?case using Cons.IH[of s'] by (simp add: q r)
qed simp

text \<open>C9. The isolated system from its boot on: the dispatcher that start publishes is ready (the API
  finds it), and whatever the services in flash do with the service API and with memory (they access
  and release vectors, call services, query versions, touch memory, in any order and number), every
  sequence of client calls leaves its lock free and its connection stack empty, so no call, failed
  ones included, ever uses up a slot for the calls after it.  Services that issue the raw supervisor
  calls SVC_START_PROCESS or SVC_PSA_CALL_RETURN, which no function of the API does but the handler
  accepts from them (psa_call_return_unchecked), are outside this statement.\<close>

theorem isolated_boot_sessions:
  assumes "psc3_ipc_start c stack_base config mpu d s = Some (s', Inr (ipc, entry))" "pb_spm s = once_new"
    and "procs = ipc_system plat (flash_images prog (pb_mem s) config) n"
  shows "ipc_try_get_spm ipc = Inr () \<and> si_mem ipc = pb_mem s \<and>
    ipc_ok procs (client_calls plat procs cs ipc) \<and> ipc_stack (client_calls plat procs cs ipc) = []"
proof -
  have st: "psc3_start ipc_ns_memory c stack_base s = Some (s', Inr entry)"
    and ipc: "ipc = ipc_booted (length config) (pb_spm s') mpu (pb_mem s') d"
    using assms(1) by (auto simp: psc3_ipc_start_def split: option.splits sum.splits prod.splits)
  note f = psc3_start_frame[OF st]
  have len: "length procs = length config" by (simp add: assms(3) flash_images_def)
  have keep: "processes_keep procs" unfolding assms(3) by (rule ipc_system_keeps)
  have "ipc_try_get_spm ipc = Inr ()" "si_mem ipc = pb_mem s"
    using f by (simp_all add: ipc ipc_booted_def ipc_try_get_spm_def assms(2) once_try_set_def once_try_get_def
        once_new_def Let_def map_err_def)
  then show ?thesis
    using client_calls_balanced[OF keep] ipc_booted_ok[OF len] unfolding ipc by blast
qed

theorem isolated_boot_sessions_witness:
  "\<exists>s' ipc e. psc3_ipc_start (quiet_chip True) 0x34000000 [(Crypto, 0x1000)] (si_mpu sample_ipc) () sample_psc3 =
      Some (s', Inr (ipc, e)) \<and>
    ipc_stack (client_calls sample_plat (ipc_system sample_plat
        (flash_images (\<lambda>a entry arg. Exit 0) (pb_mem sample_psc3) [(Crypto, 0x1000)]) 2)
      [(Crypto, ctrl_new 1 0 True 0 True, 0, 0, SECURE_UNPRIVILEGED)] ipc) = []"
proof -
  have sp: "pb_spm sample_psc3 = once_new" by (simp add: sample_psc3_def)
  have c: "init_chip (quiet_chip True) sample_psc3 = (sample_psc3, Inr ())"
    by (simp add: init_chip_def quiet_chip_def on_chip_def try_chip_def Let_def)
  have ns: "ipc_ns_memory \<in> {secure_ns_memory, ipc_ns_memory}" by simp
  have "\<exists>s' e. psc3_start ipc_ns_memory (quiet_chip True) 0x34000000 sample_psc3 = Some (s', Inr e)"
    using configure_core_ok[OF sample_psc3_hardware ns, of "0x34000000"] c
    by (auto simp: psc3_start_def Let_def)
  then obtain s' ipc e where st: "psc3_ipc_start (quiet_chip True) 0x34000000 [(Crypto, 0x1000)] (si_mpu sample_ipc) ()
      sample_psc3 = Some (s', Inr (ipc, e))"
    by (auto simp: psc3_ipc_start_def)
  show ?thesis using isolated_boot_sessions[OF st sp refl] st by blast
qed

end
