(* ===== verification/Boundary.thy ===== *)
theory Boundary
  imports Guard BoardToken MuscaBoot Psc3Boot
begin

text \<open>
  From the boot to a call: after the boot of a board (MuscaBoot, Psc3Boot), with the TT instruction
  answering from the attribution unit the boot programmed, the SPM refuses every non-secure call that
  names a byte of memory the boot left secure or callable.
\<close>

section \<open>The regions the boots program\<close>

lemma set_regions_determ:
  assumes "set_regions 0 rs s = (t, Inr u)" "length rs \<le> unat (region_numbers s)"
    and "\<forall>r\<in>set rs. sau_region_ok r" "slots_off (length rs) s"
  shows "programmed rs (sau_enable t)"
  using set_regions_programmed[OF assms(2-4)] assms(1) by auto

lemma musca_start_programmed:
  assumes "musca_hardware s" "musca_start fr stack_base s = Some (s', e)"
  shows "programmed musca_regions (mb_sau s')"
proof -
  obtain u n a f l where st:
    "boot_serial s = Some u" "boot_interrupts u = Some n" "boot_attribution (boot_control stack_base n) = Some a"
    "boot_memory (boot_publish a) = Some f" "debugln fr boot_message f = Some l" "s' = l"
    using assms(2) by (auto simp: musca_start_def Let_def bind_eq_Some_conv)
  have "mb_sau (boot_control stack_base n) = mb_sau s"
    using st(1,2) by (auto simp: boot_serial_def boot_interrupts_def boot_control_def Let_def)
  moreover have "mb_sau s' = mb_sau a"
    using st(4-6) by (auto simp: boot_memory_def debugln_def boot_publish_def Let_def)
  ultimately obtain t where t: "set_regions 0 musca_regions (mb_sau s) = (t, Inr ())" "mb_sau s' = sau_enable t"
    using st(3) by (auto simp: boot_attribution_def split: prod.splits sum.splits)
  have "length musca_regions = 5" by (simp add: musca_regions_def)
  then show ?thesis
    unfolding t(2) using assms(1) by (intro set_regions_determ[OF t(1) _ musca_regions_ok]) (simp_all add: musca_hardware_def)
qed

lemma psc3_start_programmed:
  assumes "psc3_hardware (pb_sec s)" "ns \<in> {secure_ns_memory, ipc_ns_memory}"
    and "psc3_start ns c stack_base s = Some (s', Inr e)"
  shows "programmed (ns_regions ns) (sec_sau (pb_sec s'))"
proof -
  obtain s1 r where i: "init_chip c s = (s1, r)" by fastforce
  have sec: "pb_sec s1 = pb_sec s" by (subst init_chip_frame[OF i]) simp
  note hw = assms(1)[unfolded psc3_hardware_def]
  note ok = ns_regions_ok[OF assms(2)]
  obtain q where q: "configure_security (ns_flash_start ns) (ns_flash_limit ns) (ns_ram_start ns)
      (ns_ram_limit ns) (pb_sec s) = (q, Inr ())" "pb_sec s' = q"
    using assms(3) i sec
    by (auto simp: psc3_start_def configure_core_def Let_def split: sum.splits option.splits prod.splits)
  obtain q' sau where "configure_security (ns_flash_start ns) (ns_flash_limit ns) (ns_ram_start ns)
      (ns_ram_limit ns) (pb_sec s) = (q', Inr ())"
    "set_regions 0 (ns_regions ns) (sec_sau (pb_sec s)) = (sau, Inr ())" "sec_sau q' = sau_enable sau"
    using security_policy_core[of "pb_sec s"] hw ok(1) unfolding ns_regions_def by blast
  then have "set_regions 0 (ns_regions ns) (sec_sau (pb_sec s)) = (sau, Inr ())" "sec_sau q = sau_enable sau"
    using q(1) by simp_all
  moreover have "length (ns_regions ns) \<le> unat (region_numbers (sec_sau (pb_sec s)))"
    "slots_off (length (ns_regions ns)) (sec_sau (pb_sec s))"
    using hw ok(2) by (simp_all add: word_le_nat_alt)
  ultimately show ?thesis unfolding q(2) using set_regions_determ ok(1) by metis
qed

section \<open>An instruction that answers so\<close>

definition tt_of :: "sau_regs \<Rightarrow> tt_instr" where
  "tt_of s x access =
    (if attribution s x = NonSecure then 0x003C0000 OR push_bit 8 (of_nat (sau_hits s x ! 0) AND 0xFF)
     else 0x00400000)"

lemma bit_tt_words: "bit (0x003C0000 :: u32) n \<longleftrightarrow> 18 \<le> n \<and> n \<le> 21" "bit (0x00400000 :: u32) n \<longleftrightarrow> n = 22"
  "bit (0xFF :: u32) n \<longleftrightarrow> n < 8"
proof -
  have "(0x003C0000 :: u32) = push_bit 18 (mask 4)" "(0x00400000 :: u32) = push_bit 22 1" "(0xFF :: u32) = mask 8"
    by (simp_all add: mask_eq_exp_minus_1)
  then show "bit (0x003C0000 :: u32) n \<longleftrightarrow> 18 \<le> n \<and> n \<le> 21" "bit (0x00400000 :: u32) n \<longleftrightarrow> n = 22"
    "bit (0xFF :: u32) n \<longleftrightarrow> n < 8"
    by (auto simp only: bit_simps) auto
qed

lemma bit_ns_word: "bit (0x003C0000 OR push_bit 8 (w AND 0xFF) :: u32) n \<longleftrightarrow>
    18 \<le> n \<and> n \<le> 21 \<or> 8 \<le> n \<and> n < 16 \<and> bit w (n - 8)"
  by (auto simp only: bit_or_iff bit_push_bit_iff bit_and_iff bit_tt_words) auto

lemma tt_of_documented: "tt_documented (tt_of s)"
  unfolding tt_documented_def tt_of_def by (simp only: bit_ns_word bit_tt_words if_distrib[of "\<lambda>w. bit w _"]) simp

lemma of_nat_and_255: "k < 256 \<Longrightarrow> (of_nat k :: u32) AND 0xFF = of_nat k"
proof -
  assume k: "k < 256"
  have "(0xFF :: u32) = mask 8" by (simp add: mask_eq_exp_minus_1)
  then have "(of_nat k :: u32) AND 0xFF = of_nat (take_bit 8 k)"
    by (simp only: take_bit_eq_mask[symmetric] of_nat_take_bit)
  then show ?thesis using k by (simp add: take_bit_eq_mod)
qed

lemma tt_of_follows: "tt_follows s (tt_of s)"
  unfolding tt_follows_def
proof (intro allI conjI impI)
  fix x access k assume k: "attribution s x = NonSecure \<and> sau_hits s x = [k]"
  then have "k \<in> set (sau_hits s x)" by simp
  then have "k < 256" using unat_u8_less[of "region_numbers s"] by (auto simp: sau_hits_def)
  then have "(of_nat k :: u32) AND 0xFF = of_nat k"
    by (simp add: of_nat_and_255)
  moreover have "drop_bit 8 (0x003C0000 OR push_bit 8 (w AND 0xFF)) AND 0xFF = w AND 0xFF" for w :: u32
    by (rule bit_word_eqI) (auto simp only: bit_and_iff bit_drop_bit_eq comp_def bit_ns_word bit_tt_words, auto)
  moreover have "tt_of s x access = 0x003C0000 OR push_bit 8 (of_nat k AND 0xFF)"
    using k unfolding tt_of_def by (elim conjE) (simp only: simp_thms if_True nth_Cons_0)
  ultimately show "drop_bit 8 (tt_of s x access) AND 0xFF = of_nat k" by metis
next
  fix x access assume "attribution s x \<noteq> NonSecure"
  then show "bit (tt_of s x access) 22" using bit_tt_words(2) by (simp only: tt_of_def if_False)
qed

text \<open>A call on the Musca that names such a byte.\<close>

lemma musca_refused_core:
  assumes "musca_hardware b" "musca_start fr stack_base b = Some (b', entry)"
    and "tt_documented (bd_tt bd)" "tt_follows (mb_sau b') (bd_tt bd)"
    and "v \<in> set (client_vecs (sf_mem s) ctrl iv ov)" "j < unat (iov_len v)" "x = iov_base v + of_nat j"
    and "attribution (mb_sau b') x \<noteq> NonSecure" "\<not> (0x40105000 \<le> x \<and> x \<le> 0x40105FFF)"
  shows "\<exists>e. e \<noteq> Success \<and> psa_call_veneer (musca_system bd n) h ctrl iv ov s = (s, status_value e)"
proof -
  have perm: "sp_has_permission (musca_system bd n) t = musca_has_permission (bd_tt bd)" for t :: "'a spm_fn"
    by (cases n) (simp_all add: musca_system_def)
  note prog = musca_start_programmed[OF assms(1,2)]
  have "musca_attribute x \<noteq> NonSecure"
    using assms(8) by (simp add: programmed_attribution[OF prog] attribute_of_musca)
  then have out: "\<forall>r\<in>set musca_regions. sau_attr r = NonSecure \<longrightarrow> \<not> (base_address r \<le> x \<and> x \<le> limit_address r)"
    using assms(9) by (auto simp: musca_regions_def musca_attribute_def)
  have low: "\<forall>r\<in>set musca_regions. sau_attr r = NonSecure \<longrightarrow> 32 \<le> unat (base_address r)"
    by (simp add: musca_regions_def)
  obtain e where e: "e \<in> {BadState, ProgrammerError, InvalidArgument}"
    "api_connection (try_get_spm s) (sf_mem s) (musca_has_permission (bd_tt bd)) h ctrl iv ov NS_UNPRIVILEGED = Inl e"
    using musca_guard.refused[OF assms(3,4) prog _ assms(5-7) low out, of NS_UNPRIVILEGED "once_try_get (sf_cell s)" h]
    by (auto simp: try_get_spm_def NS_UNPRIVILEGED_def)
  have call: "psa_call_impl (musca_system bd n) h ctrl iv ov (s\<lparr>sf_in_secure := True\<rparr>) =
      (s\<lparr>sf_in_secure := True\<rparr>, status_value e)"
    using e(2) by (simp add: psa_call_impl_def sfn_api_call_def sfn_api_connection_def perm
        into_psa_status_def try_get_spm_def)
  show ?thesis
  proof (cases "sf_in_secure s")
    case True
    then show ?thesis by (auto simp: psa_call_veneer_def enter_secure_state_def Let_def into_psa_status_def)
  next
    case False
    then have "exit_secure_state (s\<lparr>sf_in_secure := True\<rparr>) = s" by (simp add: exit_secure_state_def)
    then show ?thesis
      using False e(1) call by (auto simp: psa_call_veneer_def enter_secure_state_def Let_def)
  qed
qed

section \<open>Properties\<close>

text \<open>C2. Secure memory stays out of reach on the Musca-B1, from the boot to a call.  After the boot, with the TT
  instruction answering from the attribution unit it programmed, every call through the veneer that
  names, in any of its vectors, a byte the boot left secure or callable ends with an error and changes
  nothing, whatever the service and the control word; the one exception is the page of UART0 inside the
  peripheral window, which check_range does not see because it only tests the ends.\<close>

theorem musca_secure_memory_refused:
  assumes "musca_hardware b" "musca_start fr stack_base b = Some (b', entry)"
    and "tt_documented (bd_tt bd)" "tt_follows (mb_sau b') (bd_tt bd)"
    and "v \<in> set (client_vecs (sf_mem s) ctrl iv ov)" "j < unat (iov_len v)" "x = iov_base v + of_nat j"
    and "attribution (mb_sau b') x \<noteq> NonSecure" "\<not> (0x40105000 \<le> x \<and> x \<le> 0x40105FFF)"
  shows "\<exists>e. e \<noteq> Success \<and> psa_call_veneer (musca_system bd n) h ctrl iv ov s = (s, status_value e)"
  using assms by (rule musca_refused_core)

theorem musca_secure_memory_refused_witness:
  "\<exists>(b' :: musca_state) e. e \<noteq> Success \<and>
    psa_call_veneer (musca_system (sample_board\<lparr>bd_tt := tt_of (mb_sau b')\<rparr>) 5) AttestationService
      (ctrl_new 1001 1 True 1 True) 0x20040000 0x20040100
      (sample_spm\<lparr>sf_mem := store_vecs 0x20040100 [\<lparr>iov_base = 0x2002FFF0, iov_len = 64\<rparr>] (\<lambda>_. 0)\<rparr>) =
    (sample_spm\<lparr>sf_mem := store_vecs 0x20040100 [\<lparr>iov_base = 0x2002FFF0, iov_len = 64\<rparr>] (\<lambda>_. 0)\<rparr>, status_value e)"
proof -
  let ?v = "\<lparr>iov_base = 0x2002FFF0, iov_len = 64\<rparr>" and ?c = "ctrl_new 1001 1 True 1 True"
  let ?s = "sample_spm\<lparr>sf_mem := store_vecs 0x20040100 [?v] (\<lambda>_. 0)\<rparr>"
  have "\<forall>t. \<exists>k\<ge>t. uart_is_writable ((\<lambda>_. 0) (k :: nat))" by (auto simp: uart_is_writable_def field_is_set_def)
  moreover have "mb_spm sample_boot = once_new" by (simp add: sample_boot_def)
  ultimately obtain b' e where b: "musca_start (\<lambda>_. 0) 0x30000000 sample_boot = Some (b', e)"
    using musca_boot_core[OF sample_boot_hardware, of "\<lambda>_. 0" "0x30000000"] by blast
  have ns: "attribution (mb_sau b') 0x2002FFF0 \<noteq> NonSecure"
    by (simp add: programmed_attribution[OF musca_start_programmed[OF sample_boot_hardware b]] attribute_of_musca
        musca_attribute_def)
  have "read_vecs (sf_mem ?s) 0x20040100 1 = [?v]"
    using read_store_vecs[of "[?v]" "0x20040100"] by simp
  moreover have "has_iovec ?c" by (simp add: has_iovec_def ctrl_new_def Let_def)
  moreover have "ctrl_out_len ?c = 1" by (simp add: ctrl_len_new)
  ultimately have v: "?v \<in> set (client_vecs (sf_mem ?s) ?c 0x20040000 0x20040100)"
    by (simp add: client_vecs_def del: One_nat_def)
  have tt: "tt_documented (bd_tt (sample_board\<lparr>bd_tt := tt_of (mb_sau b')\<rparr>))"
    "tt_follows (mb_sau b') (bd_tt (sample_board\<lparr>bd_tt := tt_of (mb_sau b')\<rparr>))"
    by (simp_all add: tt_of_documented tt_of_follows)
  have byte: "0 < unat (iov_len ?v)" "0x2002FFF0 = iov_base ?v + of_nat 0" by simp_all
  have page: "\<not> (0x40105000 \<le> (0x2002FFF0 :: u32) \<and> (0x2002FFF0 :: u32) \<le> 0x40105FFF)" by simp
  have "\<exists>e. e \<noteq> Success \<and>
    psa_call_veneer (musca_system (sample_board\<lparr>bd_tt := tt_of (mb_sau b')\<rparr>) 5) AttestationService ?c 0x20040000 0x20040100 ?s =
      (?s, status_value e)"
    by (rule musca_secure_memory_refused[OF sample_boot_hardware b tt v byte ns page])
  then show ?thesis by (rule exI[of _ b'])
qed

text \<open>C29. The same on the PSC3, for its two images: after a boot that enters the non-secure side, a
  non-secure call that names any byte the boot did not leave non-secure is refused with an error and
  changes nothing, by the function-call dispatcher with the chip's permission check and by the isolated
  dispatcher with its own.  No exception is needed: the regions of the PSC3 do not overlap.\<close>

theorem psc3_secure_memory_refused:
  assumes "psc3_hardware (pb_sec b)" "ns \<in> {secure_ns_memory, ipc_ns_memory}"
    and "psc3_start ns c stack_base b = Some (b', Inr entry)"
    and "tt_documented tt" "tt_follows (sec_sau (pb_sec b')) tt" "ca_ns ca"
    and "v \<in> set (client_vecs m ctrl iv ov)" "j < unat (iov_len v)" "x = iov_base v + of_nat j"
    and "attribution (sec_sau (pb_sec b')) x \<noteq> NonSecure"
    and "\<forall>s. sp_has_permission p s = psc3_has_permission tt" "sf_mem s = m"
    and "\<forall>s. ip_has_permission plat s = psc3_ipc_has_permission tt" "si_mem t = m"
  shows "(\<exists>e. e \<noteq> Success \<and> sfn_api_call p h ctrl iv ov ca s = (s, Inl e)) \<and>
    (\<exists>e. e \<noteq> Success \<and> ipc_api_call plat procs h ctrl iv ov ca t = (t, Inl e))"
proof -
  note prog = psc3_start_programmed[OF assms(1-3)]
  have "psc3_attribute (ns_ram_start ns) x \<noteq> NonSecure"
    using assms(10) by (simp add: programmed_attribution[OF prog] attribute_of_psc3[OF assms(2)])
  then have out: "\<forall>r\<in>set (ns_regions ns). sau_attr r = NonSecure \<longrightarrow> \<not> (base_address r \<le> x \<and> x \<le> limit_address r)"
    and low: "\<forall>r\<in>set (ns_regions ns). sau_attr r = NonSecure \<longrightarrow> 32 \<le> unat (base_address r)"
    using assms(2) by (auto simp: ns_regions_def security_regions_def Let_def psc3_attribute_def secure_ns_memory_def
        ipc_ns_memory_def word_le_nat_alt)
  obtain e where "e \<in> {BadState, ProgrammerError, InvalidArgument}"
    "api_connection (try_get_spm s) m (psc3_has_permission tt) h ctrl iv ov ca = Inl e"
    using psc3_guard.refused[OF assms(4,5) prog assms(6-9) low out, of "once_try_get (sf_cell s)" h]
    by (auto simp: try_get_spm_def)
  moreover obtain e' where "e' \<in> {BadState, ProgrammerError, InvalidArgument}"
    "api_connection (ipc_try_get_spm t) m (psc3_ipc_has_permission tt) h ctrl iv ov ca = Inl e'"
    using psc3_ipc_guard.refused[OF assms(4,5) prog assms(6-9) low out, of "once_try_get (si_cell t)" h]
    by (auto simp: ipc_try_get_spm_def)
  ultimately show ?thesis
    using assms(11-14) by (auto simp: sfn_api_call_def sfn_api_connection_def ipc_api_call_def)
qed

theorem psc3_secure_memory_refused_witness:
  "\<exists>tt e. e \<noteq> Success \<and>
    sfn_api_call \<lparr>sp_call = (\<lambda>msg s. (s, Inr ())), sp_has_permission = (\<lambda>_. psc3_has_permission tt), sp_version = (\<lambda>_. None)\<rparr>
      Crypto (ctrl_new 1 1 True 1 True) 0x24006000 0x24006100 NS_UNPRIVILEGED
      (sample_spm\<lparr>sf_mem := store_vecs 0x24006100 [\<lparr>iov_base = 0x24004FF0, iov_len = 64\<rparr>] (\<lambda>_. 0)\<rparr>) =
    (sample_spm\<lparr>sf_mem := store_vecs 0x24006100 [\<lparr>iov_base = 0x24004FF0, iov_len = 64\<rparr>] (\<lambda>_. 0)\<rparr>, Inl e)"
proof -
  let ?v = "\<lparr>iov_base = 0x24004FF0, iov_len = 64\<rparr>" and ?c = "ctrl_new 1 1 True 1 True"
  let ?m = "store_vecs 0x24006100 [?v] (\<lambda>_. 0)"
  have "snd (init_chip (quiet_chip True) sample_psc3) = Inr ()"
    by (simp add: init_chip_def quiet_chip_def on_chip_def try_chip_def Let_def)
  moreover have "pb_spm sample_psc3 = once_new" by (simp add: sample_psc3_def)
  ultimately obtain b' entry where b: "psc3_start ipc_ns_memory (quiet_chip True) 0x34000000 sample_psc3 = Some (b', Inr entry)"
    using psc3_boot_core[OF sample_psc3_hardware, of ipc_ns_memory "quiet_chip True" "0x34000000"] by blast
  let ?tt = "tt_of (sec_sau (pb_sec b'))"
  let ?p = "\<lparr>sp_call = (\<lambda>msg s. (s, Inr ())), sp_has_permission = (\<lambda>_. psc3_has_permission ?tt), sp_version = (\<lambda>_. None)\<rparr> :: unit sfn_platform"
  have ns: "attribution (sec_sau (pb_sec b')) 0x24004FF0 \<noteq> NonSecure"
    by (simp add: programmed_attribution[OF psc3_start_programmed[OF sample_psc3_hardware _ b]] attribute_of_psc3
        psc3_attribute_def ipc_ns_memory_def)
  have "read_vecs ?m 0x24006100 1 = [?v]" using read_store_vecs[of "[?v]" "0x24006100"] by simp
  moreover have "has_iovec ?c" by (simp add: has_iovec_def ctrl_new_def Let_def)
  moreover have "ctrl_out_len ?c = 1" by (simp add: ctrl_len_new)
  ultimately have v: "?v \<in> set (client_vecs ?m ?c 0x24006000 0x24006100)"
    by (simp add: client_vecs_def del: One_nat_def)
  have byte: "0 < unat (iov_len ?v)" "0x24004FF0 = iov_base ?v + of_nat 0" by simp_all
  have "(\<exists>e. e \<noteq> Success \<and> sfn_api_call ?p Crypto ?c 0x24006000 0x24006100 NS_UNPRIVILEGED (sample_spm\<lparr>sf_mem := ?m\<rparr>) =
      (sample_spm\<lparr>sf_mem := ?m\<rparr>, Inl e)) \<and>
    (\<exists>e. e \<noteq> Success \<and> ipc_api_call (sample_plat\<lparr>ip_has_permission := \<lambda>_. psc3_ipc_has_permission ?tt\<rparr>) [] Crypto ?c
      0x24006000 0x24006100 NS_UNPRIVILEGED (sample_ipc\<lparr>si_mem := ?m\<rparr>) = (sample_ipc\<lparr>si_mem := ?m\<rparr>, Inl e))"
    by (rule psc3_secure_memory_refused[OF sample_psc3_hardware _ b tt_of_documented tt_of_follows _ v byte ns])
      (simp_all add: NS_UNPRIVILEGED_def)
  then have "\<exists>e. e \<noteq> Success \<and> sfn_api_call ?p Crypto ?c 0x24006000 0x24006100 NS_UNPRIVILEGED (sample_spm\<lparr>sf_mem := ?m\<rparr>) =
      (sample_spm\<lparr>sf_mem := ?m\<rparr>, Inl e)" by (rule conjunct1)
  then show ?thesis by (rule exI[of _ ?tt])
qed

end
