(* ===== verification/Tock.thy ===== *)
theory Tock
  imports PsaApi
begin

text \<open>
  The Tock side of the system (integrations/tock): the kernel capsule SpeMutex that lets one
  process at a time use the secure services, the user-space driver that commands it, and the
  token application, which reads a nonce as hexadecimal text from the console, reserves the
  services, asks for a token and prints it.  The kernel's system call and libtock's conversion of
  its answers are parameters with their documented behaviour as a named hypothesis; the console
  is the list of the reads' answers and the writer an arbitrary function.
\<close>

section \<open>The kernel capsule\<close>

type_synonym process_id = nat

datatype error_code = ALREADY | BUSY | INVAL

datatype command_return = CommandSuccess | CommandSuccessU32 u32 | CommandFailure error_code

record spe_mutex =
  owner :: "process_id option"

definition spe_mutex_new :: spe_mutex where "spe_mutex_new = \<lparr>owner = None\<rparr>"

datatype cmd = Exists | Reserve | Release | IsAvailable

definition cmd_from_usize :: "usize \<Rightarrow> cmd option" where
  "cmd_from_usize n =
    (if n = 0 then Some Exists
     else if n = 1 then Some Reserve
     else if n = 2 then Some Release
     else if n = 3 then Some IsAvailable
     else None)"

definition spe_reserve :: "process_id \<Rightarrow> spe_mutex \<Rightarrow> spe_mutex \<times> command_return" where
  "spe_reserve process_id m =
    (case owner m of
       None \<Rightarrow> (m\<lparr>owner := Some process_id\<rparr>, CommandSuccess)
     | Some owner_id \<Rightarrow> if owner_id = process_id then (m, CommandFailure ALREADY) else (m, CommandFailure BUSY))"

definition spe_release :: "process_id \<Rightarrow> spe_mutex \<Rightarrow> spe_mutex \<times> command_return" where
  "spe_release process_id m =
    (case owner m of
       Some owner_id \<Rightarrow> if owner_id = process_id then (m\<lparr>owner := None\<rparr>, CommandSuccess) else (m, CommandFailure INVAL)
     | None \<Rightarrow> (m, CommandFailure INVAL))"

definition spe_is_available :: "spe_mutex \<Rightarrow> command_return" where
  "spe_is_available m = (if owner m = None then CommandSuccessU32 1 else CommandSuccessU32 0)"

definition spe_command ::
    "usize \<Rightarrow> usize \<Rightarrow> usize \<Rightarrow> process_id \<Rightarrow> spe_mutex \<Rightarrow> spe_mutex \<times> command_return" where
  "spe_command cmd_num arg1 arg2 process_id m =
    (if cmd_num = 0 then (m, CommandSuccess)
     else case cmd_from_usize cmd_num of
       None \<Rightarrow> (m, CommandFailure INVAL)
     | Some Exists \<Rightarrow> (m, CommandSuccess)
     | Some Reserve \<Rightarrow> spe_reserve process_id m
     | Some Release \<Rightarrow> spe_release process_id m
     | Some IsAvailable \<Rightarrow> (m, spe_is_available m))"

lemma spe_command_simps [simp]:
  "spe_command 0 a b p m = (m, CommandSuccess)"
  "spe_command 1 a b p m = spe_reserve p m"
  "spe_command 2 a b p m = spe_release p m"
  "spe_command 3 a b p m = (m, spe_is_available m)"
  by (simp_all add: spe_command_def cmd_from_usize_def)

lemma spe_command_other: "n \<noteq> 1 \<Longrightarrow> n \<noteq> 2 \<Longrightarrow> fst (spe_command n a b p m) = m"
  by (simp add: spe_command_def cmd_from_usize_def)

text \<open>Whatever one process commands, another process's ownership neither ends nor begins.\<close>

lemma spe_command_owner_frame:
  "q \<noteq> p \<Longrightarrow> owner (fst (spe_command n a b p m)) = Some q \<longleftrightarrow> owner m = Some q"
  by (cases "n = 1 \<or> n = 2")
    (auto simp: spe_command_other spe_reserve_def spe_release_def split: option.splits if_splits)

lemma spe_reserve_Success:
  "snd (spe_reserve p m) = CommandSuccess \<longleftrightarrow> owner m = None" "owner m = None \<Longrightarrow> owner (fst (spe_reserve p m)) = Some p"
  "owner m \<noteq> None \<Longrightarrow> fst (spe_reserve p m) = m"
  by (auto simp: spe_reserve_def split: option.split)

section \<open>The system of processes\<close>

text \<open>
  A live process may issue any command, with any arguments, at any time: reserve what it already
  holds, release what it does not hold, ask, or send a number the capsule does not know.  What a
  process knows of itself is a ghost of the answers it got: Holding after a reservation that
  succeeded and until a release that succeeded, Waiting after a reservation refused with BUSY.  A
  process may fault or be stopped at any time; the kernel then does not call the capsule, which
  has no cleanup of its own, and a restarted process has a new ProcessId, so the old one stays
  dead.
\<close>

datatype spe_pc = Idle | Waiting | Holding | Dead

type_synonym spe_system = "spe_mutex \<times> (process_id \<Rightarrow> spe_pc)"

definition spe_init :: spe_system where "spe_init = (spe_mutex_new, \<lambda>_. Idle)"

definition spe_next :: "usize \<Rightarrow> command_return \<Rightarrow> spe_pc \<Rightarrow> spe_pc" where
  "spe_next cmd_num r pc =
    (if cmd_num = 1 \<and> r = CommandSuccess then Holding
     else if cmd_num = 2 \<and> r = CommandSuccess then Idle
     else if cmd_num = 1 \<and> r = CommandFailure BUSY then Waiting
     else pc)"

inductive spe_step :: "spe_system \<Rightarrow> spe_system \<Rightarrow> bool" where
  command: "pc p \<noteq> Dead \<Longrightarrow> spe_command n a b p m = (m', r) \<Longrightarrow>
    spe_step (m, pc) (m', pc(p := spe_next n r (pc p)))"
| die: "spe_step (m, pc) (m, pc(p := Dead))"

inductive_cases spe_stepE: "spe_step (m, pc) s"

text \<open>Holding and owning agree for the living; an owner that is not holding has died.\<close>

definition spe_ok :: "spe_system \<Rightarrow> bool" where
  "spe_ok s \<longleftrightarrow>
    (\<forall>p. snd s p = Holding \<longrightarrow> owner (fst s) = Some p) \<and>
    (\<forall>p. owner (fst s) = Some p \<longrightarrow> snd s p = Holding \<or> snd s p = Dead)"

lemma spe_ok_init: "spe_ok spe_init"
  by (simp add: spe_ok_def spe_init_def spe_mutex_new_def)

lemma spe_reserve_ok: "spe_reserve p m = (m', CommandSuccess) \<longleftrightarrow> owner m = None \<and> m' = m\<lparr>owner := Some p\<rparr>"
  by (auto simp: spe_reserve_def split: option.splits if_splits)

lemma spe_release_owner:
  "owner (fst (spe_release p m)) = (if owner m = Some p then None else owner m)"
  by (auto simp: spe_release_def split: option.split)

text \<open>What a process's own command does to its ownership and to its ghost agree.\<close>

lemma spe_command_own:
  assumes "spe_command n a b p m = (m', r)" "owner m = Some p \<longleftrightarrow> pc = Holding" "pc \<noteq> Dead"
  shows "(owner m' = Some p \<longleftrightarrow> spe_next n r pc = Holding) \<and> spe_next n r pc \<noteq> Dead"
proof -
  consider "n = 1" | "n = 2" | "n \<noteq> 1" "n \<noteq> 2" by blast
  then show ?thesis
  proof cases
    case 3
    then have "m' = m" using spe_command_other[of n a b p m] assms(1) by simp
    then show ?thesis using 3 assms(2,3) by (simp add: spe_next_def)
  qed (use assms in \<open>auto simp: spe_next_def spe_reserve_def spe_release_def split: option.splits if_splits\<close>)
qed

lemma spe_ok_step: "spe_step s s' \<Longrightarrow> spe_ok s \<Longrightarrow> spe_ok s'"
proof (induction rule: spe_step.induct)
  case (command pc p n a b m m' r)
  have "owner m = Some p \<longleftrightarrow> pc p = Holding" using command.prems command.hyps(1) by (auto simp: spe_ok_def)
  then have own: "owner m' = Some p \<longleftrightarrow> spe_next n r (pc p) = Holding"
    using spe_command_own[OF command.hyps(2)] command.hyps(1) by blast
  have frame: "owner m' = Some q \<longleftrightarrow> owner m = Some q" if "q \<noteq> p" for q
    using spe_command_owner_frame[OF that, of n a b m] command.hyps(2) by simp
  show ?case unfolding spe_ok_def
  proof (intro conjI allI impI)
    fix q assume "snd (m', pc(p := spe_next n r (pc p))) q = Holding"
    then show "owner (fst (m', pc(p := spe_next n r (pc p)))) = Some q"
      using own frame[of q] command.prems by (cases "q = p") (simp_all add: spe_ok_def)
  next
    fix q assume "owner (fst (m', pc(p := spe_next n r (pc p)))) = Some q"
    then show "snd (m', pc(p := spe_next n r (pc p))) q = Holding \<or> snd (m', pc(p := spe_next n r (pc p))) q = Dead"
      using own frame[of q] command.prems by (cases "q = p") (simp_all add: spe_ok_def)
  qed
next
  case (die m pc p)
  then show ?case by (auto simp: spe_ok_def)
qed

lemma spe_ok_reachable: "spe_step\<^sup>*\<^sup>* s s' \<Longrightarrow> spe_ok s \<Longrightarrow> spe_ok s'"
  by (induction rule: rtranclp_induct) (auto intro: spe_ok_step)

lemma spe_live_now:
  assumes "spe_ok (m, pc)" "pc p \<noteq> Dead" "\<forall>q. owner m = Some q \<longrightarrow> pc q \<noteq> Dead"
  shows "\<exists>m' pc'. spe_step\<^sup>*\<^sup>* (m, pc) (m', pc') \<and> pc' p = Holding"
proof (cases "pc p = Holding")
  case False
  have enter: "\<exists>pc'. spe_step (m0, pc0) (m0\<lparr>owner := Some p\<rparr>, pc') \<and> pc' p = Holding"
    if "owner m0 = None" "pc0 p \<noteq> Dead" for m0 :: spe_mutex and pc0
    using spe_step.command[where p = p and n = 1 and m = m0 and pc = pc0 and r = CommandSuccess and
        m' = "m0\<lparr>owner := Some p\<rparr>"] that
    by (auto simp: spe_reserve_ok spe_next_def)
  show ?thesis
  proof (cases "owner m")
    case None
    then show ?thesis using enter[of m pc] None assms(2) by blast
  next
    case (Some q)
    then have q: "pc q = Holding" using assms by (auto simp: spe_ok_def)
    let ?m = "fst (spe_release q m)" and ?pc = "pc(q := spe_next 2 (snd (spe_release q m)) (pc q))"
    have "spe_step (m, pc) (?m, ?pc)"
      by (rule spe_step.command[where n = 2]) (simp_all add: q)
    moreover have "p \<noteq> q" using q False by auto
    then obtain pc' where "spe_step (?m, ?pc) (?m\<lparr>owner := Some p\<rparr>, pc')" "pc' p = Holding"
      using enter[of ?m ?pc] Some assms(2) by (auto simp: spe_release_owner)
    ultimately show ?thesis by (meson converse_rtranclp_into_rtranclp r_into_rtranclp)
  qed
qed blast

lemma spe_dead_step:
  assumes "spe_step s s'" "owner (fst s) = Some p" "snd s p = Dead"
  shows "owner (fst s') = Some p \<and> snd s' p = Dead"
  using assms
proof (induction rule: spe_step.induct)
  case (command pc q n a b m m' r)
  then have "q \<noteq> p" by auto
  then show ?case using command spe_command_owner_frame[of p q n a b m] by simp
qed auto

section \<open>Properties of the system\<close>

text \<open>C30. Exclusion.  In every state the processes can reach, whatever they command in whatever order
  (reserving twice, releasing what they do not hold, sending unknown numbers) and whichever of them
  die, at most one process holds the secure services; a live process is the capsule's owner exactly
  when it holds them, so an owner that does not hold them is dead (a process that dies while it holds
  them stays the owner); and against an owner, dead or alive, every other process's reservation is
  refused with BUSY, its release with INVAL, and no command of it changes the owner.\<close>

theorem spe_mutex_exclusive:
  assumes "spe_step\<^sup>*\<^sup>* spe_init (m, pc)"
  shows "(pc p = Holding \<and> pc q = Holding \<longrightarrow> p = q) \<and>
    (pc p \<noteq> Dead \<longrightarrow> (owner m = Some p \<longleftrightarrow> pc p = Holding)) \<and>
    (owner m = Some p \<longrightarrow> pc p = Holding \<or> pc p = Dead) \<and>
    (owner m = Some p \<and> q \<noteq> p \<longrightarrow>
      spe_command 1 a b q m = (m, CommandFailure BUSY) \<and> spe_command 2 a b q m = (m, CommandFailure INVAL) \<and>
      owner (fst (spe_command n a b q m)) = Some p)"
proof -
  have ok: "spe_ok (m, pc)" by (rule spe_ok_reachable[OF assms spe_ok_init])
  have "p = q" if "pc p = Holding" "pc q = Holding"
  proof -
    have "owner m = Some p" "owner m = Some q" using ok that unfolding spe_ok_def by (metis fst_conv snd_conv)+
    then show ?thesis by simp
  qed
  moreover have "spe_command 1 a b q m = (m, CommandFailure BUSY) \<and> spe_command 2 a b q m = (m, CommandFailure INVAL) \<and>
      owner (fst (spe_command n a b q m)) = Some p" if "owner m = Some p" "q \<noteq> p"
    using spe_command_owner_frame[of p q n a b m] that by (simp add: spe_reserve_def spe_release_def)
  moreover have "owner m = Some p \<longleftrightarrow> pc p = Holding" if "pc p \<noteq> Dead" using ok that by (auto simp: spe_ok_def)
  ultimately show ?thesis using ok by (auto simp: spe_ok_def)
qed

text \<open>C31. Progress.  From every reachable state in which the owner, if any, has not died, every live process
  can come to hold the services: no interleaving of refusals and queries leads into a state where the
  others are shut out for good.\<close>

theorem spe_mutex_live:
  assumes "spe_step\<^sup>*\<^sup>* spe_init (m, pc)" "pc p \<noteq> Dead" "\<forall>q. owner m = Some q \<longrightarrow> pc q \<noteq> Dead"
  shows "\<exists>m' pc'. spe_step\<^sup>*\<^sup>* (m, pc) (m', pc') \<and> pc' p = Holding"
  using spe_live_now[OF spe_ok_reachable[OF assms(1) spe_ok_init] assms(2,3)] .

text \<open>A process that dies while it holds the services keeps them: the capsule has no hook on process death,
  so in every later state the dead process is still the owner, no process holds the services and
  every reservation is refused with BUSY.\<close>

theorem dead_holder_blocks:
  assumes "spe_step\<^sup>*\<^sup>* spe_init (m, pc)" "owner m = Some p" "pc p = Dead" "spe_step\<^sup>*\<^sup>* (m, pc) (m', pc')"
  shows "owner m' = Some p \<and> pc' p = Dead \<and> pc' q \<noteq> Holding \<and> (q \<noteq> p \<longrightarrow> spe_command 1 a b q m' = (m', CommandFailure BUSY))"
proof -
  have ok: "spe_ok (m, pc)" by (rule spe_ok_reachable[OF assms(1) spe_ok_init])
  from assms(4) have "owner (fst (m', pc')) = Some p \<and> snd (m', pc') p = Dead \<and> spe_ok (m', pc')"
  proof (induction rule: rtranclp_induct)
    case base
    then show ?case using assms(2,3) ok by simp
  next
    case (step y z)
    then show ?case using spe_dead_step[OF step.hyps(2)] spe_ok_step[OF step.hyps(2)] by blast
  qed
  then show ?thesis by (auto simp: spe_ok_def spe_reserve_def)
qed

lemma sample_run: "spe_step\<^sup>*\<^sup>* spe_init (\<lparr>owner = Some 1\<rparr>, (\<lambda>_. Idle)(1 := Holding))"
proof -
  have "spe_step (spe_mutex_new, \<lambda>_. Idle) (\<lparr>owner = Some 1\<rparr>, (\<lambda>_. Idle)(1 := spe_next 1 CommandSuccess Idle))"
    by (rule spe_step.command) (simp_all add: spe_mutex_new_def spe_reserve_ok)
  then show ?thesis by (simp add: spe_init_def spe_next_def r_into_rtranclp)
qed

text \<open>Process 1 reserves; process 2 releases what it does not hold and then reserves in vain.\<close>

lemma sample_race:
  "spe_step\<^sup>*\<^sup>* spe_init (\<lparr>owner = Some 1\<rparr>, (\<lambda>_. Idle)(1 := Holding, 2 := Waiting))"
proof -
  let ?m = "\<lparr>owner = Some 1\<rparr> :: spe_mutex" and ?pc = "(\<lambda>_. Idle)(1 := Holding) :: process_id \<Rightarrow> spe_pc"
  have "spe_step (?m, ?pc) (?m, ?pc(2 := spe_next 2 (CommandFailure INVAL) (?pc 2)))"
    by (rule spe_step.command) (simp_all add: spe_release_def)
  moreover have "?pc(2 := spe_next 2 (CommandFailure INVAL) (?pc 2)) = ?pc" by (simp add: spe_next_def fun_eq_iff)
  ultimately have "spe_step (?m, ?pc) (?m, ?pc)" by simp
  moreover have "spe_step (?m, ?pc) (?m, ?pc(2 := spe_next 1 (CommandFailure BUSY) (?pc 2)))"
    by (rule spe_step.command) (simp_all add: spe_reserve_def)
  then have "spe_step (?m, ?pc) (?m, ?pc(2 := Waiting))" by (simp add: spe_next_def)
  ultimately show ?thesis using sample_run by (meson rtranclp.rtrancl_into_rtrancl)
qed

theorem spe_mutex_exclusive_witness:
  "\<exists>m pc. spe_step\<^sup>*\<^sup>* spe_init (m, pc) \<and> owner m = Some 1 \<and> pc 2 = Waiting \<and> owner m \<noteq> Some 2 \<and>
    spe_command 2 0 0 2 m = (m, CommandFailure INVAL) \<and> owner (fst (spe_command 1 0 0 2 m)) = Some 1"
proof -
  let ?m = "\<lparr>owner = Some 1\<rparr> :: spe_mutex" and ?pc = "(\<lambda>_. Idle)(1 := Holding, 2 := Waiting)"
  have "owner ?m \<noteq> Some 2" using spe_mutex_exclusive[OF sample_race, of 2] by simp
  moreover have "spe_command 2 0 0 2 ?m = (?m, CommandFailure INVAL) \<and> owner (fst (spe_command 1 0 0 2 ?m)) = Some 1"
    using spe_mutex_exclusive[OF sample_race, of 1 2 0 0 1] by simp
  ultimately show ?thesis using sample_race by (intro exI[of _ ?m] exI[of _ ?pc]) simp
qed

theorem spe_mutex_live_witness:
  "\<exists>m' pc'. spe_step\<^sup>*\<^sup>* (\<lparr>owner = Some 1\<rparr>, (\<lambda>_. Idle)(1 := Holding)) (m', pc') \<and> pc' 2 = Holding"
  by (rule spe_mutex_live[OF sample_run]) auto

lemma sample_death:
  "spe_step\<^sup>*\<^sup>* spe_init (\<lparr>owner = Some 1\<rparr>, (\<lambda>_. Idle)(1 := Dead))"
proof -
  have "spe_step (\<lparr>owner = Some 1\<rparr>, (\<lambda>_. Idle)(1 := Holding)) (\<lparr>owner = Some 1\<rparr>, ((\<lambda>_. Idle)(1 := Holding))(1 := Dead))"
    by (rule spe_step.die)
  then show ?thesis using sample_run by simp
qed

theorem dead_holder_blocks_witness:
  "spe_command 1 0 0 2 \<lparr>owner = Some 1\<rparr> = (\<lparr>owner = Some 1\<rparr>, CommandFailure BUSY)"
  using dead_holder_blocks[OF sample_death _ _ rtranclp.rtrancl_refl, of 1 2 0 0] by simp

end
