(* ===== verification/TokenApp.thy ===== *)
theory TokenApp
  imports Tock
begin

text \<open>
  The token application (integrations/tock/tock_psa_app): the hexadecimal parser, the user-space
  driver of the capsule, the JSON lines it prints, and create_psa_token, which ties them together.
  What waits for the outside takes the outside as data: the answers of the console reads, and the
  events that happen while the application sleeps in yield_wait, which are commands of the other
  processes and upcalls scheduled for this one.  The kernel's yield_wait is a parameter; what is
  assumed of it is that it returns only after an upcall this process has subscribed to.  The result
  None is a wait that never ends: a console that sends no more, or a sleep nothing ends.
\<close>

section \<open>Hexadecimal\<close>

definition hex_digit :: "u8 \<Rightarrow> u8 option" where
  "hex_digit b =
    (if 0x30 \<le> b \<and> b \<le> 0x39 then Some (b - 0x30)
     else if 0x61 \<le> b \<and> b \<le> 0x66 then Some (b - 0x61 + 10)
     else if 0x41 \<le> b \<and> b \<le> 0x46 then Some (b - 0x41 + 10)
     else None)"

function parse_hex_loop :: "u8 list \<Rightarrow> u8 list \<Rightarrow> nat \<Rightarrow> nat \<Rightarrow> u8 list \<times> nat" where
  "parse_hex_loop hex_input out_buf out_idx i =
    (if i < length hex_input \<and> out_idx < length out_buf then
       let byte1 = hex_input ! i in
       if byte1 = 0x20 \<or> byte1 = 0x0A \<or> byte1 = 0x0D then parse_hex_loop hex_input out_buf out_idx (i + 1)
       else case hex_digit byte1 of
         None \<Rightarrow> parse_hex_loop hex_input out_buf out_idx (i + 1)
       | Some hex1 \<Rightarrow>
           if i + 1 \<ge> length hex_input then (out_buf, out_idx)
           else case hex_digit (hex_input ! (i + 1)) of
             None \<Rightarrow> parse_hex_loop hex_input out_buf out_idx (i + 1)
           | Some hex2 \<Rightarrow>
               parse_hex_loop hex_input (out_buf[out_idx := push_bit 4 hex1 OR hex2]) (out_idx + 1) (i + 2)
     else (out_buf, out_idx))"
  by pat_completeness auto
termination by (relation "measure (\<lambda>(hex_input, _, _, i). length hex_input - i)") auto

declare parse_hex_loop.simps [simp del]

definition parse_hex :: "u8 list \<Rightarrow> u8 list \<Rightarrow> u8 list \<times> nat" where
  "parse_hex hex_input out_buf = parse_hex_loop hex_input out_buf 0 0"

text \<open>What the parser is meant to compute on a text of digits only.\<close>

fun hex_value :: "u8 list \<Rightarrow> u8 list option" where
  "hex_value [] = Some []"
| "hex_value [_] = None"
| "hex_value (a # b # rest) =
    (case (hex_digit a, hex_digit b, hex_value rest) of
       (Some h, Some l, Some bs) \<Rightarrow> Some ((push_bit 4 h OR l) # bs)
     | _ \<Rightarrow> None)"

lemma hex_value_length: "hex_value xs = Some bs \<Longrightarrow> length xs = 2 * length bs"
  by (induction xs arbitrary: bs rule: hex_value.induct) (auto split: option.splits)

lemma hex_digit_blank [simp]: "hex_digit 0x20 = None" "hex_digit 0x0A = None" "hex_digit 0x0D = None"
  by (simp_all add: hex_digit_def)

text \<open>One turn of the loop: a byte that starts no pair is dropped, a pair is consumed.\<close>

lemma parse_hex_drop:
  assumes "i < length inp" "oi < length out" "hex_digit (inp ! i) = None"
  shows "parse_hex_loop inp out oi i = parse_hex_loop inp out oi (i + 1)"
  using assms by (subst parse_hex_loop.simps) (simp add: Let_def)

lemma parse_hex_digit:
  assumes "i < length inp" "oi < length out" "hex_digit (inp ! i) = Some h"
  shows "parse_hex_loop inp out oi i =
    (if i + 1 \<ge> length inp then (out, oi)
     else case hex_digit (inp ! (i + 1)) of
       None \<Rightarrow> parse_hex_loop inp out oi (i + 1)
     | Some l \<Rightarrow> parse_hex_loop inp (out[oi := push_bit 4 h OR l]) (oi + 1) (i + 2))"
proof -
  have "inp ! i \<noteq> 0x20 \<and> inp ! i \<noteq> 0x0A \<and> inp ! i \<noteq> 0x0D" using assms(3) by auto
  then show ?thesis using assms by (subst parse_hex_loop.simps) (simp add: Let_def)
qed

lemma parse_hex_end: "\<not> (i < length inp \<and> oi < length out) \<Longrightarrow> parse_hex_loop inp out oi i = (out, oi)"
  by (subst parse_hex_loop.simps) auto

text \<open>The count never exceeds half of what is left of the text.\<close>

lemma parse_hex_count:
  "snd (parse_hex_loop inp out oi i) \<le> oi + (length inp - i) div 2"
proof (induction inp out oi i rule: parse_hex_loop.induct)
  case (1 inp out oi i)
  show ?case
  proof (cases "i < length inp \<and> oi < length out")
    case inside: True
    show ?thesis
    proof (cases "hex_digit (inp ! i)")
      case None
      then have "snd (parse_hex_loop inp out oi (i + 1)) \<le> oi + (length inp - (i + 1)) div 2"
        using 1 inside by (cases "inp ! i = 0x20 \<or> inp ! i = 0x0A \<or> inp ! i = 0x0D") auto
      then show ?thesis using parse_hex_drop[OF conjunct1[OF inside] conjunct2[OF inside] None] by simp
    next
      case (Some h)
      then have nb: "\<not> (inp ! i = 0x20 \<or> inp ! i = 0x0A \<or> inp ! i = 0x0D)" by auto
      show ?thesis
      proof (cases "i + 1 < length inp")
        case more: True
        show ?thesis
        proof (cases "hex_digit (inp ! (i + 1))")
          case no: None
          have "snd (parse_hex_loop inp out oi (i + 1)) \<le> oi + (length inp - (i + 1)) div 2"
            by (rule 1(3)[OF inside refl nb Some _ no]) (use more in simp)
          then show ?thesis using parse_hex_digit[of i inp oi out h] inside Some more no by simp
        next
          case l: (Some l)
          have "snd (parse_hex_loop inp (out[oi := push_bit 4 h OR l]) (oi + 1) (i + 2)) \<le>
              oi + 1 + (length inp - (i + 2)) div 2"
            by (rule 1(4)[OF inside refl nb Some _ l]) (use more in simp)
          also have "\<dots> = oi + (length inp - i) div 2" using more by simp
          finally show ?thesis using parse_hex_digit[of i inp oi out h] inside Some more l by simp
        qed
      qed (use parse_hex_digit[of i inp oi out h] inside Some in simp)
    qed
  qed (simp add: parse_hex_end)
qed

lemma drop_two: "i + 1 < length xs \<Longrightarrow> drop i xs = xs ! i # xs ! (i + 1) # drop (i + 2) xs"
  using Cons_nth_drop_Suc[of i xs] Cons_nth_drop_Suc[of "Suc i" xs] by simp

lemma parse_hex_good:
  assumes "hex_value (drop i inp) = Some bs" "oi \<le> length out" "length bs = length out - oi"
  shows "parse_hex_loop inp out oi i = (take oi out @ bs, length out)"
  using assms
proof (induction bs arbitrary: i oi out)
  case Nil
  then show ?case using parse_hex_end[of i inp oi out] by simp
next
  case (Cons b bs)
  then obtain x y rest where d: "drop i inp = x # y # rest"
    by (cases "drop i inp" rule: hex_value.cases) auto
  then obtain h l where v: "hex_digit x = Some h" "hex_digit y = Some l" "hex_value rest = Some bs" "b = push_bit 4 h OR l"
    using Cons.prems(1) by (auto split: option.splits)
  have "length (drop i inp) \<ge> 2" unfolding d by simp
  then have i: "i + 1 < length inp" by simp
  have "drop i inp = inp ! i # inp ! (i + 1) # drop (i + 2) inp" using i by (rule drop_two)
  then have xy: "inp ! i = x" "inp ! (i + 1) = y" "drop (i + 2) inp = rest" unfolding d by simp_all
  have "parse_hex_loop inp out oi i = parse_hex_loop inp (out[oi := b]) (oi + 1) (i + 2)"
    using parse_hex_digit[of i inp oi out h] i xy v Cons.prems(2,3) by simp
  also have "\<dots> = (take (oi + 1) (out[oi := b]) @ bs, length (out[oi := b]))"
    using Cons.IH[of "i + 2" "oi + 1" "out[oi := b]"] Cons.prems(2,3) v(3) xy(3) by simp
  also have "take (oi + 1) (out[oi := b]) = take oi out @ [b]"
    using Cons.prems(3) by (simp add: take_Suc_conv_app_nth)
  finally show ?case by simp
qed

lemma parse_hex_bad:
  assumes "hex_value (drop i inp) = None" "length inp - i = 2 * (length out - oi)" "oi \<le> length out"
  shows "snd (parse_hex_loop inp out oi i) < length out"
  using assms
proof (induction "length out - oi" arbitrary: i oi out)
  case 0
  then show ?case by simp
next
  case (Suc k)
  have i: "i + 1 < length inp" "oi < length out" using Suc.hyps(2) Suc.prems(2) by auto
  have short: "snd (parse_hex_loop inp out oi (i + 1)) < length out"
    using parse_hex_count[of inp out oi "i + 1"] Suc.prems(2) i by simp
  have d: "drop i inp = inp ! i # inp ! (i + 1) # drop (i + 2) inp"
    using i(1) by (rule drop_two)
  show ?case
  proof (cases "hex_digit (inp ! i)")
    case None
    then show ?thesis using short parse_hex_drop[of i inp oi out] i by simp
  next
    case (Some h)
    show ?thesis
    proof (cases "hex_digit (inp ! (i + 1))")
      case None
      then show ?thesis using short parse_hex_digit[of i inp oi out h] i Some by simp
    next
      case l: (Some l)
      have "hex_value (drop (i + 2) inp) = None"
        using Suc.prems(1) Some l unfolding d by (auto split: option.splits)
      from Suc.hyps(1)[OF _ this, of "out[oi := push_bit 4 h OR l]" "oi + 1"]
      have "snd (parse_hex_loop inp (out[oi := push_bit 4 h OR l]) (oi + 1) (i + 2)) < length out"
        using Suc.hyps(2) Suc.prems(2) i by simp
      then show ?thesis using parse_hex_digit[of i inp oi out h] i Some l by simp
    qed
  qed
qed

lemma parse_hex_core:
  assumes "length inp = 2 * length out"
  shows "snd (parse_hex inp out) = length out \<longleftrightarrow> (\<exists>bs. hex_value inp = Some bs)"
    and "hex_value inp = Some bs \<Longrightarrow> parse_hex inp out = (bs, length out)"
proof -
  have good: "parse_hex inp out = (bs, length out)" if "hex_value inp = Some bs" for bs
    using parse_hex_good[of 0 inp bs 0 out] hex_value_length[OF that] assms that by (simp add: parse_hex_def)
  then show "hex_value inp = Some bs \<Longrightarrow> parse_hex inp out = (bs, length out)" .
  show "snd (parse_hex inp out) = length out \<longleftrightarrow> (\<exists>bs. hex_value inp = Some bs)"
    using good parse_hex_bad[of 0 inp out 0] assms by (cases "hex_value inp") (auto simp: parse_hex_def)
qed

text \<open>The parser reads what the printer writes.\<close>

lemma hex_digit_char: "n < 16 \<Longrightarrow> hex_digit (of_char (hex_char n)) = Some (of_nat n)"
proof -
  have "\<forall>n\<in>set [0..<16]. hex_digit (of_char (hex_char n)) = Some (of_nat n)"
    by (simp add: hex_digit_def hex_char_def upt_rec)
  then show "n < 16 \<Longrightarrow> ?thesis" by simp
qed

lemma nibbles: "push_bit 4 (of_nat (unat b div 16)) OR of_nat (unat b mod 16) = (b :: u8)"
proof -
  have "b = push_bit 4 (drop_bit 4 b) OR take_bit 4 b"
    by (rule bit_word_eqI) (auto simp: bit_simps)
  moreover have "unat b < 256" using unsigned_less[of b] by simp
  then have "unat (drop_bit 4 b) = unat (of_nat (unat b div 16) :: u8)" "unat (take_bit 4 b) = unat (of_nat (unat b mod 16) :: u8)"
    by (simp_all add: unsigned_drop_bit_eq drop_bit_eq_div unsigned_take_bit_eq take_bit_eq_mod unsigned_of_nat
        take_bit_nat_eq_self unat_div_distrib unat_mod_distrib)
  then have "drop_bit 4 b = of_nat (unat b div 16)" "take_bit 4 b = of_nat (unat b mod 16)"
    by (simp_all only: word_unat_eq_iff)
  ultimately show ?thesis by simp
qed

lemma hex_value_print: "hex_value (map of_char (concat (map hex_pair bs))) = Some bs"
proof (induction bs)
  case (Cons b bs)
  have "unat b < 256" using unsigned_less[of b] by simp
  then show ?case using Cons.IH by (simp add: hex_pair_def hex_digit_char nibbles)
qed simp

section \<open>The driver of the capsule\<close>

datatype token_error = ConsoleRead | SpeDriverNotAvailable | TokenRequestFailed | WriteError

text \<open>
  The environment of the application: the kernel's Command and Yield-Wait system calls issued by
  this process (the second runs through the events to come and gives what is left of them, None if
  it never returns), the drivers whose upcalls the process has subscribed to, libtock's to_result at the two types used, the writer's write_fmt (the Boolean says whether it
  succeeded), the client call into the secure side with its memory, and the addresses of the two
  aligned locals.
\<close>

datatype kernel_event = Command usize process_id | Upcall u32

record ('w, 's) app_env =
  te_syscall :: "u32 \<Rightarrow> u32 \<Rightarrow> spe_mutex \<Rightarrow> spe_mutex \<times> command_return"
  te_yield_wait :: "kernel_event list \<Rightarrow> spe_mutex \<Rightarrow> (spe_mutex \<times> kernel_event list) option"
  te_subscribed :: "u32 set"
  te_to_unit :: "command_return \<Rightarrow> error_code + unit"
  te_to_u32 :: "command_return \<Rightarrow> error_code + u32"
  te_put :: "string \<Rightarrow> 'w \<Rightarrow> 'w \<times> bool"
  te_call :: "'s psa_call_fn"
  te_get :: "'s \<Rightarrow> mem"
  te_upd :: "(mem \<Rightarrow> mem) \<Rightarrow> 's \<Rightarrow> 's"
  te_nonce_at :: usize
  te_token_at :: usize

definition DRIVER_NUM :: u32 where "DRIVER_NUM = 0xA0000"
definition EXISTS :: u32 where "EXISTS = 0"
definition RESERVE :: u32 where "RESERVE = 1"
definition RELEASE :: u32 where "RELEASE = 2"
definition IS_AVAILABLE :: u32 where "IS_AVAILABLE = 3"

definition driver_exists :: "('w, 's) app_env \<Rightarrow> spe_mutex \<Rightarrow> spe_mutex \<times> (error_code + unit)" where
  "driver_exists env m = (case te_syscall env DRIVER_NUM EXISTS m of (m, r) \<Rightarrow> (m, te_to_unit env r))"

definition driver_reserve :: "('w, 's) app_env \<Rightarrow> spe_mutex \<Rightarrow> spe_mutex \<times> (error_code + unit)" where
  "driver_reserve env m = (case te_syscall env DRIVER_NUM RESERVE m of (m, r) \<Rightarrow> (m, te_to_unit env r))"

definition driver_release :: "('w, 's) app_env \<Rightarrow> spe_mutex \<Rightarrow> spe_mutex \<times> (error_code + unit)" where
  "driver_release env m = (case te_syscall env DRIVER_NUM RELEASE m of (m, r) \<Rightarrow> (m, te_to_unit env r))"

definition driver_is_available :: "('w, 's) app_env \<Rightarrow> spe_mutex \<Rightarrow> spe_mutex \<times> (error_code + bool)" where
  "driver_is_available env m =
    (case te_syscall env DRIVER_NUM IS_AVAILABLE m of
       (m, r) \<Rightarrow> (m, and_then (te_to_u32 env r) (\<lambda>res. Inr (res \<noteq> 0))))"

text \<open>The capsule while this process sleeps: the commands of the other processes reach it, an upcall
  does not.\<close>

fun kernel_event_step :: "kernel_event \<Rightarrow> spe_mutex \<Rightarrow> spe_mutex" where
  "kernel_event_step (Command c p) m = fst (spe_command c 0 0 p m)"
| "kernel_event_step (Upcall d) m = m"

definition run_events :: "kernel_event list \<Rightarrow> spe_mutex \<Rightarrow> spe_mutex" where
  "run_events ev m = fold kernel_event_step ev m"

text \<open>What the kernel and libtock document: a Command for the capsule's driver number reaches the capsule
  under the caller's process id; a success without value is Ok, a failure its error; Yield-Wait
  returns only after it has run an upcall, and an upcall runs only if the process has subscribed
  to it.\<close>

definition tock_documented :: "('w, 's) app_env \<Rightarrow> process_id \<Rightarrow> bool" where
  "tock_documented env pid \<longleftrightarrow>
    (\<forall>n m. te_syscall env DRIVER_NUM n m = spe_command n 0 0 pid m) \<and>
    te_to_unit env CommandSuccess = Inr () \<and> (\<forall>e. te_to_unit env (CommandFailure e) = Inl e) \<and>
    (\<forall>v. te_to_u32 env (CommandSuccessU32 v) = Inr v) \<and>
    (\<forall>ev m m' ev'. te_yield_wait env ev m = Some (m', ev') \<longrightarrow>
      (\<exists>pre d. ev = pre @ Upcall d # ev' \<and> d \<in> te_subscribed env \<and> m' = run_events pre m))"

partial_function (option) reserve_loop ::
    "('w, 's) app_env \<Rightarrow> kernel_event list \<Rightarrow> spe_mutex \<Rightarrow> (spe_mutex \<times> kernel_event list) option" where
  "reserve_loop env ev m =
    (case driver_reserve env m of
       (m, Inr _) \<Rightarrow> Some (m, ev)
     | (m, Inl _) \<Rightarrow>
         (case te_yield_wait env ev m of
            None \<Rightarrow> None
          | Some (m, ev) \<Rightarrow> reserve_loop env ev m))"

section \<open>The printed lines\<close>

fun put_all :: "('w, 's) app_env \<Rightarrow> string list \<Rightarrow> 'w \<Rightarrow> 'w \<times> (token_error + unit)" where
  "put_all env [] w = (w, Inr ())"
| "put_all env (t # ts) w =
    (case te_put env t w of (w, ok) \<Rightarrow> if ok then put_all env ts w else (w, Inl WriteError))"

definition emit_json_error ::
    "('w, 's) app_env \<Rightarrow> string \<Rightarrow> token_error \<Rightarrow> 'w \<Rightarrow> 'w \<times> (token_error + unit)" where
  \<open>emit_json_error env error token_error w =
    (case put_all env [''{"type":"error","msg":"'' @ error @ ''"}'' @ newline] w of
       (w, Inl e) \<Rightarrow> (w, Inl e)
     | (w, Inr _) \<Rightarrow> (w, Inl token_error))\<close>

definition response_head :: "nat \<Rightarrow> string" where
  \<open>response_head token_len = ''{"type":"token_response","token_len":'' @ decimal token_len @ '',"token":"''\<close>

definition response_tail :: string where \<open>response_tail = ''"}'' @ newline\<close>

definition emit_json_ok ::
    "('w, 's) app_env \<Rightarrow> u8 list \<Rightarrow> nat \<Rightarrow> 'w \<Rightarrow> 'w \<times> (token_error + unit)" where
  \<open>emit_json_ok env token token_len w =
    put_all env ([response_head token_len] @ map hex_pair token @ [response_tail]) w\<close>

definition emit_json_console_read_error ::
    "('w, 's) app_env \<Rightarrow> string \<Rightarrow> 'w \<Rightarrow> 'w \<times> (token_error + unit)" where
  \<open>emit_json_console_read_error env err w =
    (case put_all env [''{"type":"error","msg":"console_read","detail":"'' @ err @ ''"}'' @ newline] w of
       (w, Inl e) \<Rightarrow> (w, Inl e)
     | (w, Inr _) \<Rightarrow> (w, Inl ConsoleRead))\<close>

definition emit_json_nonce_read_error ::
    "('w, 's) app_env \<Rightarrow> u8 list \<Rightarrow> usize \<Rightarrow> 'w \<Rightarrow> 'w \<times> (token_error + unit)" where
  \<open>emit_json_nonce_read_error env nonce_hex line_len w =
    (let shown_len = min (unat line_len) (length nonce_hex) in
     put_all env ([''{"type":"error","msg":"Nonce-Read Failed","read_len":'' @ decimal (unat line_len) @ '',"read":"''] @
       map (\<lambda>b. [char_of (unat b)]) (take shown_len nonce_hex) @
       (if unat line_len > length nonce_hex then [''...<truncated>''] else []) @ [''"}'' @ newline]) w)\<close>

section \<open>Reading the nonce\<close>

datatype console_event = Got u8 | GotNone | ReadFailed string

datatype line_read = Blocked | ReadError "console_event list" string | Line "console_event list" "u8 list" usize

fun read_line :: "console_event list \<Rightarrow> u8 list \<Rightarrow> usize \<Rightarrow> line_read" where
  "read_line [] nonce_hex i = Blocked"
| "read_line (ReadFailed err # ev) nonce_hex i = ReadError ev err"
| "read_line (GotNone # ev) nonce_hex i = read_line ev nonce_hex i"
| "read_line (Got byte # ev) nonce_hex i =
    (if byte = 0x0A \<or> byte = 0x0D then Line ev nonce_hex i
     else read_line ev (if unat i < length nonce_hex then nonce_hex[unat i := byte] else nonce_hex) (i + 1))"

lemma read_line_shorter: "read_line ev nonce_hex i = Line ev' nonce_hex' l \<Longrightarrow> length ev' < length ev"
  by (induction ev nonce_hex i rule: read_line.induct) (auto split: if_splits)

lemma read_line_length: "read_line ev nonce_hex i = Line ev' nonce_hex' l \<Longrightarrow> length nonce_hex' = length nonce_hex"
  by (induction ev nonce_hex i rule: read_line.induct) (auto split: if_splits)

definition enter_nonce_msg :: string where
  \<open>enter_nonce_msg = newline @
    ''{ "type": "enter_nonce", "msg": "Please enter a hex-encoded nonce (up to 32 bytes):" }'' @ newline\<close>

definition parse_failed_msg :: string where
  \<open>parse_failed_msg = ''{"type":"error","msg":"Nonce-Parse Failed"}'' @ newline\<close>

definition accepted_msg :: string where
  \<open>accepted_msg =
    ''{"type":"status","msg":"Nonce accepted. Generating token, this can take a few seconds."}'' @ newline\<close>

text \<open>The prompt is repeated until a line of 64 characters parses to 32 bytes.  Inl is a return from
  create_psa_token, Inr the nonce.\<close>

function nonce_loop ::
    "('w, 's) app_env \<Rightarrow> u8 list \<Rightarrow> u8 list \<Rightarrow> console_event list \<Rightarrow> 'w \<Rightarrow>
     ('w \<times> console_event list \<times> ((token_error + unit) + u8 list)) option" where
  "nonce_loop env nonce_hex nonce ev w =
    (case put_all env [enter_nonce_msg] w of
       (w, Inl e) \<Rightarrow> Some (w, ev, Inl (Inl e))
     | (w, Inr _) \<Rightarrow>
    (case read_line ev nonce_hex 0 of
       Blocked \<Rightarrow> None
     | ReadError ev err \<Rightarrow>
         (case emit_json_console_read_error env err w of (w, r) \<Rightarrow> Some (w, ev, Inl r))
     | Line ev' nonce_hex line_len \<Rightarrow>
         if line_len \<noteq> 64 then
           (case emit_json_nonce_read_error env nonce_hex line_len w of
              (w, Inl e) \<Rightarrow> Some (w, ev', Inl (Inl e))
            | (w, Inr _) \<Rightarrow> nonce_loop env nonce_hex nonce ev' w)
         else
           (case parse_hex (take (unat line_len) nonce_hex) nonce of
              (nonce, parsed_len) \<Rightarrow>
                if parsed_len \<noteq> 32 then
                  (case put_all env [parse_failed_msg] w of
                     (w, Inl e) \<Rightarrow> Some (w, ev', Inl (Inl e))
                   | (w, Inr _) \<Rightarrow> nonce_loop env nonce_hex nonce ev' w)
                else
                  (case put_all env [accepted_msg] w of
                     (w, Inl e) \<Rightarrow> Some (w, ev', Inl (Inl e))
                   | (w, Inr _) \<Rightarrow> Some (w, ev', Inr nonce)))))"
  by pat_completeness auto
termination
  by (relation "measure (\<lambda>(_, _, _, ev, _). length ev)") (auto dest: read_line_shorter)

declare nonce_loop.simps [simp del]

section \<open>The application\<close>

text \<open>
  The world of one run: the writer, the console's answers, the capsule as the application finds it
  when it comes to the driver (nothing it does before that reaches the capsule, so what the other
  processes command while it reads the nonce is in this state already), the events from then on,
  and the secure side with the memory.
\<close>

record ('w, 's) app_world =
  aw_writer :: 'w
  aw_console :: "console_event list"
  aw_mutex :: spe_mutex
  aw_events :: "kernel_event list"
  aw_secure :: 's

definition create_psa_token ::
    "('w, 's) app_env \<Rightarrow> ('w, 's) app_world \<Rightarrow> (('w, 's) app_world \<times> (token_error + unit)) option" where
  "create_psa_token env w =
    (case nonce_loop env (replicate 64 0) (replicate 32 0) (aw_console w) (aw_writer w) of
       None \<Rightarrow> None
     | Some (wr, ev, Inl r) \<Rightarrow> Some (w\<lparr>aw_writer := wr, aw_console := ev\<rparr>, r)
     | Some (wr, ev, Inr nonce) \<Rightarrow>
    (let w = w\<lparr>aw_writer := wr, aw_console := ev\<rparr> in
     case driver_exists env (aw_mutex w) of
       (m, Inl _) \<Rightarrow>
         (case emit_json_error env ''spe_driver_not_available'' SpeDriverNotAvailable wr of
            (wr, r) \<Rightarrow> Some (w\<lparr>aw_writer := wr, aw_mutex := m\<rparr>, r))
     | (m, Inr _) \<Rightarrow>
    (case reserve_loop env (aw_events w) m of
       None \<Rightarrow> None
     | Some (m, ev) \<Rightarrow>
    (let s = te_upd env (\<lambda>mem. write_bytes (write_bytes mem (te_token_at env) (replicate 512 0))
               (te_nonce_at env) (take 32 nonce)) (aw_secure w) in
     case psa_initial_attest_get_token (te_call env) (te_nonce_at env, 32) (te_token_at env, 512) s of
       (s, status) \<Rightarrow>
    (let m = fst (driver_release env m);
         w = w\<lparr>aw_mutex := m, aw_events := ev, aw_secure := s\<rparr> in
     case status of
       Inl _ \<Rightarrow>
         (case emit_json_error env ''token_request_failed'' TokenRequestFailed wr of
            (wr, r) \<Rightarrow> Some (w\<lparr>aw_writer := wr\<rparr>, r))
     | Inr _ \<Rightarrow>
         (case emit_json_ok env (take 512 (read_bytes (te_get env s) (te_token_at env) 512)) 512 wr of
            (wr, r) \<Rightarrow> Some (w\<lparr>aw_writer := wr\<rparr>, r)))))))"

section \<open>Lemmas\<close>

lemma driver_simps:
  assumes "tock_documented env pid"
  shows "driver_exists env m = (m, Inr ())"
    and "driver_reserve env m = (if owner m = None then (m\<lparr>owner := Some pid\<rparr>, Inr ())
      else (m, Inl (if owner m = Some pid then ALREADY else BUSY)))"
    and "fst (driver_release env m) = fst (spe_release pid m)"
  using assms
  by (auto simp: driver_exists_def driver_reserve_def driver_release_def tock_documented_def EXISTS_def RESERVE_def
      RELEASE_def spe_reserve_def split: option.split prod.split)

text \<open>A sleep in which only the others' commands and unsubscribed upcalls happen does not end.\<close>

lemma yield_wait_needs_upcall:
  assumes "tock_documented env pid" "\<forall>d. Upcall d \<in> set ev \<longrightarrow> d \<notin> te_subscribed env"
  shows "te_yield_wait env ev m = None"
proof (cases "te_yield_wait env ev m")
  case (Some r)
  then obtain m' ev' where "te_yield_wait env ev m = Some (m', ev')" by (cases r) simp
  then obtain pre d where "ev = pre @ Upcall d # ev'" "d \<in> te_subscribed env"
    using assms(1) unfolding tock_documented_def by blast
  then show ?thesis using assms(2) by simp
qed

lemma reserve_loop_core:
  assumes "tock_documented env pid" "te_subscribed env = {}"
  shows "reserve_loop env ev m = (if owner m = None then Some (m\<lparr>owner := Some pid\<rparr>, ev) else None)"
  using yield_wait_needs_upcall[OF assms(1), of ev] assms(2)
  by (subst reserve_loop.simps) (simp add: driver_simps[OF assms(1)])

lemma reserve_loop_owner:
  assumes "tock_documented env pid"
  shows "reserve_loop env ev m = Some (m', rest) \<Longrightarrow> owner m' = Some pid"
proof -
  assume l: "reserve_loop env ev m = Some (m', rest)"
  have "env = env \<longrightarrow> owner (fst (m', rest)) = Some pid"
  proof (rule reserve_loop.raw_induct[where P = "\<lambda>e _ _ r. e = env \<longrightarrow> owner (fst r) = Some pid", OF _ l], intro impI)
    fix loop e ev m r
    assume IH: "\<And>e ev m r. loop e ev m = Some r \<Longrightarrow> e = env \<longrightarrow> owner (fst r) = Some pid"
      and body: "(case driver_reserve e m of (m, Inl _) \<Rightarrow> (case te_yield_wait e ev m of None \<Rightarrow> None | Some (m, ev) \<Rightarrow> loop e ev m)
        | (m, Inr _) \<Rightarrow> Some (m, ev)) = Some r" and e: "e = env"
    show "owner (fst r) = Some pid"
      using body IH unfolding e by (auto simp: driver_simps[OF assms] split: if_splits option.splits prod.splits)
  qed
  then show ?thesis by simp
qed

lemma put_all_ok:
  assumes "\<And>t w. snd (te_put env t w)"
  shows "put_all env ts w = (fold (\<lambda>t w. fst (te_put env t w)) ts w, Inr ())"
  using assms by (induction ts arbitrary: w) (auto split: prod.split, metis snd_conv)

lemma read_line_at:
  assumes "i + length line \<le> 64" "length nonce_hex = 64" "nl = 0x0A \<or> nl = 0x0D"
    and "\<forall>b\<in>set line. b \<noteq> 0x0A \<and> b \<noteq> 0x0D"
  shows "read_line (map Got line @ Got nl # rest) nonce_hex (of_nat i) =
    Line rest (take i nonce_hex @ line @ drop (i + length line) nonce_hex) (of_nat (i + length line))"
  using assms
proof (induction line arbitrary: i nonce_hex)
  case Nil
  then show ?case by auto
next
  case (Cons b line)
  have u: "unat (of_nat i :: usize) = i" using Cons.prems(1) by (simp add: unat_of_nat_small)
  have "read_line (map Got (b # line) @ Got nl # rest) nonce_hex (of_nat i) =
      read_line (map Got line @ Got nl # rest) (nonce_hex[i := b]) (of_nat (i + 1))"
    using Cons.prems by (simp add: u add.commute)
  also have "\<dots> = Line rest (take (i + 1) (nonce_hex[i := b]) @ line @ drop (i + 1 + length line) (nonce_hex[i := b]))
      (of_nat (i + 1 + length line))"
    using Cons.prems by (intro Cons.IH) simp_all
  also have "take (i + 1) (nonce_hex[i := b]) = take i nonce_hex @ [b]"
    using Cons.prems(1,2) by (simp add: take_Suc_conv_app_nth)
  finally show ?case by simp
qed

lemma hex_value_digits: "hex_value xs = Some bs \<Longrightarrow> \<forall>b\<in>set xs. hex_digit b \<noteq> None"
  by (induction xs arbitrary: bs rule: hex_value.induct) (auto split: option.splits)

lemma nonce_loop_first:
  assumes "\<And>t w. snd (te_put env t w)" "hex_value line = Some n" "length line = 64" "nl = 0x0A \<or> nl = 0x0D"
    and "length nonce_hex = 64" "length nonce = 32"
  shows "nonce_loop env nonce_hex nonce (map Got line @ Got nl # rest) w =
    Some (fold (\<lambda>t w. fst (te_put env t w)) [enter_nonce_msg, accepted_msg] w, rest, Inr n)"
proof -
  have nb: "\<forall>b\<in>set line. b \<noteq> 0x0A \<and> b \<noteq> 0x0D" using hex_value_digits[OF assms(2)] by auto
  have r: "read_line (map Got line @ Got nl # rest) nonce_hex 0 = Line rest line 64"
    using read_line_at[of 0 line nonce_hex nl rest] nb assms(3-5) by simp
  have p: "parse_hex (take 64 line) nonce = (n, 32)"
    using parse_hex_core(2)[of line nonce n] assms(2,3,6) by simp
  show ?thesis by (subst nonce_loop.simps) (simp add: put_all_ok[OF assms(1)] r p del: put_all.simps)
qed

section \<open>Properties\<close>

text \<open>The nonce parser.  On a text twice as long as the buffer it fills the buffer exactly when the text
  is hexadecimal throughout, so the application's test for 32 parsed bytes accepts no line with a blank or
  a stray character; the bytes are then the value of the text; and parsing the lower-case text in which
  the application prints a token gives the token back.\<close>

theorem parse_hex_exact:
  assumes "length hex_input = 2 * length out_buf"
  shows "(snd (parse_hex hex_input out_buf) = length out_buf \<longleftrightarrow> (\<exists>bs. hex_value hex_input = Some bs)) \<and>
    (\<forall>bs. hex_value hex_input = Some bs \<longrightarrow> parse_hex hex_input out_buf = (bs, length out_buf)) \<and>
    (\<forall>bs. hex_input = map of_char (concat (map hex_pair bs)) \<longrightarrow> parse_hex hex_input out_buf = (bs, length out_buf))"
  using parse_hex_core[OF assms] hex_value_print by blast

theorem parse_hex_exact_witness:
  "parse_hex (map of_char (concat (map hex_pair [0xAB, 0x07]))) [0, 0] = ([0xAB, 0x07], 2) \<and>
    snd (parse_hex [0x61, 0x20, 0x62, 0x63] [0, 0]) \<noteq> 2"
proof -
  have "hex_value [0x61, 0x20, 0x62, 0x63] = None" by (simp split: option.split)
  then have "snd (parse_hex [0x61, 0x20, 0x62, 0x63] [0, 0]) \<noteq> 2"
    using parse_hex_exact[of "[0x61, 0x20, 0x62, 0x63]" "[0, 0]"] by simp
  moreover have "length (map of_char (concat (map hex_pair [0xAB, 0x07]))) = 2 * length [0 :: u8, 0]"
    by (simp add: hex_pair_def)
  from parse_hex_exact[OF this]
  have "parse_hex (map of_char (concat (map hex_pair [0xAB, 0x07]))) [0, 0] = ([0xAB, 0x07], length [0 :: u8, 0])"
    by blast
  ultimately show ?thesis by simp
qed

text \<open>The wait for the secure services.  The retry loop returns if and only if the services are free at
  the first try: a refused application sleeps in yield_wait, which only an upcall it has subscribed
  to would end, and neither it nor the capsule makes one.  Having returned, the loop leaves the
  services with this process; and however create_psa_token ends, with a token or with any error, it
  does not leave with the services still reserved by it.\<close>

theorem token_app_reserves:
  assumes "tock_documented env pid" "te_subscribed env = {}"
  shows "((\<exists>m' rest. reserve_loop env ev m = Some (m', rest)) \<longleftrightarrow> owner m = None) \<and>
    (\<forall>m' rest. reserve_loop env ev m = Some (m', rest) \<longrightarrow> owner m' = Some pid \<and> rest = ev) \<and>
    (\<forall>w w' r. owner (aw_mutex w) \<noteq> Some pid \<and> create_psa_token env w = Some (w', r) \<longrightarrow>
      owner (aw_mutex w') \<noteq> Some pid)"
proof -
  have "owner (aw_mutex w') \<noteq> Some pid"
    if o: "owner (aw_mutex w) \<noteq> Some pid" and c: "create_psa_token env w = Some (w', r)" for w w' r
  proof -
    obtain wr ev x where n: "nonce_loop env (replicate 64 0) (replicate 32 0) (aw_console w) (aw_writer w) = Some (wr, ev, x)"
      using c by (auto simp: create_psa_token_def split: option.splits)
    show ?thesis
    proof (cases x)
      case (Inl e)
      then show ?thesis using c o n by (auto simp: create_psa_token_def)
    next
      case (Inr nonce)
      then obtain m rest where l: "reserve_loop env (aw_events w) (aw_mutex w) = Some (m, rest)"
        using c n by (auto simp: create_psa_token_def driver_simps[OF assms(1)] Let_def split: option.splits)
      have "aw_mutex w' = fst (spe_release pid m)"
        using c n Inr l by (auto simp: create_psa_token_def driver_simps[OF assms(1)] Let_def split: prod.splits sum.splits)
      then show ?thesis using reserve_loop_owner[OF assms(1) l] by (simp add: spe_release_owner)
    qed
  qed
  then show ?thesis using reserve_loop_core[OF assms] by (auto split: if_splits)
qed

text \<open>C17. The application end to end, on a line of 64 hexadecimal digits, with a writer that does not fail
  and a token request that would succeed.  If the services are free when the application tries to
  reserve them, it returns Ok: the services end up free, the request saw the value of the line in the
  nonce buffer, and what it printed after the prompts is the token buffer in hexadecimal with the
  length 512, whatever the length of the token.  If they are not free, it never returns, whatever the
  owner and the other processes command afterwards, a release included: it sleeps in yield_wait, which
  only an upcall this process has subscribed to would end, and the process has none (the application
  subscribes to nothing, the capsule schedules nothing, and libtock's Console withdraws its own).\<close>

theorem token_app_prints:
  assumes "tock_documented env pid" "te_subscribed env = {}" "\<forall>t w. snd (te_put env t w)"
    and "hex_value line = Some nonce" "length line = 64" "nl = 0x0A \<or> nl = 0x0D"
    and "aw_console w = map Got line @ Got nl # rest"
    and "s = te_upd env (\<lambda>mem. write_bytes (write_bytes mem (te_token_at env) (replicate 512 0)) (te_nonce_at env) nonce)
      (aw_secure w)"
    and "psa_initial_attest_get_token (te_call env) (te_nonce_at env, 32) (te_token_at env, 512) s = (s', Inr n)"
    and "token = read_bytes (te_get env s') (te_token_at env) 512"
  shows "if owner (aw_mutex w) = None then
      \<exists>w'. create_psa_token env w = Some (w', Inr ()) \<and> owner (aw_mutex w') = None \<and> aw_console w' = rest \<and>
        aw_secure w' = s' \<and>
        aw_writer w' = fold (\<lambda>t w. fst (te_put env t w))
          ([enter_nonce_msg, accepted_msg, response_head 512] @ map hex_pair token @ [response_tail]) (aw_writer w)
    else create_psa_token env w = None"
proof -
  note put = assms(3)[rule_format]
  note first = nonce_loop_first[OF put assms(4-6), of "replicate 64 0" "replicate 32 0" rest "aw_writer w"]
  show ?thesis
  proof (cases "owner (aw_mutex w) = None")
    case True
    have n: "take 32 nonce = nonce" using hex_value_length[OF assms(4)] assms(5) by simp
    have "psa_initial_attest_get_token (te_call env) (te_nonce_at env, 32) (te_token_at env, 512)
        (te_upd env (\<lambda>mem. write_bytes (write_bytes mem (te_token_at env) (replicate 512 0)) (te_nonce_at env) (take 32 nonce))
          (aw_secure w)) = (s', Inr n)"
      unfolding n assms(8)[symmetric] by (rule assms(9))
    moreover have "take 512 token = token" using assms(10) by simp
    ultimately show ?thesis
      using True assms(7,10) first
      by (simp add: create_psa_token_def driver_simps[OF assms(1)] reserve_loop_core[OF assms(1,2)] spe_release_owner
          Let_def emit_json_ok_def put_all_ok[OF put] del: put_all.simps split del: if_split)
  next
    case False
    then obtain q where "owner (aw_mutex w) = Some q" by auto
    then show ?thesis
      using assms(7) first
      by (simp add: create_psa_token_def driver_simps[OF assms(1)] reserve_loop_core[OF assms(1,2)] Let_def)
  qed
qed

section \<open>Witnesses\<close>

text \<open>A kernel that behaves as documented (its Yield-Wait runs the events up to the first upcall the
  process has subscribed to), a writer that collects the text, and a secure side that answers
  success and leaves memory alone.\<close>

fun sample_yield_wait :: "u32 set \<Rightarrow> kernel_event list \<Rightarrow> spe_mutex \<Rightarrow> (spe_mutex \<times> kernel_event list) option" where
  "sample_yield_wait subs [] m = None"
| "sample_yield_wait subs (Upcall d # ev) m = (if d \<in> subs then Some (m, ev) else sample_yield_wait subs ev m)"
| "sample_yield_wait subs (Command c p # ev) m = sample_yield_wait subs ev (kernel_event_step (Command c p) m)"

lemma sample_yield_wait_documented:
  "sample_yield_wait subs ev m = Some (m', ev') \<Longrightarrow> \<exists>pre d. ev = pre @ Upcall d # ev' \<and> d \<in> subs \<and> m' = run_events pre m"
proof (induction subs ev m rule: sample_yield_wait.induct)
  case (2 subs d ev m)
  show ?case
  proof (cases "d \<in> subs")
    case True
    then show ?thesis using 2 by (auto intro!: exI[of _ "[]"] simp: run_events_def)
  next
    case False
    then obtain pre d' where "ev = pre @ Upcall d' # ev' \<and> d' \<in> subs \<and> m' = run_events pre m" using 2 by auto
    then show ?thesis by (intro exI[of _ "Upcall d # pre"] exI[of _ d']) (simp add: run_events_def)
  qed
next
  case (3 subs c p ev m)
  then obtain pre d where "ev = pre @ Upcall d # ev' \<and> d \<in> subs \<and> m' = run_events pre (kernel_event_step (Command c p) m)"
    by auto
  then show ?case by (intro exI[of _ "Command c p # pre"] exI[of _ d]) (simp add: run_events_def)
qed simp

definition sample_env :: "(string, mem) app_env" where
  "sample_env =
    \<lparr>te_syscall = (\<lambda>d n m. if d = DRIVER_NUM then spe_command n 0 0 5 m else (m, CommandFailure INVAL)),
     te_yield_wait = sample_yield_wait {}, te_subscribed = {},
     te_to_unit = (\<lambda>r. case r of CommandSuccess \<Rightarrow> Inr () | CommandSuccessU32 _ \<Rightarrow> Inl INVAL | CommandFailure e \<Rightarrow> Inl e),
     te_to_u32 = (\<lambda>r. case r of CommandSuccess \<Rightarrow> Inl INVAL | CommandSuccessU32 v \<Rightarrow> Inr v | CommandFailure e \<Rightarrow> Inl e),
     te_put = (\<lambda>t w. (w @ t, True)),
     te_call = (\<lambda>_ _ _ out_vec s. (s, out_vec, 0)),
     te_get = id, te_upd = id, te_nonce_at = 0x2000, te_token_at = 0x3000\<rparr>"

text \<open>While the application sleeps the owner, process 7, releases and an alarm of another driver goes off.\<close>

definition sample_world :: "process_id option \<Rightarrow> (string, mem) app_world" where
  "sample_world holder =
    \<lparr>aw_writer = [], aw_console = map Got (replicate 64 0x61) @ Got 0x0A # [GotNone],
     aw_mutex = \<lparr>owner = holder\<rparr>, aw_events = [Command 3 7, Command 2 7, Upcall 0], aw_secure = (\<lambda>_. 0)\<rparr>"

lemma sample_env_documented: "tock_documented sample_env 5"
  by (auto simp: tock_documented_def sample_env_def dest: sample_yield_wait_documented)

lemma sample_line: "hex_value (replicate (2 * n) 0x61) = Some (replicate n 0xAA)"
  by (induction n) (simp_all add: hex_digit_def push_bit_eq_mult)

theorem token_app_reserves_witness:
  "reserve_loop sample_env [Command 2 7, Upcall 0] \<lparr>owner = Some 7\<rparr> = None \<and>
    (\<exists>m' rest. reserve_loop sample_env [] \<lparr>owner = None\<rparr> = Some (m', rest) \<and> owner m' = Some 5)"
proof -
  have s: "te_subscribed sample_env = {}" by (simp add: sample_env_def)
  show ?thesis
    using token_app_reserves[OF sample_env_documented s, of "[Command 2 7, Upcall 0]" "\<lparr>owner = Some 7\<rparr>"]
      token_app_reserves[OF sample_env_documented s, of "[]" "\<lparr>owner = None\<rparr>"]
    by (cases "reserve_loop sample_env [Command 2 7, Upcall 0] \<lparr>owner = Some 7\<rparr>") auto
qed

theorem token_app_prints_witness:
  "(\<exists>w'. create_psa_token sample_env (sample_world None) = Some (w', Inr ()) \<and> owner (aw_mutex w') = None) \<and>
    create_psa_token sample_env (sample_world (Some 7)) = None \<and>
    owner (run_events (aw_events (sample_world (Some 7))) (aw_mutex (sample_world (Some 7)))) = None"
proof -
  let ?s = "te_upd sample_env (\<lambda>mem. write_bytes (write_bytes mem (te_token_at sample_env) (replicate 512 0))
    (te_nonce_at sample_env) (replicate 32 0xAA)) (\<lambda>_. 0)"
  have line: "hex_value (replicate 64 0x61) = Some (replicate 32 0xAA)" using sample_line[of 32] by simp
  have put: "\<forall>t w. snd (te_put sample_env t w)" by (simp add: sample_env_def)
  have subs: "te_subscribed sample_env = {}" by (simp add: sample_env_def)
  have call: "psa_initial_attest_get_token (te_call sample_env) (te_nonce_at sample_env, 32) (te_token_at sample_env, 512) ?s =
      (?s, Inr 512)"
    by (simp add: psa_initial_attest_get_token_def sample_env_def Let_def status_from_raw_def vec_of_slice_def
        status_try_from_def)
  note app = token_app_prints[where nl = "0x0A" and rest = "[GotNone]" and w = "sample_world h" for h,
      OF sample_env_documented subs put line _ _ _ _ call refl]
  show ?thesis
    using app[of None] app[of "Some 7"] by (auto simp: sample_world_def run_events_def spe_release_def)
qed

end
