(* ===== verification/SvcAsm.thy ===== *)
theory SvcAsm
  imports Svc
begin

text \<open>
  The assembly of the supervisor-call exception: the naked handler svc_handler and psa_call_thunk
  of define_spm_api.  The state is the part of the core the code reads and writes in handler
  mode: both stack pointers, CONTROL, PSPLIM, the link register with its EXC_RETURN value, and
  memory.  The hardware's stacking and unstacking of the basic eight-word frame on the main
  stack is written out as the architecture defines it.
\<close>

section \<open>Core state\<close>

record cpu =
  cpu_msp :: u32
  cpu_psp :: u32
  cpu_control :: u32
  cpu_psplim :: u32
  cpu_lr :: u32
  cpu_mem :: mem

type_synonym regs4 = "u32 \<times> u32 \<times> u32 \<times> u32"

definition load4 :: "mem \<Rightarrow> usize \<Rightarrow> regs4" where
  "load4 m a = (read_u32 m a, read_u32 m (a + 4), read_u32 m (a + 8), read_u32 m (a + 12))"

primrec store_seq :: "usize \<Rightarrow> u32 list \<Rightarrow> mem \<Rightarrow> mem" where
  "store_seq a [] m = m"
| "store_seq a (w # ws) m = store_seq (a + 4) ws (write_u32 m a w)"

definition store4 :: "usize \<Rightarrow> regs4 \<Rightarrow> mem \<Rightarrow> mem" where
  "store4 a r m = (case r of (r0, r1, r2, r3) \<Rightarrow> store_seq a [r0, r1, r2, r3] m)"

section \<open>The handler\<close>

text \<open>The stack the frame is on: EXC_RETURN bit 2.\<close>

definition frame_pointer :: "cpu \<Rightarrow> usize" where
  "frame_pointer st = (if cpu_lr st AND 4 = 0 then cpu_msp st else cpu_psp st)"

definition svc_number :: "cpu \<Rightarrow> u8" where
  "svc_number st = (let r1 = read_u32 (cpu_mem st) (frame_pointer st + 24) in cpu_mem st (r1 - 2))"

definition start_process :: "cpu \<Rightarrow> cpu" where
  "start_process st = st\<lparr>cpu_control := 1, cpu_lr := cpu_lr st OR 4\<rparr>"

definition process_exit :: "cpu \<Rightarrow> cpu" where
  "process_exit st =
    (let r2 = read_u32 (cpu_mem st) (frame_pointer st) in
     st\<lparr>cpu_mem := write_u32 (cpu_mem st) (cpu_msp st) r2, cpu_control := 0,
        cpu_lr := cpu_lr st AND NOT 4\<rparr>)"

definition psa_call_enter :: "u32 \<Rightarrow> cpu \<Rightarrow> cpu" where
  "psa_call_enter thunk st =
    (let r0 = frame_pointer st;
         r2 = cpu_msp st - 16;
         m = store_seq r2 [r0, cpu_control st, cpu_psplim st, cpu_lr st] (cpu_mem st);
         r2 = r2 - 32;
         m = write_u32 m r2 (read_u32 m r0);
         m = write_u32 m (r2 + 4) (read_u32 m (r0 + 4));
         m = write_u32 m (r2 + 8) (read_u32 m (r0 + 8));
         m = write_u32 m (r2 + 12) (read_u32 m (r0 + 12));
         m = write_u32 m (r2 + 16) 0;
         m = write_u32 m (r2 + 20) 0;
         m = write_u32 m (r2 + 24) thunk;
         m = write_u32 m (r2 + 28) (push_bit 24 1)
     in st\<lparr>cpu_mem := m, cpu_msp := r2, cpu_control := 0, cpu_lr := 0xFFFFFFF9\<rparr>)"

definition psa_call_return :: "cpu \<Rightarrow> cpu" where
  "psa_call_return st =
    (let r2 = cpu_msp st; m = cpu_mem st;
         r0 = read_u32 m (r2 + 32);
         m = write_u32 m r0 (read_u32 m r2);
         m = write_u32 m (r0 + 4) (read_u32 m (r2 + 4));
         m = write_u32 m (r0 + 8) (read_u32 m (r2 + 8));
         m = write_u32 m (r0 + 12) (read_u32 m (r2 + 12));
         r3 = read_u32 m (r2 + 36);
         r1 = read_u32 m (r2 + 40);
         lr = read_u32 m (r2 + 44);
         st = st\<lparr>cpu_mem := m, cpu_msp := r2 + 48, cpu_psplim := r1, cpu_lr := lr\<rparr>;
         st = (if lr AND 4 = 0 then st else st\<lparr>cpu_psp := r0\<rparr>)
     in st\<lparr>cpu_control := r3\<rparr>)"

definition svc_handler :: "u32 \<Rightarrow> (usize \<Rightarrow> u32 \<Rightarrow> cpu \<Rightarrow> cpu) \<Rightarrow> cpu \<Rightarrow> cpu" where
  "svc_handler thunk dispatch st =
    (let n = svc_number st in
     if n = SVC_START_PROCESS then start_process st
     else if n = SVC_PROCESS_EXIT then process_exit st
     else if n = SVC_PSA_CALL then psa_call_enter thunk st
     else if n = SVC_PSA_CALL_RETURN then psa_call_return st
     else dispatch (frame_pointer st) (ucast n) st)"

section \<open>The thunk\<close>

text \<open>
  Exception return to the main stack pops the eight words; psa_call_thunk builds a register
  frame on the stack, calls handle_svc on it (parameter handle: the frame's address, the state),
  reloads r0 to r3 and issues SVC_PSA_CALL_RETURN, whose entry pushes eight words again, the
  last four (tail) being r12, lr, pc and xpsr.
\<close>

definition psa_call_thunk :: "(usize \<Rightarrow> cpu \<Rightarrow> cpu) \<Rightarrow> u32 list \<Rightarrow> cpu \<Rightarrow> cpu" where
  "psa_call_thunk handle tail st =
    (let r = load4 (cpu_mem st) (cpu_msp st);
         st = st\<lparr>cpu_msp := cpu_msp st + 32\<rparr>;
         st = st\<lparr>cpu_msp := cpu_msp st - 32\<rparr>;
         st = st\<lparr>cpu_mem := store4 (cpu_msp st) r (cpu_mem st)\<rparr>;
         st = st\<lparr>cpu_mem := store_seq (cpu_msp st + 16) [0, 0, 0, 0] (cpu_mem st)\<rparr>;
         st = handle (cpu_msp st) st;
         r = load4 (cpu_mem st) (cpu_msp st);
         st = st\<lparr>cpu_msp := cpu_msp st + 32\<rparr>;
         st = st\<lparr>cpu_msp := cpu_msp st - 32\<rparr>;
         st = st\<lparr>cpu_mem := store4 (cpu_msp st) r (cpu_mem st)\<rparr>;
         st = st\<lparr>cpu_mem := store_seq (cpu_msp st + 16) tail (cpu_mem st)\<rparr>
     in st\<lparr>cpu_lr := 0xFFFFFFF9\<rparr>)"

section \<open>Stores and loads\<close>

lemma store_seq_words: "store_seq a ws m = write_words a ws m"
proof (induction ws arbitrary: a m)
  case (Cons w ws)
  have "write_bytes m a (xs @ ys) = write_bytes (write_bytes m a xs) (a + of_nat (length xs)) ys"
    for xs ys m and a :: usize
    by (induction xs arbitrary: a m) (simp_all add: add.assoc add.commute)
  then show ?case using Cons by (simp add: write_words_def write_u32_def)
qed (simp add: write_words_def)

lemma read_u32_apart:
  assumes "unat b + length bs \<le> 4294967296" "unat a + 4 \<le> 4294967296"
    and "unat a + 4 \<le> unat b \<or> unat b + length bs \<le> unat a"
  shows "read_u32 (write_bytes m b bs) a = read_u32 m a"
proof -
  have "\<not> in_slice b (length bs) (a + of_nat i)" if "i < 4" for i
  proof (rule not_in_slice_apart)
    have "unat (a + of_nat i) = unat a + i"
      using that assms(2) by (subst unat_add_fits) (auto simp: unat_of_nat)
    then show "unat (a + of_nat i) < unat b \<or> unat b + length bs \<le> unat (a + of_nat i)"
      using that assms(3) by auto
  qed (rule assms(1))
  then show ?thesis by (simp add: read_u32_def read_write_bytes_disjoint)
qed

lemma read_store_seq:
  "i < length ws \<Longrightarrow> 4 * length ws \<le> 4294967296 \<Longrightarrow>
    read_u32 (store_seq a ws m) (a + of_nat (4 * i)) = ws ! i"
  unfolding store_seq_words by (rule read_u32_write_words)

lemma read_store_seq_apart:
  assumes "unat b + 4 * length ws \<le> 4294967296" "unat a + 4 \<le> 4294967296"
    and "unat a + 4 \<le> unat b \<or> unat b + 4 * length ws \<le> unat a"
  shows "read_u32 (store_seq b ws m) a = read_u32 m a"
  unfolding store_seq_words write_words_def using assms
  by (intro read_u32_apart) (simp_all add: concat_le_bytes32_length)

lemma load4_store4:
  assumes "unat a + 16 \<le> 4294967296"
  shows "load4 (store4 a r m) a = r"
proof -
  obtain r0 r1 r2 r3 where r: "r = (r0, r1, r2, r3)" by (cases r)
  have "read_u32 (store_seq a [r0, r1, r2, r3] m) (a + of_nat (4 * i)) = [r0, r1, r2, r3] ! i"
    if "i < 4" for i using that by (intro read_store_seq) simp_all
  from this[of 0] this[of 1] this[of 2] this[of 3] show ?thesis
    unfolding load4_def store4_def r by (simp del: store_seq.simps)
qed

lemma load4_apart:
  assumes "unat b + 4 * length ws \<le> 4294967296" "unat a + 16 \<le> 4294967296"
    and "unat a + 16 \<le> unat b \<or> unat b + 4 * length ws \<le> unat a"
  shows "load4 (store_seq b ws m) a = load4 m a"
proof -
  have u: "unat (a + 4) = unat a + 4" "unat (a + 8) = unat a + 8" "unat (a + 12) = unat a + 12"
    using assms(2) by (simp_all add: unat_add_fits)
  have "read_u32 (store_seq b ws m) a = read_u32 m a"
    "read_u32 (store_seq b ws m) (a + 4) = read_u32 m (a + 4)"
    "read_u32 (store_seq b ws m) (a + 8) = read_u32 m (a + 8)"
    "read_u32 (store_seq b ws m) (a + 12) = read_u32 m (a + 12)"
    using assms u by (auto intro!: read_store_seq_apart)
  then show ?thesis by (simp add: load4_def)
qed

lemma store4_seq: "store4 a (r0, r1, r2, r3) m = store_seq a [r0, r1, r2, r3] m"
  by (simp add: store4_def)

text \<open>Copying four words between frames that do not meet is a load and a store.\<close>

lemma copy4:
  assumes "unat a + 16 \<le> 4294967296" "unat b + 16 \<le> 4294967296"
    and "unat a + 16 \<le> unat b \<or> unat b + 16 \<le> unat a"
  shows "(let m = write_u32 m b (read_u32 m a);
         m = write_u32 m (b + 4) (read_u32 m (a + 4));
         m = write_u32 m (b + 8) (read_u32 m (a + 8))
     in write_u32 m (b + 12) (read_u32 m (a + 12))) = store4 b (load4 m a) m"
proof -
  have u: "unat (a + 4) = unat a + 4" "unat (a + 8) = unat a + 8" "unat (a + 12) = unat a + 12"
    "unat (b + 4) = unat b + 4" "unat (b + 8) = unat b + 8" "unat (b + 12) = unat b + 12"
    using assms(1,2) by (simp_all add: unat_add_fits)
  have w: "read_u32 (write_u32 n x w) y = read_u32 n y"
    if "unat x + 4 \<le> 4294967296" "unat y + 4 \<le> 4294967296"
      "unat y + 4 \<le> unat x \<or> unat x + 4 \<le> unat y" for n x y w
    unfolding write_u32_def using that by (intro read_u32_apart) simp_all
  have "read_u32 (write_u32 n b w0) (a + 4) = read_u32 n (a + 4)"
    "read_u32 (write_u32 n b w0) (a + 8) = read_u32 n (a + 8)"
    "read_u32 (write_u32 n b w0) (a + 12) = read_u32 n (a + 12)"
    "read_u32 (write_u32 n (b + 4) w0) (a + 8) = read_u32 n (a + 8)"
    "read_u32 (write_u32 n (b + 4) w0) (a + 12) = read_u32 n (a + 12)"
    "read_u32 (write_u32 n (b + 8) w0) (a + 12) = read_u32 n (a + 12)" for n w0
    by (rule w; use assms u in linarith)+
  then show ?thesis by (simp add: Let_def store4_def load4_def add.assoc)
qed

section \<open>The detour through the thunk\<close>

definition saved_words :: "cpu \<Rightarrow> u32 list" where
  "saved_words st = [frame_pointer st, cpu_control st, cpu_psplim st, cpu_lr st]"

lemma psa_call_enter_eq:
  assumes "48 \<le> unat (cpu_msp st)" "unat (frame_pointer st) + 16 \<le> 4294967296"
    and "unat (frame_pointer st) + 16 \<le> unat (cpu_msp st) - 48 \<or> unat (cpu_msp st) \<le> unat (frame_pointer st)"
  shows "psa_call_enter thunk st = st\<lparr>cpu_mem :=
      store_seq (cpu_msp st - 32) [0, 0, thunk, push_bit 24 1]
        (store4 (cpu_msp st - 48) (load4 (cpu_mem st) (frame_pointer st))
          (store_seq (cpu_msp st - 16) (saved_words st) (cpu_mem st))),
      cpu_msp := cpu_msp st - 48, cpu_control := 0, cpu_lr := 0xFFFFFFF9\<rparr>"
proof -
  let ?a = "cpu_msp st - 48" and ?f = "frame_pointer st"
  let ?m0 = "store_seq (cpu_msp st - 16) (saved_words st) (cpu_mem st)"
  have le: "48 \<le> cpu_msp st" "16 \<le> cpu_msp st" using assms(1) by (simp_all add: word_le_nat_alt)
  have u: "unat ?a = unat (cpu_msp st) - 48" "unat (cpu_msp st - 16) = unat (cpu_msp st) - 16"
    using le by (simp_all add: unat_sub_le)
  have lt: "unat (cpu_msp st) < 4294967296" by (rule unat_lt_usize)
  have l: "load4 ?m0 ?f = load4 (cpu_mem st) ?f"
    using assms u lt by (intro load4_apart) (auto simp: saved_words_def)
  have "(let m = write_u32 ?m0 ?a (read_u32 ?m0 ?f);
         m = write_u32 m (?a + 4) (read_u32 m (?f + 4));
         m = write_u32 m (?a + 8) (read_u32 m (?f + 8))
     in write_u32 m (?a + 12) (read_u32 m (?f + 12))) = store4 ?a (load4 ?m0 ?f) ?m0"
    using assms u lt by (intro copy4) auto
  note copy = this[unfolded Let_def]
  have adr: "cpu_msp st - 16 - 32 = ?a" by simp
  have seq: "write_u32 (write_u32 (write_u32 (write_u32 m (?a + 16) 0) (?a + 20) 0) (?a + 24) thunk)
      (?a + 28) (push_bit 24 1) = store_seq (cpu_msp st - 32) [0, 0, thunk, push_bit 24 1] m" for m
  proof -
    have "?a + 16 = cpu_msp st - 32" "?a + 20 = cpu_msp st - 32 + 4" "?a + 24 = cpu_msp st - 32 + 4 + 4"
      "?a + 28 = cpu_msp st - 32 + 4 + 4 + 4" by simp_all
    then show ?thesis by (simp only: store_seq.simps)
  qed
  show ?thesis
    unfolding psa_call_enter_def Let_def adr saved_words_def[symmetric] copy seq l ..
qed

definition psa_call_detour :: "u32 \<Rightarrow> (usize \<Rightarrow> cpu \<Rightarrow> cpu) \<Rightarrow> u32 list \<Rightarrow> cpu \<Rightarrow> cpu" where
  "psa_call_detour thunk handle tail st =
    psa_call_return (psa_call_thunk handle tail (psa_call_enter thunk st))"

text \<open>What SVC_PSA_CALL_RETURN does when the four saved words are where the entry put them.\<close>

lemma psa_call_return_eq:
  assumes "unat (cpu_msp st) + 48 \<le> 4294967296" "unat f + 16 \<le> 4294967296"
    and "unat f + 16 \<le> unat (cpu_msp st) \<or> unat (cpu_msp st) + 48 \<le> unat f"
    and saved: "load4 (cpu_mem st) (cpu_msp st + 32) = (f, c, pl, l)"
  shows "psa_call_return st = st\<lparr>cpu_mem := store4 f (load4 (cpu_mem st) (cpu_msp st)) (cpu_mem st),
      cpu_msp := cpu_msp st + 48, cpu_psplim := pl, cpu_lr := l,
      cpu_psp := (if l AND 4 = 0 then cpu_psp st else f), cpu_control := c\<rparr>"
proof -
  let ?a = "cpu_msp st" and ?m = "cpu_mem st"
  have u: "unat (?a + 32) = unat ?a + 32"
    using assms(1) by (simp add: unat_add_fits)
  have "(let m = write_u32 ?m f (read_u32 ?m ?a);
         m = write_u32 m (f + 4) (read_u32 m (?a + 4));
         m = write_u32 m (f + 8) (read_u32 m (?a + 8))
     in write_u32 m (f + 12) (read_u32 m (?a + 12))) = store4 f (load4 ?m ?a) ?m"
    using assms by (intro copy4) auto
  note copy = this[unfolded Let_def]
  obtain r0 r1 r2 r3 where r: "load4 ?m ?a = (r0, r1, r2, r3)" by (cases "load4 ?m ?a")
  have "load4 (store4 f (load4 ?m ?a) ?m) (?a + 32) = load4 ?m (?a + 32)"
    unfolding r store4_seq using assms u by (intro load4_apart) auto
  then have l: "read_u32 (store4 f (load4 ?m ?a) ?m) (?a + 36) = c"
    "read_u32 (store4 f (load4 ?m ?a) ?m) (?a + 40) = pl"
    "read_u32 (store4 f (load4 ?m ?a) ?m) (?a + 44) = l"
    unfolding saved by (simp_all add: load4_def add.assoc)
  have f: "read_u32 ?m (?a + 32) = f" using saved by (simp add: load4_def)
  show ?thesis
    unfolding psa_call_return_def Let_def f copy l by simp
qed

text \<open>The state in which the thunk calls handle_svc, and the one it issues the return from.\<close>

definition thunk_frame :: "cpu \<Rightarrow> cpu" where
  "thunk_frame st = st\<lparr>cpu_mem := store_seq (cpu_msp st + 16) [0, 0, 0, 0]
      (store4 (cpu_msp st) (load4 (cpu_mem st) (cpu_msp st)) (cpu_mem st))\<rparr>"

lemma psa_call_thunk_eq:
  assumes "cpu_msp (handle (cpu_msp st) (thunk_frame st)) = cpu_msp st"
  shows "psa_call_thunk handle tail st =
    (let h = handle (cpu_msp st) (thunk_frame st) in
     h\<lparr>cpu_mem := store_seq (cpu_msp st + 16) tail
          (store4 (cpu_msp st) (load4 (cpu_mem h) (cpu_msp st)) (cpu_mem h)),
       cpu_lr := 0xFFFFFFF9\<rparr>)"
proof -
  have t: "(st\<lparr>cpu_msp := cpu_msp st + 32\<rparr>)\<lparr>cpu_msp := cpu_msp (st\<lparr>cpu_msp := cpu_msp st + 32\<rparr>) - 32\<rparr> = st"
    for st :: cpu by simp
  show ?thesis
    using assms unfolding psa_call_thunk_def Let_def t thunk_frame_def
    by simp
qed

lemma load4_store4_apart:
  assumes "unat b + 16 \<le> 4294967296" "unat a + 16 \<le> 4294967296"
    and "unat a + 16 \<le> unat b \<or> unat b + 16 \<le> unat a"
  shows "load4 (store4 b r m) a = load4 m a"
proof -
  obtain r0 r1 r2 r3 where r: "r = (r0, r1, r2, r3)" by (cases r)
  show ?thesis unfolding r store4_seq using assms by (intro load4_apart) auto
qed

text \<open>A basic frame written at a: its first four words read back, and what lies above it stays.\<close>

lemma frame_stored:
  assumes "unat a + 48 \<le> 4294967296" "length ws = 4"
  shows "load4 (store_seq (a + 16) ws (store4 a r m)) a = r"
    "load4 (store_seq (a + 16) ws (store4 a r m)) (a + 32) = load4 m (a + 32)"
proof -
  have u: "unat (a + 16) = unat a + 16" "unat (a + 32) = unat a + 32"
    using assms by (simp_all add: unat_add_fits)
  have "load4 (store_seq (a + 16) ws (store4 a r m)) a = load4 (store4 a r m) a"
    "load4 (store_seq (a + 16) ws (store4 a r m)) (a + 32) = load4 (store4 a r m) (a + 32)"
    using assms u by (auto intro!: load4_apart)
  moreover have "load4 (store4 a r m) a = r" using assms by (intro load4_store4) simp
  moreover have "load4 (store4 a r m) (a + 32) = load4 m (a + 32)"
    using assms u by (intro load4_store4_apart) auto
  ultimately show "load4 (store_seq (a + 16) ws (store4 a r m)) a = r"
    "load4 (store_seq (a + 16) ws (store4 a r m)) (a + 32) = load4 m (a + 32)" by simp_all
qed

definition call_stack_ok :: "cpu \<Rightarrow> bool" where
  "call_stack_ok st \<longleftrightarrow> 48 \<le> unat (cpu_msp st) \<and> unat (frame_pointer st) + 16 \<le> 4294967296 \<and>
    (unat (frame_pointer st) + 16 \<le> unat (cpu_msp st) - 48 \<or> unat (cpu_msp st) \<le> unat (frame_pointer st))"

lemma call_stack_unat:
  assumes "call_stack_ok st"
  shows "unat (cpu_msp st - 48) = unat (cpu_msp st) - 48" "unat (cpu_msp st - 48) + 48 \<le> 4294967296"
    "unat (cpu_msp st - 48 + 32) = unat (cpu_msp st) - 16"
proof -
  have "48 \<le> cpu_msp st" using assms by (simp add: call_stack_ok_def word_le_nat_alt)
  then show 1: "unat (cpu_msp st - 48) = unat (cpu_msp st) - 48" by (simp add: unat_sub_le)
  then show 2: "unat (cpu_msp st - 48) + 48 \<le> 4294967296"
    using assms unat_lt_usize[of "cpu_msp st"] by (simp add: call_stack_ok_def)
  then have "unat (cpu_msp st - 48 + 32) = unat (cpu_msp st - 48) + 32" by (subst unat_add_fits) simp_all
  then show "unat (cpu_msp st - 48 + 32) = unat (cpu_msp st) - 16"
    using 1 assms unfolding call_stack_ok_def by linarith
qed

lemma psa_call_enter_frames:
  assumes ok: "call_stack_ok st" and e_def: "e = psa_call_enter thunk st"
  shows "cpu_msp e = cpu_msp st - 48" "cpu_control e = 0"
    "load4 (cpu_mem e) (cpu_msp st - 48) = load4 (cpu_mem st) (frame_pointer st)"
    "load4 (cpu_mem e) (cpu_msp st - 48 + 32) =
      (frame_pointer st, cpu_control st, cpu_psplim st, cpu_lr st)"
proof -
  let ?a = "cpu_msp st - 48" and ?f = "frame_pointer st"
  have adr: "cpu_msp st - 32 = ?a + 16" "cpu_msp st - 16 = ?a + 32" by simp_all
  have e: "e = st\<lparr>cpu_mem := store_seq (cpu_msp st - 32) [0, 0, thunk, push_bit 24 1]
        (store4 (cpu_msp st - 48) (load4 (cpu_mem st) ?f)
          (store_seq (cpu_msp st - 16) (saved_words st) (cpu_mem st))),
      cpu_msp := cpu_msp st - 48, cpu_control := 0, cpu_lr := 0xFFFFFFF9\<rparr>"
    using ok unfolding e_def call_stack_ok_def by (intro psa_call_enter_eq) blast+
  then show "cpu_msp e = ?a" "cpu_control e = 0" by simp_all
  have m: "cpu_mem e = store_seq (?a + 16) [0, 0, thunk, push_bit 24 1]
      (store4 ?a (load4 (cpu_mem st) ?f) (store_seq (?a + 32) (saved_words st) (cpu_mem st)))"
    unfolding e adr by simp
  show "load4 (cpu_mem e) ?a = load4 (cpu_mem st) ?f"
    unfolding m using call_stack_unat(2)[OF ok] by (intro frame_stored) simp_all
  have "load4 (cpu_mem e) (?a + 32) = load4 (store_seq (?a + 32) (saved_words st) (cpu_mem st)) (?a + 32)"
    unfolding m using call_stack_unat(2)[OF ok] by (intro frame_stored) simp_all
  also have "\<dots> = (?f, cpu_control st, cpu_psplim st, cpu_lr st)"
    unfolding saved_words_def store4_seq[symmetric]
    using call_stack_unat(3)[OF ok] unat_lt_usize[of "cpu_msp st"] ok
    by (intro load4_store4) (simp add: call_stack_ok_def)
  finally show "load4 (cpu_mem e) (?a + 32) = (?f, cpu_control st, cpu_psplim st, cpu_lr st)" .
qed

text \<open>The C function the thunk calls leaves the main stack above its frame as it was.\<close>

definition keeps_saved :: "cpu \<Rightarrow> cpu \<Rightarrow> bool" where
  "keeps_saved s h \<longleftrightarrow> cpu_msp h = cpu_msp s \<and>
    load4 (cpu_mem h) (cpu_msp s + 32) = load4 (cpu_mem s) (cpu_msp s + 32)"

lemma psa_call_entered:
  assumes ok: "call_stack_ok st" and s: "s = thunk_frame (psa_call_enter thunk st)"
  shows "cpu_msp s = cpu_msp st - 48" "cpu_control s = 0"
    "load4 (cpu_mem s) (cpu_msp st - 48) = load4 (cpu_mem st) (frame_pointer st)"
    "load4 (cpu_mem s) (cpu_msp st - 48 + 32) =
      (frame_pointer st, cpu_control st, cpu_psplim st, cpu_lr st)"
proof -
  note e = psa_call_enter_frames[OF ok refl, of thunk]
  show "cpu_msp s = cpu_msp st - 48" "cpu_control s = 0" by (simp_all add: s thunk_frame_def e)
  have m: "cpu_mem s = store_seq (cpu_msp st - 48 + 16) [0, 0, 0, 0] (store4 (cpu_msp st - 48)
      (load4 (cpu_mem st) (frame_pointer st)) (cpu_mem (psa_call_enter thunk st)))"
    unfolding s thunk_frame_def e by simp
  show "load4 (cpu_mem s) (cpu_msp st - 48) = load4 (cpu_mem st) (frame_pointer st)"
    unfolding m by (rule frame_stored[OF call_stack_unat(2)[OF ok]]) simp
  show "load4 (cpu_mem s) (cpu_msp st - 48 + 32) =
      (frame_pointer st, cpu_control st, cpu_psplim st, cpu_lr st)"
    unfolding m e(4)[symmetric] by (rule frame_stored[OF call_stack_unat(2)[OF ok]]) simp
qed

lemma psa_call_detour_core:
  assumes ok: "call_stack_ok st" and tail: "length tail = 4"
    and s: "s = thunk_frame (psa_call_enter thunk st)" and h: "h = handle (cpu_msp st - 48) s"
    and keeps: "keeps_saved s h"
  shows "\<exists>m. psa_call_detour thunk handle tail st = h\<lparr>cpu_mem := m, cpu_msp := cpu_msp st,
        cpu_control := cpu_control st, cpu_psplim := cpu_psplim st, cpu_lr := cpu_lr st,
        cpu_psp := (if cpu_lr st AND 4 = 0 then cpu_psp h else cpu_psp st)\<rparr> \<and>
      load4 m (frame_pointer st) = load4 (cpu_mem h) (cpu_msp st - 48)"
proof -
  let ?a = "cpu_msp st - 48" and ?f = "frame_pointer st"
  note e = psa_call_enter_frames[OF ok refl, of thunk] and en = psa_call_entered[OF ok s]
  define t where "t = psa_call_thunk handle tail (psa_call_enter thunk st)"
  define m where "m = store_seq (?a + 16) tail (store4 ?a (load4 (cpu_mem h) ?a) (cpu_mem h))"
  have hm: "cpu_msp h = ?a" using keeps en(1) by (simp add: keeps_saved_def)
  have t: "t = h\<lparr>cpu_mem := m, cpu_lr := 0xFFFFFFF9\<rparr>"
    unfolding t_def m_def using hm psa_call_thunk_eq[of handle "psa_call_enter thunk st" tail]
    by (simp add: e(1) h s[symmetric] Let_def)
  have ma: "load4 m ?a = load4 (cpu_mem h) ?a" "load4 m (?a + 32) = load4 (cpu_mem h) (?a + 32)"
    unfolding m_def by (rule frame_stored[OF call_stack_unat(2)[OF ok] tail])+
  have saved: "load4 m (?a + 32) = (?f, cpu_control st, cpu_psplim st, cpu_lr st)"
    using ma(2) keeps en(1,4) by (simp add: keeps_saved_def)
  have r: "psa_call_return t = t\<lparr>cpu_mem := store4 ?f (load4 m ?a) m, cpu_msp := ?a + 48,
      cpu_psplim := cpu_psplim st, cpu_lr := cpu_lr st,
      cpu_psp := (if cpu_lr st AND 4 = 0 then cpu_psp t else ?f), cpu_control := cpu_control st\<rparr>"
    using psa_call_return_eq[of t ?f "cpu_control st" "cpu_psplim st" "cpu_lr st"]
      call_stack_unat(1,2)[OF ok] ok saved hm by (auto simp: t call_stack_ok_def)
  have "load4 (store4 ?f (load4 m ?a) m) ?f = load4 (cpu_mem h) ?a"
    using ok by (simp add: load4_store4 call_stack_ok_def ma(1))
  then show ?thesis
    unfolding psa_call_detour_def t_def[symmetric] r
    by (intro exI[of _ "store4 ?f (load4 m ?a) m"] conjI) (simp_all add: t frame_pointer_def)
qed

text \<open>C25. A psa_call that arrives at svc_handler as SVC_PSA_CALL and comes back as
  SVC_PSA_CALL_RETURN is a round trip.  The handler the thunk calls runs privileged (CONTROL is
  0) on a frame that holds the caller's r0 to r3; if it leaves the main stack above that frame
  alone, the caller continues with its own MSP, PSP, CONTROL (so unprivileged if it was),
  PSPLIM and EXC_RETURN, and its frame holds the four registers the handler left.  A frame on
  the main stack keeps the process stack pointer of the handler instead.\<close>

theorem psa_call_roundtrip:
  assumes "call_stack_ok st" "length tail = 4" "s = thunk_frame (psa_call_enter thunk st)"
    and "keeps_saved s (handle (cpu_msp st - 48) s)" "r = psa_call_detour thunk handle tail st"
  shows "cpu_control s = 0 \<and>
    load4 (cpu_mem s) (cpu_msp s) = load4 (cpu_mem st) (frame_pointer st) \<and>
    cpu_msp r = cpu_msp st \<and> cpu_control r = cpu_control st \<and> cpu_psplim r = cpu_psplim st \<and>
    cpu_lr r = cpu_lr st \<and>
    cpu_psp r = (if cpu_lr st AND 4 = 0 then cpu_psp (handle (cpu_msp st - 48) s) else cpu_psp st) \<and>
    load4 (cpu_mem r) (frame_pointer st) = load4 (cpu_mem (handle (cpu_msp st - 48) s)) (cpu_msp st - 48)"
  using psa_call_entered[OF assms(1,3)]
    psa_call_detour_core[where handle = handle, OF assms(1-3) refl assms(4)] assms(5) by auto

definition sample_cpu :: cpu where
  "sample_cpu = \<lparr>cpu_msp = 0x20001000, cpu_psp = 0x20002000, cpu_control = 3,
     cpu_psplim = 0x20001800, cpu_lr = 0xFFFFFFFD, cpu_mem = (\<lambda>_. 0)\<rparr>"

text \<open>A handler that writes its result to r0 of the frame.\<close>

definition sample_handle :: "usize \<Rightarrow> cpu \<Rightarrow> cpu" where
  "sample_handle a st = st\<lparr>cpu_mem := write_u32 (cpu_mem st) a 7\<rparr>"

lemma sample_call_ok: "call_stack_ok sample_cpu"
  by (simp add: call_stack_ok_def sample_cpu_def frame_pointer_def)

lemma sample_handle_keeps:
  assumes "s = thunk_frame (psa_call_enter thunk sample_cpu)"
  shows "keeps_saved s (sample_handle (cpu_msp sample_cpu - 48) s)"
    "read_u32 (cpu_mem (sample_handle (cpu_msp sample_cpu - 48) s)) (cpu_msp sample_cpu - 48) = 7"
proof -
  have "load4 (write_u32 m (cpu_msp sample_cpu - 48) 7) (cpu_msp sample_cpu - 48 + 32)
      = load4 m (cpu_msp sample_cpu - 48 + 32)" for m
    using load4_apart[of "cpu_msp sample_cpu - 48" "[7]" "cpu_msp sample_cpu - 48 + 32" m]
    by (simp add: sample_cpu_def)
  then show "keeps_saved s (sample_handle (cpu_msp sample_cpu - 48) s)"
    using psa_call_entered(1)[OF sample_call_ok assms]
    by (simp add: keeps_saved_def sample_handle_def)
qed (simp add: sample_handle_def)

lemma psa_call_roundtrip_witness:
  "let r = psa_call_detour 0x10000101 sample_handle [0, 0, 0, 0] sample_cpu in
    cpu_msp r = 0x20001000 \<and> cpu_control r = 3 \<and> cpu_psp r = 0x20002000 \<and>
    read_u32 (cpu_mem r) 0x20002000 = 7"
proof -
  define s where "s = thunk_frame (psa_call_enter 0x10000101 sample_cpu)"
  note k = sample_handle_keeps[OF s_def]
  have four: "length [0, 0, 0, 0 :: u32] = 4" by simp
  define r where "r = psa_call_detour 0x10000101 sample_handle [0, 0, 0, 0] sample_cpu"
  have rt: "cpu_msp r = cpu_msp sample_cpu" "cpu_control r = cpu_control sample_cpu"
    "cpu_psp r = cpu_psp sample_cpu" "load4 (cpu_mem r) (frame_pointer sample_cpu) =
      load4 (cpu_mem (sample_handle (cpu_msp sample_cpu - 48) s)) (cpu_msp sample_cpu - 48)"
    using psa_call_roundtrip[where handle = sample_handle, OF sample_call_ok four s_def k(1) r_def]
    by (simp_all add: sample_cpu_def)
  have "read_u32 (cpu_mem r) (frame_pointer sample_cpu) = 7"
    using rt(4) k(2) by (simp add: load4_def)
  then show ?thesis
    unfolding Let_def r_def[symmetric] using rt(1-3) by (simp add: sample_cpu_def frame_pointer_def)
qed

section \<open>The return number issued by a service\<close>

text \<open>The branch for SVC_PSA_CALL_RETURN has no guard: whoever issues it, CONTROL is
  loaded from the word at MSP + 36.  A service that runs unprivileged on the process stack and
  executes this instruction itself therefore continues with whatever privilege the word there
  holds, and the four words at MSP are stored through the pointer at MSP + 32; after
  SVC_START_PROCESS these are words of the frame of the dispatcher, not words an entry saved.\<close>

theorem psa_call_return_unchecked:
  assumes "svc_number st = SVC_PSA_CALL_RETURN" "unat (cpu_msp st) + 48 \<le> 4294967296"
    and "load4 (cpu_mem st) (cpu_msp st + 32) = (f, c, pl, l)" "unat f + 16 \<le> 4294967296"
    and "unat f + 16 \<le> unat (cpu_msp st) \<or> unat (cpu_msp st) + 48 \<le> unat f"
  shows "cpu_control (svc_handler thunk dispatch st) = c \<and> cpu_psplim (svc_handler thunk dispatch st) = pl \<and>
    cpu_lr (svc_handler thunk dispatch st) = l \<and>
    load4 (cpu_mem (svc_handler thunk dispatch st)) f = load4 (cpu_mem st) (cpu_msp st)"
proof -
  have "svc_handler thunk dispatch st = psa_call_return st"
    using assms(1) by (simp add: svc_handler_def Let_def SVC_START_PROCESS_def SVC_PROCESS_EXIT_def
        SVC_PSA_CALL_def SVC_PSA_CALL_RETURN_def)
  then show ?thesis
    using psa_call_return_eq[OF assms(2,4,5,3)] assms(4) by (simp add: load4_store4)
qed

text \<open>A service on the process stack, whose svc 7 instruction is at address 0x100; the main stack
  holds the frame of the dispatcher and above it zeros, so that CONTROL becomes privileged.\<close>

definition return_cpu :: cpu where
  "return_cpu = \<lparr>cpu_msp = 0x20001000, cpu_psp = 0x20002000, cpu_control = 3,
     cpu_psplim = 0x20001800, cpu_lr = 0xFFFFFFFD,
     cpu_mem = (\<lambda>a. if a = 0x20002018 then 2 else if a = 0x20002019 then 1
       else if a = 0x100 then 7 else 0)\<rparr>"

lemma return_cpu_facts:
  "svc_number return_cpu = SVC_PSA_CALL_RETURN" "unat (cpu_msp return_cpu) + 48 \<le> 4294967296"
  "load4 (cpu_mem return_cpu) (cpu_msp return_cpu + 32) = (0, 0, 0, 0)"
proof -
  have r: "read_u32 m a = from_le_bytes [m a, m (a + 1), m (a + 1 + 1), m (a + 1 + 1 + 1)]" for m a
    by (simp add: read_u32_def numeral_eq_Suc)
  show "svc_number return_cpu = SVC_PSA_CALL_RETURN"
    by (simp add: return_cpu_def svc_number_def frame_pointer_def Let_def SVC_PSA_CALL_RETURN_def r)
  show "load4 (cpu_mem return_cpu) (cpu_msp return_cpu + 32) = (0, 0, 0, 0)"
    by (simp add: return_cpu_def load4_def r)
qed (simp add: return_cpu_def)

lemma psa_call_return_unchecked_witness:
  "cpu_control (svc_handler 0 (\<lambda>_ _ st. st) return_cpu) = 0"
proof -
  have "unat (0 :: usize) + 16 \<le> 4294967296" "unat (0 :: usize) + 16 \<le> unat (cpu_msp return_cpu) \<or>
      unat (cpu_msp return_cpu) + 48 \<le> unat (0 :: usize)" by (simp_all add: return_cpu_def)
  from psa_call_return_unchecked[OF return_cpu_facts this] show ?thesis by simp
qed

end
