(* ===== verification/FfiAlloc.thy ===== *)
theory FfiAlloc
  imports Prelude
begin

text \<open>
  The allocator behind the C crypto library (spe_services/ffi_alloc.rs): a heap of 1792 bytes
  with a table of 64 (offset, size) pairs, size 0 meaning a free entry.  calloc searches first
  fit; the search jumps past a block that is in the way, so it ends because the end of such a
  block lies beyond the offset tried.  Arithmetic is the release build's, on 32-bit words.  The
  lemmas show the table stays a set of disjoint aligned blocks inside the heap, that calloc
  finds the lowest offset that fits and that free undoes it.
\<close>

section \<open>The heap\<close>

definition HEAP_SIZE :: usize where "HEAP_SIZE = 1792"

definition MAX_ALLOCS :: nat where "MAX_ALLOCS = 64"

type_synonym alloc_entry = "u16 \<times> u16"

record ffi_heap =
  ff_allocs :: "alloc_entry list"
  ff_heap :: usize
  ff_mem :: mem

section \<open>calloc and free\<close>

text \<open>The inner loop of the search: the end of the first live block that meets the range.\<close>

fun first_overlap :: "alloc_entry list \<Rightarrow> usize \<Rightarrow> usize \<Rightarrow> usize option" where
  "first_overlap [] offset tot = None"
| "first_overlap ((start, len) # rest) offset tot =
    (if len > 0 then
       (let a_start = ucast start; a_end = a_start + ucast len in
        if offset < a_end \<and> offset + tot > a_start then Some a_end
        else first_overlap rest offset tot)
     else first_overlap rest offset tot)"

lemma first_overlap_beyond: "first_overlap xs offset tot = Some e \<Longrightarrow> offset < e"
  by (induction xs offset tot rule: first_overlap.induct) (auto simp: Let_def split: if_splits)

function calloc_search :: "alloc_entry list \<Rightarrow> usize \<Rightarrow> usize \<Rightarrow> usize option" where
  "calloc_search allocs tot offset =
    (if offset + tot \<le> HEAP_SIZE then
       (case first_overlap allocs offset tot of
          Some a_end \<Rightarrow> calloc_search allocs tot a_end
        | None \<Rightarrow> Some offset)
     else None)"
  by pat_completeness auto

termination
proof (relation "measure (\<lambda>(_, _, offset). 4294967296 - unat offset)")
  fix allocs and tot offset a_end :: usize
  assume "first_overlap allocs offset tot = Some a_end"
  then have "unat offset < unat a_end" by (simp add: first_overlap_beyond flip: word_less_nat_alt)
  then show "((allocs, tot, a_end), allocs, tot, offset) \<in> measure (\<lambda>(_, _, offset). 4294967296 - unat offset)"
    using unat_lt_usize[of a_end] by simp
qed simp

declare calloc_search.simps [simp del]

text \<open>The loop that looks for a free entry of the table.\<close>

fun free_entry :: "alloc_entry list \<Rightarrow> nat option" where
  "free_entry [] = None"
| "free_entry ((_, len) # rest) = (if len = 0 then Some 0 else map_option Suc (free_entry rest))"

definition calloc :: "usize \<Rightarrow> usize \<Rightarrow> ffi_heap \<Rightarrow> ffi_heap \<times> usize" where
  "calloc nobj sz s =
    (let total_req = nobj * sz in
     if total_req = 0 then (s, 0)
     else
       (let tot = (total_req + 7) AND NOT 7 in
        case calloc_search (ff_allocs s) tot 0 of
          None \<Rightarrow> (s, 0)
        | Some offset \<Rightarrow>
            (case free_entry (ff_allocs s) of
               None \<Rightarrow> (s, 0)
             | Some i \<Rightarrow>
                 (let ptr = ff_heap s + offset in
                  (s\<lparr>ff_allocs := (ff_allocs s)[i := (ucast offset, ucast tot)],
                     ff_mem := write_bytes (ff_mem s) ptr (replicate (unat total_req) 0)\<rparr>,
                   ptr)))))"

fun free_offset :: "usize \<Rightarrow> alloc_entry list \<Rightarrow> alloc_entry list" where
  "free_offset p_offset [] = []"
| "free_offset p_offset ((start, len) # rest) =
    (if len > 0 \<and> ucast start = p_offset then (start, 0) # rest
     else (start, len) # free_offset p_offset rest)"

definition free_heap :: "usize \<Rightarrow> ffi_heap \<Rightarrow> ffi_heap" where
  "free_heap p s =
    (if p = 0 then s
     else if p < ff_heap s \<or> p \<ge> ff_heap s + HEAP_SIZE then s
     else s\<lparr>ff_allocs := free_offset (p - ff_heap s) (ff_allocs s)\<rparr>)"

definition heap_new :: "usize \<Rightarrow> mem \<Rightarrow> ffi_heap" where
  "heap_new base m = \<lparr>ff_allocs = replicate MAX_ALLOCS (0, 0), ff_heap = base, ff_mem = m\<rparr>"

section \<open>Blocks\<close>

text \<open>The live blocks of a table, as naturals: what the heap holds.\<close>

definition blocks :: "alloc_entry list \<Rightarrow> (nat \<times> nat) list" where
  "blocks xs = map (\<lambda>(start, len). (unat start, unat len)) (filter (\<lambda>(_, len). len > 0) xs)"

definition meets :: "nat \<Rightarrow> nat \<Rightarrow> nat \<times> nat \<Rightarrow> bool" where
  "meets off n b \<longleftrightarrow> off < fst b + snd b \<and> fst b < off + n"

text \<open>A range fits when it ends inside the heap and meets no live block.\<close>

definition fits :: "alloc_entry list \<Rightarrow> nat \<Rightarrow> nat \<Rightarrow> bool" where
  "fits xs n off \<longleftrightarrow> off + n \<le> 1792 \<and> (\<forall>b\<in>set (blocks xs). \<not> meets off n b)"

definition block_ok :: "nat \<times> nat \<Rightarrow> bool" where
  "block_ok b \<longleftrightarrow> 8 dvd fst b \<and> 8 dvd snd b \<and> 0 < snd b \<and> fst b + snd b \<le> 1792"

definition heap_ok :: "ffi_heap \<Rightarrow> bool" where
  "heap_ok s \<longleftrightarrow> length (ff_allocs s) = MAX_ALLOCS \<and> (\<forall>b\<in>set (blocks (ff_allocs s)). block_ok b) \<and>
    sorted_wrt (\<lambda>a b. \<not> meets (fst a) (snd a) b) (blocks (ff_allocs s)) \<and>
    ff_heap s \<noteq> 0 \<and> unat (ff_heap s) + 1792 < 4294967296"

lemma blocks_simps [simp]:
  "blocks [] = []"
  "blocks ((start, len) # xs) = (if len > 0 then [(unat start, unat len)] else []) @ blocks xs"
  by (simp_all add: blocks_def)

lemma blocks_append: "blocks (xs @ ys) = blocks xs @ blocks ys"
  by (simp add: blocks_def)

lemma meets_sym: "0 < snd a \<Longrightarrow> 0 < snd b \<Longrightarrow> meets (fst a) (snd a) b = meets (fst b) (snd b) a"
  by (auto simp: meets_def)

lemma unat_ucast16: "unat (ucast (w :: u16) :: usize) = unat w"
proof -
  have "unat w < 2 ^ 16" using unsigned_less[of w] by simp
  then have "unat w < 2 ^ 32" by simp
  then show ?thesis by (simp add: unsigned_ucast_eq take_bit_nat_eq_self)
qed

text \<open>The inner loop in terms of blocks.\<close>

lemma first_overlap_blocks:
  assumes "\<forall>b\<in>set (blocks xs). block_ok b" "unat offset \<le> 1792" "unat offset + unat tot \<le> 4294967295"
  shows "map_option unat (first_overlap xs offset tot) =
    map_option (\<lambda>b. fst b + snd b) (find (meets (unat offset) (unat tot)) (blocks xs))"
  using assms
proof (induction xs offset tot rule: first_overlap.induct)
  case (2 start len rest offset tot)
  show ?case
  proof (cases "len > 0")
    case True
    have ok: "unat start + unat len \<le> 1792" using 2(3) True by (simp add: block_ok_def)
    have e: "unat (ucast start + ucast len :: usize) = unat start + unat len"
      using ok by (subst unat_add_fits) (simp_all add: unat_ucast16)
    have t: "unat (offset + tot) = unat offset + unat tot"
      using 2(5) by (subst unat_add_fits) simp_all
    show ?thesis
      using 2 True by (simp add: Let_def word_less_nat_alt e t unat_ucast16 meets_def)
  next
    case False
    then show ?thesis using 2 by simp
  qed
qed simp


text \<open>The search finds the lowest offset at which the range fits, and gives up only when none is left.\<close>

lemma calloc_search_spec:
  assumes "\<forall>b\<in>set (blocks xs). block_ok b" "unat offset \<le> 1792" "unat tot \<le> 1792" "8 dvd unat offset"
  shows "case calloc_search xs tot offset of
      Some off \<Rightarrow> fits xs (unat tot) (unat off) \<and> 8 dvd unat off \<and>
        (\<forall>o'. unat offset \<le> o' \<and> o' < unat off \<longrightarrow> \<not> fits xs (unat tot) o')
    | None \<Rightarrow> \<forall>o'. unat offset \<le> o' \<longrightarrow> \<not> fits xs (unat tot) o'"
  using assms
proof (induction xs tot offset rule: calloc_search.induct)
  case (1 xs tot offset)
  note ok = 1(2) and bounds = 1(3,4) and al = 1(5)
  have sum: "unat (offset + tot) = unat offset + unat tot"
    using bounds by (subst unat_add_fits) simp_all
  have le: "offset + tot \<le> HEAP_SIZE \<longleftrightarrow> unat offset + unat tot \<le> 1792"
    by (simp add: word_le_nat_alt HEAP_SIZE_def sum)
  note fo = first_overlap_blocks[OF ok bounds(1), of tot]
  consider (full) "\<not> offset + tot \<le> HEAP_SIZE"
    | (fit) "offset + tot \<le> HEAP_SIZE" "first_overlap xs offset tot = None"
    | (jump) e where "offset + tot \<le> HEAP_SIZE" "first_overlap xs offset tot = Some e" by fastforce
  then show ?case
  proof cases
    case full
    then show ?thesis by (auto simp: calloc_search.simps[of xs tot offset] le fits_def)
  next
    case fit
    then have "find (meets (unat offset) (unat tot)) (blocks xs) = None" using fo bounds by simp
    then have "fits xs (unat tot) (unat offset)" using fit(1) by (auto simp: fits_def le find_None_iff)
    then show ?thesis using fit al by (auto simp: calloc_search.simps[of xs tot offset])
  next
    case jump
    then obtain b where b: "find (meets (unat offset) (unat tot)) (blocks xs) = Some b"
      "unat e = fst b + snd b"
      using fo bounds by (cases "find (meets (unat offset) (unat tot)) (blocks xs)") auto
    then have bb: "b \<in> set (blocks xs)" "meets (unat offset) (unat tot) b"
      by (auto simp: find_Some_iff)
    have e: "unat e \<le> 1792" "8 dvd unat e" using bspec[OF ok bb(1)] b(2) by (auto simp: block_ok_def)
    have no: "\<not> fits xs (unat tot) o'" if "unat offset \<le> o'" "o' < unat e" for o'
      using bb that b(2) by (auto simp: fits_def meets_def intro!: bexI[of _ b])
    have eq: "calloc_search xs tot offset = calloc_search xs tot e"
      using jump by (simp add: calloc_search.simps[of xs tot offset])
    show ?thesis
      using 1(1)[OF jump ok e(1) bounds(2) e(2)] no unfolding eq
      by (auto split: option.splits) (meson not_le_imp_less)+
  qed
qed

lemma free_entry_Some:
  "free_entry xs = Some i \<Longrightarrow> i < length xs \<and> blocks xs = blocks (take i xs) @ blocks (drop (Suc i) xs)"
proof (induction xs arbitrary: i rule: free_entry.induct)
  case (2 start len rest)
  show ?case
  proof (cases "len = 0")
    case True
    then show ?thesis using 2(2) by simp
  next
    case False
    then obtain k where "free_entry rest = Some k" "i = Suc k" using 2(2) by auto
    then show ?thesis using 2(1)[OF False] by simp
  qed
qed simp

lemma free_entry_None: "free_entry xs = None \<longleftrightarrow> length (blocks xs) = length xs"
proof (induction xs rule: free_entry.induct)
  case (2 start len rest)
  have "length (blocks rest) \<le> length rest"
    by (simp add: blocks_def)
  then show ?case using 2 by (cases "len = 0") (simp_all add: word_gt_0)
qed simp

lemma blocks_insert:
  assumes "free_entry xs = Some i" "0 < len"
  shows "blocks (xs[i := (start, len)]) = blocks (take i xs) @ (unat start, unat len) # blocks (drop (Suc i) xs)"
    "blocks xs = blocks (take i xs) @ blocks (drop (Suc i) xs)" "i < length xs"
  using free_entry_Some[OF assms(1)] assms(2)
  by (simp_all add: upd_conv_take_nth_drop blocks_append)

text \<open>Rounding the request up to a multiple of eight.\<close>

lemma round_up_8:
  assumes "unat (w :: usize) + 7 < 4294967296"
  shows "unat ((w + 7) AND NOT 7) = (unat w + 7) div 8 * 8"
proof -
  have u: "unat (w + 7) = unat w + 7"
    using assms by (subst unat_add_fits) simp_all
  have "(7 :: usize) = mask 3" by (simp add: mask_eq_exp_minus_1)
  then have "unat ((w + 7) AND NOT 7) = 2 ^ 3 * (unat (w + 7) div 2 ^ 3)"
    using unat_and_not_mask[of "w + 7" 3] by (simp only:)
  then show ?thesis by (simp add: u)
qed

section \<open>What the operations do to the blocks\<close>

lemma disjoint_insert:
  assumes "sorted_wrt (\<lambda>a b. \<not> meets (fst a) (snd a) b) (xs @ ys)"
    and "\<forall>b\<in>set (xs @ ys). 0 < snd b \<and> \<not> meets (fst x) (snd x) b" "0 < snd x"
  shows "sorted_wrt (\<lambda>a b. \<not> meets (fst a) (snd a) b) (xs @ x # ys)"
  using assms by (auto simp: sorted_wrt_append meets_sym[of _ x])

lemma heap_ok_blocks_distinct:
  assumes "heap_ok s"
  shows "distinct (blocks (ff_allocs s))"
proof -
  have "distinct bs" if "sorted_wrt (\<lambda>a b. \<not> meets (fst a) (snd a) b) bs" "\<forall>b\<in>set bs. block_ok b" for bs
    using that by (induction bs) (auto simp: meets_def block_ok_def)
  then show ?thesis using assms by (simp add: heap_ok_def)
qed

lemma ucast_fit16: "unat (w :: usize) < 65536 \<Longrightarrow> unat (ucast w :: u16) = unat w"
  by (simp add: unsigned_ucast_eq take_bit_nat_eq_self)

text \<open>The successful branch of calloc.\<close>

definition calloc_at :: "nat \<Rightarrow> nat \<Rightarrow> nat \<Rightarrow> ffi_heap \<Rightarrow> ffi_heap \<Rightarrow> bool" where
  "calloc_at off n sz s s' \<longleftrightarrow> heap_ok s' \<and> ff_heap s' = ff_heap s \<and>
    set (blocks (ff_allocs s')) = insert (off, n) (set (blocks (ff_allocs s))) \<and>
    ff_mem s' = write_bytes (ff_mem s) (ff_heap s + of_nat off) (replicate sz 0)"

lemma calloc_place:
  fixes off tot :: usize
  assumes ok: "heap_ok s" and fr: "free_entry (ff_allocs s) = Some i"
    and fit: "fits (ff_allocs s) (unat tot) (unat off)" and al: "8 dvd unat off" "8 dvd unat tot" "0 < unat tot"
  shows "calloc_at (unat off) (unat tot) sz s (s\<lparr>ff_allocs := (ff_allocs s)[i := (ucast off, ucast tot)],
    ff_mem := write_bytes (ff_mem s) (ff_heap s + off) (replicate sz 0)\<rparr>)"
proof -
  have small: "unat off + unat tot \<le> 1792" using fit by (simp add: fits_def)
  then have u: "unat (ucast off :: u16) = unat off" "unat (ucast tot :: u16) = unat tot"
    using ucast_fit16[of off] ucast_fit16[of tot] by simp_all
  then have pos: "(0 :: u16) < ucast tot" using al(3) by (simp add: word_less_nat_alt)
  let ?xs = "ff_allocs s"
  let ?b = "(unat off, unat tot)"
  note bi = blocks_insert(1)[OF fr pos, where start = "ucast off", unfolded u] blocks_insert(2)[OF fr pos]
  have ok': "\<forall>b\<in>set (blocks ?xs). 0 < snd b \<and> \<not> meets (fst ?b) (snd ?b) b"
    using ok fit by (auto simp: heap_ok_def fits_def block_ok_def)
  have bok: "block_ok ?b" using al small by (simp add: block_ok_def)
  have "sorted_wrt (\<lambda>a b. \<not> meets (fst a) (snd a) b)
      (blocks (take i ?xs) @ ?b # blocks (drop (Suc i) ?xs))"
    using ok ok' al(3) unfolding heap_ok_def bi(2) by (intro disjoint_insert) simp_all
  moreover have "\<forall>b\<in>set (blocks (?xs[i := (ucast off, ucast tot)])). block_ok b"
    using ok bok unfolding heap_ok_def bi(1) by (subst (asm) bi(2)) auto
  moreover have "set (blocks (?xs[i := (ucast off, ucast tot)])) = insert ?b (set (blocks ?xs))"
    unfolding bi(1) by (subst bi(2)) auto
  ultimately show ?thesis
    using ok by (simp add: calloc_at_def heap_ok_def bi(1))
qed

lemma calloc_core:
  assumes ok: "heap_ok s" and small: "unat nobj * unat sz + 7 < 4294967296"
    and run: "calloc nobj sz s = (s', p)"
  defines "n \<equiv> unat nobj * unat sz"
  defines "r \<equiv> (n + 7) div 8 * 8"
  shows "(if n = 0 \<or> (\<forall>off. \<not> fits (ff_allocs s) r off) \<or> length (blocks (ff_allocs s)) = MAX_ALLOCS
      then p = 0 \<and> s' = s
      else \<exists>off. fits (ff_allocs s) r off \<and> (\<forall>o'<off. \<not> fits (ff_allocs s) r o') \<and> 8 dvd off \<and>
        p = ff_heap s + of_nat off \<and> p \<noteq> 0 \<and> calloc_at off r n s s')"
proof -
  have n: "unat (nobj * sz) = n"
    unfolding n_def using small by (subst unat_mult_lem[THEN iffD1]) simp_all
  define t where "t = (nobj * sz + 7) AND NOT 7"
  have r: "unat t = r"
    using small unfolding r_def n[symmetric] t_def by (intro round_up_8) (simp add: n n_def)
  let ?xs = "ff_allocs s"
  note run' = run[unfolded calloc_def Let_def t_def[symmetric]]
  have bok: "\<forall>b\<in>set (blocks ?xs). block_ok b" and len: "length ?xs = MAX_ALLOCS"
    using ok by (simp_all add: heap_ok_def)
  have zero: "nobj * sz = 0 \<longleftrightarrow> n = 0" by (simp add: n[symmetric] unat_eq_0)
  show ?thesis
  proof (cases "n = 0")
    case True
    then show ?thesis using run' zero by simp
  next
    case False
    have rpos: "0 < r" "8 dvd r" using False by (auto simp: r_def)
    have sp: "case calloc_search ?xs t 0 of
        Some off \<Rightarrow> fits ?xs r (unat off) \<and> 8 dvd unat off \<and> (\<forall>o'<unat off. \<not> fits ?xs r o')
      | None \<Rightarrow> \<forall>o'. \<not> fits ?xs r o'"
    proof (cases "r \<le> 1792")
      case True
      then show ?thesis using calloc_search_spec[OF bok, of 0 t] by (simp add: r split: option.splits)
    next
      case False
      then have "\<not> (0 + t \<le> HEAP_SIZE)" by (simp add: word_le_nat_alt HEAP_SIZE_def r del: unat_0)
      then show ?thesis using False by (simp add: calloc_search.simps[of ?xs t 0] fits_def)
    qed
    show ?thesis
    proof (cases "calloc_search ?xs t 0")
      case None
      then show ?thesis using run' sp False zero by simp
    next
      case (Some off)
      show ?thesis
      proof (cases "free_entry ?xs")
        case None
        moreover have "length (blocks ?xs) = MAX_ALLOCS" using None len free_entry_None[of ?xs] by simp
        ultimately show ?thesis using run' \<open>calloc_search ?xs t 0 = Some off\<close> False zero by simp
      next
        case (Some i)
        note off = \<open>calloc_search ?xs t 0 = Some off\<close>
        have fits: "fits ?xs r (unat off)" "8 dvd unat off" "\<forall>o'<unat off. \<not> fits ?xs r o'"
          using sp by (simp_all add: off)
        have ne: "length (blocks ?xs) \<noteq> MAX_ALLOCS" using Some free_entry_None[of ?xs] len by simp
        have "unat (ff_heap s + off) = unat (ff_heap s) + unat off"
          using ok fits(1) by (subst unat_add_fits) (auto simp: heap_ok_def fits_def)
        then have p0: "ff_heap s + off \<noteq> 0" using ok by (auto simp: heap_ok_def unat_eq_zero)
        have "s' = s\<lparr>ff_allocs := ?xs[i := (ucast off, ucast t)],
            ff_mem := write_bytes (ff_mem s) (ff_heap s + off) (replicate n 0)\<rparr>" "p = ff_heap s + off"
          using run' Some off False zero by (auto simp: n)
        moreover have "calloc_at (unat off) r n s (s\<lparr>ff_allocs := ?xs[i := (ucast off, ucast t)],
            ff_mem := write_bytes (ff_mem s) (ff_heap s + off) (replicate n 0)\<rparr>)"
          using calloc_place[OF ok Some, of t off n] fits rpos by (simp add: r)
        ultimately have "\<exists>o'. fits ?xs r o' \<and> (\<forall>x<o'. \<not> fits ?xs r x) \<and> 8 dvd o' \<and>
            p = ff_heap s + of_nat o' \<and> p \<noteq> 0 \<and> calloc_at o' r n s s'"
          using fits p0 by (intro exI[of _ "unat off"]) simp
        moreover have "\<not> (n = 0 \<or> (\<forall>off. \<not> fits ?xs r off) \<or> length (blocks ?xs) = MAX_ALLOCS)"
          using False ne fits(1) by blast
        ultimately show ?thesis by (simp only: if_False)
      qed
    qed
  qed
qed

text \<open>free releases the block that starts at the offset of the pointer, if there is one.\<close>

lemma blocks_free_offset:
  "blocks (free_offset off xs) =
    (case find (\<lambda>b. fst b = unat off) (blocks xs) of None \<Rightarrow> blocks xs | Some b \<Rightarrow> remove1 b (blocks xs))"
proof (induction off xs rule: free_offset.induct)
  case (2 off start len rest)
  have eq: "(ucast start = off) = (unat start = unat off)"
    by (metis unat_ucast16 word_unat_eq_iff)
  show ?case
  proof (cases "len > 0 \<and> ucast start = off")
    case True
    then show ?thesis using eq by simp
  next
    case False
    have "fst b = unat off" if "find (\<lambda>b. fst b = unat off) (blocks rest) = Some b" for b
      using that by (auto simp: find_Some_iff)
    then show ?thesis using False 2[OF False] eq by (auto split: option.splits)
  qed
qed simp

lemma length_free_offset [simp]: "length (free_offset off xs) = length xs"
  by (induction off xs rule: free_offset.induct) simp_all

lemma blocks_start_inj:
  assumes "heap_ok s" "a \<in> set (blocks (ff_allocs s))" "b \<in> set (blocks (ff_allocs s))" "fst a = fst b"
  shows "a = b"
proof -
  have "a = b" if "sorted_wrt (\<lambda>a b. \<not> meets (fst a) (snd a) b) bs" "\<forall>b\<in>set bs. block_ok b"
    "a \<in> set bs" "b \<in> set bs" for bs
    using that assms(4) by (induction bs) (auto simp: meets_def block_ok_def)
  then show ?thesis using assms by (auto simp: heap_ok_def)
qed

lemma free_heap_unfold:
  assumes ok: "heap_ok s"
  shows "blocks (ff_allocs (free_heap p s)) =
    filter (\<lambda>b. p \<noteq> ff_heap s + of_nat (fst b)) (blocks (ff_allocs s))"
proof -
  let ?bs = "blocks (ff_allocs s)"
  have range: "ff_heap s + of_nat (fst b) \<noteq> 0 \<and> ff_heap s \<le> ff_heap s + of_nat (fst b) \<and>
      ff_heap s + of_nat (fst b) < ff_heap s + HEAP_SIZE" if "b \<in> set ?bs" for b
  proof -
    have l: "fst b < 1792" using ok that by (auto simp: heap_ok_def block_ok_def)
    then have u: "unat (ff_heap s + of_nat (fst b)) = unat (ff_heap s) + fst b"
      using ok by (subst unat_add_fits) (auto simp: heap_ok_def unat_of_nat)
    have "unat (ff_heap s + HEAP_SIZE) = unat (ff_heap s) + 1792"
      using ok by (subst unat_add_fits) (auto simp: heap_ok_def HEAP_SIZE_def)
    then show ?thesis
      using u l ok by (auto simp: word_le_nat_alt word_less_nat_alt heap_ok_def unat_eq_zero)
  qed
  have start: "p = ff_heap s + of_nat (fst b) \<longleftrightarrow> fst b = unat (p - ff_heap s)" if "b \<in> set ?bs" for b
  proof -
    have "fst b < 1792" using ok that by (auto simp: heap_ok_def block_ok_def)
    then have "unat (of_nat (fst b) :: usize) = fst b" by (simp add: unat_of_nat)
    then show ?thesis by (metis add_diff_cancel_left' diff_add_cancel add.commute word_unat_eq_iff)
  qed
  have same: "filter (\<lambda>b. p \<noteq> ff_heap s + of_nat (fst b)) ?bs = filter (\<lambda>b. fst b \<noteq> unat (p - ff_heap s)) ?bs"
    using start by (intro filter_cong) auto
  show ?thesis
  proof (cases "p = 0 \<or> p < ff_heap s \<or> p \<ge> ff_heap s + HEAP_SIZE")
    case True
    then have "free_heap p s = s" by (auto simp: free_heap_def)
    moreover have "filter (\<lambda>b. p \<noteq> ff_heap s + of_nat (fst b)) ?bs = ?bs"
      using range True by (intro filter_True) (auto simp: not_less[symmetric])
    ultimately show ?thesis by simp
  next
    case False
    then have b: "blocks (ff_allocs (free_heap p s)) = (case find (\<lambda>b. fst b = unat (p - ff_heap s)) ?bs of
        None \<Rightarrow> ?bs | Some b \<Rightarrow> remove1 b ?bs)"
      by (auto simp: free_heap_def blocks_free_offset)
    show ?thesis
    proof (cases "find (\<lambda>b. fst b = unat (p - ff_heap s)) ?bs")
      case None
      then have "filter (\<lambda>b. fst b \<noteq> unat (p - ff_heap s)) ?bs = ?bs"
        unfolding find_None_iff by (intro filter_True) blast
      then show ?thesis unfolding b same by (simp add: None)
    next
      case (Some x)
      then have x: "x \<in> set ?bs" "fst x = unat (p - ff_heap s)" by (auto simp: find_Some_iff)
      have "remove1 x ?bs = removeAll x ?bs"
        using heap_ok_blocks_distinct[OF ok] by (rule distinct_remove1_removeAll)
      also have "\<dots> = filter (\<lambda>b. x \<noteq> b) ?bs" by (simp only: removeAll_filter_not_eq)
      also have "\<dots> = filter (\<lambda>b. fst b \<noteq> unat (p - ff_heap s)) ?bs"
        using x(2) blocks_start_inj[OF ok x(1)] by (intro filter_cong refl) metis
      finally show ?thesis unfolding b same by (simp add: Some)
    qed
  qed
qed

lemma free_heap_ok:
  assumes ok: "heap_ok s"
  shows "heap_ok (free_heap p s)"
proof -
  have "length (ff_allocs (free_heap p s)) = length (ff_allocs s)" "ff_heap (free_heap p s) = ff_heap s"
    by (simp_all add: free_heap_def)
  then show ?thesis
    using ok unfolding heap_ok_def free_heap_unfold[OF ok] by (simp add: sorted_wrt_filter)
qed

section \<open>Properties\<close>

text \<open>C27. A calloc whose size arithmetic does not wrap either returns null and changes nothing, which
  happens exactly when the request is empty, no offset of the heap fits it or the table is full;
  or it returns the lowest offset at which the rounded request fits.  The block is 8-aligned,
  inside the heap and disjoint from every live block, its bytes read zero, every byte outside it is
  unchanged, the table stays well formed, and freeing the pointer leaves the blocks that were
  live before.\<close>

theorem calloc_exact:
  assumes "heap_ok s" "unat nobj * unat sz + 7 < 4294967296" "calloc nobj sz s = (s', p)"
    and "n = unat nobj * unat sz" "r = (n + 7) div 8 * 8"
  shows "heap_ok s' \<and>
    (if n = 0 \<or> (\<forall>off. \<not> fits (ff_allocs s) r off) \<or> length (blocks (ff_allocs s)) = MAX_ALLOCS
     then p = 0 \<and> s' = s
     else \<exists>off. fits (ff_allocs s) r off \<and> (\<forall>o'<off. \<not> fits (ff_allocs s) r o') \<and> 8 dvd off \<and>
       p = ff_heap s + of_nat off \<and> p \<noteq> 0 \<and>
       set (blocks (ff_allocs s')) = insert (off, r) (set (blocks (ff_allocs s))) \<and>
       read_bytes (ff_mem s') p n = replicate n 0 \<and>
       (\<forall>x. \<not> in_slice p n x \<longrightarrow> ff_mem s' x = ff_mem s x) \<and>
       set (blocks (ff_allocs (free_heap p s'))) = set (blocks (ff_allocs s)))"
proof (cases "n = 0 \<or> (\<forall>off. \<not> fits (ff_allocs s) r off) \<or> length (blocks (ff_allocs s)) = MAX_ALLOCS")
  case True
  then show ?thesis using calloc_core[OF assms(1-3)] assms by auto
next
  case False
  then obtain off where off: "fits (ff_allocs s) r off" "\<forall>o'<off. \<not> fits (ff_allocs s) r o'" "8 dvd off"
    "p = ff_heap s + of_nat off" "p \<noteq> 0" "calloc_at off r n s s'"
    using calloc_core[OF assms(1-3)] unfolding assms(4,5) by (auto split: if_splits)
  have n: "0 < n" "n \<le> r" "r \<le> 1792" using False off(1) by (auto simp: assms(5) fits_def)
  have s': "heap_ok s'" "ff_heap s' = ff_heap s" "set (blocks (ff_allocs s')) = insert (off, r) (set (blocks (ff_allocs s)))"
    "ff_mem s' = write_bytes (ff_mem s) p (replicate n 0)"
    using off(4,6) by (simp_all add: calloc_at_def)
  have "read_bytes (ff_mem s') p n = replicate n 0"
    using read_write_bytes[of "replicate n 0" "ff_mem s" p] n by (simp add: s'(4))
  moreover have "ff_mem s' x = ff_mem s x" if "\<not> in_slice p n x" for x
    using that by (simp add: s'(4) write_bytes_outside)
  moreover have "set (blocks (ff_allocs (free_heap p s'))) = set (blocks (ff_allocs s))"
  proof -
    have "p \<noteq> ff_heap s + of_nat (fst b)" if b: "b \<in> set (blocks (ff_allocs s))" for b
    proof
      assume "p = ff_heap s + of_nat (fst b)"
      then have "(of_nat off :: usize) = of_nat (fst b)" using off(4) by simp
      moreover have bok: "block_ok b" using assms(1) b by (simp add: heap_ok_def)
      ultimately have "off = fst b"
        using off(1) by (simp add: unsigned_of_nat word_unat_eq_iff fits_def block_ok_def take_bit_nat_eq_self)
      then show False using off(1) b bok n by (auto simp: fits_def meets_def block_ok_def)
    qed
    then show ?thesis
      unfolding free_heap_unfold[OF s'(1)] set_filter s'(2,3) using off(4) by auto
  qed
  ultimately show ?thesis using False off s'(1,3) by auto
qed

definition small_heap :: ffi_heap where
  "small_heap = (heap_new 0x20000000 (\<lambda>_. 1))\<lparr>ff_allocs := (16, 8) # replicate 63 (0, 0)\<rparr>"

lemma small_heap_blocks: "blocks (ff_allocs small_heap) = [(16, 8)]"
  by (simp add: small_heap_def blocks_def)

lemma small_heap_ok: "heap_ok small_heap"
  using small_heap_blocks
  by (simp add: heap_ok_def block_ok_def) (simp add: small_heap_def heap_new_def MAX_ALLOCS_def)

text \<open>Twenty bytes do not fit below the live block at 16, so they go after it, at 24.\<close>

theorem calloc_exact_witness:
  "\<exists>s'. calloc 5 4 small_heap = (s', 0x20000018) \<and> heap_ok s' \<and>
    read_bytes (ff_mem s') 0x20000018 20 = replicate 20 0"
proof -
  obtain s' p where run: "calloc 5 4 small_heap = (s', p)" by fastforce
  have fit: "fits (ff_allocs small_heap) 24 o' \<longleftrightarrow> o' + 24 \<le> 1792 \<and> 24 \<le> o'" for o'
    by (auto simp: fits_def small_heap_blocks meets_def)
  have base: "ff_heap small_heap = 0x20000000" by (simp add: small_heap_def heap_new_def)
  have some: "\<not> (20 = (0 :: nat) \<or> (\<forall>off. \<not> fits (ff_allocs small_heap) 24 off) \<or>
      length (blocks (ff_allocs small_heap)) = MAX_ALLOCS)"
    unfolding fit by (auto simp: small_heap_blocks MAX_ALLOCS_def intro!: exI[of _ 24])
  have "unat (5 :: usize) * unat (4 :: usize) + 7 < 4294967296"
    "20 = unat (5 :: usize) * unat (4 :: usize)" "24 = (20 + 7) div 8 * (8 :: nat)" by simp_all
  from calloc_exact[OF small_heap_ok this(1) run this(2,3)]
  obtain off where off: "fits (ff_allocs small_heap) 24 off" "\<forall>o'<off. \<not> fits (ff_allocs small_heap) 24 o'"
    "p = 0x20000000 + of_nat off" "heap_ok s'" "read_bytes (ff_mem s') p 20 = replicate 20 0"
    unfolding if_not_P[OF some] base by blast
  have "\<not> 24 < off" using off(2) fit[of 24] by auto
  then have "off = 24" using off(1) unfolding fit by simp
  then show ?thesis using run off by auto
qed

text \<open>Rounding the request up wraps: a request within seven bytes of the address space takes a block
  of size zero.  calloc then returns a non-null pointer, no entry of the table becomes live and
  the whole request is zeroed through the pointer, far past the heap.\<close>

theorem calloc_round_up_wraps:
  assumes "unat nobj * unat sz < 4294967296" "4294967289 \<le> unat nobj * unat sz"
    and "heap_ok s" "calloc_search (ff_allocs s) 0 0 = Some off" "free_entry (ff_allocs s) = Some i"
  shows "\<exists>s'. calloc nobj sz s = (s', ff_heap s + off) \<and> blocks (ff_allocs s') = blocks (ff_allocs s) \<and>
    read_bytes (ff_mem s') (ff_heap s + off) (unat nobj * unat sz) = replicate (unat nobj * unat sz) 0"
proof -
  have n: "unat (nobj * sz) = unat nobj * unat sz"
    using assms(1) by (subst unat_mult_lem[THEN iffD1]) simp_all
  have "(unat nobj * unat sz + 7) mod 4294967296 < 8"
    using assms(1,2) by (simp add: mod_if) linarith
  then have "unat (nobj * sz + 7) < 8" using unat_word_ariths(1)[of "nobj * sz" 7] by (simp add: n)
  have "(7 :: usize) = mask 3" by (simp add: mask_eq_exp_minus_1)
  then have "unat ((nobj * sz + 7) AND NOT 7) = 2 ^ 3 * (unat (nobj * sz + 7) div 2 ^ 3)"
    using unat_and_not_mask[of "nobj * sz + 7" 3] by (simp only:)
  with \<open>unat (nobj * sz + 7) < 8\<close> have t: "(nobj * sz + 7) AND NOT 7 = 0" by (simp add: unat_eq_zero)
  have nz: "nobj * sz \<noteq> 0" using n assms(2) by auto
  have fr: "i < length (ff_allocs s)" "blocks (ff_allocs s) = blocks (take i (ff_allocs s)) @ blocks (drop (Suc i) (ff_allocs s))"
    using free_entry_Some[OF assms(5)] by auto
  have "blocks ((ff_allocs s)[i := (ucast off, 0)]) = blocks (ff_allocs s)"
    using fr by (simp add: upd_conv_take_nth_drop blocks_append)
  moreover have "read_bytes (write_bytes (ff_mem s) (ff_heap s + off) (replicate (unat nobj * unat sz) 0))
      (ff_heap s + off) (unat nobj * unat sz) = replicate (unat nobj * unat sz) 0"
    using read_write_bytes[of "replicate (unat nobj * unat sz) 0" "ff_mem s" "ff_heap s + off"] assms(1) by simp
  ultimately show ?thesis
    using nz assms(4,5) unfolding calloc_def Let_def t n by simp
qed

theorem calloc_round_up_wraps_witness:
  "\<exists>s'. calloc 1 0xFFFFFFFF small_heap = (s', 0x20000000) \<and> blocks (ff_allocs s') = [(16, 8)]"
proof -
  have none: "first_overlap (replicate n (0, 0)) 0 0 = None" for n by (induction n) simp_all
  have "first_overlap (ff_allocs small_heap) 0 0 = None"
    by (simp add: small_heap_def none)
  then have "calloc_search (ff_allocs small_heap) 0 0 = Some 0"
    by (simp add: calloc_search.simps[of _ 0 0] HEAP_SIZE_def)
  moreover have first: "free_entry (replicate n (0, 0)) = Some 0" if "0 < n" for n using that by (cases n) simp_all
  have "free_entry (ff_allocs small_heap) = Some 1" by (simp add: small_heap_def first)
  moreover have "ff_heap small_heap = 0x20000000" by (simp add: small_heap_def heap_new_def)
  ultimately show ?thesis
    using calloc_round_up_wraps[OF _ _ small_heap_ok, of 1 "0xFFFFFFFF"]
    by (simp add: small_heap_blocks) blast
qed

end
