(* ===== verification/ServiceStart.thy ===== *)
theory ServiceStart
  imports Startup Svc
begin

text \<open>
  The first entry of a service process (spe/spe/src/service.rs): the dispatcher's process_init
  starts the service at its init entry, which is the assembly routine init; it initialises .bss
  and .data, takes the service's stack and leaves by SVC_PROCESS_EXIT with 0 in r0.
\<close>

definition service_init :: "image_layout \<Rightarrow> usize \<Rightarrow> mem \<Rightarrow> (mem \<times> usize \<times> usize \<times> u8) option" where
  "service_init l stack_top m =
    Option.bind (initialize_ram l m) (\<lambda>m.
      let sp = stack_top; r0 = 0
      in Some (m, sp, r0, SVC_PROCESS_EXIT))"

text \<open>
  The processor runs the service: what it does when the exception frame sends it to the init
  entry is the routine above; the value of the exit call is r0.
\<close>

definition runs_init :: "image_layout \<Rightarrow> service_vectors \<Rightarrow> ('d spm_ipc \<Rightarrow> 'd spm_ipc \<times> usize) \<Rightarrow> bool" where
  "runs_init l v run \<longleftrightarrow>
    (\<forall>s m sp r0. read_u32 (si_mem s) (si_psp s + 24) = sv_init_entry v \<longrightarrow>
       service_init l (sv_stack_top v) (si_mem s) = Some (m, sp, r0, SVC_PROCESS_EXIT) \<longrightarrow>
       run s = (s\<lparr>si_mem := m, si_psp := sp\<rparr>, r0))"

text \<open>
  The layout the linker script boards/shared/build_scripts/service_layout.ld gives a service:
  aligned sections below the stack, all in the RAM window, and the image of .data in the ROM window.
\<close>

definition service_layout_ok :: "image_layout \<Rightarrow> service_vectors \<Rightarrow> bool" where
  "service_layout_ok l v \<longleftrightarrow> layout_aligned l \<and>
    unat (sv_ram_start v) \<le> unat (l_sdata l) \<and> unat (l_sdata l) + data_size l \<le> unat (sv_stack_limit v) \<and>
    unat (sv_ram_start v) \<le> unat (l_szero l) \<and> unat (l_szero l) + bss_size l \<le> unat (sv_stack_limit v) \<and>
    unat (sv_stack_limit v) + 32 \<le> unat (sv_stack_top v) \<and> unat (sv_stack_top v) \<le> unat (sv_ram_limit v) \<and>
    unat (sv_rom_start v) \<le> unat (l_etext l) \<and> unat (l_etext l) + data_size l \<le> unat (sv_rom_limit v) \<and>
    (unat (sv_rom_limit v) \<le> unat (sv_ram_start v) \<or> unat (sv_ram_limit v) \<le> unat (sv_rom_start v))"

lemma in_slice_iff:
  assumes "unat a + n \<le> 4294967296"
  shows "in_slice a n x \<longleftrightarrow> unat a \<le> unat x \<and> unat x < unat a + n"
proof
  assume "in_slice a n x"
  then show "unat a \<le> unat x \<and> unat x < unat a + n"
    using not_in_slice_apart[OF _ assms, of x] by fastforce
next
  assume "unat a \<le> unat x \<and> unat x < unat a + n"
  then show "in_slice a n x"
    by (simp add: in_slice_def unat_sub_le word_le_nat_alt less_diff_conv2)
qed

lemma unat_offset: "unat a + i < 4294967296 \<Longrightarrow> unat (a + of_nat i :: usize) = unat a + i"
  by (subst unat_add_fits) (simp_all add: unat_of_nat_small)

lemma service_layoutD:
  assumes "service_layout_ok l v"
  shows "layout_aligned l" "image_apart l"
    "in_slice (l_sdata l) (data_size l) x \<Longrightarrow> unat (sv_ram_start v) \<le> unat x \<and> unat x < unat (sv_stack_limit v)"
    "in_slice (l_szero l) (bss_size l) x \<Longrightarrow> unat (sv_ram_start v) \<le> unat x \<and> unat x < unat (sv_stack_limit v)"
    "i < data_size l \<Longrightarrow> \<not> (unat (sv_ram_start v) \<le> unat (l_etext l + of_nat i) \<and>
       unat (l_etext l + of_nat i) < unat (sv_ram_limit v))"
proof -
  note ok = assms[unfolded service_layout_ok_def]
  note top = unat_lt_usize[of "sv_stack_top v"] unat_lt_usize[of "sv_rom_limit v"]
  show "layout_aligned l" using ok by blast
  have data: "in_slice (l_sdata l) (data_size l) x \<longleftrightarrow>
      unat (l_sdata l) \<le> unat x \<and> unat x < unat (l_sdata l) + data_size l" for x
    using ok top by (intro in_slice_iff) linarith
  have bss: "in_slice (l_szero l) (bss_size l) x \<longleftrightarrow>
      unat (l_szero l) \<le> unat x \<and> unat x < unat (l_szero l) + bss_size l" for x
    using ok top by (intro in_slice_iff) linarith
  show "in_slice (l_sdata l) (data_size l) x \<Longrightarrow> unat (sv_ram_start v) \<le> unat x \<and> unat x < unat (sv_stack_limit v)"
    "in_slice (l_szero l) (bss_size l) x \<Longrightarrow> unat (sv_ram_start v) \<le> unat x \<and> unat x < unat (sv_stack_limit v)"
    using ok unfolding data bss by linarith+
  have src: "unat (l_etext l + of_nat i) = unat (l_etext l) + i" if "i < data_size l" for i
    using ok top that by (intro unat_offset) linarith
  show "\<not> (unat (sv_ram_start v) \<le> unat (l_etext l + of_nat i) \<and>
       unat (l_etext l + of_nat i) < unat (sv_ram_limit v))" if "i < data_size l"
    unfolding src[OF that] using ok that by linarith
  show "image_apart l"
    unfolding image_apart_def data bss using src ok by force
qed

definition started_mem :: "service_vectors \<Rightarrow> mem \<Rightarrow> mem" where
  "started_mem v m = write_words (sv_stack_top v - 32)
     [0, 0, 0, 0, 0, DUMMY_LR, sv_init_entry v, THUMB_BIT_XPSR] m"

lemma process_init_run:
  assumes "service_layout_ok l v"
  shows "process_init run v s =
    fst (run (s\<lparr>si_mem := started_mem v (si_mem s), si_psplim := sv_stack_limit v, si_psp := sv_stack_top v - 32\<rparr>))"
proof -
  have st: "unat (sv_stack_limit v) + 32 \<le> unat (sv_stack_top v)"
    using assms by (simp add: service_layout_ok_def)
  then have le: "32 \<le> sv_stack_top v" by (simp add: word_le_nat_alt)
  then have "unat (sv_stack_top v - 32) = unat (sv_stack_top v) - 32" by (simp add: unat_sub_le)
  then have "\<not> sv_stack_top v - 32 < sv_stack_limit v" using st by (simp add: word_less_nat_alt)
  then show ?thesis using le
    by (simp add: process_init_def svc_call_unpriv_def EXCEPTION_FRAME_WORDS_def checked_sub_def started_mem_def Let_def)
qed

lemma started_mem_outside:
  assumes "service_layout_ok l v" "unat x < unat (sv_stack_limit v) \<or> unat (sv_ram_limit v) \<le> unat x"
  shows "started_mem v m x = m x"
  unfolding started_mem_def
proof (rule write_words_outside)
  have st: "unat (sv_stack_limit v) + 32 \<le> unat (sv_stack_top v)" "unat (sv_stack_top v) \<le> unat (sv_ram_limit v)"
    using assms(1) by (simp_all add: service_layout_ok_def)
  then have "unat (sv_stack_top v - 32) = unat (sv_stack_top v) - 32" by (simp add: unat_sub_le word_le_nat_alt)
  then show "\<not> in_slice (sv_stack_top v - 32) (4 * length [0, 0, 0, 0, 0, DUMMY_LR, sv_init_entry v, THUMB_BIT_XPSR]) x"
    using assms(2) st unat_lt_usize[of "sv_stack_top v"] by (subst in_slice_iff) auto
qed

section \<open>Properties\<close>

text \<open>C10. The first start of a service laid out by the linker script: the dispatcher's init leaves the
  service's .data equal to its image in ROM and its .bss zero, with the service's stack limit
  installed, and changes no byte outside the service's RAM window and nothing of the dispatcher.\<close>

theorem service_initialised:
  assumes "service_layout_ok l v" "runs_init l v run"
  shows "(\<forall>x. in_slice (l_sdata l) (data_size l) x \<longrightarrow>
      si_mem (process_init run v s) x = si_mem s (l_etext l + (x - l_sdata l))) \<and>
    (\<forall>x. in_slice (l_szero l) (bss_size l) x \<and> \<not> in_slice (l_sdata l) (data_size l) x \<longrightarrow>
      si_mem (process_init run v s) x = 0) \<and>
    (\<forall>x. unat x < unat (sv_ram_start v) \<or> unat (sv_ram_limit v) \<le> unat x \<longrightarrow>
      si_mem (process_init run v s) x = si_mem s x) \<and>
    process_init run v s = s\<lparr>si_mem := si_mem (process_init run v s),
      si_psp := sv_stack_top v, si_psplim := sv_stack_limit v\<rparr>"
proof -
  let ?m = "started_mem v (si_mem s)"
  let ?s = "s\<lparr>si_mem := ?m, si_psplim := sv_stack_limit v, si_psp := sv_stack_top v - 32\<rparr>"
  note l = service_layoutD[OF assms(1)]
  have st: "unat (sv_ram_start v) \<le> unat (sv_stack_limit v)" "unat (sv_stack_limit v) \<le> unat (sv_ram_limit v)"
    using assms(1) by (auto simp: service_layout_ok_def)
  have "read_u32 ?m (sv_stack_top v - 32 + of_nat (4 * 6)) = sv_init_entry v"
    unfolding started_mem_def by (subst read_u32_write_words) simp_all
  then have pc: "read_u32 (si_mem ?s) (si_psp ?s + 24) = sv_init_entry v" by simp
  have "service_init l (sv_stack_top v) (si_mem ?s) =
      Some (ram_after l ?m, sv_stack_top v, 0, SVC_PROCESS_EXIT)"
    by (simp add: service_init_def initialize_ram_eq[OF l(1,2)])
  then have init: "process_init run v s = ?s\<lparr>si_mem := ram_after l ?m, si_psp := sv_stack_top v\<rparr>"
    using assms(2) pc process_init_run[OF assms(1), of run s] unfolding runs_init_def by fastforce
  have src: "?m (l_etext l + (x - l_sdata l)) = si_mem s (l_etext l + (x - l_sdata l))"
    if "in_slice (l_sdata l) (data_size l) x" for x
  proof -
    define i where "i = unat (x - l_sdata l)"
    have eq: "l_etext l + (x - l_sdata l) = l_etext l + of_nat i" by (simp add: i_def)
    have "i < data_size l" using that by (simp add: in_slice_def i_def)
    from l(5)[OF this] show ?thesis
      unfolding eq using st by (intro started_mem_outside[OF assms(1)]) linarith
  qed
  have out: "\<not> in_slice (l_sdata l) (data_size l) x" "\<not> in_slice (l_szero l) (bss_size l) x" "?m x = si_mem s x"
    if "unat x < unat (sv_ram_start v) \<or> unat (sv_ram_limit v) \<le> unat x" for x
    using l(3)[of x] l(4)[of x] that st started_mem_outside[OF assms(1), of x "si_mem s"] by auto
  show ?thesis
    unfolding init using src out by (simp add: ram_after_def)
qed

definition sample_service :: service_vectors where
  "sample_service = \<lparr>sv_version = 1, sv_init_entry = 0x10001, sv_call_entry = 0x10101, sv_rom_start = 0x10000,
     sv_rom_limit = 0x18000, sv_ram_start = 0x20000000, sv_ram_limit = 0x20002000,
     sv_stack_limit = 0x20000800, sv_stack_top = 0x20002000\<rparr>"

definition sample_service_layout :: image_layout where
  "sample_service_layout = \<lparr>l_szero = 0x20000010, l_ezero = 0x20000800, l_sdata = 0x20000000,
     l_edata = 0x20000010, l_etext = 0x12000\<rparr>"

definition runs_sample :: "unit spm_ipc \<Rightarrow> unit spm_ipc \<times> usize" where
  "runs_sample s = (case service_init sample_service_layout (sv_stack_top sample_service) (si_mem s) of
     Some (m, sp, r0, n) \<Rightarrow> (s\<lparr>si_mem := m, si_psp := sp\<rparr>, r0) | None \<Rightarrow> (s, 1))"

theorem service_initialised_witness:
  "\<forall>s. si_mem (process_init runs_sample sample_service (s\<lparr>si_mem := (\<lambda>x. ucast x)\<rparr>)) 0x20000007 = 7 \<and>
   si_mem (process_init runs_sample sample_service (s\<lparr>si_mem := (\<lambda>x. ucast x)\<rparr>)) 0x20000123 = 0 \<and>
   si_mem (process_init runs_sample sample_service (s\<lparr>si_mem := (\<lambda>x. ucast x)\<rparr>)) 0x20002001 = 1"
proof
  fix s :: "unit spm_ipc"
  have ok: "service_layout_ok sample_service_layout sample_service"
    by (simp add: service_layout_ok_def layout_aligned_def word_aligned_def sample_service_def
        sample_service_layout_def data_size_def bss_size_def)
  have run: "runs_init sample_service_layout sample_service runs_sample"
    by (simp add: runs_init_def runs_sample_def)
  note t = service_initialised[OF ok run, of "s\<lparr>si_mem := (\<lambda>x. ucast x)\<rparr>"]
  have sl: "in_slice (l_sdata sample_service_layout) (data_size sample_service_layout) 0x20000007"
    "in_slice (l_szero sample_service_layout) (bss_size sample_service_layout) 0x20000123"
    "\<not> in_slice (l_sdata sample_service_layout) (data_size sample_service_layout) 0x20000123"
    "unat (sv_ram_limit sample_service) \<le> unat (0x20002001 :: usize)"
    by (simp_all add: sample_service_layout_def sample_service_def in_slice_def data_size_def bss_size_def)
  show "si_mem (process_init runs_sample sample_service (s\<lparr>si_mem := (\<lambda>x. ucast x)\<rparr>)) 0x20000007 = 7 \<and>
   si_mem (process_init runs_sample sample_service (s\<lparr>si_mem := (\<lambda>x. ucast x)\<rparr>)) 0x20000123 = 0 \<and>
   si_mem (process_init runs_sample sample_service (s\<lparr>si_mem := (\<lambda>x. ucast x)\<rparr>)) 0x20002001 = 1"
    using t[THEN conjunct1, rule_format, OF sl(1)]
      t[THEN conjunct2, THEN conjunct1, rule_format, of "0x20000123"] sl(2,3)
      t[THEN conjunct2, THEN conjunct2, THEN conjunct1, rule_format, of "0x20002001"] sl(4)
    by (simp add: sample_service_layout_def)
qed

end
