(* ===== verification/ServiceCall.thy ===== *)
theory ServiceCall
  imports ServiceStart CryptoSrv Attest
begin

text \<open>
  The call entry of a service binary (boards/psc3m5_evk/services/*/src/main.rs): it reads the staged
  message through bytemuck's checked cast, runs the service on the supervisor-call API and leaves by
  process_exit with the status.  A message that is misaligned or has an invalid bit pattern panics,
  that is, loops: None.
\<close>

section \<open>The entry\<close>

text \<open>PsaMsg from its 44 bytes: the pointer must have the alignment of PsaMsg, 4 bytes, the handle must be a
  variant and the two flags 0 or 1.\<close>

definition read_bool :: "u8 \<Rightarrow> bool option" where
  "read_bool b = (if b = 0 then Some False else if b = 1 then Some True else None)"

definition read_sizes :: "mem \<Rightarrow> usize \<Rightarrow> maybe_usize list" where
  "read_sizes m a = map (\<lambda>i. MaybeUsize (read_u32 m (a + of_nat (4 * i)))) [0..<4]"

definition read_psa_msg :: "mem \<Rightarrow> usize \<Rightarrow> psa_msg option" where
  "read_psa_msg m a =
    (if unat a mod 4 \<noteq> 0 then None
     else case (service_handle_from_raw (read_u32 m a), read_bool (m (a + 8)), read_bool (m (a + 9))) of
       (Inr handle, Some ns, Some privileged) \<Rightarrow>
         Some \<lparr>msg_handle = handle, msg_type = read_u32 m (a + 4),
               msg_caller = \<lparr>ca_ns = ns, ca_privileged = privileged\<rparr>,
               msg_in_size = read_sizes m (a + 12), msg_out_size = read_sizes m (a + 28)\<rparr>
     | _ \<Rightarrow> None)"

text \<open>call: the message pointer is r0 of the exception frame, the status r0 of the exit.\<close>

definition srv_call ::
    "(psa_msg \<Rightarrow> 'd spm_ipc \<Rightarrow> 'd spm_ipc \<times> unit res) \<Rightarrow> 'd spm_ipc \<Rightarrow> ('d spm_ipc \<times> usize) option" where
  "srv_call service s =
    (let msg_ptr = read_u32 (si_mem s) (si_psp s)
     in case read_psa_msg (si_mem s) msg_ptr of
          None \<Rightarrow> None
        | Some msg \<Rightarrow> (case service msg s of (s, result) \<Rightarrow> Some (s, into_psa_status result)))"

text \<open>The services on the supervisor-call API.\<close>

definition svc_crypto_env ::
    "'d spm_ipc svc_fn \<Rightarrow> crypto_feature \<Rightarrow> u8 list \<Rightarrow> (usize \<Rightarrow> u8 list \<Rightarrow> tfm_crypto_pack_iovec option) \<Rightarrow>
     'd spm_ipc crypto_env" where
  "svc_crypto_env svc ft key cast =
    \<lparr>cr_mem = si_mem, cr_upd = (\<lambda>g s. s\<lparr>si_mem := g (si_mem s)\<rparr>), cr_feature = ft,
     cr_signing_key = key, cr_cast = cast, cr_access_invec = svc_api_access_invec svc,
     cr_access_invec_outvec = svc_api_access_invec_outvec svc\<rparr>"

definition CRYPTO_SRV_KEY :: "u8 list" where
  "CRYPTO_SRV_KEY =
    [0xc3, 0xfe, 0xe8, 0x4c, 0x73, 0x49, 0xd8, 0xe8, 0x44, 0x3d, 0xe4, 0xae, 0x65, 0xf7, 0xea, 0x3b,
     0xb8, 0x09, 0x3b, 0xe9, 0xb1, 0x5b, 0xc4, 0xbd, 0x4a, 0x54, 0x95, 0x3c, 0xd3, 0x31, 0xce, 0x1b]"

definition crypto_srv_call ::
    "'d spm_ipc svc_fn \<Rightarrow> crypto_feature \<Rightarrow> (usize \<Rightarrow> u8 list \<Rightarrow> tfm_crypto_pack_iovec option) \<Rightarrow>
     'd spm_ipc \<Rightarrow> ('d spm_ipc \<times> usize) option" where
  "crypto_srv_call svc ft cast s = srv_call (crypto_call (svc_crypto_env svc ft CRYPTO_SRV_KEY cast)) s"

text \<open>The attestation service's own platform and signing client are parameters here.\<close>

definition svc_attest_env ::
    "'d spm_ipc svc_fn \<Rightarrow> minicbor \<Rightarrow> (u32 \<Rightarrow> 'd spm_ipc cose_crypto) \<Rightarrow> 'd spm_ipc attest_platform \<Rightarrow>
     'd spm_ipc attest_env" where
  "svc_attest_env svc mc backend plat =
    \<lparr>ae_mem = si_mem, ae_upd = (\<lambda>g s. s\<lparr>si_mem := g (si_mem s)\<rparr>), ae_cbor = mc, ae_backend = backend,
     ae_platform = plat,
     ae_api = \<lparr>at_access_invec = svc_api_access_invec svc, at_access_outvec = svc_api_access_outvec svc,
       at_access_invec_outvec = svc_api_access_invec_outvec svc\<rparr>\<rparr>"

definition attest_srv_call ::
    "'d spm_ipc svc_fn \<Rightarrow> minicbor \<Rightarrow> (u32 \<Rightarrow> 'd spm_ipc cose_crypto) \<Rightarrow> 'd spm_ipc attest_platform \<Rightarrow>
     'd spm_ipc \<Rightarrow> ('d spm_ipc \<times> usize) option" where
  "attest_srv_call svc mc backend plat s = srv_call (attest_call (svc_attest_env svc mc backend plat)) s"

section \<open>Reading what was staged\<close>

lemma read_bool_byte [simp]: "read_bool (bool_byte b) = Some b"
  by (simp add: read_bool_def bool_byte_def)

lemma read_sizes_eq:
  assumes "\<forall>i<4. read_u32 m (a + of_nat (4 * i)) = raw_usize (xs ! i)" "length xs = 4"
  shows "read_sizes m a = xs"
  using assms by (intro nth_equalityI) (simp_all add: read_sizes_def del: of_nat_mult)

lemma read_psa_msg_staged:
  assumes "staged_as m a msg" "length (msg_in_size msg) = 4" "length (msg_out_size msg) = 4" "unat a mod 4 = 0"
  shows "read_psa_msg m a = Some msg"
proof -
  have "read_sizes m (a + 12) = msg_in_size msg" "read_sizes m (a + 28) = msg_out_size msg"
    using assms by (auto simp: staged_as_def intro!: read_sizes_eq)
  then show ?thesis using assms(1,4)
    by (cases msg; cases "msg_caller msg") (simp add: read_psa_msg_def staged_as_def)
qed

text \<open>What the processor does when the frame sends it to the call entry.\<close>

definition runs_call ::
    "service_vectors \<Rightarrow> (psa_msg \<Rightarrow> 'd spm_ipc \<Rightarrow> 'd spm_ipc \<times> unit res) \<Rightarrow> ('d spm_ipc \<Rightarrow> 'd spm_ipc \<times> usize) \<Rightarrow> bool" where
  "runs_call v service run \<longleftrightarrow>
    (\<forall>s r. read_u32 (si_mem s) (si_psp s + 24) = sv_call_entry v \<longrightarrow> srv_call service s = Some r \<longrightarrow> run s = r)"

lemma exit_status:
  "(case status_try_from_usize (into_psa_status r) of
      Inr Success \<Rightarrow> Inr () | Inr err \<Rightarrow> Inl err | Inl _ \<Rightarrow> Inl CommunicationFailure) =
    (case r of Inr _ \<Rightarrow> Inr () | Inl e \<Rightarrow> if e = Success then Inr () else Inl e)"
  by (cases r) (auto simp: into_psa_status_def simp del: status_value.simps split: status_code.split)

section \<open>Properties\<close>

text \<open>C11. A request crosses into a service process and back unchanged: when the dispatcher has staged a
  message and the service's binary runs at its call entry, the service function is applied to exactly
  that message, in a state that differs from the caller's only in the 32 bytes of the exception frame,
  the 44 bytes of the message and the two stack registers, and the dispatcher's result is the
  service's own result (an error that is the status Success counts as success).\<close>

theorem service_call_delivers:
  assumes "stage_msg_mailbox v msg (si_mem s) = (m', Inr (mb, tp))"
    and "length (msg_in_size msg) = 4" "length (msg_out_size msg) = 4" "runs_call v service run"
  shows "\<exists>s1. process_call run v msg s =
      (fst (service msg s1), case snd (service msg s1) of
         Inr _ \<Rightarrow> Inr () | Inl e \<Rightarrow> if e = Success then Inr () else Inl e) \<and>
    s1 = s\<lparr>si_mem := si_mem s1, si_psp := mb - 32, si_psplim := sv_stack_limit v\<rparr> \<and>
    (\<forall>x. unat x + 32 < unat mb \<or> unat mb + 44 \<le> unat x \<longrightarrow> si_mem s1 x = si_mem s x)"
proof -
  note st = stage_ok[OF assms(1)]
  obtain s1 where s1: "process_call run v msg s =
      (fst (run s1), case status_try_from_usize (snd (run s1)) of
         Inr Success \<Rightarrow> Inr () | Inr err \<Rightarrow> Inl err | Inl _ \<Rightarrow> Inl CommunicationFailure)"
    "s1 = s\<lparr>si_mem := si_mem s1, si_psp := mb - 32, si_psplim := sv_stack_limit v\<rparr>"
    "read_u32 (si_mem s1) (si_psp s1) = mb" "read_u32 (si_mem s1) (si_psp s1 + 24) = sv_call_entry v"
    "staged_as (si_mem s1) mb msg"
    "\<forall>x. unat x < unat (si_psp s1) \<or> unat mb + 44 \<le> unat x \<longrightarrow> si_mem s1 x = si_mem s x"
    using staged_call_core[OF assms(1-3), of run] by blast
  obtain s2 r where r: "service msg s1 = (s2, r)" by fastforce
  have "4 dvd unat mb" using st(1,2) by (metis dvd_trans even_numeral mult_2_right numeral_Bit0 dvd_triv_left)
  then have "unat mb mod 4 = 0" by simp
  then have "srv_call service s1 = Some (s2, into_psa_status r)"
    by (simp add: srv_call_def s1(3) read_psa_msg_staged[OF s1(5) assms(2,3)] r)
  then have run: "run s1 = (s2, into_psa_status r)"
    using assms(4) s1(4) unfolding runs_call_def by blast
  have psp: "si_psp s1 = mb - 32" using arg_cong[OF s1(2), of si_psp] by simp
  have "unat (mb - 32) + 32 = unat mb" using st(1,5) by (simp add: unat_sub_le word_le_nat_alt)
  then have out: "\<forall>x. unat x + 32 < unat mb \<or> unat mb + 44 \<le> unat x \<longrightarrow> si_mem s1 x = si_mem s x"
    using s1(6) unfolding psp by auto
  show ?thesis
    using s1(1,2) out unfolding run fst_conv snd_conv exit_status
    by (intro exI[of _ s1]) (simp add: r)
qed

definition sample_service_fn :: "psa_msg \<Rightarrow> unit spm_ipc \<Rightarrow> unit spm_ipc \<times> unit res" where
  "sample_service_fn msg s = (s, if msg_type msg = 5 then Inl BadState else Inr ())"

definition sample_binary :: "unit spm_ipc \<Rightarrow> unit spm_ipc \<times> usize" where
  "sample_binary s = (case srv_call sample_service_fn s of Some r \<Rightarrow> r | None \<Rightarrow> (s, 1))"

theorem service_call_delivers_witness:
  "snd (process_call sample_binary sample_vectors (psa_msg_new Crypto 5 NS_UNPRIVILEGED) sample_ipc) = Inl BadState \<and>
   snd (process_call sample_binary sample_vectors (psa_msg_new Crypto 6 NS_UNPRIVILEGED) sample_ipc) = Inr ()"
proof -
  have run: "runs_call v sample_service_fn sample_binary" for v
    by (simp add: runs_call_def sample_binary_def)
  have len: "length (msg_in_size (psa_msg_new Crypto k NS_UNPRIVILEGED)) = 4"
    "length (msg_out_size (psa_msg_new Crypto k NS_UNPRIVILEGED)) = 4" for k
    by (simp_all add: psa_msg_new_def PSA_MAX_IOVEC_def)
  have t: "msg_type (psa_msg_new Crypto k NS_UNPRIVILEGED) = k" for k by (simp add: psa_msg_new_def)
  show ?thesis
    using service_call_delivers[OF sample_stage len[of 5] run, of sample_ipc]
      service_call_delivers[OF sample_stage len[of 6] run, of sample_ipc]
    by (auto simp: sample_service_fn_def t)
qed

text \<open>C35. The checked cast types the message: whatever address the pointer holds and whatever bytes lie
  there, it yields a message exactly when the address is a multiple of 4 and the bytes are the image
  of one, with four input and four output sizes, and then that message; a misaligned pointer and any
  other bytes (a handle that is no service, a flag that is neither 0 nor 1) are refused, which in the
  service binary is a panic.\<close>

theorem psa_msg_typed:
  "case read_psa_msg m a of
      Some msg \<Rightarrow> unat a mod 4 = 0 \<and> length (msg_in_size msg) = 4 \<and> length (msg_out_size msg) = 4 \<and> staged_as m a msg
    | None \<Rightarrow> \<not> (unat a mod 4 = 0 \<and>
        (\<exists>msg. length (msg_in_size msg) = 4 \<and> length (msg_out_size msg) = 4 \<and> staged_as m a msg))"
proof (cases "read_psa_msg m a")
  case None
  then show ?thesis using read_psa_msg_staged[of m a] by auto
next
  case (Some msg)
  have al: "unat a mod 4 = 0" using Some by (simp add: read_psa_msg_def split: if_splits)
  obtain h ns p where h: "service_handle_from_raw (read_u32 m a) = Inr h" "read_bool (m (a + 8)) = Some ns"
    "read_bool (m (a + 9)) = Some p"
    and msg: "msg = \<lparr>msg_handle = h, msg_type = read_u32 m (a + 4), msg_caller = \<lparr>ca_ns = ns, ca_privileged = p\<rparr>,
      msg_in_size = read_sizes m (a + 12), msg_out_size = read_sizes m (a + 28)\<rparr>"
    using Some by (auto simp: read_psa_msg_def split: if_splits sum.splits option.splits)
  have b: "m (a + 8) = bool_byte ns" "m (a + 9) = bool_byte p"
    using h(2,3) by (auto simp: read_bool_def bool_byte_def split: if_splits)
  have "staged_as m a msg"
    using service_handle_from_raw_InrD[OF h(1)] b by (simp add: staged_as_def msg read_sizes_def del: of_nat_mult)
  then show ?thesis using Some al by (simp add: msg read_sizes_def)
qed

end
