(* ===== verification/TestNspe.thy ===== *)
theory TestNspe
  imports Boundary
begin

text \<open>
  The non-secure test image (boards/shared/test_nspe/src/lib.rs): what run_test prints, the cycle
  measurement of run_attest and the negative test.
  The 24-bit SysTick counter counts down from its reload value 0xFFFFFF; the test reads it before
  and after a call, takes the number of times it has reached zero from the interrupt handler's
  counter (or from COUNTFLAG), and prints the elapsed cycles.  Printed text is a string; the readings
  of the counter are inputs, and the addresses of the locals are parameters.
\<close>

section \<open>The measurement\<close>

definition effective_overflows :: "u32 \<Rightarrow> u32 \<Rightarrow> u32 \<Rightarrow> u32 \<Rightarrow> u32" where
  "effective_overflows start end' csr overflows =
    (if overflows > 0 then overflows
     else if csr AND push_bit 16 1 \<noteq> 0 \<or> start < end' then 1 else 0)"

definition total_cycles :: "u32 \<Rightarrow> u32 \<Rightarrow> u32 \<Rightarrow> u32 \<Rightarrow> u64" where
  "total_cycles start end' csr overflows =
    (let effective = effective_overflows start end' csr overflows;
         diff = (start - end') AND 0x00FFFFFF
     in ucast effective * 0x01000000 + ucast diff)"

definition systick_handler :: "u32 \<Rightarrow> u32" where
  "systick_handler overflow_count = overflow_count + 1"

section \<open>The counter\<close>

text \<open>The counter c after t cycles, as the architecture has it, and how often it has reached zero.\<close>

fun systick :: "nat \<Rightarrow> nat \<Rightarrow> nat" where
  "systick c 0 = c"
| "systick c (Suc t) = (if systick c t = 0 then 0xFFFFFF else systick c t - 1)"

definition zero_hits :: "nat \<Rightarrow> nat \<Rightarrow> nat" where
  "zero_hits c t = length (filter (\<lambda>k. systick c k = 0) [1..<t + 1])"

lemma systick_eq:
  assumes "c < 16777216"
  shows "systick c t = (if t mod 16777216 \<le> c then c - t mod 16777216 else c + 16777216 - t mod 16777216)"
proof (induction t)
  case (Suc t)
  define r where "r = t mod 16777216"
  have r: "r < 16777216" by (simp add: r_def)
  show ?case
    using assms r unfolding systick.simps Suc mod_Suc r_def[symmetric] by auto
qed simp

lemma zero_hits_eq:
  assumes "c < 16777216"
  shows "zero_hits c t = t div 16777216 + (if 0 < c \<and> c \<le> t mod 16777216 then 1 else 0)"
proof (induction t)
  case 0
  then show ?case by (auto simp: zero_hits_def)
next
  case (Suc t)
  have r: "t mod 16777216 < 16777216" by simp
  have "zero_hits c (Suc t) = zero_hits c t + (if systick c (Suc t) = 0 then 1 else 0)"
    by (simp add: zero_hits_def del: systick.simps)
  also have "systick c (Suc t) = 0 \<longleftrightarrow> Suc t mod 16777216 = c"
    unfolding systick_eq[OF assms] using assms by (auto simp: mod_less_divisor)
  finally show ?case
    using assms r unfolding Suc by (auto simp: mod_Suc div_Suc)
qed

section \<open>What the test reports\<close>

lemma unat_and_24: "unat ((w :: u32) AND 0x00FFFFFF) = unat w mod 16777216"
proof -
  have "(0x00FFFFFF :: u32) = mask 24" by (simp add: mask_eq_exp_minus_1)
  then have "unat (w AND 0x00FFFFFF) = take_bit 24 (unat w)"
    by (simp only: take_bit_eq_mask[symmetric] unsigned_take_bit_eq)
  then show ?thesis by (simp add: take_bit_eq_mod)
qed

lemma systick_less: "c < 16777216 \<Longrightarrow> systick c t < 16777216"
  by (induction t) auto

lemma systick_diff:
  assumes "c < 16777216"
  shows "unat ((of_nat c - of_nat (systick c t) :: u32) AND 0x00FFFFFF) = t mod 16777216"
proof -
  let ?e = "systick c t"
  define r where "r = t mod 16777216"
  have r: "r < 16777216" by (simp add: r_def)
  have e: "?e < 16777216" by (rule systick_less[OF assms])
  have ce: "unat (of_nat c :: u32) = c" "unat (of_nat ?e :: u32) = ?e"
    using assms e by (simp_all add: unat_of_nat_small)
  have "unat (of_nat c - of_nat ?e :: u32) = (if ?e \<le> c then c - ?e else c + 4294967296 - ?e)"
    unfolding unat_sub_if_size word_size ce word_le_nat_alt by simp
  moreover have "?e = (if r \<le> c then c - r else c + 16777216 - r)"
    using systick_eq[OF assms] by (simp add: r_def)
  ultimately have "unat (of_nat c - of_nat ?e :: u32) = r \<or> unat (of_nat c - of_nat ?e :: u32) = r + 255 * 16777216"
    using r assms by (auto split: if_splits)
  then show ?thesis unfolding unat_and_24 r_def[symmetric] using r by (elim disjE) (simp_all only: mod_mult_self1 mod_less)
qed

lemma unat_total_cycles: "unat (total_cycles s e csr ov) =
    unat (effective_overflows s e csr ov) * 16777216 + unat ((s - e) AND 0x00FFFFFF)"
proof -
  let ?f = "effective_overflows s e csr ov" and ?d = "(s - e) AND 0x00FFFFFF"
  have b: "unat ?f < 4294967296" "unat ?d < 4294967296" by (rule unat_lt_usize)+
  have "unat (ucast ?f * 0x01000000 :: u64) = unat ?f * 16777216"
    using b by (simp add: unat_word_ariths unsigned_ucast_eq take_bit_nat_eq_self)
  then show ?thesis
    using b by (simp add: total_cycles_def Let_def unat_word_ariths unsigned_ucast_eq take_bit_nat_eq_self)
qed

text \<open>C40. The reported cycles, for a call of t cycles that starts at a non-zero counter value c, with an
  interrupt taken at every zero: they are exact when the last partial turn of the counter does not
  reach zero, and 2^24 too many when it does, since that wrap is counted both by the handler and by
  the difference modulo 2^24.\<close>

theorem measured_cycles_exact:
  assumes "0 < c" "c < 16777216" "zero_hits c t < 4294967296"
    and "csr AND push_bit 16 1 \<noteq> 0 \<longrightarrow> 0 < zero_hits c t"
  shows "unat (total_cycles (of_nat c) (of_nat (systick c t)) csr (of_nat (zero_hits c t))) =
    t + (if c \<le> t mod 16777216 then 16777216 else 0)"
proof -
  let ?e = "systick c t" and ?z = "zero_hits c t"
  have z: "unat (of_nat ?z :: u32) = ?z" using assms(3) by (rule unat_of_nat_small)
  have zq: "?z = t div 16777216 + (if c \<le> t mod 16777216 then 1 else 0)"
    using zero_hits_eq[OF assms(2)] assms(1) by simp
  have eff: "unat (effective_overflows (of_nat c) (of_nat ?e) csr (of_nat ?z)) = ?z"
  proof (cases "?z = 0")
    case True
    then have "t div 16777216 = 0" "t mod 16777216 < c" using zq by (auto split: if_splits)
    then have "?e \<le> c" using systick_eq[OF assms(2), of t] by simp
    then have "\<not> (of_nat c :: u32) < of_nat ?e"
      using assms(2) systick_less[OF assms(2), of t] by (simp add: word_less_nat_alt unat_of_nat_small)
    then show ?thesis using True assms(4) by (simp add: effective_overflows_def)
  next
    case False
    then have "(of_nat ?z :: u32) > 0" using z by (metis unat_gt_0 word_gt_0 neq0_conv)
    then show ?thesis using z by (simp add: effective_overflows_def)
  qed
  have "unat (total_cycles (of_nat c) (of_nat ?e) csr (of_nat ?z)) = ?z * 16777216 + t mod 16777216"
    unfolding unat_total_cycles eff systick_diff[OF assms(2)] ..
  then show ?thesis unfolding zq by (simp add: algebra_simps)
qed

theorem measured_cycles_exact_witness:
  "unat (total_cycles (of_nat 10) (of_nat (systick 10 30)) 0 (of_nat (zero_hits 10 30))) = 30 + 16777216"
proof -
  have "zero_hits 10 30 = 1" by (simp add: zero_hits_eq)
  then show ?thesis using measured_cycles_exact[of 10 30 0] by simp
qed

section \<open>The test\<close>

definition crlf :: string where "crlf = [CHR 0x0D, CHR 0x0A]"

definition print_version :: "(u32 \<Rightarrow> 's \<Rightarrow> 's \<times> u32) \<Rightarrow> 's \<Rightarrow> 's \<times> string" where
  "print_version psa_version s =
    (case psa_version (service_handle_value AttestationService) s of
       (s, initial_attest_version) \<Rightarrow>
         (case psa_version (service_handle_value InternalTrustedStorageService) s of
            (s, internal_trusted_storage) \<Rightarrow>
              (s, ''initial_attest_version: '' @ decimal (unat initial_attest_version) @ newline @
                  ''internal_trusted_storage: '' @ decimal (unat internal_trusted_storage) @ newline)))"

record readings =
  rd_start :: u32
  rd_end :: u32
  rd_csr :: u32
  rd_overflows :: u32

text \<open>None is the panic of a failed unwrap.\<close>

definition run_attest ::
    "('s \<Rightarrow> mem) \<Rightarrow> ((mem \<Rightarrow> mem) \<Rightarrow> 's \<Rightarrow> 's) \<Rightarrow> 's psa_call_fn \<Rightarrow> usize \<Rightarrow> usize \<Rightarrow> readings \<Rightarrow> 's \<Rightarrow>
     ('s \<times> string) option" where
  "run_attest get upd call challenge token_buf r s =
    (let s = upd (\<lambda>m. write_bytes m challenge (replicate 32 0)) s;
         s = upd (\<lambda>m. write_bytes m token_buf (replicate 512 0)) s in
     case psa_initial_attest_get_token call (challenge, 32) (token_buf, 512) s of
       (s, Inl _) \<Rightarrow> None
     | (s, Inr _) \<Rightarrow>
         (let effective = effective_overflows (rd_start r) (rd_end r) (rd_csr r) (rd_overflows r);
              total_cycles = total_cycles (rd_start r) (rd_end r) (rd_csr r) (rd_overflows r)
          in Some (s,
            ''call_start '' @ decimal (unat (rd_start r)) @ crlf @
            ''call_end '' @ decimal (unat (rd_end r)) @ crlf @
            ''cycles_elapsed '' @ decimal (unat total_cycles) @ crlf @
            ''overflow '' @ (if effective > 0 then ''true'' else ''false'') @ crlf @
            ''overflow_count '' @ decimal (unat effective) @ crlf @
            crlf @ ''token_buf: '' @
            concat (map hex_pair (read_bytes (get s) token_buf 512)) @ crlf)))"

definition negative_passed :: string where
  "negative_passed = ''Negative test passed: SPM correctly rejected invalid memory address'' @ crlf"

definition negative_failed :: string where
  "negative_failed = ''Negative test FAILED: SPM allowed access to invalid memory address'' @ crlf"

definition run_attest_invalid_buffer ::
    "((mem \<Rightarrow> mem) \<Rightarrow> 's \<Rightarrow> 's) \<Rightarrow> 's psa_call_fn \<Rightarrow> usize \<Rightarrow> usize \<Rightarrow> 's \<Rightarrow> 's \<times> string" where
  "run_attest_invalid_buffer upd call veneer challenge s =
    (let s = upd (\<lambda>m. write_bytes m challenge (replicate 32 0)) s;
         invalid_addr = veneer - 0x200 in
     case psa_initial_attest_get_token call (challenge, 32) (invalid_addr, 512) s of
       (s, Inl _) \<Rightarrow> (s, negative_passed)
     | (s, Inr _) \<Rightarrow> (s, negative_failed))"

text \<open>run_test after its set-up of SysTick: the reload value, the cleared counter, and the control
  word that enables counter and interrupt.\<close>

record systick_regs =
  st_rvr :: u32
  st_cvr :: u32
  st_csr :: u32

definition start_systick :: "systick_regs \<Rightarrow> systick_regs" where
  "start_systick t = t\<lparr>st_rvr := 0x00FFFFFF, st_cvr := 0, st_csr := 7\<rparr>"

definition run_test ::
    "('s \<Rightarrow> mem) \<Rightarrow> ((mem \<Rightarrow> mem) \<Rightarrow> 's \<Rightarrow> 's) \<Rightarrow> (u32 \<Rightarrow> 's \<Rightarrow> 's \<times> u32) \<Rightarrow> 's psa_call_fn \<Rightarrow> usize \<Rightarrow> usize \<Rightarrow> usize \<Rightarrow>
     readings \<times> readings \<times> readings \<Rightarrow> 's \<times> systick_regs \<Rightarrow> (('s \<times> systick_regs) \<times> string) option" where
  "run_test get upd psa_version call veneer challenge token_buf rs st =
    (case rs of (r1, r2, r3) \<Rightarrow> case st of (s, t) \<Rightarrow>
     let out = crlf @ ''--- NSPE TEST START ---'' @ newline @ ''profile: default'' @ newline;
         t = start_systick t in
     case print_version psa_version s of (s, v) \<Rightarrow>
     Option.bind (run_attest get upd call challenge token_buf r1 s) (\<lambda>(s, o1).
     Option.bind (run_attest get upd call challenge token_buf r2 s) (\<lambda>(s, o2).
     Option.bind (run_attest get upd call challenge token_buf r3 s) (\<lambda>(s, o3).
     case run_attest_invalid_buffer upd call veneer challenge s of (s, o4) \<Rightarrow>
       Some ((s, t), out @ v @ o1 @ o2 @ o3 @ o4 @ crlf @ ''--- NSPE TEST END ---'' @ newline)))))"

text \<open>The board's client.\<close>

definition musca_client :: "board \<Rightarrow> usize \<Rightarrow> usize \<Rightarrow> 'd spm_fn psa_call_fn" where
  "musca_client bd in_at out_at =
    veneer_psa_call sf_mem sf_mem_update (psa_call_veneer (musca_system bd 5)) in_at out_at"

text \<open>A client call that names secure memory for its output.\<close>

lemma musca_token_refused:
  assumes "musca_hardware b" "musca_start fr stack_base b = Some (b', entry)"
    and "tt_documented (bd_tt bd)" "tt_follows (mb_sau b') (bd_tt bd)" "n \<noteq> 0"
    and "attribution (mb_sau b') a \<noteq> NonSecure" "\<not> (0x40105000 \<le> a \<and> a \<le> 0x40105FFF)"
  shows "\<exists>s' e. psa_initial_attest_get_token (musca_client bd in_at out_at) challenge (a, n) s = (s', Inl e)"
proof -
  let ?ctrl = "ctrl_new (attestation_service_value GetToken) 1 True 1 True" and ?w = "vec_of_slice (a, n)"
  let ?s = "sf_mem_update (store_vecs out_at [?w]) (sf_mem_update (store_vecs in_at [vec_of_slice challenge]) s)"
  have "read_vecs (sf_mem ?s) out_at 1 = [?w]"
    using read_store_vecs[of "[?w]" out_at] by simp
  moreover have "has_iovec ?ctrl" "ctrl_out_len ?ctrl = 1" by (simp_all only: token_ctrl)
  ultimately have v: "?w \<in> set (client_vecs (sf_mem ?s) ?ctrl in_at out_at)"
    by (simp add: client_vecs_def del: One_nat_def)
  have byte: "0 < unat (iov_len ?w)" "a = iov_base ?w + of_nat 0"
    using assms(5) by (simp_all add: vec_of_slice_def unat_gt_0)
  obtain e where e: "e \<noteq> Success"
    "psa_call_veneer (musca_system bd 5) AttestationService ?ctrl in_at out_at ?s = (?s, status_value e)"
    using musca_refused_core[OF assms(1-4) v byte assms(6,7)] by blast
  then show ?thesis
    by (auto simp: psa_initial_attest_get_token_def musca_client_def veneer_psa_call_def Let_def status_from_raw_value)
qed

text \<open>The negative test passes: on the booted Musca, with the veneers in the callable window, the test of
  an output buffer 0x200 bytes before the veneer prints that the call was rejected.\<close>

theorem negative_test_passes:
  assumes "musca_hardware b" "musca_start fr stack_base b = Some (b', entry)"
    and "tt_documented (bd_tt bd)" "tt_follows (mb_sau b') (bd_tt bd)"
    and "0x10100000 \<le> veneer" "veneer \<le> 0x10101FFF"
  shows "snd (run_attest_invalid_buffer sf_mem_update (musca_client bd in_at out_at) veneer challenge s) = negative_passed"
proof -
  have a: "unat (veneer - 0x200) = unat veneer - 0x200"
    using assms(5) by (simp add: unat_sub_if_size word_le_nat_alt)
  have "musca_attribute (veneer - 0x200) \<noteq> NonSecure"
    using assms(5,6) by (auto simp: musca_attribute_def word_le_nat_alt a)
  then have ns: "attribution (mb_sau b') (veneer - 0x200) \<noteq> NonSecure"
    by (simp add: programmed_attribution[OF musca_start_programmed[OF assms(1,2)]] attribute_of_musca)
  have page: "\<not> (0x40105000 \<le> veneer - 0x200 \<and> veneer - 0x200 \<le> 0x40105FFF)"
    using assms(5,6) by (simp add: word_le_nat_alt a)
  obtain s' e where "psa_initial_attest_get_token (musca_client bd in_at out_at) (challenge, 32) (veneer - 0x200, 512)
      (sf_mem_update (\<lambda>m. write_bytes m challenge (replicate 32 0)) s) = (s', Inl e)"
    using musca_token_refused[OF assms(1-4) _ ns page, of 512] by fastforce
  then show ?thesis by (simp add: run_attest_invalid_buffer_def Let_def)
qed

end
