(* ===== verification/BuildScripts.thy ===== *)
theory BuildScripts
  imports Prelude
begin

text \<open>
  The build scripts of the service images and of the isolated image
  (boards/shared/build_scripts/src/ipc.rs and linker.rs): the generated service configuration, the
  generated layout, and the tracking of included linker scripts.  The environment and the file system
  are maps; text is a string.  A failed expect or assert is None, and so is a recursion without end.
\<close>

section \<open>Text\<close>

abbreviation nl :: char where "nl \<equiv> CHR 0x0A"

definition drop_underscores :: "string \<Rightarrow> string" where
  "drop_underscores s = filter (\<lambda>c. c \<noteq> CHR ''_'') s"

text \<open>str::parse for the usize of the build host, 64 bits.\<close>

definition dec_digit :: "char \<Rightarrow> nat option" where
  "dec_digit c = (let n = of_char c :: nat in if 48 \<le> n \<and> n \<le> 57 then Some (n - 48) else None)"

fun parse_digits :: "nat \<Rightarrow> string \<Rightarrow> nat option" where
  "parse_digits acc [] = Some acc"
| "parse_digits acc (c # cs) =
    (case dec_digit c of
       None \<Rightarrow> None
     | Some d \<Rightarrow> (let v = acc * 10 + d in if v < 2 ^ 64 then parse_digits v cs else None))"

definition parse_usize :: "string \<Rightarrow> nat option" where
  "parse_usize s =
    (case s of
       [] \<Rightarrow> None
     | c # cs \<Rightarrow> if c = CHR ''+'' then (if cs = [] then None else parse_digits 0 cs) else parse_digits 0 s)"

text \<open>str::lines: the text between newlines, without a carriage return before them; no line after the
  last newline.\<close>

fun split_lines :: "string \<Rightarrow> string \<Rightarrow> string list" where
  "split_lines acc [] = (if acc = [] then [] else [acc])"
| "split_lines acc (c # cs) = (if c = nl then acc # split_lines [] cs else split_lines (acc @ [c]) cs)"

definition str_lines :: "string \<Rightarrow> string list" where
  "str_lines s = split_lines [] s"

definition strip_cr :: "string \<Rightarrow> string" where
  "strip_cr l = (if l \<noteq> [] \<and> last l = CHR 0x0D then butlast l else l)"

definition is_space :: "char \<Rightarrow> bool" where
  "is_space c \<longleftrightarrow> c \<in> {CHR 0x20, CHR 0x09, CHR 0x0A, CHR 0x0B, CHR 0x0C, CHR 0x0D}"

definition str_trim :: "string \<Rightarrow> string" where
  "str_trim s = rev (dropWhile is_space (rev (dropWhile is_space s)))"

fun strip_prefix :: "string \<Rightarrow> string \<Rightarrow> string option" where
  "strip_prefix [] s = Some s"
| "strip_prefix (c # cs) [] = None"
| "strip_prefix (c # cs) (d # ds) = (if c = d then strip_prefix cs ds else None)"

section \<open>The service configuration\<close>

type_synonym environment = "string \<rightharpoonup> string"

record service_config =
  sc_flash_origin :: string
  sc_handle_variant :: string

definition read_service_count :: "environment \<Rightarrow> nat option" where
  "read_service_count env = Option.bind (env ''SERVICE_COUNT'') parse_usize"

definition origin_key :: "nat \<Rightarrow> string" where "origin_key i = ''SERVICE_FLASH_ORIGIN_'' @ decimal i"
definition handle_key :: "nat \<Rightarrow> string" where "handle_key i = ''SERVICE_HANDLE_VARIANT_'' @ decimal i"

fun read_service_configs_from :: "environment \<Rightarrow> nat list \<Rightarrow> service_config list option" where
  "read_service_configs_from env [] = Some []"
| "read_service_configs_from env (i # is) =
    Option.bind (env (origin_key i)) (\<lambda>flash_origin.
    Option.bind (env (handle_key i)) (\<lambda>handle_variant.
    Option.bind (read_service_configs_from env is) (\<lambda>services.
      Some (\<lparr>sc_flash_origin = drop_underscores flash_origin, sc_handle_variant = handle_variant\<rparr> # services))))"

definition read_service_configs :: "environment \<Rightarrow> nat \<Rightarrow> service_config list option" where
  "read_service_configs env service_count = read_service_configs_from env [0..<service_count]"

definition table_entry :: "string \<Rightarrow> string" where
  "table_entry s = ''    '' @ s @ '',''"

definition config_lines :: "nat \<Rightarrow> service_config list \<Rightarrow> string list" where
  "config_lines service_count services =
    [''// Generated service configuration from build time'', [],
     ''pub const SERVICE_COUNT: usize = '' @ decimal service_count @ '';'', [],
     ''pub const SERVICE_ADDRS: [u32; SERVICE_COUNT] = [''] @
    map (\<lambda>s. table_entry (sc_flash_origin s)) services @
    [''];'', [],
     ''pub const SERVICE_HANDLES: [psa_interface::types::ServiceHandle; SERVICE_COUNT] = [''] @
    map (\<lambda>s. table_entry (sc_handle_variant s)) services @
    [''];'']"

definition with_newlines :: "string list \<Rightarrow> string" where
  "with_newlines ls = concat (map (\<lambda>l. l @ [nl]) ls)"

definition join_path :: "string \<Rightarrow> string \<Rightarrow> string" where
  "join_path d f = (if d = [] \<or> last d = CHR ''/'' then d @ f else d @ ''/'' @ f)"

definition config_tracked :: "nat \<Rightarrow> string list" where
  "config_tracked service_count =
    ''cargo:rerun-if-env-changed=SERVICE_COUNT'' #
    concat (map (\<lambda>i. [''cargo:rerun-if-env-changed=SERVICE_FLASH_ORIGIN_'' @ decimal i,
                     ''cargo:rerun-if-env-changed=SERVICE_HANDLE_VARIANT_'' @ decimal i]) [0..<service_count])"

text \<open>What is printed for cargo, and the path and content of the written file.\<close>

definition generate_service_config :: "environment \<Rightarrow> (string list \<times> string \<times> string) option" where
  "generate_service_config env =
    Option.bind (read_service_count env) (\<lambda>service_count.
    Option.bind (read_service_configs env service_count) (\<lambda>services.
    if service_count = 0 then None
    else Option.bind (env ''OUT_DIR'') (\<lambda>out_dir.
      Some (config_tracked service_count, join_path out_dir ''service_config.rs'',
            with_newlines (config_lines service_count services)))))"

section \<open>The linker scripts\<close>

definition shared_layouts :: "string list" where
  "shared_layouts = [''spe_layout.ld'', ''test_nspe_layout.ld'', ''service_layout.ld'']"

definition linker_includes :: "string \<Rightarrow> string list" where
  "linker_includes script = map str_trim (List.map_filter (strip_prefix ''INCLUDE'') (map strip_cr (str_lines script)))"

text \<open>track_linker_script on a list of paths: the function on one, and the loop over its includes.\<close>

partial_function (option) track_linker_scripts :: "(string \<rightharpoonup> string) \<Rightarrow> string list \<Rightarrow> string list option" where
  "track_linker_scripts fs paths =
    (case paths of
       [] \<Rightarrow> Some []
     | path # paths \<Rightarrow>
         if path \<in> set shared_layouts then track_linker_scripts fs paths
         else (case fs path of
           None \<Rightarrow> None
         | Some link_script \<Rightarrow>
             Option.bind (track_linker_scripts fs (linker_includes link_script)) (\<lambda>inner.
             Option.bind (track_linker_scripts fs paths) (\<lambda>rest.
               Some ((''cargo:rerun-if-changed='' @ path) # inner @ rest)))))"

definition track_linker_script :: "(string \<rightharpoonup> string) \<Rightarrow> string \<Rightarrow> string list option" where
  "track_linker_script fs path = track_linker_scripts fs [path]"

definition set_and_track_linker_script :: "(string \<rightharpoonup> string) \<Rightarrow> string \<Rightarrow> string list option" where
  "set_and_track_linker_script fs path =
    Option.bind (track_linker_script fs path) (\<lambda>ls. Some ((''cargo:rustc-link-arg=-T'' @ path) # ls))"

text \<open>The generated layout of a service image.\<close>

definition env_or :: "environment \<Rightarrow> string \<Rightarrow> string \<Rightarrow> string" where
  "env_or env key default' = drop_underscores (case env key of Some v \<Rightarrow> v | None \<Rightarrow> default')"

definition service_layout :: "environment \<Rightarrow> string" where
  "service_layout env =
    (let flash_origin = env_or env ''SERVICE_FLASH_ORIGIN'' ''0x32010000'';
         flash_length = env_or env ''SERVICE_FLASH_LENGTH'' ''0x3F00'';
         ram_origin = env_or env ''SERVICE_RAM_ORIGIN'' ''0x34002F00'';
         ram_length = env_or env ''SERVICE_RAM_LENGTH'' ''0x1100''
     in with_newlines
       [[], ''/* Generated linker script with configured memory layout */'', ''MEMORY'', ''{'',
        ''    ROM (rx)  : ORIGIN = '' @ flash_origin @ '', LENGTH = '' @ flash_length,
        ''    RAM (rwx) : ORIGIN = '' @ ram_origin @ '', LENGTH = '' @ ram_length,
        ''}'', [], ''INCLUDE service_layout.ld''])"

section \<open>Lines\<close>

lemma split_lines_append: "nl \<notin> set l \<Longrightarrow> split_lines acc (l @ nl # s) = (acc @ l) # split_lines [] s"
  by (induction l arbitrary: acc) auto

lemma lines_with_newlines:
  assumes "\<forall>l\<in>set ls. nl \<notin> set l"
  shows "str_lines (with_newlines ls) = ls"
proof -
  have "split_lines [] (with_newlines ls) = ls"
    using assms by (induction ls) (simp_all add: with_newlines_def split_lines_append)
  then show ?thesis by (simp add: str_lines_def)
qed

lemma decimal_digits: "set (decimal n) \<subseteq> {c. 48 \<le> (of_char c :: nat) \<and> (of_char c :: nat) \<le> 57}"
proof (induction n rule: decimal.induct)
  case (1 n)
  then show ?case by (subst decimal.simps) (auto simp: take_bit_eq_mod)
qed

section \<open>Reading the generated file\<close>

text \<open>The entries of a table of the generated file, as the board's image includes it.\<close>

definition table_entries :: "string \<Rightarrow> string \<Rightarrow> string list" where
  "table_entries header content =
    map (\<lambda>l. butlast (drop 4 l)) (takeWhile (\<lambda>l. l \<noteq> ''];'') (tl (dropWhile (\<lambda>l. l \<noteq> header) (str_lines content))))"

definition addrs_header :: string where
  "addrs_header = ''pub const SERVICE_ADDRS: [u32; SERVICE_COUNT] = [''"

definition handles_header :: string where
  "handles_header = ''pub const SERVICE_HANDLES: [psa_interface::types::ServiceHandle; SERVICE_COUNT] = [''"

lemma table_entry_simps [simp]:
  "table_entry s \<noteq> ''];''" "table_entry s \<noteq> handles_header" "butlast (drop 4 (table_entry s)) = s"
  "nl \<in> set (table_entry s) \<longleftrightarrow> nl \<in> set s"
  by (simp_all add: table_entry_def handles_header_def)

lemma nl_not_digit: "nl \<notin> set (decimal n)"
  using decimal_digits[of n] by auto

lemma table_entries_config:
  assumes "\<forall>v\<in>set services. nl \<notin> set (sc_flash_origin v) \<and> nl \<notin> set (sc_handle_variant v)"
  shows "table_entries addrs_header (with_newlines (config_lines n services)) = map sc_flash_origin services"
    "table_entries handles_header (with_newlines (config_lines n services)) = map sc_handle_variant services"
proof -
  have "str_lines (with_newlines (config_lines n services)) = config_lines n services"
    by (rule lines_with_newlines) (use assms nl_not_digit in \<open>auto simp: config_lines_def\<close>)
  moreover have "takeWhile (\<lambda>l. l \<noteq> ''];'') (map (\<lambda>v. table_entry (f v)) vs @ ''];'' # ys) = map (\<lambda>v. table_entry (f v)) vs"
    "dropWhile (\<lambda>l. l \<noteq> handles_header) (map (\<lambda>v. table_entry (f v)) vs @ ys) = dropWhile (\<lambda>l. l \<noteq> handles_header) ys"
    for f :: "service_config \<Rightarrow> string" and vs ys
    by (induction vs) simp_all
  ultimately show "table_entries addrs_header (with_newlines (config_lines n services)) = map sc_flash_origin services"
    "table_entries handles_header (with_newlines (config_lines n services)) = map sc_handle_variant services"
    by (simp_all add: table_entries_def config_lines_def addrs_header_def[symmetric] handles_header_def[symmetric])
      (simp_all add: addrs_header_def handles_header_def comp_def)
qed

lemma read_configs_from_Some:
  "read_service_configs_from env is = Some vs \<Longrightarrow>
    map sc_flash_origin vs = map (\<lambda>i. drop_underscores (the (env (origin_key i)))) is \<and>
    map sc_handle_variant vs = map (\<lambda>i. the (env (handle_key i))) is"
  by (induction "is" arbitrary: vs) (auto simp: bind_eq_Some_conv)

section \<open>Properties\<close>

text \<open>The generated configuration reads back: at least one service, and the two tables hold, in order, each
  service's flash origin without underscores and its handle (values being single lines).\<close>

theorem service_config_roundtrip:
  assumes "generate_service_config env = Some (out, path, content)" "read_service_count env = Some n"
    and "\<forall>i<n. nl \<notin> set (the (env (origin_key i))) \<and> nl \<notin> set (the (env (handle_key i)))"
  shows "0 < n \<and>
    table_entries addrs_header content = map (\<lambda>i. drop_underscores (the (env (origin_key i)))) [0..<n] \<and>
    table_entries handles_header content = map (\<lambda>i. the (env (handle_key i))) [0..<n]"
proof -
  obtain vs where vs: "read_service_configs env n = Some vs" "n \<noteq> 0" "content = with_newlines (config_lines n vs)"
    using assms(1,2) by (auto simp: generate_service_config_def bind_eq_Some_conv split: if_splits)
  note maps = read_configs_from_Some[OF vs(1)[unfolded read_service_configs_def]]
  have "nl \<notin> set (sc_flash_origin v) \<and> nl \<notin> set (sc_handle_variant v)" if "v \<in> set vs" for v
  proof -
    have "sc_flash_origin v \<in> set (map sc_flash_origin vs)" "sc_handle_variant v \<in> set (map sc_handle_variant vs)"
      using that by simp_all
    then show ?thesis unfolding conjunct1[OF maps] conjunct2[OF maps] using assms(3)
      by (auto simp: drop_underscores_def)
  qed
  then show ?thesis using table_entries_config[of vs n] maps vs(2,3) by simp
qed

text \<open>The scripts a script includes, directly or not, up to the shared layouts.\<close>

inductive included :: "(string \<rightharpoonup> string) \<Rightarrow> string \<Rightarrow> string \<Rightarrow> bool" for fs where
  self: "p \<notin> set shared_layouts \<Longrightarrow> included fs p p"
| step: "p \<notin> set shared_layouts \<Longrightarrow> fs p = Some script \<Longrightarrow> r \<in> set (linker_includes script) \<Longrightarrow>
    included fs r q \<Longrightarrow> included fs p q"

lemma included_iff: "included fs p q \<longleftrightarrow> p \<notin> set shared_layouts \<and>
    (q = p \<or> (\<exists>script r. fs p = Some script \<and> r \<in> set (linker_includes script) \<and> included fs r q))"
  by (subst included.simps) auto

definition present_file :: "(string \<rightharpoonup> string) \<Rightarrow> string \<Rightarrow> bool" where
  "present_file fs p \<longleftrightarrow> p \<in> set shared_layouts \<or> fs p \<noteq> None"

definition tracked :: "string \<Rightarrow> string" where "tracked p = ''cargo:rerun-if-changed='' @ p"

lemma track_Nil [simp]: "track_linker_scripts fs [] = Some []"
  by (subst track_linker_scripts.simps) simp

lemma track_shared: "p \<in> set shared_layouts \<Longrightarrow> track_linker_scripts fs (p # ps) = track_linker_scripts fs ps"
  by (subst track_linker_scripts.simps) simp

lemma track_script: "p \<notin> set shared_layouts \<Longrightarrow> fs p = Some script \<Longrightarrow>
    track_linker_scripts fs (linker_includes script) = Some inner \<Longrightarrow> track_linker_scripts fs ps = Some rest \<Longrightarrow>
    track_linker_scripts fs (p # ps) = Some (tracked p # inner @ rest)"
  by (subst track_linker_scripts.simps) (simp add: tracked_def)

lemma track_scripts_complete:
  assumes "\<forall>p script q. fs p = Some script \<and> q \<in> set (linker_includes script) \<longrightarrow> present_file fs q \<and> rank q < (rank p :: nat)"
  shows "(\<forall>p\<in>set ps. present_file fs p \<and> rank p < n) \<Longrightarrow>
    \<exists>ls. track_linker_scripts fs ps = Some ls \<and> set ls = tracked ` {q. \<exists>p\<in>set ps. included fs p q}"
proof (induction n arbitrary: ps)
  case 0
  then show ?case by (cases ps) auto
next
  case (Suc n)
  show ?case using Suc.prems
  proof (induction ps)
    case Nil
    then show ?case by simp
  next
    case (Cons p ps)
    then obtain ls where ls: "track_linker_scripts fs ps = Some ls" "set ls = tracked ` {q. \<exists>p\<in>set ps. included fs p q}"
      by auto
    show ?case
    proof (cases "p \<in> set shared_layouts")
      case True
      then have "\<not> included fs p q" for q by (subst included_iff) simp
      then show ?thesis using ls track_shared[OF True, of fs ps] by auto
    next
      case False
      then obtain script where script: "fs p = Some script" using Cons.prems by (auto simp: present_file_def)
      have "\<forall>q\<in>set (linker_includes script). present_file fs q \<and> rank q < n"
      proof
        fix q assume "q \<in> set (linker_includes script)"
        then have "present_file fs q \<and> rank q < rank p" using assms script by blast
        then show "present_file fs q \<and> rank q < n" using Cons.prems by auto
      qed
      from Suc.IH[OF this] obtain inner where
        inner: "track_linker_scripts fs (linker_includes script) = Some inner"
        "set inner = tracked ` {q. \<exists>p\<in>set (linker_includes script). included fs p q}"
        by blast
      have "track_linker_scripts fs (p # ps) = Some (tracked p # inner @ ls)"
        by (rule track_script[OF False script inner(1) ls(1)])
      moreover have "included fs p q \<longleftrightarrow> q = p \<or> (\<exists>r\<in>set (linker_includes script). included fs r q)" for q
        using False script by (subst included_iff) auto
      ultimately show ?thesis using inner(2) ls(2) by auto
    qed
  qed
qed

text \<open>Tracking ends and is complete: when every included script exists and the includes are not cyclic,
  exactly the scripts the given one includes, directly or not, are tracked (the three shared layouts
  excepted).\<close>

theorem track_linker_script_complete:
  assumes "\<forall>p script q. fs p = Some script \<and> q \<in> set (linker_includes script) \<longrightarrow> present_file fs q \<and> rank q < (rank p :: nat)"
    and "present_file fs p"
  shows "\<exists>ls. track_linker_script fs p = Some ls \<and> set ls = tracked ` {q. included fs p q}"
  using track_scripts_complete[OF assms(1), of "[p]" "Suc (rank p)"] assms(2) by (simp add: track_linker_script_def)

text \<open>A script that includes itself is tracked for ever.\<close>

theorem track_cyclic_diverges:
  assumes "p \<notin> set shared_layouts" "fs p = Some script" "linker_includes script = [p]"
  shows "track_linker_script fs p = None"
proof -
  have "\<not> (g = fs \<and> ps = [p])" if "track_linker_scripts g ps = Some ls" for g ps ls
    by (rule track_linker_scripts.raw_induct[where P = "\<lambda>g ps _. \<not> (g = fs \<and> ps = [p])", OF _ that])
      (use assms in \<open>auto simp: bind_eq_Some_conv, blast\<close>)
  then show ?thesis by (metis not_Some_eq track_linker_script_def)
qed

end
